(* ===== verification/Prelude.thy ===== *)
theory Prelude
  imports "HOL-Library.Word"
begin

text \<open>
  What the components share: the machine integers of the C sources, the
  outcomes a C call can have besides returning, big-endian byte order between
  32-bit words and bytes, exclusive or of byte and word arrays, and the loop
  counters of the block loops.
\<close>

unbundle bit_operations_syntax

section \<open>Machine integers and outcomes\<close>

type_synonym u8 = "8 word"
type_synonym u32 = "32 word"

text \<open>
  \<open>Out_of_bounds\<close>: the call reads or writes outside a buffer it was given.
  \<open>No_return\<close>: the call loops for ever. \<open>Int_overflow\<close>: signed arithmetic overflows.
  \<open>Div_by_zero\<close>: an integer division or remainder by zero. \<open>Null_pointer\<close>: a null pointer is read.
  \<open>Uninitialised\<close>: memory is read that was not written.
\<close>

datatype c_fault = Out_of_bounds | No_return | Int_overflow | Div_by_zero | Null_pointer | Uninitialised

definition bind_fault :: "c_fault + 'a \<Rightarrow> ('a \<Rightarrow> c_fault + 'b) \<Rightarrow> c_fault + 'b" where
  "bind_fault r f = (case r of Inl e \<Rightarrow> Inl e | Inr x \<Rightarrow> f x)"

lemma bind_fault_Inr: "bind_fault (Inr x) f = f x"
  by (simp add: bind_fault_def)

text \<open>\<open>strlen\<close> of the bytes at an address.\<close>

definition c_strlen :: "u8 list \<Rightarrow> nat" where
  "c_strlen str = length (takeWhile (\<lambda>c. c \<noteq> 0) str)"

lemma c_strlen_append: "0 \<notin> set s \<Longrightarrow> c_strlen (s @ 0 # t) = length s"
  by (induction s) (auto simp: c_strlen_def)

named_theorems byte_simps \<open>bytes of words and words of bytes\<close>
named_theorems len_simps \<open>lengths of the arrays the operations return\<close>

section \<open>Exclusive or\<close>

lemma xor_cancel_right [simp]: "(a XOR b) XOR b = (a :: 'a::len word)"
  by (simp add: xor.assoc)

lemma xor_cancel_left [simp]: "b XOR (b XOR a) = (a :: 'a::len word)"
  by (simp flip: xor.assoc)

lemma xor_cancel_mid [simp]: "(b XOR a) XOR b = (a :: 'a::len word)"
  by (metis xor.commute xor_cancel_left)

lemma xor_eq_zero_iff_word: "a XOR b = 0 \<longleftrightarrow> a = (b :: 'a::len word)"
  by (metis xor_cancel_right xor_self_eq xor.left_neutral)

lemmas xor_ac = xor.assoc xor.commute xor.left_commute

definition xorl :: "'a::len word list \<Rightarrow> 'a word list \<Rightarrow> 'a word list" where
  "xorl xs ys = map2 (XOR) xs ys"

lemma xorl_simps [simp]:
  "xorl [] ys = []"
  "xorl xs [] = []"
  "xorl (x # xs) (y # ys) = (x XOR y) # xorl xs ys"
  by (simp_all add: xorl_def)

lemma length_xorl [simp, len_simps]: "length (xorl xs ys) = min (length xs) (length ys)"
  by (simp add: xorl_def)

lemma nth_xorl [simp]:
  "i < length xs \<Longrightarrow> i < length ys \<Longrightarrow> xorl xs ys ! i = xs ! i XOR ys ! i"
  by (simp add: xorl_def)

lemma xorl_cancel:
  "length xs \<le> length ys \<Longrightarrow> xorl (xorl xs ys) ys = xs"
  by (rule nth_equalityI) auto

lemma xorl_commute: "xorl xs ys = xorl ys xs"
  by (rule nth_equalityI) (auto simp: xor.commute)

lemma xorl_assoc: "xorl (xorl xs ys) zs = xorl xs (xorl ys zs)"
  by (rule nth_equalityI) (auto simp: xor.assoc)

lemma take_xorl: "take n (xorl xs ys) = xorl (take n xs) (take n ys)"
  by (simp add: xorl_def take_map take_zip)

lemma drop_xorl: "drop n (xorl xs ys) = xorl (drop n xs) (drop n ys)"
  by (simp add: xorl_def drop_map drop_zip)

lemma xorl_zero:
  "length xs = n \<Longrightarrow> xorl xs (replicate n 0) = xs"
  by (rule nth_equalityI) auto

lemma xorl_append:
  "length xs = length xs' \<Longrightarrow> xorl (xs @ ys) (xs' @ ys') = xorl xs xs' @ xorl ys ys'"
  by (simp add: xorl_def)

section \<open>Bytes of a 32-bit word, big-endian\<close>

definition be32 :: "u8 \<Rightarrow> u8 \<Rightarrow> u8 \<Rightarrow> u8 \<Rightarrow> u32" where
  "be32 a b c d = push_bit 24 (ucast a) OR push_bit 16 (ucast b) OR push_bit 8 (ucast c) OR ucast d"

definition byte_of :: "nat \<Rightarrow> u32 \<Rightarrow> u8" where
  "byte_of k w = ucast (drop_bit (8 * k) w)"

lemma bit_byte_of: "bit (byte_of k w) n \<longleftrightarrow> n < 8 \<and> bit w (8 * k + n)"
  by (auto simp: byte_of_def bit_simps)

lemma bit_be32:
  "bit (be32 a b c d) n \<longleftrightarrow>
    (if n < 8 then bit d n else if n < 16 then bit c (n - 8)
     else if n < 24 then bit b (n - 16) else n < 32 \<and> bit a (n - 24))"
  by (auto simp: be32_def bit_simps dest: bit_imp_le_length)

lemma byte_of_be32 [simp, byte_simps]:
  "byte_of 3 (be32 a b c d) = a"
  "byte_of 2 (be32 a b c d) = b"
  "byte_of (Suc 0) (be32 a b c d) = c"
  "byte_of 0 (be32 a b c d) = d"
  by (rule bit_word_eqI; simp add: bit_byte_of bit_be32)+

lemma be32_byte_of [simp, byte_simps]:
  "be32 (byte_of 3 w) (byte_of 2 w) (byte_of (Suc 0) w) (byte_of 0 w) = w"
  by (rule bit_word_eqI) (auto simp add: bit_byte_of bit_be32)

lemma byte_of_xor [byte_simps]: "byte_of k (v XOR w) = byte_of k v XOR byte_of k w"
  by (rule bit_word_eqI) (auto simp: bit_byte_of bit_simps)

lemma byte_of_zero [simp]: "byte_of k 0 = 0"
  by (rule bit_word_eqI) (auto simp: bit_byte_of)

lemma be32_xor: "be32 a b c d XOR be32 a' b' c' d' = be32 (a XOR a') (b XOR b') (c XOR c') (d XOR d')"
  by (rule bit_word_eqI) (auto simp: bit_be32 bit_simps)

lemma word_eq_bytes:
  "v = w \<longleftrightarrow> byte_of 0 v = byte_of 0 w \<and> byte_of (Suc 0) v = byte_of (Suc 0) w \<and>
            byte_of 2 v = byte_of 2 w \<and> byte_of 3 v = byte_of 3 w"
  by (metis be32_byte_of)

lemma unat_u8_less [simp]: "unat (x :: u8) < 256"
proof -
  have "unat x < 2 ^ LENGTH(8)"
    by (rule unsigned_less)
  then show ?thesis
    by simp
qed

lemma ucast_and_FF: "(ucast (x :: u8) AND 0xFF :: u32) = ucast x"
proof -
  have m: "(0xFF :: u32) = mask 8"
    by (simp add: mask_eq_exp_minus_1)
  show ?thesis
    unfolding m by (rule bit_word_eqI) (auto simp: bit_simps dest: bit_imp_le_length)
qed

text \<open>The high bits of a small number.\<close>

lemma bit_high_nat: "j < 2 ^ k \<Longrightarrow> k \<le> d \<Longrightarrow> \<not> bit (j :: nat) d"
proof -
  assume "j < 2 ^ k" and "k \<le> d"
  then have "j < 2 ^ d"
    by (meson less_le_trans one_le_numeral power_increasing)
  then show "\<not> bit j d"
    by (simp add: bit_iff_odd)
qed

text \<open>A four-word array, taken apart.\<close>

lemma list4:
  assumes "length b = 4"
  obtains b0 b1 b2 b3 where "b = [b0, b1, b2, b3]"
  using assms by (auto simp: length_Suc_conv eval_nat_numeral)

lemma list16:
  assumes "length b = 16"
  obtains b0 b1 b2 b3 b4 b5 b6 b7 b8 b9 b10 b11 b12 b13 b14 b15
  where "b = [b0, b1, b2, b3, b4, b5, b6, b7, b8, b9, b10, b11, b12, b13, b14, b15]"
  using assms by (auto simp: length_Suc_conv eval_nat_numeral)

section \<open>Literal index ranges\<close>

lemma upt_4: "[0..<4] = [0, 1, 2, 3]"
  by (simp add: upt_rec)

lemma upt_8: "[0..<8] = [0, 1, 2, 3, 4, 5, 6, 7]"
  by (simp add: upt_rec)

lemma upt_16: "[0..<16] = [0, 1, 2, 3, 4, 5, 6, 7, 8, 9, 10, 11, 12, 13, 14, 15]"
  by (simp add: upt_rec)

lemmas Suc_Suc_0 = numeral_2_eq_2 [symmetric]

end
