(* ===== verification/Cipher_Spec.thy ===== *)
theory Cipher_Spec
  imports Prelude
begin

text \<open>
  The contracts the cipher files rely on. A Feistel network is undone by running
  it with the round keys reversed, whatever the round function is; a block cipher
  is a pair of mutually inverse maps on the blocks of one size; the modes of
  operation (ECB, CBC, CFB-style counter streams) need no more of the cipher than
  that contract. The laws are stated as locales and interpreted on the models
  of the sources in the theories that hold those.
\<close>

section \<open>Feistel networks\<close>

fun feistel :: "('k \<Rightarrow> 'h \<Rightarrow> 'h) \<Rightarrow> ('h \<Rightarrow> 'h \<Rightarrow> 'h) \<Rightarrow> 'k list \<Rightarrow> 'h \<times> 'h \<Rightarrow> 'h \<times> 'h" where
  "feistel F add [] s = s"
| "feistel F add (k # ks) (l, r) = feistel F add ks (r, add l (F k r))"

lemma feistel_append: "feistel F add (ks @ ks') s = feistel F add ks' (feistel F add ks s)"
  by (induction F add ks s rule: feistel.induct) auto

locale feistel_net =
  fixes F :: "'k \<Rightarrow> 'h \<Rightarrow> 'h" and add :: "'h \<Rightarrow> 'h \<Rightarrow> 'h"
  assumes add_cancel: "add (add x y) y = x"
begin

lemma step_back: "feistel F add [k] (prod.swap (feistel F add [k] s)) = prod.swap s"
  by (cases s) (simp add: add_cancel)

lemma reversed_keys: "feistel F add (rev ks) (prod.swap (feistel F add ks s)) = prod.swap s"
proof (induction ks arbitrary: s)
  case (Cons k ks)
  have "feistel F add (rev (k # ks)) (prod.swap (feistel F add (k # ks) s))
      = feistel F add [k] (feistel F add (rev ks) (prod.swap (feistel F add ks (feistel F add [k] s))))"
    by (cases s) (simp add: feistel_append)
  also have "\<dots> = prod.swap s"
    by (simp only: Cons.IH step_back)
  finally show ?case .
qed simp

end

section \<open>Block ciphers\<close>

locale block_cipher =
  fixes E D :: "'b \<Rightarrow> 'b" and blk :: "'b \<Rightarrow> bool"
  assumes D_E: "blk b \<Longrightarrow> D (E b) = b"
    and E_D: "blk b \<Longrightarrow> E (D b) = b"
    and blk_E: "blk b \<Longrightarrow> blk (E b)"
    and blk_D: "blk b \<Longrightarrow> blk (D b)"
begin

lemma E_inject: "blk b \<Longrightarrow> blk b' \<Longrightarrow> E b = E b' \<longleftrightarrow> b = b'"
  by (metis D_E)

lemma E_permutes: "bij_betw E {b. blk b} {b. blk b}"
  by (rule bij_betw_byWitness [where f' = D]) (auto simp: D_E E_D blk_E blk_D)

lemma ecb_back: "\<forall>b \<in> set bs. blk b \<Longrightarrow> map D (map E bs) = bs"
  by (simp add: D_E map_idI)

end

section \<open>Cipher block chaining\<close>

fun cbc_enc :: "('b \<Rightarrow> 'b) \<Rightarrow> ('b \<Rightarrow> 'b \<Rightarrow> 'b) \<Rightarrow> 'b \<Rightarrow> 'b list \<Rightarrow> 'b list" where
  "cbc_enc E add iv [] = []"
| "cbc_enc E add iv (b # bs) = (let c = E (add b iv) in c # cbc_enc E add c bs)"

fun cbc_dec :: "('b \<Rightarrow> 'b) \<Rightarrow> ('b \<Rightarrow> 'b \<Rightarrow> 'b) \<Rightarrow> 'b \<Rightarrow> 'b list \<Rightarrow> 'b list" where
  "cbc_dec D add iv [] = []"
| "cbc_dec D add iv (c # cs) = add (D c) iv # cbc_dec D add c cs"

lemma length_cbc [simp, len_simps]:
  "length (cbc_enc E add iv bs) = length bs"
  "length (cbc_dec E add iv bs) = length bs"
  by (induction bs arbitrary: iv) (simp_all add: Let_def)

text \<open>The last block of a CBC stream, which the next call starts from.\<close>

definition cbc_last :: "'b \<Rightarrow> 'b list \<Rightarrow> 'b" where
  "cbc_last iv cs = (if cs = [] then iv else last cs)"

lemma cbc_last_simps [simp]: "cbc_last iv [] = iv" "cbc_last iv (c # cs) = cbc_last c cs"
  by (simp_all add: cbc_last_def)

lemma cbc_enc_append:
  "cbc_enc E add iv (bs @ bs') =
    cbc_enc E add iv bs @ cbc_enc E add (cbc_last iv (cbc_enc E add iv bs)) bs'"
  by (induction bs arbitrary: iv) (simp_all add: Let_def)

lemma cbc_dec_append:
  "cbc_dec D add iv (cs @ cs') = cbc_dec D add iv cs @ cbc_dec D add (cbc_last iv cs) cs'"
  by (induction cs arbitrary: iv) simp_all

locale chained_cipher = block_cipher E D blk
  for E D :: "'b \<Rightarrow> 'b" and blk :: "'b \<Rightarrow> bool" +
  fixes add :: "'b \<Rightarrow> 'b \<Rightarrow> 'b"
  assumes blk_add: "blk a \<Longrightarrow> blk b \<Longrightarrow> blk (add a b)"
    and add_add: "blk a \<Longrightarrow> blk b \<Longrightarrow> add (add a b) b = a"
begin

lemma cbc_back:
  "blk iv \<Longrightarrow> \<forall>b \<in> set bs. blk b \<Longrightarrow> cbc_dec D add iv (cbc_enc E add iv bs) = bs"
  by (induction bs arbitrary: iv) (simp_all add: Let_def D_E blk_E blk_add add_add)

lemma cbc_blocks:
  "blk iv \<Longrightarrow> \<forall>b \<in> set bs. blk b \<Longrightarrow> c \<in> set (cbc_enc E add iv bs) \<Longrightarrow> blk c"
proof (induction bs arbitrary: iv)
  case (Cons b bs)
  then show ?case
    using Cons.IH [of "E (add b iv)"] by (auto simp: Let_def blk_E blk_add)
qed simp

end

section \<open>Counter streams\<close>

text \<open>
  The key stream of a counter mode that steps the counter before each block, and
  the number of 16-byte blocks a message of \<open>n\<close> bytes touches.
\<close>

fun keystream :: "('c \<Rightarrow> u8 list) \<Rightarrow> ('c \<Rightarrow> 'c) \<Rightarrow> 'c \<Rightarrow> nat \<Rightarrow> u8 list" where
  "keystream ks inc c 0 = []"
| "keystream ks inc c (Suc n) = ks (inc c) @ keystream ks inc (inc c) n"

definition nblocks :: "nat \<Rightarrow> nat" where
  "nblocks n = (n + 15) div 16"

lemma nblocks_simps [simp]:
  "nblocks 0 = 0"
  "0 < n \<Longrightarrow> n \<le> 16 \<Longrightarrow> nblocks n = 1"
  by (auto simp: nblocks_def)

lemma nblocks_step: "16 \<le> n \<Longrightarrow> nblocks n = Suc (nblocks (n - 16))"
  by (simp add: nblocks_def le_div_geq)

lemma nblocks_cover: "n \<le> 16 * nblocks n"
  unfolding nblocks_def by presburger

lemma nblocks_le: "nblocks n \<le> n"
  by (cases "n = 0") (auto simp: nblocks_def)

lemma length_keystream [len_simps]: "(\<And>c. length (ks c) = 16) \<Longrightarrow> length (keystream ks inc c n) = 16 * n"
  by (induction n arbitrary: c) simp_all

lemma keystream_nth_block:
  assumes "\<And>c. length (ks c) = 16" and "j < n"
  shows "take 16 (drop (16 * j) (keystream ks inc c n)) = ks ((inc ^^ Suc j) c)"
  using assms(2)
proof (induction n arbitrary: j c)
  case (Suc n)
  then show ?case
    using assms(1)
    by (cases j) (simp_all add: funpow_swap1)
qed simp

lemma keystream_concat:
  "keystream ks inc c n = concat (map (\<lambda>j. ks ((inc ^^ Suc j) c)) [0..<n])"
proof (induction n arbitrary: c)
  case (Suc n)
  have "[0..<Suc n] = 0 # map Suc [0..<n]"
    by (simp add: map_Suc_upt upt_conv_Cons)
  then show ?case
    by (simp add: Suc.IH funpow_swap1 comp_def)
qed simp

text \<open>
  A routine that takes the message 16 bytes at a time and adds a stream block to
  each chunk adds the whole stream.
\<close>

lemma chunked_stream:
  fixes f :: "'c \<Rightarrow> u8 list \<Rightarrow> u8 list"
  assumes nil: "\<And>c. f c [] = []"
    and chunk: "\<And>c bs. bs \<noteq> [] \<Longrightarrow>
      f c bs = xorl (take 16 bs) (ks (inc c)) @ f (inc c) (drop 16 bs)"
    and len: "\<And>c. length (ks c) = 16"
  shows "f c bs = xorl bs (keystream ks inc c (nblocks (length bs)))"
proof (induction "length bs" arbitrary: c bs rule: less_induct)
  case less
  show ?case
  proof (cases "length bs < 16")
    case True
    show ?thesis
    proof (cases "bs = []")
      case False
      with True show ?thesis
        by (subst chunk) (simp_all add: nil Suc_leI)
    qed (simp add: nil)
  next
    case False
    then have ne: "bs \<noteq> []"
      by auto
    have "f c bs = xorl (take 16 bs) (ks (inc c)) @
        xorl (drop 16 bs) (keystream ks inc (inc c) (nblocks (length bs - 16)))"
      using less [of "drop 16 bs" "inc c"] False chunk [OF ne, of c] by simp
    also have "\<dots> = xorl (take 16 bs @ drop 16 bs)
        (ks (inc c) @ keystream ks inc (inc c) (nblocks (length bs - 16)))"
      by (rule xorl_append [symmetric]) (use False len in auto)
    finally show ?thesis
      using False by (simp add: nblocks_step)
  qed
qed

lemma keystream_twice:
  assumes "\<And>c. length (ks c) = 16"
  shows "xorl (xorl bs (keystream ks inc c (nblocks (length bs)))) (keystream ks inc c (nblocks (length bs))) = bs"
  by (rule xorl_cancel) (use nblocks_cover [of "length bs"] assms in \<open>simp add: length_keystream\<close>)

section \<open>Cutting a message into blocks\<close>

function chunks :: "nat \<Rightarrow> 'a list \<Rightarrow> 'a list list" where
  "chunks n xs = (if xs = [] \<or> n = 0 then [] else take n xs # chunks n (drop n xs))"
  by pat_completeness auto
termination
  by (relation "measure (\<lambda>(n, xs). length xs)") auto

declare chunks.simps [simp del]

lemma chunks_Nil [simp]: "chunks n [] = []"
  by (simp add: chunks.simps)

lemma chunks_step: "0 < n \<Longrightarrow> xs \<noteq> [] \<Longrightarrow> chunks n xs = take n xs # chunks n (drop n xs)"
  by (subst chunks.simps) simp

lemma chunks_take_Suc:
  "0 < k \<Longrightarrow> k \<le> length xs \<Longrightarrow>
    chunks k (take (k + k * n) xs) = take k xs # chunks k (take (k * n) (drop k xs))"
  by (subst chunks_step) (auto simp: drop_take)

lemma concat_chunks: "0 < n \<Longrightarrow> concat (chunks n xs) = xs"
proof (induction "length xs" arbitrary: xs rule: less_induct)
  case less
  then show ?case
    by (cases "xs = []") (simp_all add: chunks_step)
qed

lemma chunks_append:
  "0 < n \<Longrightarrow> n dvd length xs \<Longrightarrow> chunks n (xs @ ys) = chunks n xs @ chunks n ys"
proof (induction "length xs" arbitrary: xs rule: less_induct)
  case less
  show ?case
  proof (cases "xs = []")
    case False
    then have le: "n \<le> length xs"
      using less.prems by (simp add: dvd_imp_le)
    then have "chunks n (drop n xs @ ys) = chunks n (drop n xs) @ chunks n ys"
      using less.prems False by (intro less.hyps) (auto simp: dvd_minus_self)
    then show ?thesis
      using False le less.prems by (simp add: chunks_step)
  qed simp
qed

lemma chunk_lengths:
  "0 < n \<Longrightarrow> n dvd length xs \<Longrightarrow> c \<in> set (chunks n xs) \<Longrightarrow> length c = n"
proof (induction "length xs" arbitrary: xs rule: less_induct)
  case less
  have ne: "xs \<noteq> []"
    using less.prems by auto
  then have le: "n \<le> length xs"
    using less.prems by (simp add: dvd_imp_le)
  then show ?case
    using less.prems ne less.hyps [of "drop n xs"] by (auto simp: chunks_step dvd_minus_self)
qed

lemma chunks_concat:
  "0 < n \<Longrightarrow> (\<And>c. c \<in> set cs \<Longrightarrow> length c = n) \<Longrightarrow> chunks n (concat cs) = cs"
proof (induction cs)
  case (Cons c cs)
  then show ?case
    by (subst chunks_step) auto
qed simp

lemma length_chunks: "0 < n \<Longrightarrow> n dvd length xs \<Longrightarrow> length (chunks n xs) = length xs div n"
proof (induction "length xs" arbitrary: xs rule: less_induct)
  case less
  show ?case
  proof (cases "xs = []")
    case False
    then have le: "n \<le> length xs"
      using less.prems by (simp add: dvd_imp_le)
    then show ?thesis
      using less.prems False less.hyps [of "drop n xs"]
      by (simp add: chunks_step dvd_minus_self le_div_geq)
  qed simp
qed

end
