(* ===== verification/Seed.thy ===== *)
theory Seed
  imports SeedTables Cipher_Spec
begin

text \<open>
  The SEED block cipher of \<open>KISA_SEED.c\<close> (the CCM and the GCM directory hold the same
  file): the byte selectors, the key schedule, the round and the two block
  operations. A block is an array of four words, a round key array has 32 words.
  The cipher is shown to be a Feistel network over the round function of the
  standard, whose S-box form is also given, and decryption to undo encryption.
\<close>

section \<open>Byte selection and table lookup\<close>

definition GetB0 :: "u32 \<Rightarrow> u8" where "GetB0 A = ucast A"
definition GetB1 :: "u32 \<Rightarrow> u8" where "GetB1 A = ucast (drop_bit 8 A)"
definition GetB2 :: "u32 \<Rightarrow> u8" where "GetB2 A = ucast (drop_bit 16 A)"
definition GetB3 :: "u32 \<Rightarrow> u8" where "GetB3 A = ucast (drop_bit 24 A)"

lemma GetB_byte_of [byte_simps]:
  "GetB0 w = byte_of 0 w" "GetB1 w = byte_of (Suc 0) w" "GetB2 w = byte_of 2 w" "GetB3 w = byte_of 3 w"
  by (simp_all add: GetB0_def GetB1_def GetB2_def GetB3_def byte_of_def)

definition Byte2Word_at :: "u8 list \<Rightarrow> nat \<Rightarrow> u32" where
  "Byte2Word_at src src_offset =
    push_bit 24 (ucast (src ! src_offset) AND 0x0FF) OR
    push_bit 16 (ucast (src ! (src_offset + 1)) AND 0x0FF) OR
    push_bit 8 (ucast (src ! (src_offset + 2)) AND 0x0FF) OR
    (ucast (src ! (src_offset + 3)) AND 0x0FF)"

text \<open>The sum of four lookups that every round and every round key ends in.\<close>

definition SS_lookup :: "u32 \<Rightarrow> u32" where
  "SS_lookup T = SS0 ! unat (GetB0 T) XOR SS1 ! unat (GetB1 T) XOR
                 SS2 ! unat (GetB2 T) XOR SS3 ! unat (GetB3 T)"

section \<open>Key schedule\<close>

definition KC0 :: u32 where "KC0 = 0x9e3779b9"
definition KC1 :: u32 where "KC1 = 0x3c6ef373"
definition KC2 :: u32 where "KC2 = 0x78dde6e6"
definition KC3 :: u32 where "KC3 = 0xf1bbcdcc"
definition KC4 :: u32 where "KC4 = 0xe3779b99"
definition KC5 :: u32 where "KC5 = 0xc6ef3733"
definition KC6 :: u32 where "KC6 = 0x8dde6e67"
definition KC7 :: u32 where "KC7 = 0x1bbcdccf"
definition KC8 :: u32 where "KC8 = 0x3779b99e"
definition KC9 :: u32 where "KC9 = 0x6ef3733c"
definition KC10 :: u32 where "KC10 = 0xdde6e678"
definition KC11 :: u32 where "KC11 = 0xbbcdccf1"
definition KC12 :: u32 where "KC12 = 0x779b99e3"
definition KC13 :: u32 where "KC13 = 0xef3733c6"
definition KC14 :: u32 where "KC14 = 0xde6e678d"
definition KC15 :: u32 where "KC15 = 0xbcdccf1b"

type_synonym ks_regs = "u32 \<times> u32 \<times> u32 \<times> u32"

definition RoundKeyUpdate0 :: "ks_regs \<Rightarrow> u32 \<Rightarrow> u32 list \<times> ks_regs" where
  "RoundKeyUpdate0 = (\<lambda>(A, B, C, D) KC.
    let T0 = A + C - KC;
        T1 = B + KC - D;
        K = [SS_lookup T0, SS_lookup T1];
        T0 = A;
        A = drop_bit 8 A XOR push_bit 24 B;
        B = drop_bit 8 B XOR push_bit 24 T0
    in (K, (A, B, C, D)))"

definition RoundKeyUpdate1 :: "ks_regs \<Rightarrow> u32 \<Rightarrow> u32 list \<times> ks_regs" where
  "RoundKeyUpdate1 = (\<lambda>(A, B, C, D) KC.
    let T0 = A + C - KC;
        T1 = B + KC - D;
        K = [SS_lookup T0, SS_lookup T1];
        T0 = C;
        C = push_bit 8 C XOR drop_bit 24 D;
        D = push_bit 8 D XOR drop_bit 24 T0
    in (K, (A, B, C, D)))"

text \<open>The sixteen steps from the four key words to the array of round keys.\<close>

definition key_chain :: "ks_regs \<Rightarrow> u32 list" where
  "key_chain s =
    (let
     (k0, s) = RoundKeyUpdate0 s KC0;
     (k1, s) = RoundKeyUpdate1 s KC1;
     (k2, s) = RoundKeyUpdate0 s KC2;
     (k3, s) = RoundKeyUpdate1 s KC3;
     (k4, s) = RoundKeyUpdate0 s KC4;
     (k5, s) = RoundKeyUpdate1 s KC5;
     (k6, s) = RoundKeyUpdate0 s KC6;
     (k7, s) = RoundKeyUpdate1 s KC7;
     (k8, s) = RoundKeyUpdate0 s KC8;
     (k9, s) = RoundKeyUpdate1 s KC9;
     (k10, s) = RoundKeyUpdate0 s KC10;
     (k11, s) = RoundKeyUpdate1 s KC11;
     (k12, s) = RoundKeyUpdate0 s KC12;
     (k13, s) = RoundKeyUpdate1 s KC13;
     (k14, s) = RoundKeyUpdate0 s KC14;
     (A, B, C, D) = s;
     T0 = A + C - KC15;
     T1 = B - D + KC15
     in concat [k0, k1, k2, k3, k4, k5, k6, k7, k8, k9, k10, k11, k12, k13, k14,
                [SS_lookup T0, SS_lookup T1]])"

definition SEED_KeySched :: "u8 list \<Rightarrow> u32 list" where
  "SEED_KeySched mKey =
    key_chain (Byte2Word_at mKey 0, Byte2Word_at mKey 4, Byte2Word_at mKey 8, Byte2Word_at mKey 12)"

section \<open>Rounds and block operations\<close>

text \<open>The two words a \<open>SeedRound\<close> adds to its left half.\<close>

definition SeedRound_F :: "u32 \<times> u32 \<Rightarrow> u32 \<times> u32 \<Rightarrow> u32 \<times> u32" where
  "SeedRound_F = (\<lambda>(K0, K1) (R0, R1).
    let T0 = R0 XOR K0;
        T1 = R1 XOR K1;
        T1 = T1 XOR T0;
        T1 = SS_lookup T1;
        T0 = T0 + T1;
        T0 = SS_lookup T0;
        T1 = T1 + T0;
        T1 = SS_lookup T1;
        T0 = T0 + T1
    in (T0, T1))"

definition SeedRound :: "u32 \<times> u32 \<Rightarrow> u32 \<times> u32 \<Rightarrow> u32 list \<Rightarrow> nat \<Rightarrow> u32 \<times> u32" where
  "SeedRound L R rKey k =
    (let (L0, L1) = L; (T0, T1) = SeedRound_F (rKey ! k, rKey ! (k + 1)) R
     in (L0 XOR T0, L1 XOR T1))"

text \<open>\<open>SeedRound(L0, L1, R0, R1, rKey + k)\<close> and \<open>SeedRound(R0, R1, L0, L1, rKey + k)\<close> on all four registers.\<close>

type_synonym seed_regs = "(u32 \<times> u32) \<times> (u32 \<times> u32)"

definition round_L :: "u32 list \<Rightarrow> nat \<Rightarrow> seed_regs \<Rightarrow> seed_regs" where
  "round_L rKey k = (\<lambda>(L, R). (SeedRound L R rKey k, R))"

definition round_R :: "u32 list \<Rightarrow> nat \<Rightarrow> seed_regs \<Rightarrow> seed_regs" where
  "round_R rKey k = (\<lambda>(L, R). (L, SeedRound R L rKey k))"

definition SEED_Encrypt :: "u32 list \<Rightarrow> u32 list \<Rightarrow> u32 list" where
  "SEED_Encrypt pIn rKey =
    (let s = ((pIn ! 0, pIn ! 1), (pIn ! 2, pIn ! 3));
     s = round_L rKey 0 s;
     s = round_R rKey 2 s;
     s = round_L rKey 4 s;
     s = round_R rKey 6 s;
     s = round_L rKey 8 s;
     s = round_R rKey 10 s;
     s = round_L rKey 12 s;
     s = round_R rKey 14 s;
     s = round_L rKey 16 s;
     s = round_R rKey 18 s;
     s = round_L rKey 20 s;
     s = round_R rKey 22 s;
     s = round_L rKey 24 s;
     s = round_R rKey 26 s;
     s = round_L rKey 28 s;
     s = round_R rKey 30 s;
     ((L0, L1), (R0, R1)) = s
     in [R0, R1, L0, L1])"

definition SEED_Decrypt :: "u32 list \<Rightarrow> u32 list \<Rightarrow> u32 list" where
  "SEED_Decrypt pIn rKey =
    (let s = ((pIn ! 0, pIn ! 1), (pIn ! 2, pIn ! 3));
     s = round_L rKey 30 s;
     s = round_R rKey 28 s;
     s = round_L rKey 26 s;
     s = round_R rKey 24 s;
     s = round_L rKey 22 s;
     s = round_R rKey 20 s;
     s = round_L rKey 18 s;
     s = round_R rKey 16 s;
     s = round_L rKey 14 s;
     s = round_R rKey 12 s;
     s = round_L rKey 10 s;
     s = round_R rKey 8 s;
     s = round_L rKey 6 s;
     s = round_R rKey 4 s;
     s = round_L rKey 2 s;
     s = round_R rKey 0 s;
     ((L0, L1), (R0, R1)) = s
     in [R0, R1, L0, L1])"

section \<open>The cipher is a Feistel network\<close>

definition xor2 :: "u32 \<times> u32 \<Rightarrow> u32 \<times> u32 \<Rightarrow> u32 \<times> u32" where
  "xor2 = (\<lambda>(a, b) (c, d). (a XOR c, b XOR d))"

interpretation seed_net: feistel_net SeedRound_F xor2
  by unfold_locales (auto simp: xor2_def)

definition key_pairs :: "u32 list \<Rightarrow> (u32 \<times> u32) list" where
  "key_pairs rKey = map (\<lambda>i. (rKey ! (2 * i), rKey ! (2 * i + 1))) [0..<16]"

definition halves :: "u32 list \<Rightarrow> seed_regs" where
  "halves b = ((b ! 0, b ! 1), (b ! 2, b ! 3))"

definition words_of :: "seed_regs \<Rightarrow> u32 list" where
  "words_of = (\<lambda>((a, b), (c, d)). [a, b, c, d])"

lemma halves_words_of [simp]: "halves (words_of s) = s"
  by (auto simp: halves_def words_of_def split: prod.splits)

lemma words_of_halves [simp]: "length b = 4 \<Longrightarrow> words_of (halves b) = b"
  by (auto simp: halves_def words_of_def length_Suc_conv eval_nat_numeral)

lemma length_words_of [simp, len_simps]: "length (words_of s) = 4"
  by (auto simp: words_of_def split: prod.splits)

lemma round_pair:
  "round_R rKey k' (round_L rKey k s) =
    feistel SeedRound_F xor2 [(rKey ! k, rKey ! (k + 1)), (rKey ! k', rKey ! (k' + 1))] s"
  by (auto simp: round_L_def round_R_def SeedRound_def xor2_def split: prod.splits)

lemma feistel_join:
  "feistel F add ks' (feistel F add ks s) = feistel F add (ks @ ks') s"
  by (simp add: feistel_append)

lemma key_pairs_list:
  "key_pairs rKey = [(rKey ! 0, rKey ! 1), (rKey ! 2, rKey ! 3), (rKey ! 4, rKey ! 5),
    (rKey ! 6, rKey ! 7), (rKey ! 8, rKey ! 9), (rKey ! 10, rKey ! 11), (rKey ! 12, rKey ! 13),
    (rKey ! 14, rKey ! 15), (rKey ! 16, rKey ! 17), (rKey ! 18, rKey ! 19), (rKey ! 20, rKey ! 21),
    (rKey ! 22, rKey ! 23), (rKey ! 24, rKey ! 25), (rKey ! 26, rKey ! 27), (rKey ! 28, rKey ! 29),
    (rKey ! 30, rKey ! 31)]"
  by (simp add: key_pairs_def upt_rec)

lemma out_swap:
  "(case s of (L, R) \<Rightarrow> (case L of (L0, L1) \<Rightarrow> \<lambda>(R0, R1). [R0, R1, L0, L1]) R) = words_of (prod.swap s)"
  by (auto simp: words_of_def split: prod.splits)

lemma SEED_Encrypt_feistel:
  "SEED_Encrypt b rKey =
    words_of (prod.swap (feistel SeedRound_F xor2 (key_pairs rKey) (halves b)))"
  by (simp add: SEED_Encrypt_def Let_def round_pair feistel_join key_pairs_list out_swap
      halves_def del: feistel.simps)

lemma SEED_Decrypt_feistel:
  "SEED_Decrypt b rKey =
    words_of (prod.swap (feistel SeedRound_F xor2 (rev (key_pairs rKey)) (halves b)))"
  by (simp add: SEED_Decrypt_def Let_def round_pair feistel_join key_pairs_list out_swap
      halves_def del: feistel.simps)

lemma length_SEED [simp, len_simps]:
  "length (SEED_Encrypt b rKey) = 4" "length (SEED_Decrypt b rKey) = 4"
  by (simp_all add: SEED_Encrypt_feistel SEED_Decrypt_feistel)

lemma SEED_D_E: "length b = 4 \<Longrightarrow> SEED_Decrypt (SEED_Encrypt b rKey) rKey = b"
  by (simp add: SEED_Encrypt_feistel SEED_Decrypt_feistel seed_net.reversed_keys)

lemma SEED_E_D: "length b = 4 \<Longrightarrow> SEED_Encrypt (SEED_Decrypt b rKey) rKey = b"
  using seed_net.reversed_keys [of "rev (key_pairs rKey)"]
  by (simp add: SEED_Encrypt_feistel SEED_Decrypt_feistel)

interpretation seed: block_cipher
  "\<lambda>b. SEED_Encrypt b rKey" "\<lambda>b. SEED_Decrypt b rKey" "\<lambda>b. length b = 4" for rKey
  by unfold_locales (simp_all add: SEED_D_E SEED_E_D)

section \<open>The round function over S-boxes\<close>

text \<open>
  The function \<open>G\<close> of the standard: two S-boxes on the bytes of the word, and a
  mixing layer of the masks \<open>m0\<close> to \<open>m3\<close>.
\<close>

definition seed_G :: "u32 \<Rightarrow> u32" where
  "seed_G X =
    (let y0 = sbox1 ! unat (byte_of 0 X); y1 = sbox2 ! unat (byte_of 1 X);
         y2 = sbox1 ! unat (byte_of 2 X); y3 = sbox2 ! unat (byte_of 3 X);
         m0 = 0xfc; m1 = 0xf3; m2 = 0xcf; m3 = 0x3f;
         z0 = (y0 AND m0) XOR (y1 AND m1) XOR (y2 AND m2) XOR (y3 AND m3);
         z1 = (y0 AND m1) XOR (y1 AND m2) XOR (y2 AND m3) XOR (y3 AND m0);
         z2 = (y0 AND m2) XOR (y1 AND m3) XOR (y2 AND m0) XOR (y3 AND m1);
         z3 = (y0 AND m3) XOR (y1 AND m0) XOR (y2 AND m1) XOR (y3 AND m2)
     in be32 z3 z2 z1 z0)"

lemma SS_lookup_G: "SS_lookup T = seed_G T"
  by (simp add: SS_lookup_def seed_G_def Let_def SS0_spread SS1_spread SS2_spread SS3_spread
      GetB_byte_of spread_def be32_xor)

section \<open>The key schedule as rotations of the key halves\<close>

text \<open>
  The standard rotates the 64-bit halves \<open>A||B\<close> and \<open>C||D\<close> of the key in turn and adds
  the golden-ratio constant, itself rotated once per round.
\<close>

definition KC_spec :: "nat \<Rightarrow> u32" where
  "KC_spec i = word_rotl i 0x9e3779b9"

fun ks_halves :: "nat \<Rightarrow> 64 word \<times> 64 word \<Rightarrow> 64 word \<times> 64 word" where
  "ks_halves 0 (ab, cd) = (ab, cd)"
| "ks_halves (Suc i) (ab, cd) =
    (let (ab', cd') = ks_halves i (ab, cd)
     in if even i then (word_rotr 8 ab', cd') else (ab', word_rotl 8 cd'))"

definition round_key_spec :: "64 word \<times> 64 word \<Rightarrow> nat \<Rightarrow> u32 list" where
  "round_key_spec key i =
    (let (ab, cd) = ks_halves i key;
         A = ucast (drop_bit 32 ab); B = ucast ab;
         C = ucast (drop_bit 32 cd); D = ucast cd
     in [seed_G (A + C - KC_spec i), seed_G (B - D + KC_spec i)])"

definition key_halves :: "u8 list \<Rightarrow> 64 word \<times> 64 word" where
  "key_halves mKey =
    (word_cat (be32 (mKey ! 0) (mKey ! 1) (mKey ! 2) (mKey ! 3))
              (be32 (mKey ! 4) (mKey ! 5) (mKey ! 6) (mKey ! 7)),
     word_cat (be32 (mKey ! 8) (mKey ! 9) (mKey ! 10) (mKey ! 11))
              (be32 (mKey ! 12) (mKey ! 13) (mKey ! 14) (mKey ! 15)))"

lemma Byte2Word_at_be32:
  "Byte2Word_at src k = be32 (src ! k) (src ! (k + 1)) (src ! (k + 2)) (src ! (k + 3))"
  by (simp add: Byte2Word_at_def be32_def ucast_and_FF)

lemma rot8_mod:
  "n < 64 \<Longrightarrow> (n + 8) mod 64 = (if n < 56 then 8 + n else n - (56 :: nat))"
  "n < 64 \<Longrightarrow> (n + 56) mod 64 = (if n < 8 then 56 + n else n - (8 :: nat))"
  by (auto simp: mod_if)

lemma rotr_halves:
  "word_rotr 8 (word_cat (A :: u32) (B :: u32) :: 64 word) =
    word_cat (drop_bit 8 A XOR push_bit 24 B) (drop_bit 8 B XOR push_bit 24 A)"
  by (rule bit_word_eqI)
    (auto simp: rot8_mod bit_word_rotr_iff bit_word_cat_iff bit_simps dest: bit_imp_le_length)

lemma rotl_halves:
  "word_rotl 8 (word_cat (C :: u32) (D :: u32) :: 64 word) =
    word_cat (push_bit 8 C XOR drop_bit 24 D) (push_bit 8 D XOR drop_bit 24 C)"
  by (rule bit_word_eqI)
    (auto simp: rot8_mod bit_word_rotl_iff bit_word_cat_iff bit_simps dest: bit_imp_le_length)

lemma split_halves [simp]:
  "ucast (drop_bit 32 (word_cat (A :: u32) (B :: u32) :: 64 word)) = A"
  "ucast (word_cat (A :: u32) (B :: u32) :: 64 word) = B"
  by (rule bit_word_eqI; auto simp: bit_word_cat_iff bit_simps)+

definition regs_of :: "64 word \<times> 64 word \<Rightarrow> ks_regs" where
  "regs_of = (\<lambda>(ab, cd). (ucast (drop_bit 32 ab), ucast ab, ucast (drop_bit 32 cd), ucast cd))"

lemma cat_halves: "word_cat (ucast (drop_bit 32 w) :: u32) (ucast w :: u32) = (w :: 64 word)"
  by (rule bit_word_eqI) (auto simp: bit_word_cat_iff bit_simps)

lemma regs_of_key: "regs_of (ks_halves 0 (key_halves mKey)) =
    (Byte2Word_at mKey 0, Byte2Word_at mKey 4, Byte2Word_at mKey 8, Byte2Word_at mKey 12)"
  by (simp add: regs_of_def key_halves_def Byte2Word_at_be32 Suc_Suc_0)

lemma update0_spec:
  assumes "even i"
  shows "RoundKeyUpdate0 (regs_of (ks_halves i key)) (KC_spec i) =
    (round_key_spec key i, regs_of (ks_halves (Suc i) key))"
proof -
  obtain k1 k2 where k: "key = (k1, k2)"
    by (cases key)
  obtain ab cd where h: "ks_halves i key = (ab, cd)"
    by (cases "ks_halves i key")
  have "word_rotr 8 ab = word_rotr 8 (word_cat (ucast (drop_bit 32 ab) :: u32) (ucast ab :: u32))"
    by (simp add: cat_halves)
  then show ?thesis
    using assms h
    by (simp add: k RoundKeyUpdate0_def round_key_spec_def regs_of_def rotr_halves SS_lookup_G
        algebra_simps)
qed

lemma update1_spec:
  assumes "odd i"
  shows "RoundKeyUpdate1 (regs_of (ks_halves i key)) (KC_spec i) =
    (round_key_spec key i, regs_of (ks_halves (Suc i) key))"
proof -
  obtain k1 k2 where k: "key = (k1, k2)"
    by (cases key)
  obtain ab cd where h: "ks_halves i key = (ab, cd)"
    by (cases "ks_halves i key")
  have "word_rotl 8 cd = word_rotl 8 (word_cat (ucast (drop_bit 32 cd) :: u32) (ucast cd :: u32))"
    by (simp add: cat_halves)
  then show ?thesis
    using assms h
    by (simp add: k RoundKeyUpdate1_def round_key_spec_def regs_of_def rotl_halves SS_lookup_G
        algebra_simps)
qed

lemma last_round_key:
  "round_key_spec key i =
    (case regs_of (ks_halves i key) of (A, B, C, D) \<Rightarrow>
      [SS_lookup (A + C - KC_spec i), SS_lookup (B - D + KC_spec i)])"
  by (simp add: round_key_spec_def regs_of_def SS_lookup_G split: prod.splits)

lemma KC_list:
  "[KC0, KC1, KC2, KC3, KC4, KC5, KC6, KC7, KC8, KC9, KC10, KC11, KC12, KC13, KC14, KC15]
    = map KC_spec [0..<16]"
  by code_simp

lemma KC_eqs:
  "KC0 = KC_spec 0" "KC1 = KC_spec (Suc 0)" "KC2 = KC_spec 2" "KC3 = KC_spec 3"
  "KC4 = KC_spec 4" "KC5 = KC_spec 5" "KC6 = KC_spec 6" "KC7 = KC_spec 7"
  "KC8 = KC_spec 8" "KC9 = KC_spec 9" "KC10 = KC_spec 10" "KC11 = KC_spec 11"
  "KC12 = KC_spec 12" "KC13 = KC_spec 13" "KC14 = KC_spec 14" "KC15 = KC_spec 15"
  using KC_list by (simp_all add: upt_16)

lemma SEED_KeySched_spec:
  "SEED_KeySched mKey = concat (map (round_key_spec (key_halves mKey)) [0..<16])"
  by (simp add: SEED_KeySched_def key_chain_def Let_def update0_spec update1_spec KC_eqs Suc_Suc_0 upt_16
      last_round_key [of _ 15] split: prod.splits flip: regs_of_key)

lemma length_SEED_KeySched [simp, len_simps]: "length (SEED_KeySched mKey) = 32"
  by (simp add: SEED_KeySched_spec round_key_spec_def length_concat comp_def Let_def split_def
      sum_list_triv)

section \<open>What the cipher satisfies\<close>

text \<open>The round function as the standard writes it, over \<open>G\<close>.\<close>

definition seed_F :: "u32 \<times> u32 \<Rightarrow> u32 \<times> u32 \<Rightarrow> u32 \<times> u32" where
  "seed_F = (\<lambda>(K0, K1) (C, D).
    let g = seed_G ((C XOR K0) XOR (D XOR K1));
        h = seed_G (g + (C XOR K0));
        d = seed_G (h + g)
    in (d + h, d))"

lemma SeedRound_F_seed_F: "SeedRound_F = seed_F"
  by (intro ext) (auto simp: SeedRound_F_def seed_F_def SS_lookup_G Let_def add.commute xor.commute)

text \<open>\<open>SEED_Decrypt\<close> undoes \<open>SEED_Encrypt\<close> and the other way round, on every block of
  four words and for every array of round keys, so each key gives a permutation of
  the blocks.\<close>

theorem seed_decrypt_encrypt:
  assumes "length b = 4"
  shows "SEED_Decrypt (SEED_Encrypt b rKey) rKey = b \<and> SEED_Encrypt (SEED_Decrypt b rKey) rKey = b \<and>
    bij_betw (\<lambda>b. SEED_Encrypt b rKey) {b. length b = 4} {b. length b = 4}"
  using seed.D_E [OF assms] seed.E_D [OF assms] seed.E_permutes by simp

theorem seed_decrypt_encrypt_witness:
  "SEED_Decrypt (SEED_Encrypt [1, 2, 3, 4] (replicate 32 5)) (replicate 32 5) = [1, 2, 3, 4] \<and>
   SEED_Encrypt (SEED_Decrypt [1, 2, 3, 4] (replicate 32 5)) (replicate 32 5) = [1, 2, 3, 4] \<and>
   bij_betw (\<lambda>b. SEED_Encrypt b (replicate 32 5)) {b. length b = 4} {b. length b = 4}"
  by (rule seed_decrypt_encrypt) simp

text \<open>C4: the sixteen unrolled in-place rounds of \<open>SEED_Encrypt\<close> are the Feistel network of
  the standard over its round function, written with the two S-boxes and the mixing
  masks, and \<open>SEED_Decrypt\<close> is the same network with the round keys in reverse.\<close>

theorem seed_is_feistel:
  "SEED_Encrypt b rKey = words_of (prod.swap (feistel seed_F xor2 (key_pairs rKey) (halves b))) \<and>
   SEED_Decrypt b rKey = words_of (prod.swap (feistel seed_F xor2 (rev (key_pairs rKey)) (halves b)))"
  by (simp add: SEED_Encrypt_feistel SEED_Decrypt_feistel SeedRound_F_seed_F)

text \<open>\<open>SEED_KeySched\<close> computes the round keys of the standard: round \<open>i\<close> takes them from
  the two 64-bit key halves, of which the left has been rotated right and the right
  rotated left by 8 bits in turn, and from the golden-ratio constant rotated by \<open>i\<close>.\<close>

theorem seed_key_schedule:
  "SEED_KeySched mKey = concat (map (round_key_spec (key_halves mKey)) [0..<16])"
  by (rule SEED_KeySched_spec)

end
