(* ===== verification/SeedBlocks.thy ===== *)
theory SeedBlocks
  imports Seed
begin

text \<open>
  The 128-bit block arithmetic that \<open>KISA_SEED_GCM.c\<close> and \<open>KISA_SEED_CCM.c\<close> share: the
  conversions \<open>Byte2Word\<close> and \<open>Word2Byte\<close>, and the macros \<open>XOR128\<close>, \<open>SHIFTR\<close>,
  \<open>INCREASE\<close> and \<open>ZERO128\<close>. A block is an array of four words; its bytes are read
  big-endian.
\<close>

section \<open>Macros\<close>

type_synonym blk = "u32 list"

definition ZERO128 :: blk where
  "ZERO128 = [0, 0, 0, 0]"

definition XOR128 :: "blk \<Rightarrow> blk \<Rightarrow> blk" where
  "XOR128 A B = [A ! 0 XOR B ! 0, A ! 1 XOR B ! 1, A ! 2 XOR B ! 2, A ! 3 XOR B ! 3]"

definition SHIFTR :: "blk \<Rightarrow> nat \<Rightarrow> blk" where
  "SHIFTR R n =
    (let R = R[3 := drop_bit n (R ! 3) XOR push_bit (32 - n) (R ! 2)];
         R = R[2 := drop_bit n (R ! 2) XOR push_bit (32 - n) (R ! 1)];
         R = R[1 := drop_bit n (R ! 1) XOR push_bit (32 - n) (R ! 0)]
     in R[0 := drop_bit n (R ! 0)])"

definition INCREASE :: "blk \<Rightarrow> blk" where
  "INCREASE ctr =
    (if ctr ! 3 = 0xFFFFFFFF then ctr[2 := ctr ! 2 + 1, 3 := 0] else ctr[3 := ctr ! 3 + 1])"

section \<open>Bytes to words and back\<close>

definition Byte2Word_step :: "u8 list \<Rightarrow> nat \<Rightarrow> u32 list \<Rightarrow> u32 list" where
  "Byte2Word_step src i dst =
    (let remain = i mod 4; x = ucast (src ! i) :: u32 in
     if remain = 0 then dst[i div 4 := push_bit 24 x]
     else if remain = 1 then dst[i div 4 := dst ! (i div 4) XOR push_bit 16 x]
     else if remain = 2 then dst[i div 4 := dst ! (i div 4) XOR push_bit 8 x]
     else dst[i div 4 := dst ! (i div 4) XOR (x AND 0x000000FF)])"

definition Byte2Word :: "u32 list \<Rightarrow> u8 list \<Rightarrow> nat \<Rightarrow> u32 list" where
  "Byte2Word dst src srcLen = fold (Byte2Word_step src) [0..<srcLen] dst"

text \<open>The bytes \<open>Word2Byte\<close> writes at \<open>dst[0]\<close> to \<open>dst[srcLen - 1]\<close>.\<close>

definition Word2Byte :: "u32 list \<Rightarrow> nat \<Rightarrow> u8 list" where
  "Word2Byte src srcLen =
    map (\<lambda>i. let remain = i mod 4 in
      if remain = 0 then ucast (drop_bit 24 (src ! (i div 4)))
      else if remain = 1 then ucast (drop_bit 16 (src ! (i div 4)))
      else if remain = 2 then ucast (drop_bit 8 (src ! (i div 4)))
      else ucast (src ! (i div 4))) [0..<srcLen]"

section \<open>The byte view of a block\<close>

definition wbytes :: "u32 list \<Rightarrow> u8 list" where
  "wbytes ws = map (\<lambda>k. byte_of (3 - k mod 4) (ws ! (k div 4))) [0..<4 * length ws]"

lemma length_wbytes [simp, len_simps]: "length (wbytes ws) = 4 * length ws"
  by (simp add: wbytes_def)

lemma nth_wbytes: "k < 4 * length ws \<Longrightarrow> wbytes ws ! k = byte_of (3 - k mod 4) (ws ! (k div 4))"
  by (simp add: wbytes_def)

lemma Word2Byte_wbytes:
  assumes "n \<le> 4 * length src"
  shows "Word2Byte src n = take n (wbytes src)"
proof (rule nth_equalityI)
  fix i assume "i < length (Word2Byte src n)"
  then have i: "i < n"
    by (simp add: Word2Byte_def)
  have "i mod 4 = 0 \<or> i mod 4 = 1 \<or> i mod 4 = 2 \<or> i mod 4 = 3"
    by arith
  with i show "Word2Byte src n ! i = take n (wbytes src) ! i"
    using assms by (auto simp: Word2Byte_def nth_wbytes byte_of_def)
qed (use assms in \<open>simp add: Word2Byte_def\<close>)

lemma Byte2Word_Suc: "Byte2Word dst src (Suc n) = Byte2Word_step src n (Byte2Word dst src n)"
  by (simp add: Byte2Word_def)

lemma length_Byte2Word [simp, len_simps]: "length (Byte2Word dst src n) = length dst"
  by (induction n) (simp_all add: Byte2Word_def Byte2Word_step_def Let_def)

lemma length_Word2Byte [simp, len_simps]: "length (Word2Byte src n) = n"
  by (simp add: Word2Byte_def)

lemma byte_of_shifted:
  "j < 4 \<Longrightarrow> i < 4 \<Longrightarrow> byte_of j (push_bit (8 * i) (ucast (x :: u8))) = (if i = j then x else 0)"
  by (rule bit_word_eqI) (auto simp: bit_byte_of bit_simps dest: bit_imp_le_length)

lemma Byte2Word_zero_nth:
  assumes "n \<le> 4 * m" and "k < 4 * m"
  shows "wbytes (Byte2Word (replicate m 0) src n) ! k = (if k < n then src ! k else 0)"
  using assms
proof (induction n arbitrary: k)
  case 0
  then show ?case
    by (simp add: Byte2Word_def nth_wbytes)
next
  case (Suc n)
  let ?d = "Byte2Word (replicate m 0) src n" and ?w = "n div 4" and ?r = "n mod 4"
  have w: "?w < m"
    using Suc.prems by arith
  have IH: "byte_of (3 - k mod 4) (?d ! (k div 4)) = (if k < n then src ! k else 0)"
    if "k < 4 * m" for k
    using Suc.IH [of k] Suc.prems that by (simp add: nth_wbytes)
  have "?d ! ?w = 0" if "?r = 0"
  proof -
    have "byte_of (3 - j) (?d ! ?w) = 0" if "j < 4" for j
    proof -
      have "(4 * ?w + j) div 4 = ?w" "(4 * ?w + j) mod 4 = j"
        using that by simp_all
      then show ?thesis
        using IH [of "4 * ?w + j"] w that \<open>?r = 0\<close> by auto
    qed
    from this [of 0] this [of 1] this [of 2] this [of 3] show ?thesis
      by (simp add: word_eq_bytes)
  qed
  moreover have "(ucast x AND 0x000000FF :: u32) = ucast x" for x :: u8
    using ucast_and_FF by blast
  moreover have "?r = 0 \<or> ?r = 1 \<or> ?r = 2 \<or> ?r = 3"
    by arith
  ultimately have step: "Byte2Word_step src n ?d =
      ?d[?w := ?d ! ?w XOR push_bit (8 * (3 - ?r)) (ucast (src ! n))]"
    by (auto simp: Byte2Word_step_def Let_def)
  have "n = k" if "n div 4 = k div 4" "3 - n mod 4 = 3 - k mod 4"
  proof -
    have "n mod 4 = k mod 4"
      using that(2) mod_less_divisor [of 4 n] mod_less_divisor [of 4 k] by arith
    with that(1) show ?thesis
      by (metis div_mult_mod_eq)
  qed
  then have upd: "byte_of (3 - k mod 4) (?d[?w := ?d ! ?w XOR push_bit (8 * (3 - ?r)) (ucast (src ! n))]
        ! (k div 4))
      = byte_of (3 - k mod 4) (?d ! (k div 4)) XOR (if n = k then src ! n else 0)"
    using w by (cases "n div 4 = k div 4") (auto simp: byte_of_xor byte_of_shifted)
  have "wbytes (Byte2Word (replicate m 0) src (Suc n)) ! k
      = byte_of (3 - k mod 4) (Byte2Word_step src n ?d ! (k div 4))"
    using Suc.prems by (simp add: nth_wbytes Byte2Word_Suc step)
  also have "\<dots> = (if k < Suc n then src ! k else 0)"
    using IH [OF Suc.prems(2)] by (auto simp: step upd)
  finally show ?case .
qed

text \<open>
  A chunk of at most 16 bytes becomes a block padded with zeros; a block comes
  back as its 16 bytes. These two facts are all the modes need.
\<close>

definition pad16 :: "u8 list \<Rightarrow> u8 list" where
  "pad16 bs = take 16 bs @ replicate (16 - length bs) 0"

lemma length_pad16 [simp, len_simps]: "length (pad16 bs) = 16"
  by (simp add: pad16_def)

lemma length_ZERO128 [simp, len_simps]: "length ZERO128 = 4"
  by (simp add: ZERO128_def)

lemma wbytes_Byte2Word:
  assumes "n \<le> 16" and "n \<le> length src"
  shows "wbytes (Byte2Word ZERO128 src n) = pad16 (take n src)"
proof (rule nth_equalityI)
  fix k assume "k < length (wbytes (Byte2Word ZERO128 src n))"
  then have k: "k < 16"
    by simp
  have "ZERO128 = replicate 4 0"
    by (simp add: ZERO128_def eval_nat_numeral)
  with k assms show "wbytes (Byte2Word ZERO128 src n) ! k = pad16 (take n src) ! k"
    using Byte2Word_zero_nth [of n 4 k src]
    by (simp add: pad16_def nth_append)
qed simp

lemma wbytes_inject:
  assumes "length v = length w"
  shows "wbytes v = wbytes w \<longleftrightarrow> v = w"
proof
  assume eq: "wbytes v = wbytes w"
  show "v = w"
  proof (rule nth_equalityI [OF assms])
    fix i assume i: "i < length v"
    have "byte_of (3 - j) (v ! i) = byte_of (3 - j) (w ! i)" if "j < 4" for j
    proof -
      have "(4 * i + j) div 4 = i" "(4 * i + j) mod 4 = j" "4 * i + j < 4 * length v"
        using that i by simp_all
      then show ?thesis
        using eq assms nth_wbytes [of "4 * i + j" v] nth_wbytes [of "4 * i + j" w] by simp
    qed
    from this [of 0] this [of 1] this [of 2] this [of 3] show "v ! i = w ! i"
      by (simp add: word_eq_bytes)
  qed
qed simp

lemma length_XOR128 [simp, len_simps]: "length (XOR128 a b) = 4"
  by (simp add: XOR128_def)

lemma XOR128_xorl: "length a = 4 \<Longrightarrow> length b = 4 \<Longrightarrow> XOR128 a b = xorl a b"
  by (auto simp: XOR128_def length_Suc_conv eval_nat_numeral)

lemma wbytes_XOR128:
  assumes "length a = 4" and "length b = 4"
  shows "wbytes (XOR128 a b) = xorl (wbytes a) (wbytes b)"
  by (rule nth_equalityI) (use assms in \<open>auto simp: XOR128_xorl nth_wbytes byte_of_xor\<close>)

interpretation seed_chain: chained_cipher
  "\<lambda>b. SEED_Encrypt b rKey" "\<lambda>b. SEED_Decrypt b rKey" "\<lambda>b. length b = 4" XOR128 for rKey
  by unfold_locales (simp_all add: XOR128_xorl xorl_cancel)

text \<open>
  One step of a counter-mode loop, as both modes write it: the chunk is loaded,
  added to the key stream block and stored, and only as many bytes as the chunk
  has are stored.
\<close>

lemma stream_chunk:
  assumes "length ks = 4" and "n \<le> 16" and "n \<le> length bs"
  shows "Word2Byte (XOR128 ks (Byte2Word ZERO128 bs n)) n = xorl (take n bs) (wbytes ks)"
proof -
  have "Word2Byte (XOR128 ks (Byte2Word ZERO128 bs n)) n
      = take n (xorl (pad16 (take n bs)) (wbytes ks))"
    using assms by (simp add: Word2Byte_wbytes wbytes_XOR128 wbytes_Byte2Word xorl_commute)
  also have "\<dots> = xorl (take n bs) (take n (wbytes ks))"
    using assms by (simp add: take_xorl pad16_def min_def)
  also have "\<dots> = xorl (take n bs) (wbytes ks)"
    by (rule nth_equalityI) (use assms in auto)
  finally show ?thesis .
qed

lemma nth_SHIFTR:
  assumes "length b = 4" and "j < 4"
  shows "SHIFTR b n ! j =
    drop_bit n (b ! j) XOR (if j = 0 then 0 else push_bit (32 - n) (b ! (j - 1)))"
proof -
  have "j = 0 \<or> j = 1 \<or> j = 2 \<or> j = 3"
    using assms(2) by arith
  with assms(1) show ?thesis
    by (auto simp: SHIFTR_def Let_def)
qed

lemma length_SHIFTR [simp, len_simps]: "length (SHIFTR b n) = length b"
  by (simp add: SHIFTR_def Let_def)

text \<open>The cipher on blocks of sixteen bytes.\<close>

definition seed_bytes :: "u32 list \<Rightarrow> u8 list \<Rightarrow> u8 list" where
  "seed_bytes rKey bs = wbytes (SEED_Encrypt (Byte2Word ZERO128 bs 16) rKey)"

lemma Byte2Word_wbytes: "length b = 4 \<Longrightarrow> Byte2Word ZERO128 (wbytes b) 16 = b"
  using wbytes_Byte2Word [of 16 "wbytes b"] wbytes_inject [of "Byte2Word ZERO128 (wbytes b) 16" b]
  by (simp add: pad16_def)

lemma seed_bytes_wbytes: "length b = 4 \<Longrightarrow> wbytes (SEED_Encrypt b rKey) = seed_bytes rKey (wbytes b)"
  by (simp add: seed_bytes_def Byte2Word_wbytes)

lemma length_seed_bytes [simp, len_simps]: "length (seed_bytes rKey bs) = 16"
  by (simp add: seed_bytes_def)

lemma wbytes4:
  "wbytes [a, b, c, d] =
    [byte_of 3 a, byte_of 2 a, byte_of 1 a, byte_of 0 a, byte_of 3 b, byte_of 2 b, byte_of 1 b, byte_of 0 b,
     byte_of 3 c, byte_of 2 c, byte_of 1 c, byte_of 0 c, byte_of 3 d, byte_of 2 d, byte_of 1 d, byte_of 0 d]"
  by (simp add: wbytes_def upt_16)

text \<open>The stream block of a counter block.\<close>

definition seed_ks :: "u32 list \<Rightarrow> blk \<Rightarrow> u8 list" where
  "seed_ks rKey c = wbytes (SEED_Encrypt c rKey)"

lemma length_seed_ks [simp, len_simps]: "length (seed_ks rKey c) = 16"
  by (simp add: seed_ks_def)

lemma take_min_length: "take (if length bs < n then length bs else n) bs = take n bs"
  by auto

section \<open>Outcomes and tags of the authenticated modes\<close>

text \<open>The returned code, the bytes written to the output, and what is stored in its length.\<close>

record aead_result =
  ret :: int
  buf :: "u8 list"
  bufLen :: "u32 option"

lemma tag_differs:
  assumes "length MAC = m" and "length ct = n + m"
  shows "list_ex (\<lambda>i. MAC ! i \<noteq> ct ! (n + i)) [0..<m] \<longleftrightarrow> drop n ct \<noteq> MAC"
  unfolding list_ex_iff list_eq_iff_nth_eq [of "drop n ct"] using assms by fastforce

lemma unat_mac: "macLen \<le> (16 :: u32) \<Longrightarrow> unat macLen \<le> 16"
  by (simp add: word_le_nat_alt)

lemma of_nat_unat_add: "of_nat (n + unat (m :: u32)) - m = (of_nat n :: u32)"
  by simp


end
