(* ===== verification/Ghash.thy ===== *)
theory Ghash
  imports SeedBlocks
begin

text \<open>
  GHASH of \<open>KISA_SEED_GCM.c\<close>: the reduction table \<open>R8\<close>, the byte-indexed multiplication
  table \<open>makeM8\<close> builds, and \<open>GHASH_8BIT\<close>, which absorbs one block. The
  specification is the bitwise multiplication of GF(2^128) of the standard, on
  128-bit words; the table-driven code is shown to compute it.
\<close>

section \<open>The code\<close>

definition R8 :: "u32 list" where
  "R8 = [
    0x00000000, 0x01c20000, 0x03840000, 0x02460000, 0x07080000, 0x06ca0000, 0x048c0000, 0x054e0000,
    0x0e100000, 0x0fd20000, 0x0d940000, 0x0c560000, 0x09180000, 0x08da0000, 0x0a9c0000, 0x0b5e0000,
    0x1c200000, 0x1de20000, 0x1fa40000, 0x1e660000, 0x1b280000, 0x1aea0000, 0x18ac0000, 0x196e0000,
    0x12300000, 0x13f20000, 0x11b40000, 0x10760000, 0x15380000, 0x14fa0000, 0x16bc0000, 0x177e0000,
    0x38400000, 0x39820000, 0x3bc40000, 0x3a060000, 0x3f480000, 0x3e8a0000, 0x3ccc0000, 0x3d0e0000,
    0x36500000, 0x37920000, 0x35d40000, 0x34160000, 0x31580000, 0x309a0000, 0x32dc0000, 0x331e0000,
    0x24600000, 0x25a20000, 0x27e40000, 0x26260000, 0x23680000, 0x22aa0000, 0x20ec0000, 0x212e0000,
    0x2a700000, 0x2bb20000, 0x29f40000, 0x28360000, 0x2d780000, 0x2cba0000, 0x2efc0000, 0x2f3e0000,
    0x70800000, 0x71420000, 0x73040000, 0x72c60000, 0x77880000, 0x764a0000, 0x740c0000, 0x75ce0000,
    0x7e900000, 0x7f520000, 0x7d140000, 0x7cd60000, 0x79980000, 0x785a0000, 0x7a1c0000, 0x7bde0000,
    0x6ca00000, 0x6d620000, 0x6f240000, 0x6ee60000, 0x6ba80000, 0x6a6a0000, 0x682c0000, 0x69ee0000,
    0x62b00000, 0x63720000, 0x61340000, 0x60f60000, 0x65b80000, 0x647a0000, 0x663c0000, 0x67fe0000,
    0x48c00000, 0x49020000, 0x4b440000, 0x4a860000, 0x4fc80000, 0x4e0a0000, 0x4c4c0000, 0x4d8e0000,
    0x46d00000, 0x47120000, 0x45540000, 0x44960000, 0x41d80000, 0x401a0000, 0x425c0000, 0x439e0000,
    0x54e00000, 0x55220000, 0x57640000, 0x56a60000, 0x53e80000, 0x522a0000, 0x506c0000, 0x51ae0000,
    0x5af00000, 0x5b320000, 0x59740000, 0x58b60000, 0x5df80000, 0x5c3a0000, 0x5e7c0000, 0x5fbe0000,
    0xe1000000, 0xe0c20000, 0xe2840000, 0xe3460000, 0xe6080000, 0xe7ca0000, 0xe58c0000, 0xe44e0000,
    0xef100000, 0xeed20000, 0xec940000, 0xed560000, 0xe8180000, 0xe9da0000, 0xeb9c0000, 0xea5e0000,
    0xfd200000, 0xfce20000, 0xfea40000, 0xff660000, 0xfa280000, 0xfbea0000, 0xf9ac0000, 0xf86e0000,
    0xf3300000, 0xf2f20000, 0xf0b40000, 0xf1760000, 0xf4380000, 0xf5fa0000, 0xf7bc0000, 0xf67e0000,
    0xd9400000, 0xd8820000, 0xdac40000, 0xdb060000, 0xde480000, 0xdf8a0000, 0xddcc0000, 0xdc0e0000,
    0xd7500000, 0xd6920000, 0xd4d40000, 0xd5160000, 0xd0580000, 0xd19a0000, 0xd3dc0000, 0xd21e0000,
    0xc5600000, 0xc4a20000, 0xc6e40000, 0xc7260000, 0xc2680000, 0xc3aa0000, 0xc1ec0000, 0xc02e0000,
    0xcb700000, 0xcab20000, 0xc8f40000, 0xc9360000, 0xcc780000, 0xcdba0000, 0xcffc0000, 0xce3e0000,
    0x91800000, 0x90420000, 0x92040000, 0x93c60000, 0x96880000, 0x974a0000, 0x950c0000, 0x94ce0000,
    0x9f900000, 0x9e520000, 0x9c140000, 0x9dd60000, 0x98980000, 0x995a0000, 0x9b1c0000, 0x9ade0000,
    0x8da00000, 0x8c620000, 0x8e240000, 0x8fe60000, 0x8aa80000, 0x8b6a0000, 0x892c0000, 0x88ee0000,
    0x83b00000, 0x82720000, 0x80340000, 0x81f60000, 0x84b80000, 0x857a0000, 0x873c0000, 0x86fe0000,
    0xa9c00000, 0xa8020000, 0xaa440000, 0xab860000, 0xaec80000, 0xaf0a0000, 0xad4c0000, 0xac8e0000,
    0xa7d00000, 0xa6120000, 0xa4540000, 0xa5960000, 0xa0d80000, 0xa11a0000, 0xa35c0000, 0xa29e0000,
    0xb5e00000, 0xb4220000, 0xb6640000, 0xb7a60000, 0xb2e80000, 0xb32a0000, 0xb16c0000, 0xb0ae0000,
    0xbbf00000, 0xba320000, 0xb8740000, 0xb9b60000, 0xbcf80000, 0xbd3a0000, 0xbf7c0000, 0xbebe0000]"

text \<open>
  The first loop: \<open>M[i]\<close> is \<open>M[2i]\<close> times x, for \<open>i = 64, 32, ..., 1\<close>.
\<close>

definition makeM8_x :: "blk \<Rightarrow> blk" where
  "makeM8_x temp =
    (if temp ! 3 AND 0x01 \<noteq> 0
     then let temp = SHIFTR temp 1 in temp[0 := temp ! 0 XOR 0xE1000000]
     else SHIFTR temp 1)"

function makeM8_down :: "nat \<Rightarrow> blk list \<Rightarrow> blk list" where
  "makeM8_down i M =
    (if i > 0 then makeM8_down (i div 2) (M[i := makeM8_x (M ! (2 * i))]) else M)"
  by pat_completeness auto
termination
  by (relation "measure fst") auto

text \<open>The second loop: \<open>i\<close> doubles from 2, so that it is never 0.\<close>

definition makeM8_row :: "nat \<Rightarrow> blk list \<Rightarrow> blk list" where
  "makeM8_row i M = fold (\<lambda>j M. M[i + j := XOR128 (M ! i) (M ! j)]) [1..<i] M"

function makeM8_up :: "nat \<Rightarrow> blk list \<Rightarrow> blk list" where
  "makeM8_up i M = (if 0 < i \<and> i < 256 then makeM8_up (2 * i) (makeM8_row i M) else M)"
  by pat_completeness auto
termination
  by (relation "measure (\<lambda>(i, M). 256 - i)") auto

definition makeM8 :: "blk list \<Rightarrow> blk \<Rightarrow> blk list" where
  "makeM8 M H =
    (let M = M[128 := [H ! 0, H ! 1, H ! 2, H ! 3]];
         M = makeM8_down 64 M;
         M = makeM8_up 2 M
     in M[0 := [0, 0, 0, 0]])"

definition GHASH_step :: "blk list \<Rightarrow> u32 list \<Rightarrow> blk \<Rightarrow> nat \<Rightarrow> blk \<Rightarrow> blk" where
  "GHASH_step M R Z i W =
    (let temp = drop_bit ((i mod 4) * 8) (Z ! (3 - i div 4)) AND 0xFF;
         W = XOR128 W (M ! unat temp);
         temp = W ! 3 AND 0xFF;
         W = SHIFTR W 8
     in W[0 := W ! 0 XOR R ! unat temp])"

definition GHASH_8BIT :: "blk \<Rightarrow> blk \<Rightarrow> blk list \<Rightarrow> u32 list \<Rightarrow> blk" where
  "GHASH_8BIT out inp M R =
    (let Z = XOR128 out inp;
         W = fold (GHASH_step M R Z) [0..<15] [0, 0, 0, 0];
         temp = drop_bit 24 (Z ! 0) AND 0xFF
     in XOR128 W (M ! unat temp))"

section \<open>The field\<close>

type_synonym u128 = "128 word"

text \<open>Multiplication by x: bit 127 is the constant term, so it is a shift to the right.\<close>

definition gf_x :: "u128 \<Rightarrow> u128" where
  "gf_x v = drop_bit 1 v XOR (if bit v 0 then push_bit 120 0xE1 else 0)"

definition gf_mult :: "u128 \<Rightarrow> u128 \<Rightarrow> u128" where
  "gf_mult X Y =
    fst (fold (\<lambda>i (Z, V). (if bit X (127 - i) then Z XOR V else Z, gf_x V)) [0..<128] (0, Y))"

definition blk128 :: "blk \<Rightarrow> u128" where
  "blk128 b = word_cat (word_cat (b ! 0) (b ! 1) :: 64 word) (word_cat (b ! 2) (b ! 3) :: 64 word)"

lemma bit_blk128:
  "bit (blk128 b) n \<longleftrightarrow> n < 128 \<and> bit (b ! (3 - n div 32)) (n mod 32)"
proof -
  consider "n < 32" | "32 \<le> n" "n < 64" | "64 \<le> n" "n < 96" | "96 \<le> n" "n < 128" | "128 \<le> n"
    by arith
  then show ?thesis
  proof cases
    case 2
    then have "n div 32 = 1" "n mod 32 = n - 32" by (auto simp: mod_if div_if)
    with 2 show ?thesis by (simp add: blk128_def bit_word_cat_iff)
  next
    case 3
    then have "n div 32 = 2" "n mod 32 = n - 64" "n - 64 < 32" by (auto simp: mod_if div_if)
    with 3 show ?thesis by (simp add: blk128_def bit_word_cat_iff)
  next
    case 4
    then have "n div 32 = 3" "n mod 32 = n - 96" "n - 64 \<ge> 32" "n - 64 < 64" by (auto simp: mod_if div_if)
    with 4 show ?thesis by (simp add: blk128_def bit_word_cat_iff)
  qed (auto simp: blk128_def bit_word_cat_iff dest: bit_imp_le_length)
qed

lemma blk128_XOR128: "blk128 (XOR128 a b) = blk128 a XOR blk128 b"
  by (rule bit_word_eqI) (auto simp: blk128_def bit_word_cat_iff XOR128_def bit_simps)

lemma blk128_zero [simp]: "blk128 [0, 0, 0, 0] = 0"
  by (rule bit_word_eqI) (simp add: blk128_def bit_word_cat_iff)

lemma div32: "t < 32 \<Longrightarrow> (32 * a + t) div 32 = (a :: nat)"
  by simp

lemma mod32: "t < 32 \<Longrightarrow> (32 * a + t) mod 32 = (t :: nat)"
  by simp

lemma blk128_SHIFTR:
  assumes "length b = 4" and "0 < n" and "n < 32"
  shows "blk128 (SHIFTR b n) = drop_bit n (blk128 b)"
proof (rule bit_word_eqI)
  fix p :: nat assume "p < LENGTH(128)"
  then have p: "p < 128"
    by simp
  define q r where "q = p div 32" and "r = p mod 32"
  have q: "q < 4" and r: "r < 32" and pqr: "p = 32 * q + r"
    using p by (auto simp: q_def r_def)
  have "bit (blk128 (SHIFTR b n)) p \<longleftrightarrow>
      bit (b ! (3 - q)) (n + r) \<or> (q < 3 \<and> 32 \<le> n + r \<and> bit (b ! (2 - q)) (n + r - 32))"
  proof -
    have "r - (32 - n) = n + r - 32"
      using assms by arith
    then show ?thesis
      using p q r assms
      by (auto simp: bit_blk128 nth_SHIFTR bit_simps q_def [symmetric] r_def [symmetric]
          dest: bit_imp_le_length)
  qed
  also have "\<dots> \<longleftrightarrow> bit (blk128 b) (n + p)"
  proof (cases "n + r < 32")
    case True
    have e: "n + p = 32 * q + (n + r)"
      by (simp add: pqr)
    have "(n + p) div 32 = q" "(n + p) mod 32 = n + r"
      unfolding e using True by (rule div32, rule mod32)
    moreover have "n + p < 128"
      unfolding e using True q by simp
    ultimately show ?thesis
      using True by (simp add: bit_blk128)
  next
    case False
    then obtain t where t: "n + r = 32 + t" "t < 32"
      using r assms(3) by (metis add_less_mono le_add_diff_inverse nat_add_left_cancel_less not_less)
    then have e: "n + p = 32 * Suc q + t"
      by (simp add: pqr)
    have "(n + p) div 32 = Suc q" "(n + p) mod 32 = t"
      unfolding e using t(2) by (rule div32, rule mod32)
    moreover have "n + p < 128 \<longleftrightarrow> q < 3"
      using e t(2) by auto
    moreover have "\<not> bit (b ! (3 - q)) (n + r)"
      using t(1) by (auto dest: bit_imp_le_length)
    ultimately show ?thesis
      using t by (auto simp: bit_blk128)
  qed
  finally show "bit (blk128 (SHIFTR b n)) p \<longleftrightarrow> bit (drop_bit n (blk128 b)) p"
    by (simp add: bit_drop_bit_eq)
qed

section \<open>Sums and linearity\<close>

fun gsum :: "nat \<Rightarrow> (nat \<Rightarrow> 'a::len word) \<Rightarrow> 'a word" where
  "gsum 0 f = 0"
| "gsum (Suc n) f = gsum n f XOR f n"

lemma gsum_cong [cong]:
  "m = n \<Longrightarrow> (\<And>i. i < n \<Longrightarrow> f i = g i) \<Longrightarrow> gsum m f = gsum n g"
  by (induction n arbitrary: m) auto

lemma gsum_shift: "gsum (Suc n) f = f 0 XOR gsum n (\<lambda>i. f (Suc i))"
  by (induction n) (auto simp: xor.assoc)

lemma gsum_add: "gsum (m + n) f = gsum m f XOR gsum n (\<lambda>i. f (m + i))"
  by (induction n) (auto simp: xor.assoc)

lemma gsum_groups: "gsum (8 * n) f = gsum n (\<lambda>j. gsum 8 (\<lambda>k. f (8 * j + k)))"
proof (induction n)
  case (Suc n)
  have "gsum (8 * Suc n) f = gsum (8 * n + 8) f"
    by (simp add: add.commute)
  then show ?case
    by (simp only: gsum_add Suc.IH) simp
qed simp

lemma gf_x_xor: "gf_x (v XOR w) = gf_x v XOR gf_x w"
  by (rule bit_word_eqI) (auto simp: gf_x_def bit_simps)

lemma gf_x_zero [simp]: "gf_x 0 = 0"
  by (simp add: gf_x_def)

lemma gf_xs_xor: "(gf_x ^^ n) (v XOR w) = (gf_x ^^ n) v XOR (gf_x ^^ n) w"
  by (induction n) (simp_all add: gf_x_xor)

lemma gf_xs_zero [simp]: "(gf_x ^^ n) 0 = 0"
  by (induction n) simp_all

lemma gf_xs_gsum: "(gf_x ^^ m) (gsum n f) = gsum n (\<lambda>i. (gf_x ^^ m) (f i))"
  by (induction n) (simp_all add: gf_xs_xor)

lemma gf_mult_gsum: "gf_mult X Y = gsum 128 (\<lambda>i. if bit X (127 - i) then (gf_x ^^ i) Y else 0)"
proof -
  have "fold (\<lambda>i (Z, V). (if bit X (127 - i) then Z XOR V else Z, gf_x V)) [0..<n] (0, Y)
      = (gsum n (\<lambda>i. if bit X (127 - i) then (gf_x ^^ i) Y else 0), (gf_x ^^ n) Y)" for n
    by (induction n) auto
  then show ?thesis
    by (simp add: gf_mult_def del: gsum.simps)
qed

lemma gf_mult_xor_left: "gf_mult (X XOR X') Y = gf_mult X Y XOR gf_mult X' Y"
proof -
  have "gsum n (\<lambda>i. if bit (X XOR X') (127 - i) then (gf_x ^^ i) Y else 0) =
      gsum n (\<lambda>i. if bit X (127 - i) then (gf_x ^^ i) Y else 0) XOR
      gsum n (\<lambda>i. if bit X' (127 - i) then (gf_x ^^ i) Y else 0)" for n
    by (induction n) (auto simp: bit_xor_iff xor_ac)
  then show ?thesis
    by (simp only: gf_mult_gsum)
qed

lemma gf_mult_xor_right: "gf_mult X (Y XOR Y') = gf_mult X Y XOR gf_mult X Y'"
proof -
  have "gsum n (\<lambda>i. if bit X (127 - i) then (gf_x ^^ i) (Y XOR Y') else 0) =
      gsum n (\<lambda>i. if bit X (127 - i) then (gf_x ^^ i) Y else 0) XOR
      gsum n (\<lambda>i. if bit X (127 - i) then (gf_x ^^ i) Y' else 0)" for n
    by (induction n) (auto simp: gf_xs_xor xor_ac)
  then show ?thesis
    by (simp only: gf_mult_gsum)
qed

section \<open>Tables indexed by the bits of a byte\<close>

definition lin :: "nat \<Rightarrow> (nat \<Rightarrow> 'a::len word) \<Rightarrow> nat \<Rightarrow> 'a word" where
  "lin k c b = gsum k (\<lambda>d. if bit b d then c d else 0)"

lemma bit_low: "d < k \<Longrightarrow> bit (2 ^ k + j) d \<longleftrightarrow> bit (j :: nat) d"
proof -
  assume d: "d < k"
  then have "2 ^ k = 2 ^ d * (2 * 2 ^ (k - Suc d) :: nat)"
    by (simp flip: power_add power_Suc)
  then have "(2 ^ k + j) div 2 ^ d = 2 * 2 ^ (k - Suc d) + j div 2 ^ d"
    by simp
  then show "bit (2 ^ k + j) d \<longleftrightarrow> bit j d"
    by (simp add: bit_iff_odd)
qed

lemma lin_low: "j < 2 ^ k \<Longrightarrow> lin (Suc k) c j = lin k c j"
  by (simp add: lin_def bit_high_nat)

lemma bit_top: "j < 2 ^ k \<Longrightarrow> bit (2 ^ k + j :: nat) k"
  by (simp add: bit_iff_odd div_add_self1)

lemma gsum_zero [simp]: "gsum n (\<lambda>_. 0) = 0"
  by (induction n) simp_all

lemma lin_top: "j < 2 ^ k \<Longrightarrow> lin (Suc k) c (2 ^ k + j) = lin k c j XOR c k"
  by (simp add: lin_def bit_low bit_top)

lemma lin_power: "e < k \<Longrightarrow> lin k c (2 ^ e) = c e"
proof (induction k)
  case (Suc k)
  show ?case
  proof (cases "e = k")
    case True
    then show ?thesis
      using lin_top [of 0 k c] by (simp add: lin_def del: gsum.simps)
  next
    case False
    then have "(2 :: nat) ^ e < 2 ^ k"
      using Suc.prems by simp
    then show ?thesis
      using Suc False by (simp add: lin_low)
  qed
qed simp

fun xtable :: "(nat \<Rightarrow> 'a::len word) \<Rightarrow> nat \<Rightarrow> 'a word list" where
  "xtable c 0 = [0]"
| "xtable c (Suc k) = xtable c k @ map (\<lambda>t. t XOR c k) (xtable c k)"

lemma xtable_lin: "xtable c k = map (lin k c) [0..<2 ^ k]"
proof (induction k)
  case (Suc k)
  have "map (lin (Suc k) c) [0..<2 ^ Suc k] =
      map (lin (Suc k) c) [0..<2 ^ k] @ map (\<lambda>j. lin (Suc k) c (2 ^ k + j)) [0..<2 ^ k]"
  proof -
    have "[0..<2 ^ Suc k] = [0..<2 ^ k] @ map (\<lambda>j. 2 ^ k + j) [0..<2 ^ k]"
      using upt_add_eq_append [of 0 "2 ^ k" "2 ^ k"] map_add_upt [of "2 ^ k" "2 ^ k"]
      by (simp add: add.commute mult_2)
    then show ?thesis
      by (simp add: comp_def)
  qed
  then show ?case
    by (simp add: Suc.IH lin_low lin_top)
qed (simp add: lin_def)

lemma R8_xtable: "R8 = xtable (\<lambda>k. push_bit (17 + k) 0xE1) 8"
  by (simp add: R8_def eval_nat_numeral)

lemma length_R8 [simp, len_simps]: "length R8 = 256"
  by (simp add: R8_def)

section \<open>Eight steps of reduction at once\<close>

lemma gf_xs_shift: "(\<And>i. i < k \<Longrightarrow> \<not> bit v i) \<Longrightarrow> (gf_x ^^ k) v = drop_bit k v"
  by (induction k) (simp_all add: gf_x_def bit_drop_bit_eq)

lemma take_bit_gsum: "take_bit n v = gsum n (\<lambda>k. if bit v k then push_bit k 1 else 0)"
  for v :: "'a::len word"
proof (induction n)
  case (Suc n)
  have "take_bit (Suc n) v = take_bit n v XOR (if bit v n then push_bit n 1 else 0)"
    by (rule bit_word_eqI) (auto simp: bit_simps less_Suc_eq)
  then show ?case
    by (simp add: Suc.IH)
qed simp

lemma gf_x8_unit:
  assumes "k < 8"
  shows "(gf_x ^^ 8) (push_bit k 1) = push_bit 96 (ucast (push_bit (17 + k) 0xE1 :: u32))"
proof -
  have "(gf_x ^^ 8) (push_bit k 1) = (gf_x ^^ (7 - k)) (gf_x ((gf_x ^^ k) (push_bit k 1)))"
    using funpow_add [of "7 - k" "Suc k" gf_x] assms by simp
  also have "(gf_x ^^ k) (push_bit k 1) = drop_bit k (push_bit k 1)"
    by (rule gf_xs_shift) (auto simp: bit_simps)
  also have "\<dots> = 1"
    by (rule bit_word_eqI) (use assms in \<open>auto simp: bit_simps\<close>)
  also have "(gf_x ^^ (7 - k)) (gf_x 1) = (gf_x ^^ (7 - k)) (push_bit 120 0xE1)"
    by (simp add: gf_x_def)
  also have "\<dots> = drop_bit (7 - k) (push_bit 120 0xE1)"
    by (rule gf_xs_shift) (auto simp: bit_push_bit_iff simp del: push_bit_numeral)
  also have "\<dots> = push_bit 96 (ucast (push_bit (17 + k) 0xE1 :: u32))"
  proof -
    have "k = 0 \<or> k = 1 \<or> k = 2 \<or> k = 3 \<or> k = 4 \<or> k = 5 \<or> k = 6 \<or> k = 7"
      using assms by arith
    then show ?thesis
      by auto
  qed
  finally show ?thesis .
qed

lemma push_gsum: "push_bit 96 (ucast (gsum n f :: u32)) = gsum n (\<lambda>k. push_bit 96 (ucast (f k)) :: u128)"
proof (induction n)
  case (Suc n)
  have "push_bit 96 (ucast (v XOR w)) = push_bit 96 (ucast v) XOR (push_bit 96 (ucast w) :: u128)"
    for v w :: u32
    by (rule bit_word_eqI) (auto simp: bit_simps)
  then show ?case
    by (simp add: Suc.IH)
qed simp

lemma R8_reduces:
  "(gf_x ^^ 8) v = drop_bit 8 v XOR push_bit 96 (ucast (R8 ! unat (take_bit 8 v)))"
proof -
  let ?hi = "v XOR take_bit 8 v" and ?b = "unat (take_bit 8 v)"
  have b: "?b < 2 ^ 8"
    using take_bit_nat_less_exp [of 8 "unat v"] by (simp add: unsigned_take_bit_eq)
  have "(gf_x ^^ 8) ?hi = drop_bit 8 ?hi"
    by (rule gf_xs_shift) (auto simp: bit_simps)
  also have "\<dots> = drop_bit 8 v"
    by (rule bit_word_eqI) (auto simp: bit_simps)
  finally have hi: "(gf_x ^^ 8) ?hi = drop_bit 8 v" .
  have "(gf_x ^^ 8) (take_bit 8 v) =
      gsum 8 (\<lambda>k. if bit v k then push_bit 96 (ucast (push_bit (17 + k) 0xE1 :: u32)) else 0)"
    unfolding take_bit_gsum gf_xs_gsum by (rule gsum_cong) (simp_all add: gf_x8_unit [simplified])
  also have "\<dots> = push_bit 96 (ucast (lin 8 (\<lambda>k. push_bit (17 + k) 0xE1 :: u32) ?b))"
    unfolding lin_def push_gsum
    by (rule gsum_cong) (auto simp: bit_unsigned_iff bit_take_bit_iff)
  also have "lin 8 (\<lambda>k. push_bit (17 + k) 0xE1 :: u32) ?b = R8 ! ?b"
    using b by (simp add: R8_xtable xtable_lin)
  finally have lo: "(gf_x ^^ 8) (take_bit 8 v) = push_bit 96 (ucast (R8 ! ?b))" .
  have "(gf_x ^^ 8) v = (gf_x ^^ 8) (?hi XOR take_bit 8 v)"
    by simp
  also have "\<dots> = (gf_x ^^ 8) ?hi XOR (gf_x ^^ 8) (take_bit 8 v)"
    by (rule gf_xs_xor)
  also have "\<dots> = drop_bit 8 v XOR push_bit 96 (ucast (R8 ! ?b))"
    unfolding hi lo ..
  finally show ?thesis .
qed

section \<open>The table built by \<open>makeM8\<close>\<close>

definition wf_table :: "blk list \<Rightarrow> bool" where
  "wf_table M \<longleftrightarrow> length M = 256 \<and> (\<forall>r \<in> set M. length r = 4)"

lemma wf_tableD: "wf_table M \<Longrightarrow> i < 256 \<Longrightarrow> length (M ! i) = 4"
  by (simp add: wf_table_def)

lemma wf_table_update: "wf_table M \<Longrightarrow> length r = 4 \<Longrightarrow> wf_table (M[i := r])"
  by (auto simp: wf_table_def dest: set_update_subset_insert [THEN subsetD])

lemma length_wf_table [simp]: "wf_table M \<Longrightarrow> length M = 256"
  by (simp add: wf_table_def)

lemma blk128_update0:
  assumes "length b = 4"
  shows "blk128 (b[0 := b ! 0 XOR x]) = blk128 b XOR push_bit 96 (ucast x)"
proof -
  obtain a0 a1 a2 a3 where b: "b = [a0, a1, a2, a3]"
    using assms by (auto simp: length_Suc_conv eval_nat_numeral)
  show ?thesis
    by (rule bit_word_eqI) (auto simp: b blk128_def bit_word_cat_iff bit_simps)
qed

lemma low_byte_blk128: "take_bit 8 (blk128 b) = ucast (b ! 3 AND 0xFF)"
proof -
  have m: "(0xFF :: u32) = mask 8"
    by (simp add: mask_eq_exp_minus_1)
  show ?thesis
    unfolding m by (rule bit_word_eqI) (auto simp: blk128_def bit_word_cat_iff bit_simps)
qed

lemma length_makeM8_x [simp, len_simps]: "length (makeM8_x t) = length t"
  by (simp add: makeM8_x_def Let_def)

lemma blk128_makeM8_x:
  assumes "length t = 4"
  shows "blk128 (makeM8_x t) = gf_x (blk128 t)"
proof -
  have "t ! 3 AND 0x01 \<noteq> 0 \<longleftrightarrow> bit (blk128 t) 0"
    by (subst bit_blk128) (simp add: and_one_eq odd_iff_mod_2_eq_one bit_0)
  then show ?thesis
    using assms blk128_SHIFTR [of t 1]
    by (auto simp: makeM8_x_def Let_def gf_x_def blk128_update0)
qed

declare makeM8_down.simps [simp del] makeM8_up.simps [simp del]

lemma makeM8_down_ok:
  assumes "wf_table M" and "e \<le> 6"
  shows "wf_table (makeM8_down (2 ^ e) M) \<and>
    (\<forall>d \<le> e. blk128 (makeM8_down (2 ^ e) M ! (2 ^ d)) =
      (gf_x ^^ (Suc e - d)) (blk128 (M ! (2 ^ Suc e)))) \<and>
    (\<forall>i > 2 ^ e. makeM8_down (2 ^ e) M ! i = M ! i)"
  using assms
proof (induction e arbitrary: M)
  case 0
  then show ?case
    by (simp add: makeM8_down.simps [of 1] makeM8_down.simps [of 0] wf_table_update wf_tableD
        blk128_makeM8_x del: One_nat_def)
next
  case (Suc e)
  let ?i = "2 ^ Suc e :: nat" and ?j = "2 ^ Suc (Suc e) :: nat"
  let ?M = "M[?i := makeM8_x (M ! ?j)]"
  have less: "?j < 256" "?i < 256" "?i < ?j"
  proof -
    have "(2 :: nat) ^ Suc (Suc e) \<le> 2 ^ 7"
      by (rule power_increasing) (use Suc.prems in auto)
    then show "?j < 256" "?i < 256" "?i < ?j"
      by simp_all
  qed
  have wf: "wf_table ?M"
    using Suc.prems(1) less by (simp add: wf_table_update wf_tableD)
  have eq: "makeM8_down ?i M = makeM8_down (2 ^ e) ?M"
    by (subst makeM8_down.simps) simp
  note IH = Suc.IH [OF wf Suc_leD [OF Suc.prems(2)]]
  have at_i: "blk128 (?M ! ?i) = gf_x (blk128 (M ! ?j))"
    using Suc.prems(1) less by (simp add: blk128_makeM8_x wf_tableD)
  show ?case
    unfolding eq
  proof (intro conjI allI impI)
    show "wf_table (makeM8_down (2 ^ e) ?M)"
      using IH by blast
  next
    fix d assume "d \<le> Suc e"
    then consider "d \<le> e" | "d = Suc e"
      by linarith
    then show "blk128 (makeM8_down (2 ^ e) ?M ! (2 ^ d)) =
        (gf_x ^^ (Suc (Suc e) - d)) (blk128 (M ! ?j))"
    proof cases
      case 1
      then show ?thesis
        using IH at_i by (simp add: Suc_diff_le funpow_swap1)
    next
      case 2
      then show ?thesis
        using IH at_i by simp
    qed
  next
    fix i :: nat assume "?i < i"
    then show "makeM8_down (2 ^ e) ?M ! i = M ! i"
      using IH by simp
  qed
qed

lemma makeM8_row_nth:
  assumes "wf_table M" and "n \<le> i" and "2 * i \<le> 256" and "x < 256"
  shows "fold (\<lambda>j M. M[i + j := XOR128 (M ! i) (M ! j)]) [1..<n] M ! x =
    (if i < x \<and> x < i + n then XOR128 (M ! i) (M ! (x - i)) else M ! x)"
  using assms(2-)
proof (induction n arbitrary: x)
  case (Suc n)
  let ?M = "fold (\<lambda>j M. M[i + j := XOR128 (M ! i) (M ! j)]) [1..<n] M"
  have len: "length (fold (\<lambda>j M. M[i + j := XOR128 (M ! i) (M ! j)]) js M) = length M" for js
    by (induction js arbitrary: M) simp_all
  show ?case
  proof (cases "n = 0")
    case False
    have "?M ! i = M ! i" "?M ! n = M ! n"
      using Suc.IH [of i] Suc.IH [of n] Suc.prems by simp_all
    then show ?thesis
      using Suc.IH [of x] Suc.prems False assms(1)
      by (auto simp: nth_list_update len)
  qed auto
qed auto

lemma wf_makeM8_row: "wf_table M \<Longrightarrow> wf_table (makeM8_row i M)"
proof -
  assume "wf_table M"
  then have "wf_table (fold (\<lambda>j M. M[i + j := XOR128 (M ! i) (M ! j)]) js M)" for js
    by (induction js arbitrary: M) (simp_all add: wf_table_update)
  then show ?thesis
    by (simp add: makeM8_row_def)
qed

text \<open>Rows 1 to \<open>2^e - 1\<close> are in place, and so are the powers of two above.\<close>

definition filled :: "(nat \<Rightarrow> u128) \<Rightarrow> nat \<Rightarrow> blk list \<Rightarrow> bool" where
  "filled c e M \<longleftrightarrow> wf_table M \<and> (\<forall>b < 2 ^ e. 0 < b \<longrightarrow> blk128 (M ! b) = lin e c b) \<and>
    (\<forall>d < 8. e \<le> d \<longrightarrow> blk128 (M ! (2 ^ d)) = c d)"

lemma filled_row:
  assumes "filled c e M" and "e < 8"
  shows "filled c (Suc e) (makeM8_row (2 ^ e) M)"
  unfolding filled_def
proof (intro conjI allI impI)
  let ?i = "2 ^ e :: nat" and ?M = "makeM8_row (2 ^ e) M"
  have wf: "wf_table M" and low: "\<And>b. b < ?i \<Longrightarrow> 0 < b \<Longrightarrow> blk128 (M ! b) = lin e c b"
    and high: "\<And>d. d < 8 \<Longrightarrow> e \<le> d \<Longrightarrow> blk128 (M ! (2 ^ d)) = c d"
    using assms(1) by (auto simp: filled_def)
  have i: "2 * ?i \<le> 256"
    using power_increasing [of "Suc e" 8 "2 :: nat"] assms(2) by simp
  have at: "?M ! x = (if ?i < x \<and> x < ?i + ?i then XOR128 (M ! ?i) (M ! (x - ?i)) else M ! x)"
    if "x < 256" for x
    unfolding makeM8_row_def by (rule makeM8_row_nth [OF wf order_refl i that])
  show "wf_table ?M"
    using wf by (rule wf_makeM8_row)
  show "blk128 (?M ! b) = lin (Suc e) c b" if b: "b < 2 ^ Suc e" "0 < b" for b
  proof -
    consider "b < ?i" | "b = ?i" | j where "b = ?i + j" "0 < j" "j < ?i"
      using b by (metis add_less_cancel_left less_imp_add_positive linorder_neqE_nat mult_2 power_Suc)
    then show ?thesis
    proof cases
      case 1
      then show ?thesis using b i at [of b] low [of b] by (simp add: lin_low)
    next
      case 2
      then show ?thesis
        using i at [of b] high [of e] assms(2) lin_power [of e "Suc e" c] by simp
    next
      case 3
      then show ?thesis
        using i at [of b] high [of e] low [of j] assms(2)
        by (simp add: blk128_XOR128 lin_top xor.commute)
    qed
  qed
  show "blk128 (?M ! (2 ^ d)) = c d" if "d < 8" "Suc e \<le> d" for d
  proof -
    have "2 * ?i \<le> 2 ^ d"
      using power_increasing [of "Suc e" d "2 :: nat"] that by simp
    moreover have "(2 :: nat) ^ d < 256"
      using power_strict_increasing [of d 8 "2 :: nat"] that by simp
    ultimately show ?thesis
      using at [of "2 ^ d"] high [of d] that by simp
  qed
qed

lemma filled_up: "filled c e M \<Longrightarrow> e \<le> 8 \<Longrightarrow> filled c 8 (makeM8_up (2 ^ e) M)"
proof (induction "8 - e" arbitrary: e M)
  case 0
  then show ?case
    by (simp add: makeM8_up.simps)
next
  case (Suc k)
  then have "e < 8"
    by simp
  then have "(2 :: nat) ^ e < 256"
    using power_strict_increasing [of e 8 "2 :: nat"] by simp
  then have "makeM8_up (2 ^ e) M = makeM8_up (2 ^ Suc e) (makeM8_row (2 ^ e) M)"
    by (subst makeM8_up.simps) simp
  then show ?case
    using Suc.hyps(1) [of "Suc e" "makeM8_row (2 ^ e) M"] Suc.hyps(2) Suc.prems filled_row [of c e M]
      \<open>e < 8\<close> by simp
qed

text \<open>The finished table holds, at a byte, the sum of the multiples its bits select.\<close>

lemma makeM8_ok:
  assumes "length H = 4" and "wf_table M"
  shows "wf_table (makeM8 M H) \<and>
    (\<forall>b < 256. blk128 (makeM8 M H ! b) = lin 8 (\<lambda>d. (gf_x ^^ (7 - d)) (blk128 H)) b)"
proof -
  let ?c = "\<lambda>d. (gf_x ^^ (7 - d)) (blk128 H)"
  have H: "[H ! 0, H ! 1, H ! 2, H ! 3] = H"
    using assms(1) by (auto simp: length_Suc_conv eval_nat_numeral)
  let ?M0 = "M[128 := H]"
  have wf0: "wf_table ?M0"
    using assms by (simp add: wf_table_update)
  let ?M1 = "makeM8_down 64 ?M0"
  note down = makeM8_down_ok [OF wf0, of 6, simplified]
  have pows: "blk128 (?M1 ! (2 ^ d)) = ?c d" if "d < 8" for d
  proof (cases "d = 7")
    case True
    then show ?thesis
      using down assms by simp
  next
    case False
    then have "d \<le> 6"
      using that by simp
    then show ?thesis
      using down assms by simp
  qed
  have "blk128 (?M1 ! b) = lin 1 ?c b" if "b < 2" "0 < b" for b
  proof -
    have "b = 2 ^ 0"
      using that by simp
    then show ?thesis
      using pows [of 0] lin_power [of 0 1 ?c] by simp
  qed
  then have "filled ?c 1 ?M1"
    using down pows by (simp add: filled_def)
  then have "filled ?c 8 (makeM8_up 2 ?M1)"
    using filled_up [of ?c 1 ?M1] by simp
  then show ?thesis
    by (auto simp: makeM8_def H [simplified] Let_def filled_def wf_table_update nth_list_update lin_def)
qed

section \<open>\<open>GHASH_8BIT\<close> multiplies in the field\<close>

lemma gsum_rev: "gsum n f = gsum n (\<lambda>i. f (n - Suc i))"
proof (induction n)
  case (Suc n)
  have "gsum (Suc n) (\<lambda>i. f (Suc n - Suc i)) = f n XOR gsum n (\<lambda>i. f (n - Suc i))"
    by (simp only: gsum_shift) simp
  then show ?case
    by (simp add: Suc.IH [symmetric] xor.commute)
qed simp

definition byte_term :: "u128 \<Rightarrow> u128 \<Rightarrow> nat \<Rightarrow> u128" where
  "byte_term X H i = gsum 8 (\<lambda>d. if bit X (8 * i + d) then (gf_x ^^ (7 - d)) H else 0)"

lemma gf_mult_bytes: "gf_mult X H = gsum 16 (\<lambda>t. (gf_x ^^ (8 * (15 - t))) (byte_term X H t))"
proof -
  have "gf_mult X H = gsum (8 * 16) (\<lambda>i. if bit X i then (gf_x ^^ (127 - i)) H else 0)"
    unfolding gf_mult_gsum
    by (subst gsum_rev) (rule gsum_cong, simp, use Suc_diff_Suc in auto)
  also have "\<dots> = gsum 16 (\<lambda>t. gsum 8 (\<lambda>d. if bit X (8 * t + d)
      then (gf_x ^^ (127 - (8 * t + d))) H else 0))"
    by (rule gsum_groups)
  also have "\<dots> = gsum 16 (\<lambda>t. (gf_x ^^ (8 * (15 - t))) (byte_term X H t))"
    unfolding byte_term_def gf_xs_gsum
  proof (intro gsum_cong refl)
    fix t d :: nat assume "t < 16" "d < 8"
    then have e: "127 - (8 * t + d) = 8 * (15 - t) + (7 - d)"
      by simp
    show "(if bit X (8 * t + d) then (gf_x ^^ (127 - (8 * t + d))) H else 0) =
        (gf_x ^^ (8 * (15 - t))) (if bit X (8 * t + d) then (gf_x ^^ (7 - d)) H else 0)"
      unfolding e by (simp add: funpow_add)
  qed
  finally show ?thesis .
qed

lemma byte_of_block:
  assumes "i < 16" and "d < 8"
  shows "bit (unat (drop_bit ((i mod 4) * 8) (Z ! (3 - i div 4)) AND 0xFF)) d = bit (blk128 Z) (8 * i + d)"
proof -
  have m: "(0xFF :: u32) = mask 8"
    by (simp add: mask_eq_exp_minus_1)
  have e: "8 * i + d = 32 * (i div 4) + (8 * (i mod 4) + d)"
    by presburger
  have r: "8 * (i mod 4) + d < 32"
    using assms by presburger
  have "(8 * i + d) div 32 = i div 4" "(8 * i + d) mod 32 = 8 * (i mod 4) + d"
    unfolding e using r by (rule div32, rule mod32)
  moreover have "8 * i + d < 128"
    using assms by simp
  ultimately show ?thesis
    unfolding m using assms
    by (simp add: bit_blk128 bit_unsigned_iff bit_and_iff bit_mask_iff bit_drop_bit_eq mult.commute)
qed

lemma unat_and_FF [simp]: "unat (w AND 0xFF :: u32) < 256"
proof -
  have "w AND 0xFF \<le> 0xFF"
    by (rule word_and_le1)
  then show ?thesis
    by (simp add: word_le_nat_alt)
qed

lemma unat_ucast_128: "unat (ucast (w :: u32) :: u128) = unat w"
  by (rule bit_eqI) (auto simp: bit_unsigned_iff bit_ucast_iff dest: bit_imp_le_length)

lemma table_byte:
  assumes "wf_table M" and "\<forall>b < 256. blk128 (M ! b) = lin 8 (\<lambda>d. (gf_x ^^ (7 - d)) H) b"
    and "i < 16"
  shows "blk128 (M ! unat (drop_bit ((i mod 4) * 8) (Z ! (3 - i div 4)) AND 0xFF)) =
    byte_term (blk128 Z) H i"
  using assms by (simp add: lin_def byte_term_def byte_of_block)

lemma GHASH_step_ok:
  assumes "wf_table M" and "\<forall>b < 256. blk128 (M ! b) = lin 8 (\<lambda>d. (gf_x ^^ (7 - d)) H) b"
    and "i < 16"
  shows "length (GHASH_step M R8 Z i W) = 4 \<and>
    blk128 (GHASH_step M R8 Z i W) = (gf_x ^^ 8) (blk128 W XOR byte_term (blk128 Z) H i)"
proof -
  let ?W = "XOR128 W (M ! unat (drop_bit ((i mod 4) * 8) (Z ! (3 - i div 4)) AND 0xFF))"
  have W: "blk128 ?W = blk128 W XOR byte_term (blk128 Z) H i"
    by (simp only: blk128_XOR128 table_byte [OF assms])
  have "unat (take_bit 8 (blk128 ?W)) = unat (?W ! 3 AND 0xFF)"
    by (simp add: low_byte_blk128 unat_ucast_128)
  then have "blk128 (GHASH_step M R8 Z i W) = (gf_x ^^ 8) (blk128 ?W)"
    by (simp add: GHASH_step_def Let_def blk128_update0 blk128_SHIFTR R8_reduces)
  then show ?thesis
    by (simp add: W) (simp add: GHASH_step_def Let_def)
qed

lemma GHASH_fold_ok:
  assumes "wf_table M" and "\<forall>b < 256. blk128 (M ! b) = lin 8 (\<lambda>d. (gf_x ^^ (7 - d)) H) b"
    and "n \<le> 15"
  shows "blk128 (fold (GHASH_step M R8 Z) [0..<n] [0, 0, 0, 0]) =
    gsum n (\<lambda>t. (gf_x ^^ (8 * (n - t))) (byte_term (blk128 Z) H t))"
  using assms(3)
proof (induction n)
  case (Suc n)
  let ?B = "byte_term (blk128 Z) H"
  have "blk128 (fold (GHASH_step M R8 Z) [0..<Suc n] [0, 0, 0, 0]) =
      (gf_x ^^ 8) (gsum n (\<lambda>t. (gf_x ^^ (8 * (n - t))) (?B t)) XOR ?B n)"
    using Suc GHASH_step_ok [OF assms(1,2)] by simp
  also have "\<dots> = gsum (Suc n) (\<lambda>t. (gf_x ^^ (8 * (Suc n - t))) (?B t))"
  proof -
    have "(gf_x ^^ 8) ((gf_x ^^ (8 * (n - t))) v) = (gf_x ^^ (8 * (Suc n - t))) v" if "t < n" for t v
    proof -
      have "8 * (Suc n - t) = 8 + 8 * (n - t)"
        using that by simp
      then show ?thesis
        by (simp only: funpow_add comp_apply)
    qed
    then show ?thesis
      by (simp add: gf_xs_xor gf_xs_gsum)
  qed
  finally show ?case .
qed simp

lemma GHASH_8BIT_ok:
  assumes "length H = 4" and "wf_table M"
  shows "blk128 (GHASH_8BIT out inp (makeM8 M H) R8) =
    gf_mult (blk128 out XOR blk128 inp) (blk128 H)"
proof -
  let ?T = "makeM8 M H" and ?Z = "XOR128 out inp"
  note T = makeM8_ok [OF assms]
  have "blk128 (GHASH_8BIT out inp ?T R8) =
      blk128 (fold (GHASH_step ?T R8 ?Z) [0..<15] [0, 0, 0, 0]) XOR
      blk128 (?T ! unat (drop_bit 24 (?Z ! 0) AND 0xFF))"
    by (simp add: GHASH_8BIT_def Let_def blk128_XOR128)
  also have "blk128 (?T ! unat (drop_bit 24 (?Z ! 0) AND 0xFF)) = byte_term (blk128 ?Z) (blk128 H) 15"
    using table_byte [of ?T "blk128 H" 15 ?Z] T by simp
  also have "blk128 (fold (GHASH_step ?T R8 ?Z) [0..<15] [0, 0, 0, 0]) =
      gsum 15 (\<lambda>t. (gf_x ^^ (8 * (15 - t))) (byte_term (blk128 ?Z) (blk128 H) t))"
    using T by (intro GHASH_fold_ok) auto
  also have "\<dots> XOR byte_term (blk128 ?Z) (blk128 H) 15 = gf_mult (blk128 ?Z) (blk128 H)"
  proof -
    have "gsum 16 f = gsum 15 f XOR f 15" for f :: "nat \<Rightarrow> u128"
      using gsum.simps(2) [of 15 f] by simp
    then show ?thesis
      by (simp add: gf_mult_bytes)
  qed
  finally show ?thesis
    by (simp add: blk128_XOR128)
qed

lemma length_GHASH_8BIT [simp, len_simps]: "length (GHASH_8BIT out inp M R) = 4"
  by (simp add: GHASH_8BIT_def Let_def)

text \<open>A block is determined by its 128-bit value.\<close>

lemma blk128_inject:
  assumes "length a = 4" and "length b = 4"
  shows "blk128 a = blk128 b \<longleftrightarrow> a = b"
proof
  assume eq: "blk128 a = blk128 b"
  show "a = b"
  proof (rule nth_equalityI)
    fix i assume "i < length a"
    then have i: "i < 4"
      using assms by simp
    show "a ! i = b ! i"
    proof (rule bit_word_eqI)
      fix r :: nat assume "r < LENGTH(32)"
      then have "32 * (3 - i) + r < 128"
        using i by simp
      with \<open>r < LENGTH(32)\<close> have at: "bit (blk128 c) (32 * (3 - i) + r) \<longleftrightarrow> bit (c ! i) r" for c
        using i div32 [of r "3 - i"] mod32 [of r "3 - i"] by (simp add: bit_blk128)
      then show "bit (a ! i) r \<longleftrightarrow> bit (b ! i) r"
        using eq at [of a] at [of b] by simp
    qed
  qed (use assms in simp)
qed simp

section \<open>What GHASH satisfies\<close>

text \<open>\<open>makeM8\<close> fills all 256 rows of the table, and the row of a byte is the sum of
  the multiples \<open>x^(7-d) * H\<close> over the bits \<open>d\<close> of the byte, multiplication by x being
  that of GF(2^128).\<close>

theorem makeM8_table:
  assumes "length H = 4" and "b < 256"
  shows "length (makeM8 (replicate 256 ZERO128) H ! b) = 4 \<and>
    blk128 (makeM8 (replicate 256 ZERO128) H ! b) =
      gsum 8 (\<lambda>d. if bit b d then (gf_x ^^ (7 - d)) (blk128 H) else 0)"
  using makeM8_ok [OF assms(1), of "replicate 256 ZERO128"] assms(2)
  by (simp add: wf_table_def [of "replicate 256 ZERO128"] lin_def wf_tableD)

theorem makeM8_table_witness:
  "length (makeM8 (replicate 256 ZERO128) [1, 2, 3, 4] ! 200) = 4 \<and>
    blk128 (makeM8 (replicate 256 ZERO128) [1, 2, 3, 4] ! 200) =
      gsum 8 (\<lambda>d. if bit (200 :: nat) d then (gf_x ^^ (7 - d)) (blk128 [1, 2, 3, 4]) else 0)"
  by (rule makeM8_table) simp_all

text \<open>C1: \<open>GHASH_8BIT\<close> with the table of \<open>makeM8\<close> and the reduction table \<open>R8\<close> adds the
  block to the hash and multiplies by \<open>H\<close>: fifteen table steps of eight bits each
  compute the same product as the bit-by-bit multiplication of the standard.\<close>

theorem GHASH_8BIT_multiplies:
  assumes "length H = 4"
  shows "blk128 (GHASH_8BIT out inp (makeM8 (replicate 256 ZERO128) H) R8) =
    gf_mult (blk128 out XOR blk128 inp) (blk128 H)"
  by (rule GHASH_8BIT_ok [OF assms]) (simp add: wf_table_def)

theorem GHASH_8BIT_multiplies_witness:
  "blk128 (GHASH_8BIT [0, 0, 0, 1] [5, 6, 7, 8] (makeM8 (replicate 256 ZERO128) [1, 2, 3, 4]) R8) =
    gf_mult (blk128 [0, 0, 0, 1] XOR blk128 [5, 6, 7, 8]) (blk128 [1, 2, 3, 4])"
  by (rule GHASH_8BIT_multiplies) simp

end
