(* ===== verification/SeedGcm.thy ===== *)
theory SeedGcm
  imports Ghash
begin

text \<open>
  \<open>SEED_GCM_Encryption\<close> and \<open>SEED_GCM_Decryption\<close> of \<open>KISA_SEED_GCM.c\<close>. A buffer and
  its length argument are one byte list; the loop over \<open>pt + i\<close> is a recursion on
  the bytes that are left. The loop counters are unsigned, so that a length above
  \<open>2^32 - 16\<close> never ends the loop; \<open>ctLen - macLen\<close> wraps when the ciphertext is
  shorter than its tag, and the first iteration then reads past it. Both are
  outcomes of the model. The buffers the caller passes for the output are taken
  to be large enough and not to overlap the inputs.
\<close>

section \<open>The loop counter\<close>

text \<open>The values of \<open>i\<close> in \<open>for (i = 0; i < n; i += 16)\<close>, \<open>None\<close> when it does not end.\<close>

partial_function (option) loop16 :: "u32 \<Rightarrow> u32 \<Rightarrow> u32 list option" where
  "loop16 i n =
    (if i < n then
       Option.bind (loop16 (i + 16) n) (\<lambda>js. Some (i # js))
     else Some [])"

definition loop_bound :: nat where
  "loop_bound = 2 ^ 32 - 16"

section \<open>The loops\<close>

function ghash_loop :: "blk list \<Rightarrow> blk \<Rightarrow> u8 list \<Rightarrow> blk" where
  "ghash_loop M8 GHASH_out bs =
    (if bs = [] then GHASH_out
     else let n = (if length bs < 16 then length bs else 16);
              GHASH_in = Byte2Word ZERO128 bs n
          in ghash_loop M8 (GHASH_8BIT GHASH_out GHASH_in M8 R8) (drop 16 bs))"
  by pat_completeness auto
termination
  by (relation "measure (\<lambda>(M, z, bs). length bs)") auto

function gctr_loop :: "u32 list \<Rightarrow> blk \<Rightarrow> u8 list \<Rightarrow> u8 list" where
  "gctr_loop rKey GCTR_in bs =
    (if bs = [] then []
     else let GCTR_in = INCREASE GCTR_in;
              GCTR_out = SEED_Encrypt GCTR_in rKey;
              n = (if length bs < 16 then length bs else 16);
              tmp = Byte2Word ZERO128 bs n;
              GCTR_out = XOR128 GCTR_out tmp
          in Word2Byte GCTR_out n @ gctr_loop rKey GCTR_in (drop 16 bs))"
  by pat_completeness auto
termination
  by (relation "measure (\<lambda>(k, c, bs). length bs)") auto

declare ghash_loop.simps [simp del] gctr_loop.simps [simp del]

section \<open>The two operations\<close>

definition gcm_J0 :: "blk list \<Rightarrow> u8 list \<Rightarrow> blk" where
  "gcm_J0 M8 nonce =
    (if length nonce = 12 then (Byte2Word ZERO128 nonce 12)[3 := 1]
     else let GCTR_in = ghash_loop M8 ZERO128 nonce;
              tmp = ZERO128[3 := push_bit 3 (of_nat (length nonce))]
          in GHASH_8BIT GCTR_in tmp M8 R8)"

definition gcm_tag :: "blk list \<Rightarrow> blk \<Rightarrow> u8 list \<Rightarrow> u8 list \<Rightarrow> blk" where
  "gcm_tag M8 Z aad ct =
    (let GHASH_out = ghash_loop M8 ZERO128 aad;
         GHASH_out = ghash_loop M8 GHASH_out ct;
         GHASH_in = ZERO128[1 := push_bit 3 (of_nat (length aad)), 3 := push_bit 3 (of_nat (length ct))];
         GHASH_out = GHASH_8BIT GHASH_out GHASH_in M8 R8
     in XOR128 GHASH_out Z)"

definition nonce_loops :: "u8 list \<Rightarrow> bool" where
  "nonce_loops nonce \<longleftrightarrow> length nonce \<noteq> 12 \<and> loop_bound < length nonce"

definition SEED_GCM_Encryption ::
  "u8 list \<Rightarrow> u32 \<Rightarrow> u8 list \<Rightarrow> u8 list \<Rightarrow> u8 list \<Rightarrow> c_fault + aead_result" where
  "SEED_GCM_Encryption pt macLen nonce aad mKey =
    (if macLen > 16 then Inr \<lparr>ret = 1, buf = [], bufLen = Some 0\<rparr>
     else
       let rKey = SEED_KeySched mKey;
           H = SEED_Encrypt ZERO128 rKey;
           M8 = makeM8 (replicate 256 ZERO128) H
       in if nonce_loops nonce then Inl No_return
       else
         let GCTR_in = gcm_J0 M8 nonce;
             Z = SEED_Encrypt GCTR_in rKey
         in if loop_bound < length pt \<or> loop_bound < length aad then Inl No_return
         else
           let ct = gctr_loop rKey GCTR_in pt;
               GHASH_out = gcm_tag M8 Z aad ct
           in Inr \<lparr>ret = 0, buf = ct @ Word2Byte GHASH_out (unat macLen),
                   bufLen = Some (of_nat (length pt) + macLen)\<rparr>)"

definition SEED_GCM_Decryption ::
  "u8 list \<Rightarrow> u32 \<Rightarrow> u8 list \<Rightarrow> u8 list \<Rightarrow> u8 list \<Rightarrow> c_fault + aead_result" where
  "SEED_GCM_Decryption ct macLen nonce aad mKey =
    (if macLen > 16 then Inr \<lparr>ret = 1, buf = [], bufLen = Some 0\<rparr>
     else
       let rKey = SEED_KeySched mKey;
           H = SEED_Encrypt ZERO128 rKey;
           M8 = makeM8 (replicate 256 ZERO128) H
       in if nonce_loops nonce then Inl No_return
       else
         let GCTR_in = gcm_J0 M8 nonce;
             Z = SEED_Encrypt GCTR_in rKey
         in if length ct < unat macLen then Inl Out_of_bounds
         else
           let n = length ct - unat macLen
           in if loop_bound < n \<or> loop_bound < length aad then Inl No_return
           else
             let pt = gctr_loop rKey GCTR_in (take n ct);
                 GHASH_out = gcm_tag M8 Z aad (take n ct);
                 MAC = Word2Byte GHASH_out (unat macLen)
             in if list_ex (\<lambda>i. MAC ! i \<noteq> ct ! (n + i)) [0..<unat macLen]
                then Inr \<lparr>ret = 1, buf = replicate n 0, bufLen = None\<rparr>
                else Inr \<lparr>ret = 0, buf = pt, bufLen = Some (of_nat (length ct) - macLen)\<rparr>)"

section \<open>When the loops end\<close>

lemma loop_bound_eq: "loop_bound = 4294967280"
  by (simp add: loop_bound_def)

lemma word_less_of_nat:
  "m < 4294967296 \<Longrightarrow> n < 4294967296 \<Longrightarrow> (of_nat m :: u32) < of_nat n \<longleftrightarrow> m < n"
  by (simp add: word_less_nat_alt unat_of_nat take_bit_nat_eq_self)

lemma loop16_ends_from:
  assumes "n \<le> loop_bound" and "j \<le> nblocks n"
  shows "loop16 (of_nat (16 * j)) (of_nat n) = Some (map (\<lambda>k. of_nat (16 * k)) [j..<nblocks n])"
  using assms(2)
proof (induction "nblocks n - j" arbitrary: j)
  case 0
  then have j: "j = nblocks n"
    by simp
  have le: "n \<le> 16 * j" and b: "16 * j < 4294967296" "n < 4294967296"
    using assms(1) unfolding j nblocks_def loop_bound_eq by presburger+
  have "\<not> (of_nat (16 * j) :: u32) < of_nat n"
    unfolding word_less_of_nat [OF b] using le by (rule leD)
  then have "loop16 (of_nat (16 * j)) (of_nat n) = Some []"
    by (subst loop16.simps) (simp only: if_False)
  then show ?case
    by (simp only: j upt_conv_Nil order_refl list.map)
next
  case (Suc d)
  then have j: "j < nblocks n"
    by simp
  then have "16 * Suc j \<le> 16 * ((n + 15) div 16)"
    by (simp add: nblocks_def)
  also have "\<dots> \<le> n + 15"
    by simp
  finally have "16 * j < n"
    by simp
  moreover have "n < 4294967296"
    using assms(1) by (simp add: loop_bound_eq)
  ultimately have "(of_nat (16 * j) :: u32) < of_nat n"
    by (subst word_less_of_nat) linarith+
  moreover have "(of_nat (16 * j) :: u32) + 16 = of_nat (16 * Suc j)"
    by simp
  ultimately have "loop16 (of_nat (16 * j)) (of_nat n) =
      Option.bind (loop16 (of_nat (16 * Suc j)) (of_nat n)) (\<lambda>js. Some (of_nat (16 * j) # js))"
    by (subst loop16.simps) (simp only: if_True)
  also have "loop16 (of_nat (16 * Suc j)) (of_nat n) =
      Some (map (\<lambda>k. of_nat (16 * k)) [Suc j..<nblocks n])"
    using Suc.hyps(2) j by (intro Suc.hyps(1)) simp_all
  finally show ?case
    by (simp only: upt_conv_Cons [OF j] list.map Option.bind.simps)
qed

lemma loop16_runs_on:
  assumes "loop_bound < unat n" and "16 dvd unat i"
  shows "loop16 i n = None"
proof (rule ccontr)
  assume "loop16 i n \<noteq> None"
  then obtain js where "loop16 i n = Some js"
    by blast
  then have "\<not> (loop_bound < unat n \<and> 16 dvd unat i)"
  proof (induction rule: loop16.raw_induct [rotated 1, consumes 1])
    case (1 loop i n js)
    show ?case
    proof
      assume *: "loop_bound < unat n \<and> 16 dvd unat i"
      then obtain q where q: "unat i = 16 * q"
        by (auto simp: dvd_def)
      have "unat i < 2 ^ 32"
        using unsigned_less [of i] by simp
      then have "unat i \<le> loop_bound"
        using q unfolding loop_bound_eq by simp
      then have "i < n"
        using * by (simp add: word_less_nat_alt)
      then obtain ks where "loop (i + 16) n = Some ks"
        using 1(2) by (auto simp: Option.bind_eq_Some_conv)
      moreover have "16 dvd unat (i + 16)"
        using * by (simp add: unat_word_ariths dvd_mod)
      ultimately show False
        using 1(1) * by blast
    qed
  qed
  with assms show False
    by simp
qed

section \<open>The counter loop adds a key stream\<close>

lemma gctr_loop_stream:
  "gctr_loop rKey c bs =
    xorl bs (keystream (seed_ks rKey) INCREASE c (nblocks (length bs)))"
proof (rule chunked_stream)
  show "gctr_loop rKey c [] = []" for c
    by (simp add: gctr_loop.simps)
  show "gctr_loop rKey c bs =
      xorl (take 16 bs) (seed_ks rKey (INCREASE c)) @ gctr_loop rKey (INCREASE c) (drop 16 bs)"
    if "bs \<noteq> []" for c bs
    using that
    by (subst gctr_loop.simps) (simp add: Let_def stream_chunk take_min_length seed_ks_def)
qed simp

lemma length_gctr_loop [simp, len_simps]: "length (gctr_loop rKey c bs) = length bs"
  using nblocks_cover [of "length bs"] by (simp add: gctr_loop_stream length_keystream)

lemma gctr_loop_twice: "gctr_loop rKey c (gctr_loop rKey c bs) = bs"
  unfolding gctr_loop_stream [of rKey c "gctr_loop rKey c bs"] length_gctr_loop
  unfolding gctr_loop_stream
  by (rule keystream_twice) simp

section \<open>GHASH of a message\<close>

text \<open>Sixteen bytes as a field element, and the hash of the standard over padded blocks.\<close>

definition block_of :: "u8 list \<Rightarrow> u128" where
  "block_of bs = blk128 [be32 (bs ! 0) (bs ! 1) (bs ! 2) (bs ! 3), be32 (bs ! 4) (bs ! 5) (bs ! 6) (bs ! 7),
    be32 (bs ! 8) (bs ! 9) (bs ! 10) (bs ! 11), be32 (bs ! 12) (bs ! 13) (bs ! 14) (bs ! 15)]"

function ghash_spec :: "u128 \<Rightarrow> u128 \<Rightarrow> u8 list \<Rightarrow> u128" where
  "ghash_spec H y bs =
    (if bs = [] then y
     else ghash_spec H (gf_mult (y XOR block_of (pad16 (take 16 bs))) H) (drop 16 bs))"
  by pat_completeness auto
termination
  by (relation "measure (\<lambda>(h, y, bs). length bs)") auto

declare ghash_spec.simps [simp del]

lemma block_of_wbytes:
  assumes "length b = 4"
  shows "block_of (wbytes b) = blk128 b"
proof -
  obtain a0 a1 a2 a3 where b: "b = [a0, a1, a2, a3]"
    using assms by (auto simp: length_Suc_conv eval_nat_numeral)
  show ?thesis
    by (simp add: block_of_def b nth_wbytes)
qed

lemma blk128_chunk:
  assumes "n \<le> 16" and "n \<le> length bs"
  shows "blk128 (Byte2Word ZERO128 bs n) = block_of (pad16 (take n bs))"
  using wbytes_Byte2Word [OF assms] block_of_wbytes [of "Byte2Word ZERO128 bs n"] by simp

lemma wf_zero_table: "wf_table (replicate 256 ZERO128)"
  by (simp add: wf_table_def)

lemma ghash_loop_spec:
  assumes "length H = 4"
  shows "blk128 (ghash_loop (makeM8 (replicate 256 ZERO128) H) y bs) =
    ghash_spec (blk128 H) (blk128 y) bs"
proof (induction "length bs" arbitrary: y bs rule: less_induct)
  case less
  let ?M = "makeM8 (replicate 256 ZERO128) H"
  show ?case
  proof (cases "bs = []")
    case False
    let ?n = "if length bs < 16 then length bs else 16"
    let ?y = "GHASH_8BIT y (Byte2Word ZERO128 bs ?n) ?M R8"
    have y: "blk128 ?y = gf_mult (blk128 y XOR block_of (pad16 (take 16 bs))) (blk128 H)"
      by (simp only: GHASH_8BIT_ok [OF assms wf_zero_table])
        (simp add: blk128_chunk take_min_length)
    have "blk128 (ghash_loop ?M y bs) = blk128 (ghash_loop ?M ?y (drop 16 bs))"
      using False by (subst ghash_loop.simps) (simp add: Let_def)
    also have "\<dots> = ghash_spec (blk128 H) (blk128 ?y) (drop 16 bs)"
      using False by (intro less) simp
    also have "\<dots> = ghash_spec (blk128 H) (blk128 y) bs"
      unfolding y using False by (subst (2) ghash_spec.simps) simp
    finally show ?thesis .
  qed (simp add: ghash_loop.simps ghash_spec.simps)
qed

lemma length_ghash_loop: "length y = 4 \<Longrightarrow> length (ghash_loop M y bs) = 4"
proof (induction "length bs" arbitrary: y bs rule: less_induct)
  case less
  then show ?case
    by (subst ghash_loop.simps) (simp add: Let_def)
qed

section \<open>The mode of the standard, with a 12-byte nonce\<close>

text \<open>The counter block \<open>nonce || i\<close>, and the sixteen bytes of a field element.\<close>

definition gcm_block :: "u8 list \<Rightarrow> u32 \<Rightarrow> blk" where
  "gcm_block nonce i =
    [be32 (nonce ! 0) (nonce ! 1) (nonce ! 2) (nonce ! 3), be32 (nonce ! 4) (nonce ! 5) (nonce ! 6) (nonce ! 7),
     be32 (nonce ! 8) (nonce ! 9) (nonce ! 10) (nonce ! 11), i]"

definition bytes128 :: "u128 \<Rightarrow> u8 list" where
  "bytes128 w = map (\<lambda>k. ucast (drop_bit (8 * (15 - k)) w)) [0..<16]"

definition gcm_std_ct :: "u32 list \<Rightarrow> u8 list \<Rightarrow> u8 list \<Rightarrow> u8 list" where
  "gcm_std_ct rKey nonce pt =
    xorl pt (concat (map (\<lambda>j. seed_ks rKey (gcm_block nonce (of_nat (j + 2)))) [0..<nblocks (length pt)]))"

definition gcm_std_tag :: "u32 list \<Rightarrow> u8 list \<Rightarrow> u8 list \<Rightarrow> u8 list \<Rightarrow> u128" where
  "gcm_std_tag rKey nonce aad ct =
    (let H = blk128 (SEED_Encrypt ZERO128 rKey);
         Y = ghash_spec H (ghash_spec H 0 aad) ct;
         L = word_cat (of_nat (8 * length aad) :: 64 word) (of_nat (8 * length ct) :: 64 word)
     in gf_mult (Y XOR L) H XOR blk128 (SEED_Encrypt (gcm_block nonce 1) rKey))"

lemma wbytes_bytes128:
  assumes "length b = 4"
  shows "wbytes b = bytes128 (blk128 b)"
proof (rule nth_equalityI)
  fix k assume "k < length (wbytes b)"
  then have k: "k < 16"
    using assms by simp
  have "byte_of (3 - k mod 4) (b ! (k div 4)) = ucast (drop_bit (8 * (15 - k)) (blk128 b))"
  proof (rule bit_word_eqI)
    fix n :: nat assume "n < LENGTH(8)"
    then have n: "n < 8"
      by simp
    define q r where "q = k div 4" and "r = k mod 4"
    have qr: "k = 4 * q + r" "q < 4" "r < 4"
      using k by (auto simp: q_def r_def)
    have "8 * (15 - k) + n = 32 * (3 - q) + (8 * (3 - r) + n)"
      unfolding qr(1) using qr(2,3) by arith
    then have e: "8 * (15 - k) + n = 32 * (3 - k div 4) + (8 * (3 - k mod 4) + n)"
      unfolding q_def r_def .
    have r: "8 * (3 - k mod 4) + n < 32" and lt: "8 * (15 - k) + n < 128"
      using n by simp_all
    have "(8 * (15 - k) + n) div 32 = 3 - k div 4" "(8 * (15 - k) + n) mod 32 = 8 * (3 - k mod 4) + n"
      unfolding e using r by (rule div32, rule mod32)
    moreover have "3 - (3 - k div 4) = k div 4"
      using qr by (simp add: q_def)
    ultimately show "bit (byte_of (3 - k mod 4) (b ! (k div 4))) n \<longleftrightarrow>
        bit (ucast (drop_bit (8 * (15 - k)) (blk128 b)) :: u8) n"
      using lt n by (simp add: bit_byte_of bit_ucast_iff bit_drop_bit_eq bit_blk128)
  qed
  then show "wbytes b ! k = bytes128 (blk128 b) ! k"
    using k assms by (simp add: nth_wbytes bytes128_def)
qed (simp add: assms bytes128_def)

lemma Byte2Word_nonce:
  assumes "length nonce = 12"
  shows "(Byte2Word ZERO128 nonce 12)[3 := i] = gcm_block nonce i"
proof -
  let ?b = "Byte2Word ZERO128 nonce 12"
  have nth: "wbytes ?b ! k = nonce ! k" if "k < 12" for k
    using wbytes_Byte2Word [of 12 nonce] assms that by (simp add: pad16_def nth_append)
  have "?b ! j = be32 (nonce ! (4 * j)) (nonce ! (4 * j + 1)) (nonce ! (4 * j + 2)) (nonce ! (4 * j + 3))"
    if "j < 3" for j
  proof -
    have "byte_of (3 - r) (?b ! j) = nonce ! (4 * j + r)" if "r < 4" for r
    proof -
      have "(4 * j + r) div 4 = j" "(4 * j + r) mod 4 = r"
        using \<open>r < 4\<close> by simp_all
      then show ?thesis
        using nth [of "4 * j + r"] nth_wbytes [of "4 * j + r" ?b] that \<open>j < 3\<close> by simp
    qed
    from this [of 0] this [of 1] this [of 2] this [of 3] show ?thesis
      by (simp add: word_eq_bytes)
  qed
  note words = this [of 0] this [of 1] this [of 2]
  obtain b0 b1 b2 b3 where b: "?b = [b0, b1, b2, b3]"
    by (rule list4 [of ?b]) auto
  show ?thesis
    using words unfolding b by (simp add: gcm_block_def Suc_Suc_0)
qed

lemma INCREASE_gcm_block: "i \<noteq> 0xFFFFFFFF \<Longrightarrow> INCREASE (gcm_block nonce i) = gcm_block nonce (i + 1)"
  by (simp add: INCREASE_def gcm_block_def)

lemma INCREASE_gcm_blocks:
  "j < 2 ^ 31 \<Longrightarrow> (INCREASE ^^ j) (gcm_block nonce 1) = gcm_block nonce (of_nat (j + 1))"
proof (induction j)
  case (Suc j)
  have "unat (of_nat (j + 1) :: u32) = j + 1"
    using Suc.prems by (subst unat_of_nat) simp
  then have "(of_nat (j + 1) :: u32) \<noteq> 0xFFFFFFFF"
    using Suc.prems by (auto simp: word_unat_eq_iff)
  then show ?case
    using Suc by (simp add: INCREASE_gcm_block)
qed simp

lemma length_block:
  assumes "a < 2 ^ 29" and "c < 2 ^ 29"
  shows "blk128 (ZERO128[1 := push_bit 3 (of_nat a), 3 := push_bit 3 (of_nat c)]) =
    word_cat (of_nat (8 * a) :: 64 word) (of_nat (8 * c) :: 64 word)"
proof -
  have "word_cat (0 :: u32) (push_bit 3 (of_nat n) :: u32) = (of_nat (8 * n) :: 64 word)"
    if "n < 2 ^ 29" for n
  proof -
    have "n < 2 ^ m" if "29 \<le> m" for m
      using \<open>n < 2 ^ 29\<close> power_increasing [OF that, of "2 :: nat"] by simp
    then have low: "m < 29" if "bit n m" for m
      using that by (metis bit_iff_odd div_less even_zero not_less)
    have e: "8 * n = push_bit 3 n"
      by (simp add: push_bit_eq_mult)
    show ?thesis
      unfolding e
      by (rule bit_word_eqI)
        (auto simp: bit_word_cat_iff bit_push_bit_iff bit_ucast_iff bit_of_nat_iff not_less dest: low)
  qed
  then show ?thesis
    using assms by (simp add: blk128_def ZERO128_def)
qed

lemma gcm_J0_12: "length nonce = 12 \<Longrightarrow> gcm_J0 M8 nonce = gcm_block nonce 1"
  by (simp add: gcm_J0_def Byte2Word_nonce)

lemma length_SHORT: "length (ZERO128[i := x, j := y]) = 4"
  by simp

lemma gcm_tag_std:
  assumes "length nonce = 12" and "length aad < 2 ^ 29" and "length ct < 2 ^ 29"
  shows "gcm_tag (makeM8 (replicate 256 ZERO128) (SEED_Encrypt ZERO128 rKey))
      (SEED_Encrypt (gcm_block nonce 1) rKey) aad ct = X \<longleftrightarrow>
    length X = 4 \<and> blk128 X = gcm_std_tag rKey nonce aad ct"
proof -
  let ?H = "SEED_Encrypt ZERO128 rKey"
  let ?t = "gcm_tag (makeM8 (replicate 256 ZERO128) ?H) (SEED_Encrypt (gcm_block nonce 1) rKey) aad ct"
  have Z: "blk128 ZERO128 = 0"
    by (simp add: ZERO128_def)
  have "blk128 ?t = gcm_std_tag rKey nonce aad ct"
    unfolding gcm_tag_def gcm_std_tag_def Let_def
    by (simp only: blk128_XOR128 GHASH_8BIT_ok [OF length_SEED(1) wf_zero_table]
        ghash_loop_spec [OF length_SEED(1)] length_block [OF assms(2,3)] Z)
  moreover have "length ?t = 4"
    by (simp add: gcm_tag_def Let_def)
  ultimately show ?thesis
    by (metis blk128_inject)
qed

lemma gctr_loop_std:
  assumes "length pt < 2 ^ 32"
  shows "gctr_loop rKey (gcm_block nonce 1) pt = gcm_std_ct rKey nonce pt"
proof -
  have "(INCREASE ^^ Suc j) (gcm_block nonce 1) = gcm_block nonce (of_nat (j + 2))"
    if "j < nblocks (length pt)" for j
  proof -
    have "16 * nblocks (length pt) \<le> length pt + 15"
      by (simp add: nblocks_def)
    then have "Suc j < 2 ^ 31"
      using assms that by simp
    then show ?thesis
      by (simp only: INCREASE_gcm_blocks) simp
  qed
  then show ?thesis
    unfolding gctr_loop_stream gcm_std_ct_def keystream_concat
    by (intro arg_cong [where f = "xorl pt"] arg_cong [where f = concat] map_cong refl) simp
qed

section \<open>The two operations\<close>

lemma length_gcm_tag [simp, len_simps]: "length (gcm_tag M8 Z aad ct) = 4"
  by (simp add: gcm_tag_def Let_def)

text \<open>Encryption and decryption on every branch, with the working parts named.\<close>

lemma gcm_encrypt_ok:
  fixes pt nonce aad mKey :: "u8 list"
  assumes "macLen \<le> 16" and "\<not> nonce_loops nonce"
    and "length pt \<le> loop_bound" and "length aad \<le> loop_bound"
  defines "rKey \<equiv> SEED_KeySched mKey"
  defines "M8 \<equiv> makeM8 (replicate 256 ZERO128) (SEED_Encrypt ZERO128 rKey)"
  defines "J0 \<equiv> gcm_J0 M8 nonce"
  defines "ct \<equiv> gctr_loop rKey J0 pt"
  shows "SEED_GCM_Encryption pt macLen nonce aad mKey =
    Inr \<lparr>ret = 0,
         buf = ct @ take (unat macLen) (wbytes (gcm_tag M8 (SEED_Encrypt J0 rKey) aad ct)),
         bufLen = Some (of_nat (length pt) + macLen)\<rparr>"
  using assms(1-4) unat_mac [of macLen]
  by (simp add: SEED_GCM_Encryption_def Let_def not_less Word2Byte_wbytes assms(5-))

lemma gcm_decrypt_ok:
  fixes ct nonce aad mKey :: "u8 list"
  assumes "macLen \<le> 16" and "\<not> nonce_loops nonce"
    and "unat macLen \<le> length ct" and "length ct \<le> loop_bound" and "length aad \<le> loop_bound"
  defines "rKey \<equiv> SEED_KeySched mKey"
  defines "M8 \<equiv> makeM8 (replicate 256 ZERO128) (SEED_Encrypt ZERO128 rKey)"
  defines "J0 \<equiv> gcm_J0 M8 nonce"
  defines "n \<equiv> length ct - unat macLen"
  shows "SEED_GCM_Decryption ct macLen nonce aad mKey =
    Inr (if drop n ct = take (unat macLen) (wbytes (gcm_tag M8 (SEED_Encrypt J0 rKey) aad (take n ct)))
      then \<lparr>ret = 0, buf = gctr_loop rKey J0 (take n ct), bufLen = Some (of_nat n)\<rparr>
      else \<lparr>ret = 1, buf = replicate n 0, bufLen = None\<rparr>)"
proof -
  let ?t = "Word2Byte (gcm_tag M8 (SEED_Encrypt J0 rKey) aad (take n ct)) (unat macLen)"
  have t: "?t = take (unat macLen) (wbytes (gcm_tag M8 (SEED_Encrypt J0 rKey) aad (take n ct)))"
    using unat_mac [OF assms(1)] by (simp add: Word2Byte_wbytes)
  have d: "list_ex (\<lambda>i. ?t ! i \<noteq> ct ! (n + i)) [0..<unat macLen] \<longleftrightarrow>
      drop n ct \<noteq> take (unat macLen) (wbytes (gcm_tag M8 (SEED_Encrypt J0 rKey) aad (take n ct)))"
    unfolding t [symmetric] using assms(3) by (intro tag_differs) (simp_all add: n_def)
  have len: "of_nat (length ct) - macLen = (of_nat n :: u32)"
    using of_nat_unat_add [of n macLen] assms(3) by (simp add: n_def)
  have c: "(macLen > 16) = False" "nonce_loops nonce = False" "(length ct < unat macLen) = False"
      "(loop_bound < n \<or> loop_bound < length aad) = False"
    using assms(1-5) by (auto simp: n_def)
  show ?thesis
    unfolding SEED_GCM_Decryption_def Let_def
    by (simp only: c [unfolded n_def] if_False d [unfolded assms(6-9)] len [unfolded n_def] assms(6-9))
      simp
qed

text \<open>C5: the loop counter of every block loop, an unsigned \<open>i\<close> stepped by 16 while
  \<open>i < n\<close>, takes the values 0, 16, 32, ... below \<open>n\<close> and the loop ends, exactly when
  \<open>n\<close> is at most \<open>2^32 - 16\<close>; above that bound the counter wraps to 0 and the loop
  never ends.\<close>

theorem loop16_ends_iff:
  assumes "n < 2 ^ 32"
  shows "loop16 0 (of_nat n) =
    (if n \<le> 2 ^ 32 - 16 then Some (map (\<lambda>k. of_nat (16 * k)) [0..<nblocks n]) else None)"
proof (cases "n \<le> loop_bound")
  case True
  then show ?thesis
    using loop16_ends_from [of n 0] by (simp add: loop_bound_def)
next
  case False
  have "unat (of_nat n :: u32) = n"
    using assms by (simp add: unat_of_nat)
  then show ?thesis
    using False loop16_runs_on [of "of_nat n" 0] by (simp add: loop_bound_def)
qed

theorem loop16_ends_iff_witness:
  "loop16 0 (of_nat 40) = Some [0, 16, 32] \<and> loop16 0 (of_nat 4294967281) = None"
  using loop16_ends_iff [of 40] loop16_ends_iff [of 4294967281]
  by (simp add: nblocks_def upt_rec)

text \<open>A message encrypted by \<open>SEED_GCM_Encryption\<close> is returned unchanged, with
  code 0, by \<open>SEED_GCM_Decryption\<close> under the same key, nonce, associated data and
  tag length, for every length the loops can count.\<close>

theorem gcm_roundtrip:
  assumes "macLen \<le> 16" and "length nonce \<le> loop_bound"
    and "length pt + 16 \<le> loop_bound" and "length aad \<le> loop_bound"
  shows "\<exists>c. SEED_GCM_Encryption pt macLen nonce aad mKey = Inr c \<and> ret c = 0 \<and>
    length (buf c) = length pt + unat macLen \<and>
    SEED_GCM_Decryption (buf c) macLen nonce aad mKey =
      Inr \<lparr>ret = 0, buf = pt, bufLen = Some (of_nat (length pt))\<rparr>"
proof -
  have n: "\<not> nonce_loops nonce"
    using assms(2) by (simp add: nonce_loops_def)
  have m: "unat macLen \<le> 16"
    using assms(1) by (rule unat_mac)
  have pt: "length pt \<le> loop_bound"
    using assms(3) by simp
  note enc = gcm_encrypt_ok [OF assms(1) n pt assms(4), of mKey]
  show ?thesis
  proof (intro exI conjI)
    show "SEED_GCM_Encryption pt macLen nonce aad mKey = Inr (projr (SEED_GCM_Encryption pt macLen nonce aad mKey))"
      unfolding enc by simp
    let ?c = "buf (projr (SEED_GCM_Encryption pt macLen nonce aad mKey))"
    show len: "length ?c = length pt + unat macLen"
      unfolding enc using m by simp
    show "SEED_GCM_Decryption ?c macLen nonce aad mKey =
        Inr \<lparr>ret = 0, buf = pt, bufLen = Some (of_nat (length pt))\<rparr>"
      using gcm_decrypt_ok [OF assms(1) n, of ?c aad mKey] len m assms(3,4)
      by (simp add: enc gctr_loop_twice)
  qed (simp add: enc)
qed

theorem gcm_roundtrip_witness:
  "\<exists>c. SEED_GCM_Encryption [1, 2, 3] 12 (replicate 12 7) [9] (replicate 16 0) = Inr c \<and> ret c = 0 \<and>
    length (buf c) = length [1, 2, 3 :: u8] + unat (12 :: u32) \<and>
    SEED_GCM_Decryption (buf c) 12 (replicate 12 7) [9] (replicate 16 0) =
      Inr \<lparr>ret = 0, buf = [1, 2, 3], bufLen = Some (of_nat (length [1, 2, 3 :: u8]))\<rparr>"
  by (rule gcm_roundtrip) (simp_all add: loop_bound_def)

text \<open>C2: with a 12-byte nonce \<open>SEED_GCM_Encryption\<close> is GCM as the standard defines it
  over SEED: the message is added to the encryptions of the counter blocks
  \<open>nonce || 2, nonce || 3, ...\<close>, and the tag is the leading bytes of GHASH of the
  associated data, the ciphertext and their bit lengths, multiplied bit by bit in
  GF(2^128), plus the encryption of \<open>nonce || 1\<close>.\<close>

theorem gcm_encryption_standard:
  assumes "macLen \<le> 16" and "length nonce = 12"
    and "length pt < 2 ^ 29" and "length aad < 2 ^ 29"
  shows "SEED_GCM_Encryption pt macLen nonce aad mKey =
    (let rKey = SEED_KeySched mKey; ct = gcm_std_ct rKey nonce pt
     in Inr \<lparr>ret = 0, buf = ct @ take (unat macLen) (bytes128 (gcm_std_tag rKey nonce aad ct)),
             bufLen = Some (of_nat (length pt) + macLen)\<rparr>)"
proof -
  have b: "length pt \<le> loop_bound" "length aad \<le> loop_bound" "length pt < 2 ^ 32"
    using assms(3,4) by (simp_all add: loop_bound_eq)
  have n: "\<not> nonce_loops nonce"
    using assms(2) by (simp add: nonce_loops_def)
  let ?rKey = "SEED_KeySched mKey"
  have "wbytes (gcm_tag (makeM8 (replicate 256 ZERO128) (SEED_Encrypt ZERO128 ?rKey))
      (SEED_Encrypt (gcm_block nonce 1) ?rKey) aad (gcm_std_ct ?rKey nonce pt)) =
      bytes128 (gcm_std_tag ?rKey nonce aad (gcm_std_ct ?rKey nonce pt))"
    using assms gcm_tag_std [THEN iffD1, OF _ _ _ refl, of nonce aad "gcm_std_ct ?rKey nonce pt" ?rKey]
    by (simp add: wbytes_bytes128 flip: gctr_loop_std [OF b(3)])
  then show ?thesis
    unfolding gcm_encrypt_ok [OF assms(1) n b(1,2)]
    by (simp add: Let_def gcm_J0_12 [OF assms(2)] gctr_loop_std [OF b(3)])
qed

theorem gcm_encryption_standard_witness:
  "SEED_GCM_Encryption [1, 2, 3] 12 (replicate 12 7) [9] (replicate 16 0) =
    (let rKey = SEED_KeySched (replicate 16 0); ct = gcm_std_ct rKey (replicate 12 7) [1, 2, 3]
     in Inr \<lparr>ret = 0, buf = ct @ take (unat (12 :: u32)) (bytes128 (gcm_std_tag rKey (replicate 12 7) [9] ct)),
             bufLen = Some (of_nat (length [1, 2, 3 :: u8]) + 12)\<rparr>)"
  by (rule gcm_encryption_standard) simp_all

text \<open>C3: with a 12-byte nonce \<open>SEED_GCM_Decryption\<close> returns 0 and the decrypted
  message exactly when the last \<open>macLen\<close> bytes are the tag the standard defines for
  the rest; otherwise it returns 1, has overwritten the whole output with zeros and
  leaves the output length alone.\<close>

theorem gcm_decryption_standard:
  assumes "macLen \<le> 16" and "length nonce = 12"
    and "unat macLen \<le> length ct" and "length ct < 2 ^ 29" and "length aad < 2 ^ 29"
  shows "SEED_GCM_Decryption ct macLen nonce aad mKey =
    (let rKey = SEED_KeySched mKey; n = length ct - unat macLen
     in Inr (if drop n ct = take (unat macLen) (bytes128 (gcm_std_tag rKey nonce aad (take n ct)))
       then \<lparr>ret = 0, buf = gcm_std_ct rKey nonce (take n ct), bufLen = Some (of_nat n)\<rparr>
       else \<lparr>ret = 1, buf = replicate n 0, bufLen = None\<rparr>))"
proof -
  have b: "length ct \<le> loop_bound" "length aad \<le> loop_bound"
      "length (take (length ct - unat macLen) ct) < 2 ^ 32"
    using assms(4,5) by (simp_all add: loop_bound_eq)
  have n: "\<not> nonce_loops nonce"
    using assms(2) by (simp add: nonce_loops_def)
  let ?rKey = "SEED_KeySched mKey" and ?ct = "take (length ct - unat macLen) ct"
  have "wbytes (gcm_tag (makeM8 (replicate 256 ZERO128) (SEED_Encrypt ZERO128 ?rKey))
      (SEED_Encrypt (gcm_block nonce 1) ?rKey) aad ?ct) = bytes128 (gcm_std_tag ?rKey nonce aad ?ct)"
    using assms gcm_tag_std [THEN iffD1, OF _ _ _ refl, of nonce aad ?ct ?rKey]
    by (simp add: wbytes_bytes128)
  then show ?thesis
    unfolding gcm_decrypt_ok [OF assms(1) n assms(3) b(1,2)]
    by (simp add: Let_def gcm_J0_12 [OF assms(2)] gctr_loop_std [OF b(3)])
qed

theorem gcm_decryption_standard_witness:
  "SEED_GCM_Decryption (replicate 20 3) 12 (replicate 12 7) [9] (replicate 16 0) =
    (let rKey = SEED_KeySched (replicate 16 0); n = length (replicate 20 (3 :: u8)) - unat (12 :: u32)
     in Inr (if drop n (replicate 20 3) = take (unat (12 :: u32))
          (bytes128 (gcm_std_tag rKey (replicate 12 7) [9] (take n (replicate 20 3))))
       then \<lparr>ret = 0, buf = gcm_std_ct rKey (replicate 12 7) (take n (replicate 20 3)), bufLen = Some (of_nat n)\<rparr>
       else \<lparr>ret = 1, buf = replicate n 0, bufLen = None\<rparr>))"
  by (rule gcm_decryption_standard) simp_all

text \<open>The refusals of the GCM operations: a tag length above 16 is refused with code 1
  and length 0; a ciphertext shorter than its tag is read out of bounds, because
  \<open>ctLen - macLen\<close> wraps; a message, associated data or non-12-byte nonce longer
  than \<open>2^32 - 16\<close> bytes keeps a loop running for ever.\<close>

theorem gcm_refusals:
  "(macLen > 16 \<longrightarrow>
      SEED_GCM_Encryption pt macLen nonce aad mKey = Inr \<lparr>ret = 1, buf = [], bufLen = Some 0\<rparr> \<and>
      SEED_GCM_Decryption ct macLen nonce aad mKey = Inr \<lparr>ret = 1, buf = [], bufLen = Some 0\<rparr>) \<and>
   (macLen \<le> 16 \<longrightarrow> length nonce = 12 \<longrightarrow> length ct < unat macLen \<longrightarrow>
      SEED_GCM_Decryption ct macLen nonce aad mKey = Inl Out_of_bounds) \<and>
   (macLen \<le> 16 \<longrightarrow> length pt > 2 ^ 32 - 16 \<or> length aad > 2 ^ 32 - 16 \<or>
      (length nonce \<noteq> 12 \<and> length nonce > 2 ^ 32 - 16) \<longrightarrow>
      SEED_GCM_Encryption pt macLen nonce aad mKey = Inl No_return)"
  by (auto simp: SEED_GCM_Encryption_def SEED_GCM_Decryption_def Let_def nonce_loops_def loop_bound_def)

theorem gcm_refusals_witness:
  "SEED_GCM_Encryption [1] 17 [] [] [] = Inr \<lparr>ret = 1, buf = [], bufLen = Some 0\<rparr> \<and>
   SEED_GCM_Decryption [1, 2] 12 (replicate 12 0) [] [] = Inl Out_of_bounds \<and>
   SEED_GCM_Encryption (replicate (2 ^ 32) 0) 12 [] [] [] = Inl No_return"
  using gcm_refusals [of 17 "[1]" "[]" "[]" "[]" "[]"]
    gcm_refusals [of 12 "[]" "replicate 12 0" "[]" "[]" "[1, 2]"]
    gcm_refusals [of 12 "replicate (2 ^ 32) 0" "[]" "[]" "[]" "[]"]
  by simp

lemma word_cat_sum: "(word_cat (a :: u32) (b :: u32) :: 64 word) = of_nat (2 ^ 32 * unat a + unat b)"
proof -
  have "(word_cat a b :: 64 word) = push_bit 32 (ucast a) + ucast b"
    by (simp add: word_cat_eq)
  also have "\<dots> = of_nat (2 ^ 32 * unat a + unat b)"
    by (simp add: push_bit_eq_mult mult.commute)
  finally show ?thesis .
qed

lemma word_cat_carry: "(word_cat (a + 1) (0 :: u32) :: 64 word) = word_cat (a :: u32) (0xFFFFFFFF :: u32) + 1"
proof -
  have "(2 ^ 32 * ((unat a + 1) mod 2 ^ 32)) mod 2 ^ 64 = (2 ^ 32 * (unat a + 1)) mod (2 ^ 64 :: nat)"
    using mult_mod_right [of "2 ^ 32" "unat a + 1" "2 ^ 32 :: nat"] by simp
  then have "(of_nat (2 ^ 32 * ((unat a + 1) mod 2 ^ 32)) :: 64 word) = of_nat (2 ^ 32 * (unat a + 1))"
    by (simp only: word_of_nat_eq_iff take_bit_eq_mod) simp
  moreover have "unat (a + 1) = (unat a + 1) mod 2 ^ 32"
    by (simp add: unat_word_ariths)
  ultimately show ?thesis
    by (simp only: word_cat_sum) simp
qed

lemma word_cat_step:
  "b \<noteq> 0xFFFFFFFF \<Longrightarrow> (word_cat a (b + 1) :: 64 word) = word_cat (a :: u32) (b :: u32) + 1"
proof -
  assume ne: "b \<noteq> 0xFFFFFFFF"
  have "b + 1 \<noteq> 0"
  proof
    assume "b + 1 = 0"
    then have "b = - 1"
      by (simp add: eq_neg_iff_add_eq_0)
    with ne show False
      by simp
  qed
  then have "unat (b + 1) = unat b + 1"
    using unatSuc [of b] by (simp add: add.commute)
  then show ?thesis
    by (simp add: word_cat_sum)
qed
text \<open>\<open>INCREASE\<close> counts in the last two words of the block, as one 64-bit big-endian
  number; it is the 32-bit increment that GCM prescribes exactly when the last word
  is not yet all ones, and otherwise carries into the third word where the standard
  wraps.\<close>

definition inc32 :: "blk \<Rightarrow> blk" where
  "inc32 b = b[3 := b ! 3 + 1]"

theorem INCREASE_counts:
  assumes "length b = 4"
  shows "(word_cat (INCREASE b ! 2) (INCREASE b ! 3) :: 64 word) = word_cat (b ! 2) (b ! 3) + 1 \<and>
    take 2 (INCREASE b) = take 2 b \<and>
    (INCREASE b = inc32 b \<longleftrightarrow> b ! 3 \<noteq> 0xFFFFFFFF)"
proof -
  obtain b0 b1 b2 b3 where b: "b = [b0, b1, b2, b3]"
    using assms by (rule list4)
  have "b2 + 1 \<noteq> b2"
    by simp
  then show ?thesis
    using word_cat_carry [of b2] word_cat_step [of b3 b2]
    by (auto simp: b INCREASE_def inc32_def eval_nat_numeral(2-3))
qed

theorem INCREASE_counts_witness:
  "(word_cat (INCREASE [0, 0, 7, 0xFFFFFFFF] ! 2) (INCREASE [0, 0, 7, 0xFFFFFFFF] ! 3) :: 64 word) =
      word_cat ([0, 0, 7, 0xFFFFFFFF :: u32] ! 2) ([0, 0, 7, 0xFFFFFFFF :: u32] ! 3) + 1 \<and>
    take 2 (INCREASE [0, 0, 7, 0xFFFFFFFF]) = take 2 [0, 0, 7, 0xFFFFFFFF] \<and>
    (INCREASE [0, 0, 7, 0xFFFFFFFF] = inc32 [0, 0, 7, 0xFFFFFFFF] \<longleftrightarrow>
      [0, 0, 7, 0xFFFFFFFF :: u32] ! 3 \<noteq> 0xFFFFFFFF)"
  by (rule INCREASE_counts) simp

end
