(* ===== verification/SeedCcm.thy ===== *)
theory SeedCcm
  imports SeedBlocks
begin

text \<open>
  \<open>SEED_CCM_Encryption\<close> and \<open>SEED_CCM_Decryption\<close> of \<open>KISA_SEED_CCM.c\<close>: counter-mode
  encryption and a CBC-MAC over a formatted first block, the associated data and
  the message. Buffers and lengths are byte lists as in the GCM model; a nonce of
  more than 16 bytes overruns \<open>CTR_in\<close>. The output is taken not to overlap the
  message, which the MAC loop reads after the counter loop has written.
\<close>

section \<open>The loops\<close>

function ccm_ctr_loop :: "u32 list \<Rightarrow> blk \<Rightarrow> u8 list \<Rightarrow> u8 list" where
  "ccm_ctr_loop rKey CTR_in bs =
    (if bs = [] then []
     else let CTR_in = INCREASE CTR_in;
              n = (if length bs < 16 then length bs else 16);
              tmp = Byte2Word ZERO128 bs n;
              CTR_out = SEED_Encrypt CTR_in rKey;
              tmp = XOR128 CTR_out tmp
          in Word2Byte tmp n @ ccm_ctr_loop rKey CTR_in (drop 16 bs))"
  by pat_completeness auto
termination
  by (relation "measure (\<lambda>(k, c, bs). length bs)") auto

function ccm_mac_loop :: "u32 list \<Rightarrow> blk \<Rightarrow> u8 list \<Rightarrow> blk" where
  "ccm_mac_loop rKey CBC_out bs =
    (if bs = [] then CBC_out
     else let n = (if length bs < 16 then length bs else 16);
              CBC_in = Byte2Word ZERO128 bs n;
              CBC_in = XOR128 CBC_in CBC_out
          in ccm_mac_loop rKey (SEED_Encrypt CBC_in rKey) (drop 16 bs))"
  by pat_completeness auto
termination
  by (relation "measure (\<lambda>(k, y, bs). length bs)") auto

declare ccm_ctr_loop.simps [simp del] ccm_mac_loop.simps [simp del]

section \<open>Formatting\<close>

text \<open>The first counter block: \<open>flag\<close>, the nonce, and a counter of zero.\<close>

definition ccm_ctr0 :: "u8 list \<Rightarrow> blk" where
  "ccm_ctr0 nonce =
    (let CTR_in = Byte2Word ZERO128 nonce (length nonce);
         CTR_in = SHIFTR CTR_in 8;
         flag = 14 - of_nat (length nonce)
     in CTR_in[0 := CTR_in ! 0 XOR push_bit 24 flag])"

text \<open>The first block of the MAC.\<close>

definition ccm_b0 :: "u8 list \<Rightarrow> u32 \<Rightarrow> nat \<Rightarrow> nat \<Rightarrow> blk" where
  "ccm_b0 nonce macLen aadLen ptLen =
    (let CBC_in = Byte2Word ZERO128 nonce (length nonce);
         CBC_in = SHIFTR CBC_in 8;
         flag = (if aadLen \<noteq> 0 then 0x00000040 else 0x00000000);
         flag = flag XOR push_bit 3 (drop_bit 1 (macLen - 2));
         flag = flag XOR (14 - of_nat (length nonce));
         CBC_in = CBC_in[0 := CBC_in ! 0 XOR push_bit 24 flag]
     in CBC_in[3 := CBC_in ! 3 XOR of_nat ptLen])"

text \<open>The associated data: 14 bytes after a 16-bit length, then blocks of 16.\<close>

definition ccm_aad :: "u32 list \<Rightarrow> blk \<Rightarrow> u8 list \<Rightarrow> blk" where
  "ccm_aad rKey CBC_out aad =
    (if length aad > 0 then
       let tmpLen = (if length aad > 14 then 14 else length aad);
           CBC_in = Byte2Word ZERO128 aad tmpLen;
           CBC_in = SHIFTR CBC_in 16;
           CBC_in = CBC_in[0 := CBC_in ! 0 XOR push_bit 16 (of_nat (length aad))];
           CBC_in = XOR128 CBC_in CBC_out;
           CBC_out = SEED_Encrypt CBC_in rKey
       in ccm_mac_loop rKey CBC_out (drop tmpLen aad)
     else CBC_out)"

definition ccm_mac :: "u32 list \<Rightarrow> u32 \<Rightarrow> u8 list \<Rightarrow> u8 list \<Rightarrow> u8 list \<Rightarrow> blk" where
  "ccm_mac rKey macLen nonce aad pt =
    (let CBC_out = SEED_Encrypt (ccm_b0 nonce macLen (length aad) (length pt)) rKey;
         CBC_out = ccm_aad rKey CBC_out aad
     in ccm_mac_loop rKey CBC_out pt)"

section \<open>The two operations\<close>

text \<open>
  The loops over the message end up to a length of \<open>2^32 - 16\<close>; the one over the
  associated data starts at 14 and ends up to \<open>2^32 - 2\<close>.
\<close>

definition ccm_diverges :: "nat \<Rightarrow> nat \<Rightarrow> bool" where
  "ccm_diverges ptLen aadLen \<longleftrightarrow> 2 ^ 32 - 16 < ptLen \<or> 2 ^ 32 - 2 < aadLen"

definition SEED_CCM_Encryption ::
  "u8 list \<Rightarrow> u32 \<Rightarrow> u8 list \<Rightarrow> u8 list \<Rightarrow> u8 list \<Rightarrow> c_fault + aead_result" where
  "SEED_CCM_Encryption pt macLen nonce aad mKey =
    (if macLen > 16 then Inr \<lparr>ret = 1, buf = [], bufLen = Some 0\<rparr>
     else if length nonce > 16 then Inl Out_of_bounds
     else if ccm_diverges (length pt) (length aad) then Inl No_return
     else
       let rKey = SEED_KeySched mKey;
           CTR_in = ccm_ctr0 nonce;
           MAC = SEED_Encrypt CTR_in rKey;
           ct = ccm_ctr_loop rKey CTR_in pt;
           MAC = XOR128 MAC (ccm_mac rKey macLen nonce aad pt)
       in Inr \<lparr>ret = 0, buf = ct @ Word2Byte MAC (unat macLen),
               bufLen = Some (of_nat (length pt) + macLen)\<rparr>)"

definition SEED_CCM_Decryption ::
  "u8 list \<Rightarrow> u32 \<Rightarrow> u8 list \<Rightarrow> u8 list \<Rightarrow> u8 list \<Rightarrow> c_fault + aead_result" where
  "SEED_CCM_Decryption ct macLen nonce aad mKey =
    (if macLen > 16 then Inr \<lparr>ret = 1, buf = [], bufLen = Some 0\<rparr>
     else if length nonce > 16 \<or> length ct < unat macLen then Inl Out_of_bounds
     else
       let n = length ct - unat macLen
       in if ccm_diverges n (length aad) then Inl No_return
       else
         let rKey = SEED_KeySched mKey;
             CTR_in = ccm_ctr0 nonce;
             MAC = SEED_Encrypt CTR_in rKey;
             pt = ccm_ctr_loop rKey CTR_in (take n ct);
             MAC = XOR128 MAC (ccm_mac rKey macLen nonce aad pt);
             tMAC = Word2Byte MAC (unat macLen)
         in if list_ex (\<lambda>i. tMAC ! i \<noteq> ct ! (n + i)) [0..<unat macLen]
            then Inr \<lparr>ret = 1, buf = replicate n 0, bufLen = None\<rparr>
            else Inr \<lparr>ret = 0, buf = pt, bufLen = Some (of_nat (length ct) - macLen)\<rparr>)"

section \<open>The counter loop adds a key stream\<close>

lemma ccm_ctr_loop_stream:
  "ccm_ctr_loop rKey c bs =
    xorl bs (keystream (seed_ks rKey) INCREASE c (nblocks (length bs)))"
proof (rule chunked_stream)
  show "ccm_ctr_loop rKey c [] = []" for c
    by (simp add: ccm_ctr_loop.simps)
  show "ccm_ctr_loop rKey c bs =
      xorl (take 16 bs) (seed_ks rKey (INCREASE c)) @ ccm_ctr_loop rKey (INCREASE c) (drop 16 bs)"
    if "bs \<noteq> []" for c bs
    using that
    by (subst ccm_ctr_loop.simps) (simp add: Let_def stream_chunk take_min_length seed_ks_def)
qed simp

lemma length_ccm_ctr_loop [simp, len_simps]: "length (ccm_ctr_loop rKey c bs) = length bs"
  using nblocks_cover [of "length bs"] by (simp add: ccm_ctr_loop_stream length_keystream)

lemma ccm_ctr_loop_twice: "ccm_ctr_loop rKey c (ccm_ctr_loop rKey c bs) = bs"
  unfolding ccm_ctr_loop_stream [of rKey c "ccm_ctr_loop rKey c bs"] length_ccm_ctr_loop
  unfolding ccm_ctr_loop_stream
  by (rule keystream_twice) simp

section \<open>Blocks as bytes\<close>

lemma byte_of_shift8:
  "byte_of 3 (drop_bit 8 x XOR push_bit 24 y) = byte_of 0 y"
  "byte_of 2 (drop_bit 8 x XOR push_bit 24 y) = byte_of 3 x"
  "byte_of (Suc 0) (drop_bit 8 x XOR push_bit 24 y) = byte_of 2 x"
  "byte_of 0 (drop_bit 8 x XOR push_bit 24 y) = byte_of (Suc 0) x"
  "byte_of 3 (drop_bit 8 x) = 0" "byte_of 2 (drop_bit 8 x) = byte_of 3 x"
  "byte_of (Suc 0) (drop_bit 8 x) = byte_of 2 x" "byte_of 0 (drop_bit 8 x) = byte_of (Suc 0) x"
  by (rule bit_word_eqI; auto simp: bit_byte_of bit_simps dest: bit_imp_le_length)+

lemma byte_of_shift16:
  "byte_of 3 (drop_bit 16 x XOR push_bit 16 y) = byte_of (Suc 0) y"
  "byte_of 2 (drop_bit 16 x XOR push_bit 16 y) = byte_of 0 y"
  "byte_of (Suc 0) (drop_bit 16 x XOR push_bit 16 y) = byte_of 3 x"
  "byte_of 0 (drop_bit 16 x XOR push_bit 16 y) = byte_of 2 x"
  "byte_of 3 (drop_bit 16 x) = 0" "byte_of 2 (drop_bit 16 x) = 0"
  "byte_of (Suc 0) (drop_bit 16 x) = byte_of 3 x" "byte_of 0 (drop_bit 16 x) = byte_of 2 x"
  by (rule bit_word_eqI; auto simp: bit_byte_of bit_simps dest: bit_imp_le_length)+

lemma wbytes_SHIFTR:
  assumes "length b = 4"
  shows "wbytes (SHIFTR b 8) = 0 # take 15 (wbytes b)"
    and "wbytes (SHIFTR b 16) = 0 # 0 # take 14 (wbytes b)"
proof -
  obtain b0 b1 b2 b3 where b: "b = [b0, b1, b2, b3]"
    using assms by (rule list4)
  show "wbytes (SHIFTR b 8) = 0 # take 15 (wbytes b)"
    and "wbytes (SHIFTR b 16) = 0 # 0 # take 14 (wbytes b)"
    by (simp_all add: b SHIFTR_def Let_def wbytes4 byte_of_shift8 byte_of_shift16)
qed

text \<open>The bytes of a number, most significant first.\<close>

definition be_bytes :: "nat \<Rightarrow> nat \<Rightarrow> u8 list" where
  "be_bytes q x = map (\<lambda>k. of_nat (x div 256 ^ (q - Suc k))) [0..<q]"

lemma length_be_bytes [simp, len_simps]: "length (be_bytes q x) = q"
  by (simp add: be_bytes_def)

lemma nth_be_bytes [simp]: "k < q \<Longrightarrow> be_bytes q x ! k = of_nat (x div 256 ^ (q - Suc k))"
  by (simp add: be_bytes_def)

lemma byte_of_of_nat: "k < 4 \<Longrightarrow> byte_of k (of_nat x) = of_nat (x div 256 ^ k)"
proof -
  assume k: "k < 4"
  have e: "x div 256 ^ k = drop_bit (8 * k) x"
    by (simp add: drop_bit_eq_div power_mult)
  show ?thesis
    unfolding e by (rule bit_word_eqI) (use k in \<open>auto simp: bit_byte_of bit_of_nat_iff bit_drop_bit_eq\<close>)
qed

text \<open>Adding into the first byte, and adding a number into the last word.\<close>

lemma wbytes_add_first:
  assumes "length b = 4"
  shows "wbytes (b[0 := b ! 0 XOR push_bit 24 f]) = (wbytes b)[0 := wbytes b ! 0 XOR byte_of 0 f]"
proof -
  obtain b0 b1 b2 b3 where b: "b = [b0, b1, b2, b3]"
    using assms by (rule list4)
  have "byte_of 3 (push_bit 24 f) = byte_of 0 f" "byte_of 2 (push_bit 24 f) = 0"
    "byte_of (Suc 0) (push_bit 24 f) = 0" "byte_of 0 (push_bit 24 f) = 0"
    by (rule bit_word_eqI; auto simp: bit_byte_of bit_simps dest: bit_imp_le_length)+
  then show ?thesis
    by (simp add: b wbytes4 byte_of_xor)
qed

lemma wbytes_add_last:
  assumes "length b = 4"
  shows "wbytes (b[3 := b ! 3 XOR of_nat x]) = xorl (wbytes b) (replicate 12 0 @ be_bytes 4 x)"
proof -
  obtain b0 b1 b2 b3 where b: "b = [b0, b1, b2, b3]"
    using assms by (rule list4)
  have "replicate 12 (0 :: u8) = [0, 0, 0, 0, 0, 0, 0, 0, 0, 0, 0, 0]"
    by code_simp
  moreover have "be_bytes 4 x = [of_nat (x div 256 ^ 3), of_nat (x div 256 ^ 2), of_nat (x div 256), of_nat x]"
    by (simp add: be_bytes_def upt_4)
  ultimately show ?thesis
    using byte_of_of_nat [of 3 x] byte_of_of_nat [of 2 x] byte_of_of_nat [of 1 x] byte_of_of_nat [of 0 x]
    by (simp add: b wbytes4 byte_of_xor)
qed

text \<open>\<open>flag || nonce || n\<close>, with the number in the bytes the nonce leaves.\<close>

definition ccm_block :: "u8 \<Rightarrow> u8 list \<Rightarrow> nat \<Rightarrow> u8 list" where
  "ccm_block flag nonce x = flag # nonce @ be_bytes (15 - length nonce) x"

lemma ccm_block_layout:
  assumes "length nonce \<le> 15" and "x < 256 ^ (15 - length nonce)" and "x < 2 ^ 32"
  shows "xorl (flag # take 15 (pad16 nonce)) (replicate 12 0 @ be_bytes 4 x) = ccm_block flag nonce x"
proof (rule nth_equalityI)
  fix j assume "j < length (xorl (flag # take 15 (pad16 nonce)) (replicate 12 0 @ be_bytes 4 x))"
  then have j: "j < 16"
    by simp
  let ?n = "length nonce"
  have div0: "x div 256 ^ e = 0" if "15 - ?n \<le> e \<or> 4 \<le> e" for e
  proof -
    have "x < 256 ^ e"
    proof (cases "15 - ?n \<le> e")
      case True
      show ?thesis
        by (rule order_less_le_trans [OF assms(2)]) (rule power_increasing [OF True], simp)
    next
      case False
      then have "(256 :: nat) ^ 4 \<le> 256 ^ e"
        using that by (intro power_increasing) auto
      then show ?thesis
        using assms(3) by simp
    qed
    then show ?thesis
      by simp
  qed
  have last: "(replicate 12 0 @ be_bytes 4 x) ! j = (of_nat (x div 256 ^ (15 - j)) :: u8)"
  proof (cases "j < 12")
    case True
    then have "4 \<le> 15 - j"
      by simp
    with True show ?thesis
      by (simp add: nth_append div0)
  next
    case False
    then have "j - 12 < 4" "3 - (j - 12) = 15 - j"
      using j by simp_all
    with False show ?thesis
      by (simp add: nth_append be_bytes_def)
  qed
  show "xorl (flag # take 15 (pad16 nonce)) (replicate 12 0 @ be_bytes 4 x) ! j = ccm_block flag nonce x ! j"
  proof (cases j)
    case 0
    then show ?thesis
      using last div0 [of 15] by (simp add: ccm_block_def)
  next
    case (Suc i)
    then have i: "i < 15"
      using j by simp
    have lhs: "xorl (flag # take 15 (pad16 nonce)) (replicate 12 0 @ be_bytes 4 x) ! j =
        pad16 nonce ! i XOR of_nat (x div 256 ^ (14 - i))"
    proof -
      have "(flag # take 15 (pad16 nonce)) ! j = pad16 nonce ! i" "15 - j = 14 - i"
        using i by (simp_all add: Suc)
      moreover have "j < length (flag # take 15 (pad16 nonce))" "j < length (replicate 12 0 @ be_bytes 4 x)"
        using j by simp_all
      ultimately show ?thesis
        by (simp only: nth_xorl last)
    qed
    show ?thesis
    proof (cases "i < ?n")
      case True
      then have "15 - ?n \<le> 14 - i"
        by arith
      then have z: "x div 256 ^ (14 - i) = 0"
        by (intro div0) simp
      have "pad16 nonce ! i = nonce ! i" "ccm_block flag nonce x ! j = nonce ! i"
        using True i by (simp_all add: pad16_def ccm_block_def nth_append Suc)
      then show ?thesis
        unfolding lhs z by simp
    next
      case False
      then have "be_bytes (15 - ?n) x ! (i - ?n) = of_nat (x div 256 ^ (15 - ?n - Suc (i - ?n)))"
        using i assms(1) by (intro nth_be_bytes) arith
      also have "15 - ?n - Suc (i - ?n) = 14 - i"
        using False by arith
      finally have B: "be_bytes (15 - ?n) x ! (i - ?n) = of_nat (x div 256 ^ (14 - i))" .
      have "ccm_block flag nonce x ! j = be_bytes (15 - ?n) x ! (i - ?n)"
        unfolding ccm_block_def Suc using False by (simp only: nth_Cons_Suc nth_append if_False)
      moreover have "pad16 nonce ! i = 0"
        using False i assms(1) by (simp add: pad16_def nth_append)
      ultimately show ?thesis
        unfolding lhs B by (simp only: xor.left_neutral)
    qed
  qed
qed (use assms(1) in \<open>simp add: ccm_block_def\<close>)

lemma bit_all_ones: "bit (0xFFFFFFFF :: u32) p \<longleftrightarrow> p < 32"
proof -
  have m: "(0xFFFFFFFF :: u32) = mask 32"
    by (simp add: mask_eq_exp_minus_1)
  show ?thesis
    unfolding m by (simp add: bit_mask_iff)
qed

text \<open>
  Counting in a field of \<open>m\<close> zero bits at the end of the block never carries out of
  it, as long as the count fits.
\<close>

lemma low_bits_add:
  assumes "\<And>p. p < m \<Longrightarrow> \<not> bit (w :: u32) p" and "i < 2 ^ m"
  shows "w + of_nat i = w XOR of_nat i"
proof (rule disjunctive_add_eq_xor, rule bit_word_eqI)
  fix p :: nat
  have "\<not> bit w p \<or> \<not> bit i p"
    using assms(1) [of p] bit_high_nat [OF assms(2), of p] by (cases "p < m") simp_all
  then show "bit (w AND of_nat i) p \<longleftrightarrow> bit (0 :: u32) p"
    by (auto simp: bit_and_iff bit_of_nat_iff)
qed

lemma INCREASE_field:
  assumes "length b = 4" and "m \<le> 32" and "\<And>p. p < m \<Longrightarrow> \<not> bit (b ! 3) p"
  shows "i < 2 ^ m \<Longrightarrow> (INCREASE ^^ i) b = b[3 := b ! 3 XOR of_nat i]"
proof (induction i)
  case 0
  then show ?case
    by simp
next
  case (Suc i)
  let ?w = "b ! 3 XOR of_nat i"
  have i: "i < 2 ^ m"
    using Suc.prems by simp
  have w: "?w = b ! 3 + of_nat i"
    by (rule low_bits_add [symmetric, OF assms(3) i])
  have "?w \<noteq> 0xFFFFFFFF"
  proof
    assume "?w = 0xFFFFFFFF"
    then have all: "bit ?w p" if "p < 32" for p
      using that by (simp only: bit_all_ones)
    have "take_bit m i = mask m"
    proof (rule bit_eqI)
      fix p
      show "bit (take_bit m i) p \<longleftrightarrow> bit (mask m :: nat) p"
        using all [of p] assms(2) assms(3) [of p]
        by (auto simp: bit_take_bit_iff bit_mask_iff bit_xor_iff bit_of_nat_iff)
    qed
    then have "i = 2 ^ m - 1"
      using i by (simp add: take_bit_nat_eq_self mask_eq_exp_minus_1)
    with Suc.prems show False
      by simp
  qed
  then have "INCREASE (b[3 := ?w]) = b[3 := ?w + 1]"
    using assms(1) by (simp add: INCREASE_def)
  also have "?w + 1 = b ! 3 + of_nat (Suc i)"
    unfolding w by (simp add: add_ac)
  also have "\<dots> = b ! 3 XOR of_nat (Suc i)"
    by (rule low_bits_add [OF assms(3) Suc.prems])
  finally show ?case
    using Suc.IH [OF i] by simp
qed


section \<open>The mode of the standard\<close>

text \<open>CBC-MAC over zero-padded blocks, and the flags of the first block.\<close>

function cbcmac :: "(u8 list \<Rightarrow> u8 list) \<Rightarrow> u8 list \<Rightarrow> u8 list \<Rightarrow> u8 list" where
  "cbcmac E y bs =
    (if bs = [] then y else cbcmac E (E (xorl (pad16 (take 16 bs)) y)) (drop 16 bs))"
  by pat_completeness auto
termination
  by (relation "measure (\<lambda>(e, y, bs). length bs)") auto

declare cbcmac.simps [simp del]

definition ccm_flag :: "bool \<Rightarrow> nat \<Rightarrow> nat \<Rightarrow> u8" where
  "ccm_flag has_aad M n = of_nat ((if has_aad then 64 else 0) + 8 * ((M - 2) div 2) + (14 - n))"

definition ccm_std_ctr :: "u8 list \<Rightarrow> nat \<Rightarrow> u8 list" where
  "ccm_std_ctr nonce i = ccm_block (of_nat (14 - length nonce)) nonce i"

definition ccm_std_aad :: "u8 list \<Rightarrow> u8 list" where
  "ccm_std_aad aad = (if aad = [] then [] else be_bytes 2 (length aad) @ aad)"

definition ccm_std_ct :: "(u8 list \<Rightarrow> u8 list) \<Rightarrow> u8 list \<Rightarrow> u8 list \<Rightarrow> u8 list" where
  "ccm_std_ct E nonce pt =
    xorl pt (concat (map (\<lambda>j. E (ccm_std_ctr nonce (j + 1))) [0..<nblocks (length pt)]))"

definition ccm_std_tag ::
  "(u8 list \<Rightarrow> u8 list) \<Rightarrow> nat \<Rightarrow> u8 list \<Rightarrow> u8 list \<Rightarrow> u8 list \<Rightarrow> u8 list" where
  "ccm_std_tag E M nonce aad pt =
    (let B0 = ccm_block (ccm_flag (aad \<noteq> []) M (length nonce)) nonce (length pt);
         T = cbcmac E (cbcmac E (E B0) (ccm_std_aad aad)) pt
     in xorl (E (ccm_std_ctr nonce 0)) T)"

lemma ccm_mac_loop_std:
  "length y = 4 \<Longrightarrow> wbytes (ccm_mac_loop rKey y bs) = cbcmac (seed_bytes rKey) (wbytes y) bs \<and>
    length (ccm_mac_loop rKey y bs) = 4"
proof (induction "length bs" arbitrary: y bs rule: less_induct)
  case less
  show ?case
  proof (cases "bs = []")
    case True
    with less.prems show ?thesis
      by (simp add: ccm_mac_loop.simps cbcmac.simps)
  next
    case False
    let ?n = "if length bs < 16 then length bs else 16"
    let ?x = "XOR128 (Byte2Word ZERO128 bs ?n) y"
    have x: "wbytes ?x = xorl (pad16 (take 16 bs)) (wbytes y)"
      using less.prems by (simp add: wbytes_XOR128 wbytes_Byte2Word take_min_length)
    have code: "ccm_mac_loop rKey y bs = ccm_mac_loop rKey (SEED_Encrypt ?x rKey) (drop 16 bs)"
      using False by (subst ccm_mac_loop.simps) (simp add: Let_def)
    have spec: "cbcmac (seed_bytes rKey) (wbytes y) bs =
        cbcmac (seed_bytes rKey) (wbytes (SEED_Encrypt ?x rKey)) (drop 16 bs)"
      using False by (subst cbcmac.simps) (simp add: seed_bytes_wbytes x)
    show ?thesis
      unfolding code spec using False by (intro less.hyps) simp_all
  qed
qed

lemma wbytes_nonce_shifted:
  assumes "length nonce \<le> 15"
  shows "wbytes (SHIFTR (Byte2Word ZERO128 nonce (length nonce)) 8) = 0 # take 15 (pad16 nonce)"
  using assms by (simp add: wbytes_SHIFTR wbytes_Byte2Word)

lemma wbytes_ccm_ctr0:
  assumes "length nonce \<le> 14"
  shows "wbytes (ccm_ctr0 nonce) = of_nat (14 - length nonce) # take 15 (pad16 nonce)"
proof -
  have "byte_of 0 (14 - of_nat (length nonce) :: u32) = of_nat (14 - length nonce)"
    using assms byte_of_of_nat [of 0 "14 - length nonce"] by (simp add: of_nat_diff)
  then show ?thesis
    using assms
    by (simp add: ccm_ctr0_def Let_def wbytes_add_first wbytes_nonce_shifted)
qed

lemma length_ccm_ctr0 [simp, len_simps]: "length (ccm_ctr0 nonce) = 4"
  by (simp add: ccm_ctr0_def Let_def)

lemma pow256: "(256 :: nat) ^ q = 2 ^ (8 * q)"
  by (simp add: power_mult)

lemma ccm_counter_std:
  assumes "length nonce \<le> 14" and "i < 256 ^ (15 - length nonce)" and "i < 2 ^ 32"
  shows "wbytes ((INCREASE ^^ i) (ccm_ctr0 nonce)) = ccm_std_ctr nonce i"
proof -
  let ?q = "15 - length nonce" and ?b = "ccm_ctr0 nonce"
  define m where "m = min (8 * ?q) 32"
  have i: "i < 2 ^ m"
    using assms(2,3) by (simp add: m_def pow256 min_def)
  have z: "\<not> bit (?b ! 3) p" if "p < m" for p
  proof -
    define k where "k = p div 8"
    have k: "k < 4" "k < ?q" and p: "p = 8 * k + p mod 8"
      using that by (auto simp: m_def k_def less_mult_imp_div_less)
    have "k = 0 \<or> k = 1 \<or> k = 2 \<or> k = 3"
      using k(1) by arith
    then have "(15 - k) mod 4 = 3 - k" "(15 - k) div 4 = 3"
      by (elim disjE; simp)+
    then have "byte_of k (?b ! 3) = wbytes ?b ! (15 - k)"
      using k(1) nth_wbytes [of "15 - k" ?b] by simp
    also have "\<dots> = take 15 (pad16 nonce) ! (14 - k)"
      using k(1) assms(1) by (simp add: wbytes_ccm_ctr0 nth_Cons')
    also have "\<dots> = 0"
    proof -
      have "\<not> 14 - k < length nonce"
        using k by arith
      then show ?thesis
        using k assms(1) by (simp add: pad16_def nth_append)
    qed
    finally have "\<not> bit (byte_of k (?b ! 3)) (p mod 8)"
      by simp
    then show ?thesis
      using p by (simp add: bit_byte_of)
  qed
  have "(INCREASE ^^ i) ?b = ?b[3 := ?b ! 3 XOR of_nat i]"
    by (rule INCREASE_field [OF _ _ z i]) (simp_all add: m_def)
  then have "wbytes ((INCREASE ^^ i) ?b) = xorl (wbytes ?b) (replicate 12 0 @ be_bytes 4 i)"
    by (simp add: wbytes_add_last)
  also have "\<dots> = ccm_std_ctr nonce i"
    using assms by (simp only: wbytes_ccm_ctr0 ccm_std_ctr_def, intro ccm_block_layout) simp_all
  finally show ?thesis .
qed

lemma ccm_flag_bits:
  assumes "macLen \<in> {4, 6, 8, 10, 12, 14, 16}" and "7 \<le> n" and "n \<le> 13"
  shows "byte_of 0 (((if a \<noteq> 0 then 0x40 else 0) XOR push_bit 3 (drop_bit 1 (macLen - 2))) XOR (14 - of_nat n)) =
    ccm_flag (a \<noteq> 0) (unat macLen) n"
proof -
  have "n \<in> {7, 8, 9, 10, 11, 12, 13}"
    using assms(2,3) by (auto simp: numeral_eq_Suc le_Suc_eq)
  with assms(1) show ?thesis
    by (auto simp: ccm_flag_def byte_of_def)
qed

lemma ccm_b0_std:
  assumes "macLen \<in> {4, 6, 8, 10, 12, 14, 16}" and "7 \<le> length nonce" and "length nonce \<le> 13"
    and "x < 256 ^ (15 - length nonce)" and "x < 2 ^ 32"
  shows "wbytes (ccm_b0 nonce macLen a x) =
    ccm_block (ccm_flag (a \<noteq> 0) (unat macLen) (length nonce)) nonce x"
proof -
  let ?f = "((if a \<noteq> 0 then 0x40 else 0) XOR push_bit 3 (drop_bit 1 (macLen - 2))) XOR
      (14 - of_nat (length nonce)) :: u32"
  let ?s = "SHIFTR (Byte2Word ZERO128 nonce (length nonce)) 8"
  let ?c = "?s[0 := ?s ! 0 XOR push_bit 24 ?f]"
  have "wbytes ?c = ccm_flag (a \<noteq> 0) (unat macLen) (length nonce) # take 15 (pad16 nonce)"
  proof -
    have "wbytes ?c = (wbytes ?s)[0 := wbytes ?s ! 0 XOR byte_of 0 ?f]"
      by (rule wbytes_add_first) simp
    moreover have "wbytes ?s = 0 # take 15 (pad16 nonce)"
      using assms(3) by (intro wbytes_nonce_shifted) simp
    ultimately show ?thesis
      by (simp only: ccm_flag_bits [OF assms(1-3)]) simp
  qed
  then have "wbytes (?c[3 := ?c ! 3 XOR of_nat x]) =
      ccm_block (ccm_flag (a \<noteq> 0) (unat macLen) (length nonce)) nonce x"
    using assms(3-) by (subst wbytes_add_last) (simp_all add: ccm_block_layout del: nth_list_update)
  then show ?thesis
    by (simp only: ccm_b0_def Let_def)
qed

lemma ccm_aad_first:
  assumes "0 < length aad" and "length aad < 65536"
  defines "n \<equiv> (if length aad > 14 then 14 else length aad)"
  defines "s \<equiv> SHIFTR (Byte2Word ZERO128 aad n) 16"
  shows "wbytes (s[0 := s ! 0 XOR push_bit 16 (of_nat (length aad))]) =
    pad16 (take 16 (be_bytes 2 (length aad) @ aad))"
proof -
  have n: "n \<le> 14" "n \<le> length aad" "take n aad = take 14 aad"
    by (auto simp: n_def)
  have s: "length s = 4" "wbytes s = 0 # 0 # take 14 (pad16 (take n aad))"
    using n by (simp_all add: s_def wbytes_SHIFTR wbytes_Byte2Word)
  obtain s0 s1 s2 s3 where e: "s = [s0, s1, s2, s3]"
    using s(1) by (rule list4)
  have b: "byte_of 3 (push_bit 16 (of_nat (length aad))) = of_nat (length aad div 256)"
    "byte_of 2 (push_bit 16 (of_nat (length aad))) = of_nat (length aad)"
    "byte_of (Suc 0) (push_bit 16 (of_nat (length aad))) = 0"
    "byte_of 0 (push_bit 16 (of_nat (length aad))) = 0"
  proof -
    have "byte_of 3 (push_bit 16 w) = byte_of 1 w" "byte_of 2 (push_bit 16 w) = byte_of 0 w"
      "byte_of (Suc 0) (push_bit 16 w) = 0" "byte_of 0 (push_bit 16 w) = 0" for w
      by (rule bit_word_eqI; auto simp: bit_byte_of bit_simps dest: bit_imp_le_length)+
    then show "byte_of 3 (push_bit 16 (of_nat (length aad))) = of_nat (length aad div 256)"
      "byte_of 2 (push_bit 16 (of_nat (length aad))) = of_nat (length aad)"
      "byte_of (Suc 0) (push_bit 16 (of_nat (length aad))) = 0"
      "byte_of 0 (push_bit 16 (of_nat (length aad))) = 0"
      using byte_of_of_nat [of 1 "length aad"] byte_of_of_nat [of 0 "length aad"] by simp_all
  qed
  have "wbytes (s[0 := s ! 0 XOR push_bit 16 (of_nat (length aad))]) =
      of_nat (length aad div 256) # of_nat (length aad) # drop 2 (wbytes s)"
    using s(2) by (simp add: e wbytes4 byte_of_xor b)
  also have "drop 2 (wbytes s) = take 14 (pad16 (take 14 aad))"
    using s(2) n(3) by simp
  also have "of_nat (length aad div 256) # of_nat (length aad) # \<dots> =
      pad16 (take 16 (be_bytes 2 (length aad) @ aad))"
  proof -
    have "be_bytes 2 (length aad) = [of_nat (length aad div 256), of_nat (length aad)]"
      by (simp add: be_bytes_def upt_rec)
    then show ?thesis
      by (simp add: pad16_def min_def)
  qed
  finally show ?thesis .
qed

lemma ccm_aad_std:
  assumes "length y = 4" and "length aad < 65536"
  shows "wbytes (ccm_aad rKey y aad) = cbcmac (seed_bytes rKey) (wbytes y) (ccm_std_aad aad) \<and>
    length (ccm_aad rKey y aad) = 4"
proof (cases "aad = []")
  case True
  then show ?thesis
    using assms(1) by (simp add: ccm_aad_def ccm_std_aad_def cbcmac.simps)
next
  case False
  let ?n = "if length aad > 14 then 14 else length aad"
  let ?s = "SHIFTR (Byte2Word ZERO128 aad ?n) 16"
  let ?c = "?s[0 := ?s ! 0 XOR push_bit 16 (of_nat (length aad))]"
  let ?e = "be_bytes 2 (length aad) @ aad"
  have c: "wbytes ?c = pad16 (take 16 ?e)" and lc: "length ?c = 4"
    using False assms(2) by (intro ccm_aad_first) auto
  have d: "drop ?n aad = drop 16 ?e"
    by auto
  have code: "ccm_aad rKey y aad = ccm_mac_loop rKey (SEED_Encrypt (XOR128 ?c y) rKey) (drop 16 ?e)"
    using False unfolding d [symmetric] by (simp add: ccm_aad_def Let_def)
  have "cbcmac (seed_bytes rKey) (wbytes y) ?e =
      cbcmac (seed_bytes rKey) (wbytes (SEED_Encrypt (XOR128 ?c y) rKey)) (drop 16 ?e)"
    using False assms(1) lc c
    by (subst cbcmac.simps) (simp add: seed_bytes_wbytes wbytes_XOR128 del: length_list_update)
  then show ?thesis
    using False ccm_mac_loop_std unfolding code by (simp add: ccm_std_aad_def)
qed

section \<open>The two operations\<close>

lemma length_ccm_mac [simp, len_simps]:
  assumes "length aad < 65536"
  shows "length (ccm_mac rKey macLen nonce aad pt) = 4"
  using assms by (simp add: ccm_mac_def Let_def ccm_aad_std ccm_mac_loop_std)

lemma ccm_tag_std:
  assumes "macLen \<in> {4, 6, 8, 10, 12, 14, 16}" and "7 \<le> length nonce" and "length nonce \<le> 13"
    and "length pt < 256 ^ (15 - length nonce)" and "length pt < 2 ^ 32" and "length aad < 65536"
  shows "wbytes (XOR128 (SEED_Encrypt (ccm_ctr0 nonce) rKey) (ccm_mac rKey macLen nonce aad pt)) =
    ccm_std_tag (seed_bytes rKey) (unat macLen) nonce aad pt"
proof -
  let ?b0 = "ccm_b0 nonce macLen (length aad) (length pt)"
  have l: "length ?b0 = 4"
    by (simp add: ccm_b0_def Let_def)
  have "wbytes (ccm_mac rKey macLen nonce aad pt) =
      cbcmac (seed_bytes rKey) (cbcmac (seed_bytes rKey) (wbytes (SEED_Encrypt ?b0 rKey)) (ccm_std_aad aad)) pt"
    using assms(6) by (simp add: ccm_mac_def Let_def ccm_aad_std ccm_mac_loop_std)
  also have "wbytes (SEED_Encrypt ?b0 rKey) = seed_bytes rKey
      (ccm_block (ccm_flag (aad \<noteq> []) (unat macLen) (length nonce)) nonce (length pt))"
    using assms(1-5) l by (simp add: seed_bytes_wbytes ccm_b0_std)
  finally have m: "wbytes (ccm_mac rKey macLen nonce aad pt) =
      cbcmac (seed_bytes rKey) (cbcmac (seed_bytes rKey) (seed_bytes rKey
        (ccm_block (ccm_flag (aad \<noteq> []) (unat macLen) (length nonce)) nonce (length pt)))
        (ccm_std_aad aad)) pt" .
  have "wbytes (ccm_ctr0 nonce) = ccm_std_ctr nonce 0"
    using ccm_counter_std [of nonce 0] assms(3) by simp
  then show ?thesis
    using assms(6) by (simp add: wbytes_XOR128 ccm_std_tag_def Let_def m seed_bytes_wbytes)
qed

lemma ccm_ct_std:
  assumes "length nonce \<le> 13" and "nblocks (length pt) < 256 ^ (15 - length nonce)"
    and "length pt \<le> 2 ^ 32"
  shows "ccm_ctr_loop rKey (ccm_ctr0 nonce) pt = ccm_std_ct (seed_bytes rKey) nonce pt"
proof -
  have l: "length ((INCREASE ^^ j) (ccm_ctr0 nonce)) = 4" for j
    by (induction j) (simp_all add: INCREASE_def)
  have "seed_ks rKey ((INCREASE ^^ Suc j) (ccm_ctr0 nonce)) = seed_bytes rKey (ccm_std_ctr nonce (j + 1))"
    if "j < nblocks (length pt)" for j
  proof -
    have "16 * nblocks (length pt) \<le> length pt + 15"
      by (simp add: nblocks_def)
    then have "Suc j < 2 ^ 32" "Suc j < 256 ^ (15 - length nonce)"
      using assms(2,3) that by simp_all
    then show ?thesis
      using ccm_counter_std [of nonce "Suc j"] assms(1) l [of "Suc j"]
      by (simp add: seed_ks_def seed_bytes_wbytes del: funpow.simps)
  qed
  then show ?thesis
    unfolding ccm_ctr_loop_stream ccm_std_ct_def keystream_concat
    by (intro arg_cong [where f = "xorl pt"] arg_cong [where f = concat] map_cong refl) simp
qed

lemma ccm_encrypt_ok:
  fixes pt nonce aad mKey :: "u8 list"
  assumes "macLen \<le> 16" and "length nonce \<le> 16" and "\<not> ccm_diverges (length pt) (length aad)"
  defines "rKey \<equiv> SEED_KeySched mKey"
  defines "ct \<equiv> ccm_ctr_loop rKey (ccm_ctr0 nonce) pt"
  shows "SEED_CCM_Encryption pt macLen nonce aad mKey =
    Inr \<lparr>ret = 0,
         buf = ct @ Word2Byte (XOR128 (SEED_Encrypt (ccm_ctr0 nonce) rKey)
                       (ccm_mac rKey macLen nonce aad pt)) (unat macLen),
         bufLen = Some (of_nat (length pt) + macLen)\<rparr>"
  using assms(1-3) by (simp add: SEED_CCM_Encryption_def Let_def assms(4-))

lemma ccm_decrypt_ok:
  fixes ct nonce aad mKey :: "u8 list"
  assumes "macLen \<le> 16" and "length nonce \<le> 16" and "unat macLen \<le> length ct"
    and "\<not> ccm_diverges (length ct - unat macLen) (length aad)"
  defines "rKey \<equiv> SEED_KeySched mKey"
  defines "n \<equiv> length ct - unat macLen"
  defines "pt \<equiv> ccm_ctr_loop rKey (ccm_ctr0 nonce) (take n ct)"
  shows "SEED_CCM_Decryption ct macLen nonce aad mKey =
    Inr (if drop n ct = Word2Byte (XOR128 (SEED_Encrypt (ccm_ctr0 nonce) rKey)
                          (ccm_mac rKey macLen nonce aad pt)) (unat macLen)
      then \<lparr>ret = 0, buf = pt, bufLen = Some (of_nat n)\<rparr>
      else \<lparr>ret = 1, buf = replicate n 0, bufLen = None\<rparr>)"
proof -
  let ?t = "Word2Byte (XOR128 (SEED_Encrypt (ccm_ctr0 nonce) rKey) (ccm_mac rKey macLen nonce aad pt))
      (unat macLen)"
  have d: "list_ex (\<lambda>i. ?t ! i \<noteq> ct ! (n + i)) [0..<unat macLen] \<longleftrightarrow> drop n ct \<noteq> ?t"
    using assms(3) by (intro tag_differs) (simp_all add: n_def)
  have len: "of_nat (length ct) - macLen = (of_nat n :: u32)"
    using of_nat_unat_add [of n macLen] assms(3) by (simp add: n_def)
  have c: "(macLen > 16) = False" "(length nonce > 16 \<or> length ct < unat macLen) = False"
      "ccm_diverges n (length aad) = False"
    using assms(1-4) by (auto simp: n_def)
  show ?thesis
    unfolding SEED_CCM_Decryption_def Let_def
    by (simp only: c [unfolded n_def] if_False d [unfolded assms(5-7)] len [unfolded n_def] assms(5-7))
      simp
qed

text \<open>\<open>SEED_CCM_Decryption\<close> returns the message and code 0 for every output of
  \<open>SEED_CCM_Encryption\<close> under the same key, nonce, associated data and tag length,
  whatever the nonce length up to 16 and the tag length up to 16.\<close>

theorem ccm_roundtrip:
  assumes "macLen \<le> 16" and "length nonce \<le> 16"
    and "length pt \<le> 2 ^ 32 - 16" and "length aad \<le> 2 ^ 32 - 2"
  shows "\<exists>c. SEED_CCM_Encryption pt macLen nonce aad mKey = Inr c \<and> ret c = 0 \<and>
    length (buf c) = length pt + unat macLen \<and>
    SEED_CCM_Decryption (buf c) macLen nonce aad mKey =
      Inr \<lparr>ret = 0, buf = pt, bufLen = Some (of_nat (length pt))\<rparr>"
proof -
  have dv: "\<not> ccm_diverges (length pt) (length aad)"
    using assms(3,4) by (simp add: ccm_diverges_def)
  note enc = ccm_encrypt_ok [OF assms(1,2) dv, of mKey]
  show ?thesis
  proof (intro exI conjI)
    show "SEED_CCM_Encryption pt macLen nonce aad mKey = Inr (projr (SEED_CCM_Encryption pt macLen nonce aad mKey))"
      unfolding enc by simp
    let ?c = "buf (projr (SEED_CCM_Encryption pt macLen nonce aad mKey))"
    show len: "length ?c = length pt + unat macLen"
      unfolding enc by simp
    show "SEED_CCM_Decryption ?c macLen nonce aad mKey =
        Inr \<lparr>ret = 0, buf = pt, bufLen = Some (of_nat (length pt))\<rparr>"
      using ccm_decrypt_ok [OF assms(1,2), of ?c aad mKey] len dv
      by (simp add: enc ccm_ctr_loop_twice)
  qed (simp add: enc)
qed

theorem ccm_roundtrip_witness:
  "\<exists>c. SEED_CCM_Encryption [1, 2, 3] 8 (replicate 13 7) [9] (replicate 16 0) = Inr c \<and> ret c = 0 \<and>
    length (buf c) = length [1, 2, 3 :: u8] + unat (8 :: u32) \<and>
    SEED_CCM_Decryption (buf c) 8 (replicate 13 7) [9] (replicate 16 0) =
      Inr \<lparr>ret = 0, buf = [1, 2, 3], bufLen = Some (of_nat (length [1, 2, 3 :: u8]))\<rparr>"
  by (rule ccm_roundtrip) simp_all

text \<open>C6: for the tag and nonce lengths of the standard, a message whose length fits the
  length field and associated data below \<open>2^16 - 2^8\<close> bytes, \<open>SEED_CCM_Encryption\<close> is CCM
  over SEED: counter blocks \<open>flag || nonce || i\<close>, a CBC-MAC over the formatted first
  block, the length-prefixed associated data and the message, each zero-padded, and
  the tag encrypted with counter 0.\<close>

theorem ccm_encryption_standard:
  assumes "macLen \<in> {4, 6, 8, 10, 12, 14, 16}" and "7 \<le> length nonce" and "length nonce \<le> 13"
    and "length pt < 256 ^ (15 - length nonce)" and "length pt \<le> 2 ^ 32 - 16"
    and "length aad < 2 ^ 16 - 2 ^ 8"
  shows "SEED_CCM_Encryption pt macLen nonce aad mKey =
    (let E = seed_bytes (SEED_KeySched mKey)
     in Inr \<lparr>ret = 0, buf = ccm_std_ct E nonce pt @ take (unat macLen) (ccm_std_tag E (unat macLen) nonce aad pt),
             bufLen = Some (of_nat (length pt) + macLen)\<rparr>)"
proof -
  have m: "macLen \<le> 16"
    using assms(1) by auto
  have dv: "\<not> ccm_diverges (length pt) (length aad)" and n16: "length nonce \<le> 16"
    using assms(3,5,6) by (simp_all add: ccm_diverges_def)
  have "nblocks (length pt) < 256 ^ (15 - length nonce)"
    by (rule order_le_less_trans [OF nblocks_le assms(4)])
  then have ct: "ccm_ctr_loop (SEED_KeySched mKey) (ccm_ctr0 nonce) pt =
      ccm_std_ct (seed_bytes (SEED_KeySched mKey)) nonce pt"
    using assms(3,5) by (intro ccm_ct_std) simp_all
  have tag: "wbytes (XOR128 (SEED_Encrypt (ccm_ctr0 nonce) (SEED_KeySched mKey))
      (ccm_mac (SEED_KeySched mKey) macLen nonce aad pt)) =
      ccm_std_tag (seed_bytes (SEED_KeySched mKey)) (unat macLen) nonce aad pt"
    using assms by (intro ccm_tag_std) simp_all
  show ?thesis
    unfolding ccm_encrypt_ok [OF m n16 dv] using unat_mac [OF m]
    by (simp add: Let_def ct tag Word2Byte_wbytes)
qed

theorem ccm_encryption_standard_witness:
  "SEED_CCM_Encryption [1, 2, 3] 8 (replicate 13 7) [9] (replicate 16 0) =
    (let E = seed_bytes (SEED_KeySched (replicate 16 0))
     in Inr \<lparr>ret = 0, buf = ccm_std_ct E (replicate 13 7) [1, 2, 3] @
               take (unat (8 :: u32)) (ccm_std_tag E (unat (8 :: u32)) (replicate 13 7) [9] [1, 2, 3]),
             bufLen = Some (of_nat (length [1, 2, 3 :: u8]) + 8)\<rparr>)"
  by (rule ccm_encryption_standard) simp_all

text \<open>Under the same limits \<open>SEED_CCM_Decryption\<close> returns 0 and the decrypted message
  exactly when the last \<open>macLen\<close> bytes are the standard tag of that message; otherwise
  it returns 1, has overwritten the whole output with zeros and leaves the output
  length alone.\<close>

theorem ccm_decryption_standard:
  assumes "macLen \<in> {4, 6, 8, 10, 12, 14, 16}" and "7 \<le> length nonce" and "length nonce \<le> 13"
    and "unat macLen \<le> length ct" and "length ct < 256 ^ (15 - length nonce)"
    and "length ct \<le> 2 ^ 32 - 16" and "length aad < 2 ^ 16 - 2 ^ 8"
  shows "SEED_CCM_Decryption ct macLen nonce aad mKey =
    (let E = seed_bytes (SEED_KeySched mKey); n = length ct - unat macLen;
         pt = ccm_std_ct E nonce (take n ct)
     in Inr (if drop n ct = take (unat macLen) (ccm_std_tag E (unat macLen) nonce aad pt)
       then \<lparr>ret = 0, buf = pt, bufLen = Some (of_nat n)\<rparr>
       else \<lparr>ret = 1, buf = replicate n 0, bufLen = None\<rparr>))"
proof -
  let ?n = "length ct - unat macLen" and ?k = "SEED_KeySched mKey"
  let ?pt = "ccm_std_ct (seed_bytes ?k) nonce (take ?n ct)"
  have m: "macLen \<le> 16"
    using assms(1) by auto
  have dv: "\<not> ccm_diverges ?n (length aad)" and n16: "length nonce \<le> 16"
    using assms(3,6,7) by (simp_all add: ccm_diverges_def)
  have len: "length (take ?n ct) \<le> length ct"
    by simp
  have "nblocks (length (take ?n ct)) < 256 ^ (15 - length nonce)"
    using nblocks_le [of "length (take ?n ct)"] len assms(5) by linarith
  then have pt: "ccm_ctr_loop ?k (ccm_ctr0 nonce) (take ?n ct) = ?pt"
    using assms(3,6) by (intro ccm_ct_std) simp_all
  have "length ?pt = length (take ?n ct)"
    unfolding pt [symmetric] by (rule length_ccm_ctr_loop)
  then have le: "length ?pt \<le> length ct"
    using len by linarith
  have lpt: "length ?pt < 256 ^ (15 - length nonce)" "length ?pt < 2 ^ 32"
    by (use le assms(5) in linarith, use le assms(6) in simp)
  have tag: "wbytes (XOR128 (SEED_Encrypt (ccm_ctr0 nonce) ?k) (ccm_mac ?k macLen nonce aad ?pt)) =
      ccm_std_tag (seed_bytes ?k) (unat macLen) nonce aad ?pt"
    using assms(1-3,7) lpt by (intro ccm_tag_std) simp_all
  show ?thesis
    unfolding ccm_decrypt_ok [OF m n16 assms(4) dv] pt using unat_mac [OF m]
    by (simp add: Let_def tag Word2Byte_wbytes)
qed

theorem ccm_decryption_standard_witness:
  "SEED_CCM_Decryption (replicate 20 3) 8 (replicate 13 7) [9] (replicate 16 0) =
    (let E = seed_bytes (SEED_KeySched (replicate 16 0)); n = length (replicate 20 (3 :: u8)) - unat (8 :: u32);
         pt = ccm_std_ct E (replicate 13 7) (take n (replicate 20 3))
     in Inr (if drop n (replicate 20 3) = take (unat (8 :: u32))
          (ccm_std_tag E (unat (8 :: u32)) (replicate 13 7) [9] pt)
       then \<lparr>ret = 0, buf = pt, bufLen = Some (of_nat n)\<rparr>
       else \<lparr>ret = 1, buf = replicate n 0, bufLen = None\<rparr>))"
  by (rule ccm_decryption_standard) simp_all

text \<open>The refusals of the CCM operations: a tag length above 16 gives code 1 and length
  0; a nonce of more than 16 bytes overruns the counter block, and a ciphertext
  shorter than its tag is read out of bounds.\<close>

theorem ccm_refusals:
  "(macLen > 16 \<longrightarrow>
      SEED_CCM_Encryption pt macLen nonce aad mKey = Inr \<lparr>ret = 1, buf = [], bufLen = Some 0\<rparr> \<and>
      SEED_CCM_Decryption ct macLen nonce aad mKey = Inr \<lparr>ret = 1, buf = [], bufLen = Some 0\<rparr>) \<and>
   (macLen \<le> 16 \<longrightarrow> length nonce > 16 \<longrightarrow>
      SEED_CCM_Encryption pt macLen nonce aad mKey = Inl Out_of_bounds) \<and>
   (macLen \<le> 16 \<longrightarrow> length nonce > 16 \<or> length ct < unat macLen \<longrightarrow>
      SEED_CCM_Decryption ct macLen nonce aad mKey = Inl Out_of_bounds)"
  by (auto simp: SEED_CCM_Encryption_def SEED_CCM_Decryption_def)

theorem ccm_refusals_witness:
  "SEED_CCM_Encryption [1] 17 [] [] [] = Inr \<lparr>ret = 1, buf = [], bufLen = Some 0\<rparr> \<and>
   SEED_CCM_Encryption [1] 8 (replicate 17 0) [] [] = Inl Out_of_bounds \<and>
   SEED_CCM_Decryption [1, 2] 8 (replicate 12 0) [] [] = Inl Out_of_bounds"
  using ccm_refusals [of 17 "[1]" "[]" "[]" "[]" "[]"]
    ccm_refusals [of 8 "[1]" "replicate 17 0" "[]" "[]" "[]"]
    ccm_refusals [of 8 "[]" "replicate 12 0" "[]" "[]" "[1, 2]"]
  by simp


end
