(* ===== verification/SeedLe.thy ===== *)
theory SeedLe
  imports SeedBlocks
begin

text \<open>
  What \<open>KISA_SEED_CBC.c\<close> and \<open>KISA_SEED_CTR.c\<close> share: word arrays laid over byte buffers on
  a little-endian machine, the swap \<open>EndianChange\<close>, the conversions \<open>chartoint32\<close> and
  \<open>int32tochar\<close>, and the block operations on such arrays. The sources are compiled
  without \<open>BIG_ENDIAN\<close>; both files repeat the tables, constants and macros of
  \<open>KISA_SEED.c\<close>, which the models of theory Seed stand for.
\<close>

section \<open>Words in memory\<close>

definition le_bytes :: "u32 list \<Rightarrow> u8 list" where
  "le_bytes ws = map (\<lambda>i. byte_of (i mod 4) (ws ! (i div 4))) [0..<4 * length ws]"

definition le_word :: "u8 list \<Rightarrow> nat \<Rightarrow> u32" where
  "le_word bs i = be32 (bs ! (4 * i + 3)) (bs ! (4 * i + 2)) (bs ! (4 * i + 1)) (bs ! (4 * i))"

definition EndianChange :: "u32 \<Rightarrow> u32" where
  "EndianChange w = (word_rotl 8 w AND 0x00ff00ff) OR (word_rotl 24 w AND 0xff00ff00)"

text \<open>
  \<open>chartoint32\<close> copies whole words, so it reads up to three bytes past \<open>nLen\<close>: the byte
  list is the buffer, which the callers round up to a multiple of 16.
\<close>

definition chartoint32 :: "u8 list \<Rightarrow> nat \<Rightarrow> u32 list" where
  "chartoint32 inp nLen =
    (let len = (if nLen mod 4 \<noteq> 0 then nLen div 4 + 1 else nLen div 4)
     in map (le_word inp) [0..<len])"

definition int32tochar :: "u32 list \<Rightarrow> nat \<Rightarrow> u8 list" where
  "int32tochar inp nLen = map (\<lambda>i. ucast (drop_bit ((i mod 4) * 8) (inp ! (i div 4)))) [0..<nLen]"

lemma length_le_bytes [simp, len_simps]: "length (le_bytes ws) = 4 * length ws"
  by (simp add: le_bytes_def)

lemma le_bytes_eq_Nil [simp]: "le_bytes ws = [] \<longleftrightarrow> ws = []"
  by (metis length_0_conv length_le_bytes mult_is_0 zero_neq_numeral)

lemma nth_le_bytes: "i < 4 * length ws \<Longrightarrow> le_bytes ws ! i = byte_of (i mod 4) (ws ! (i div 4))"
  by (simp add: le_bytes_def)

lemma take_le_bytes: "take (4 * k) (le_bytes ws) = le_bytes (take k ws)"
  by (rule nth_equalityI) (auto simp: nth_le_bytes)

lemma drop_le_bytes: "drop (4 * k) (le_bytes ws) = le_bytes (drop k ws)"
  by (rule nth_equalityI) (auto simp: nth_le_bytes)

lemma le_bytes_append: "le_bytes (xs @ ys) = le_bytes xs @ le_bytes ys"
  using append_take_drop_id [of "4 * length xs" "le_bytes (xs @ ys)"]
  by (simp only: take_le_bytes drop_le_bytes) simp

lemma le_bytes_Nil [simp]: "le_bytes [] = []"
  by (simp add: le_bytes_def)

lemma le_bytes_Cons: "le_bytes (w # ws) = byte_of 0 w # byte_of 1 w # byte_of 2 w # byte_of 3 w # le_bytes ws"
proof -
  have "le_bytes [w] = [byte_of 0 w, byte_of 1 w, byte_of 2 w, byte_of 3 w]"
    by (simp add: le_bytes_def upt_4)
  then show ?thesis
    using le_bytes_append [of "[w]" ws] by simp
qed

lemma int32tochar_le_bytes: "nLen \<le> 4 * length ws \<Longrightarrow> int32tochar ws nLen = take nLen (le_bytes ws)"
  by (rule nth_equalityI) (simp_all add: int32tochar_def nth_le_bytes byte_of_def mult.commute)

lemma length_chartoint32 [len_simps]: "length (chartoint32 inp nLen) = (nLen + 3) div 4"
  unfolding chartoint32_def Let_def by (simp, presburger)

lemma le_bytes_chartoint32:
  assumes "4 * ((nLen + 3) div 4) \<le> length inp"
  shows "le_bytes (chartoint32 inp nLen) = take (4 * ((nLen + 3) div 4)) inp"
proof (rule nth_equalityI)
  fix i assume "i < length (le_bytes (chartoint32 inp nLen))"
  then have i: "i < 4 * ((nLen + 3) div 4)"
    by (simp add: length_chartoint32)
  then have q: "i div 4 < length (chartoint32 inp nLen)"
    by (simp add: length_chartoint32)
  then have "chartoint32 inp nLen ! (i div 4) = le_word inp (i div 4)"
    by (simp add: chartoint32_def Let_def split: if_splits)
  moreover have "byte_of r (le_word inp q) = inp ! (4 * q + r)" if "r < 4" for r q
  proof -
    have "r = 0 \<or> r = 1 \<or> r = 2 \<or> r = 3"
      using that by arith
    then show ?thesis
      by (auto simp: le_word_def)
  qed
  from this [of "i mod 4" "i div 4"] have "byte_of (i mod 4) (le_word inp (i div 4)) = inp ! i"
    by simp
  ultimately show "le_bytes (chartoint32 inp nLen) ! i = take (4 * ((nLen + 3) div 4)) inp ! i"
    using i by (simp add: nth_le_bytes length_chartoint32)
qed (use assms in \<open>simp add: length_chartoint32\<close>)

text \<open>\<open>memcpy(dst, src, n)\<close> between word arrays, for an array of four words as the target.\<close>

definition memcpy_words :: "u32 list \<Rightarrow> u32 list \<Rightarrow> nat \<Rightarrow> u32 list" where
  "memcpy_words dst src n =
    chartoint32 (take n (le_bytes src) @ drop n (le_bytes dst)) (4 * length dst)"

section \<open>The state both modes keep\<close>

datatype KISA_ENC_DEC = KISA_DECRYPT | KISA_ENCRYPT

record seed_info =
  encrypt :: KISA_ENC_DEC
  seed_key :: "u32 list"
  cbc_buffer :: "u32 list"
  buffer_length :: int
  cbc_last_block :: "u32 list"
  last_block_flag :: int

section \<open>Byte order\<close>

lemma byte_of_EndianChange:
  "byte_of 0 (EndianChange w) = byte_of 3 w" "byte_of (Suc 0) (EndianChange w) = byte_of 2 w"
  "byte_of 2 (EndianChange w) = byte_of (Suc 0) w" "byte_of 3 (EndianChange w) = byte_of 0 w"
proof -
  have m1: "bit (0x00ff00ff :: u32) n \<longleftrightarrow> n < 8 \<or> (16 \<le> n \<and> n < 24)" for n
  proof -
    have e: "(0x00ff00ff :: u32) = mask 8 OR push_bit 16 (mask 8)"
      by (simp add: mask_eq_exp_minus_1)
    show ?thesis
      unfolding e by (auto simp: bit_or_iff bit_push_bit_iff bit_mask_iff)
  qed
  have m2: "bit (0xff00ff00 :: u32) n \<longleftrightarrow> (8 \<le> n \<and> n < 16) \<or> (24 \<le> n \<and> n < 32)" for n
  proof -
    have e: "(0xff00ff00 :: u32) = push_bit 8 (mask 8) OR push_bit 24 (mask 8)"
      by (simp add: mask_eq_exp_minus_1)
    show ?thesis
      unfolding e by (auto simp: bit_or_iff bit_push_bit_iff bit_mask_iff)
  qed
  have E: "bit (EndianChange w) n \<longleftrightarrow>
      (if n < 8 \<or> (16 \<le> n \<and> n < 24) then bit w ((n + 24) mod 32) else bit w ((n + 8) mod 32))"
    if "n < 32" for n
    using that unfolding EndianChange_def bit_or_iff bit_and_iff m1 m2 bit_word_rotl_iff by auto
  have "bit (byte_of j (EndianChange w)) n \<longleftrightarrow> bit (byte_of (3 - j) w) n" if "j < 4" "n < 8" for j n
  proof -
    have "j = 0 \<or> j = 1 \<or> j = 2 \<or> j = 3"
      using that(1) by arith
    then show ?thesis
      using E [of "8 * j + n"] that(2) by (elim disjE) (simp_all add: bit_byte_of add.commute mod_if)
  qed
  then have "byte_of j (EndianChange w) = byte_of (3 - j) w" if "j < 4" for j
    using that by (intro bit_word_eqI) simp
  from this [of 0] this [of 1] this [of 2] this [of 3]
  show "byte_of 0 (EndianChange w) = byte_of 3 w" "byte_of (Suc 0) (EndianChange w) = byte_of 2 w"
    "byte_of 2 (EndianChange w) = byte_of (Suc 0) w" "byte_of 3 (EndianChange w) = byte_of 0 w"
    by simp_all
qed

lemma EndianChange_twice [simp]: "EndianChange (EndianChange w) = w"
  by (simp add: word_eq_bytes byte_of_EndianChange)

lemma EndianChange_le_word:
  "EndianChange (le_word bs i) = be32 (bs ! (4 * i)) (bs ! (4 * i + 1)) (bs ! (4 * i + 2)) (bs ! (4 * i + 3))"
  by (simp add: word_eq_bytes byte_of_EndianChange le_word_def)

lemma le_bytes_wbytes:
  assumes "length b = 4"
  shows "le_bytes b = wbytes (map EndianChange b)"
proof -
  obtain a b' c d where "b = [a, b', c, d]"
    using assms by (rule list4)
  then show ?thesis
    by (simp add: wbytes4 byte_of_EndianChange le_bytes_Cons)
qed

section \<open>The cipher on blocks in memory\<close>

definition seed_bytes_dec :: "u32 list \<Rightarrow> u8 list \<Rightarrow> u8 list" where
  "seed_bytes_dec rKey bs = wbytes (SEED_Decrypt (Byte2Word ZERO128 bs 16) rKey)"

lemma wbytes_of_bytes: "length bs = 16 \<Longrightarrow> wbytes (Byte2Word ZERO128 bs 16) = bs"
  by (simp add: wbytes_Byte2Word pad16_def)

interpretation seed_byte: chained_cipher
  "seed_bytes rKey" "seed_bytes_dec rKey" "\<lambda>b. length b = 16" xorl for rKey
  by unfold_locales
    (simp_all add: seed_bytes_def seed_bytes_dec_def Byte2Word_wbytes SEED_D_E SEED_E_D
      wbytes_of_bytes xorl_cancel)

text \<open>
  A block function that swaps the words in, runs the cipher and swaps them out
  again is the cipher on the bytes as they lie in memory.
\<close>

lemma swapped_encrypt:
  assumes "length b = 4"
  shows "le_bytes (map EndianChange (SEED_Encrypt (map EndianChange b) K)) = seed_bytes K (le_bytes b)"
  using assms by (simp add: le_bytes_wbytes seed_bytes_def Byte2Word_wbytes comp_def)

lemma swapped_decrypt:
  assumes "length b = 4"
  shows "le_bytes (map EndianChange (SEED_Decrypt (map EndianChange b) K)) = seed_bytes_dec K (le_bytes b)"
  using assms by (simp add: le_bytes_wbytes seed_bytes_dec_def Byte2Word_wbytes comp_def)

lemma le_bytes_inject: "length v = length w \<Longrightarrow> le_bytes v = le_bytes w \<longleftrightarrow> v = w"
proof (induction v w rule: list_induct2)
  case (Cons x xs y ys)
  then show ?case
    by (auto simp: le_bytes_Cons word_eq_bytes [of x])
qed simp

lemma le_bytes_xorl: "length v = length w \<Longrightarrow> le_bytes (xorl v w) = xorl (le_bytes v) (le_bytes w)"
  by (induction v w rule: list_induct2) (simp_all add: le_bytes_Cons byte_of_xor)

text \<open>The round keys of the standard for a key that lies in memory.\<close>

lemma key_chain_le:
  "key_chain (EndianChange (le_word k 0), EndianChange (le_word k 1), EndianChange (le_word k 2),
     EndianChange (le_word k 3)) = SEED_KeySched k"
  by (simp add: SEED_KeySched_def EndianChange_le_word Byte2Word_at_be32)

text \<open>What the block functions of both modes build their rounds from.\<close>

lemma out_swap_map:
  "(case s of (L, R) \<Rightarrow> (case L of (L0, L1) \<Rightarrow> \<lambda>(R0, R1).
      [EndianChange R0, EndianChange R1, EndianChange L0, EndianChange L1]) R) =
    map EndianChange (words_of (prod.swap s))"
  by (auto simp: words_of_def split: prod.splits)

lemma halves_swapped:
  "4 \<le> length b \<Longrightarrow> ((EndianChange (b ! 0), EndianChange (b ! 1)), (EndianChange (b ! 2), EndianChange (b ! 3))) =
    halves (map EndianChange (take 4 b))"
  by (simp add: halves_def)

lemma le_bytes_xor4:
  assumes "4 \<le> length a" and "length b = 4"
  shows "le_bytes [a ! 0 XOR b ! 0, a ! 1 XOR b ! 1, a ! 2 XOR b ! 2, a ! 3 XOR b ! 3] =
    xorl (take 16 (le_bytes a)) (le_bytes b)"
proof -
  have "[a ! 0 XOR b ! 0, a ! 1 XOR b ! 1, a ! 2 XOR b ! 2, a ! 3 XOR b ! 3] = xorl (take 4 a) b"
    by (rule nth_equalityI) (use assms in \<open>auto simp: less_Suc_eq numeral_eq_Suc\<close>)
  then show ?thesis
    using assms take_le_bytes [of 4 a] by (simp add: le_bytes_xorl)
qed

section \<open>Buffers\<close>

lemma le_bytes_memcpy:
  assumes "length dst = 4" and "n \<le> 16" and "n \<le> 4 * length src"
  shows "le_bytes (memcpy_words dst src n) = take n (le_bytes src) @ drop n (le_bytes dst)"
    and "length (memcpy_words dst src n) = 4"
  using assms by (simp_all add: memcpy_words_def le_bytes_chartoint32 length_chartoint32)

lemma le_bytes_load16: "length bs = 16 \<Longrightarrow> le_bytes (chartoint32 bs 16) = bs \<and> length (chartoint32 bs 16) = 4"
  by (simp add: le_bytes_chartoint32 length_chartoint32)

lemma chunks_le_bytes:
  assumes "4 \<le> length inp"
  shows "chunks 16 (take (16 * Suc m) (le_bytes inp)) =
    take 16 (le_bytes inp) # chunks 16 (take (16 * m) (le_bytes (drop 4 inp)))"
proof -
  have "take (16 * Suc m) (le_bytes inp) \<noteq> []"
    using assms by auto
  moreover have "drop 16 (le_bytes inp) = le_bytes (drop 4 inp)"
    using drop_le_bytes [of 4 inp] by simp
  ultimately show ?thesis
    by (simp add: chunks_step drop_take min_def)
qed

lemma fold_clear:
  "p \<le> length b \<Longrightarrow> fold (\<lambda>i b. b[length b - i := 0]) (rev [1..<p + 1]) b =
    take (length b - p) b @ replicate p (0 :: u8)"
proof (induction p arbitrary: b)
  case (Suc p)
  have "fold (\<lambda>i b. b[length b - i := 0]) (rev [1..<Suc p + 1]) b =
      fold (\<lambda>i b. b[length b - i := 0]) (rev [1..<p + 1]) (b[length b - Suc p := 0])"
    by simp
  also have "\<dots> = take (length b - p) (b[length b - Suc p := 0]) @ replicate p 0"
    using Suc by simp
  also have "take (length b - p) (b[length b - Suc p := 0]) = take (length b - Suc p) b @ [0]"
    by (rule nth_equalityI) (use Suc.prems in \<open>auto simp: nth_append nth_list_update\<close>)
  finally show ?case
    by simp
qed simp

lemma words_room: "4 * ((n + 3) div 4) \<le> n + (16 - n mod 16)" for n :: nat
proof -
  have n: "n = (n mod 16) + (4 * (n div 16)) * 4"
    using mult_div_mod_eq [of 16 n] by simp
  have "(n + 3) div 4 = ((n mod 16) + 3 + (4 * (n div 16)) * 4) div 4"
    by (subst n) (simp add: ac_simps)
  also have "\<dots> = 4 * (n div 16) + (n mod 16 + 3) div 4"
    by (subst div_mult_self1) simp_all
  finally have "(n + 3) div 4 = 4 * (n div 16) + (n mod 16 + 3) div 4" .
  moreover have "(n mod 16 + 3) div 4 \<le> 4"
    using div_le_mono [of "n mod 16 + 3" 18 4] mod_less_divisor [of 16 n] by simp
  ultimately show ?thesis
    using mult_div_mod_eq [of 16 n] mod_less_divisor [of 16 n] by linarith
qed

end
