(* ===== verification/SeedCbc.thy ===== *)
theory SeedCbc
  imports SeedLe
begin

text \<open>
  CBC mode with PKCS7 padding, \<open>KISA_SEED_CBC.c\<close>: the block functions on words in
  memory, \<open>SEED_CBC_init\<close>, the streaming \<open>SEED_CBC_Process\<close>, \<open>SEED_CBC_Close\<close>, and the
  one-shot \<open>SEED_CBC_Encrypt\<close> and \<open>SEED_CBC_Decrypt\<close>. A pointer that the code compares
  with \<open>NULL\<close> is an option; the words an operation writes through \<open>out\<close> are a result.
  Input and output buffers do not overlap.
\<close>

record cbc_info = seed_info +
  ivec :: "u32 list"

section \<open>Blocks\<close>

definition KISA_SEED_Encrypt_Block_forCBC :: "u32 list \<Rightarrow> u32 list \<Rightarrow> u32 list" where
  "KISA_SEED_Encrypt_Block_forCBC inp K =
    (let s = ((EndianChange (inp ! 0), EndianChange (inp ! 1)), (EndianChange (inp ! 2), EndianChange (inp ! 3)));
     s = round_L K 0 s;
     s = round_R K 2 s;
     s = round_L K 4 s;
     s = round_R K 6 s;
     s = round_L K 8 s;
     s = round_R K 10 s;
     s = round_L K 12 s;
     s = round_R K 14 s;
     s = round_L K 16 s;
     s = round_R K 18 s;
     s = round_L K 20 s;
     s = round_R K 22 s;
     s = round_L K 24 s;
     s = round_R K 26 s;
     s = round_L K 28 s;
     s = round_R K 30 s;
     ((L0, L1), (R0, R1)) = s;
     L0 = EndianChange L0; L1 = EndianChange L1; R0 = EndianChange R0; R1 = EndianChange R1
     in [R0, R1, L0, L1])"

definition KISA_SEED_Decrypt_Block_forCBC :: "u32 list \<Rightarrow> u32 list \<Rightarrow> u32 list" where
  "KISA_SEED_Decrypt_Block_forCBC inp K =
    (let s = ((EndianChange (inp ! 0), EndianChange (inp ! 1)), (EndianChange (inp ! 2), EndianChange (inp ! 3)));
     s = round_L K 30 s;
     s = round_R K 28 s;
     s = round_L K 26 s;
     s = round_R K 24 s;
     s = round_L K 22 s;
     s = round_R K 20 s;
     s = round_L K 18 s;
     s = round_R K 16 s;
     s = round_L K 14 s;
     s = round_R K 12 s;
     s = round_L K 10 s;
     s = round_R K 8 s;
     s = round_L K 6 s;
     s = round_R K 4 s;
     s = round_L K 2 s;
     s = round_R K 0 s;
     ((L0, L1), (R0, R1)) = s;
     L0 = EndianChange L0; L1 = EndianChange L1; R0 = EndianChange R0; R1 = EndianChange R1
     in [R0, R1, L0, L1])"

definition BLOCK_XOR_CBC :: "u32 list \<Rightarrow> u32 list \<Rightarrow> u32 list" where
  "BLOCK_XOR_CBC IN_VALUE1 IN_VALUE2 =
    [IN_VALUE1 ! 0 XOR IN_VALUE2 ! 0, IN_VALUE1 ! 1 XOR IN_VALUE2 ! 1,
     IN_VALUE1 ! 2 XOR IN_VALUE2 ! 2, IN_VALUE1 ! 3 XOR IN_VALUE2 ! 3]"

section \<open>The operations\<close>

definition SEED_CBC_init ::
  "cbc_info option \<Rightarrow> KISA_ENC_DEC \<Rightarrow> u8 list option \<Rightarrow> u8 list option \<Rightarrow> int \<times> cbc_info option" where
  "SEED_CBC_init pInfo enc pbszUserKey pbszIV =
    (case (pInfo, pbszUserKey, pbszIV) of
      (Some _, Some key, Some iv) \<Rightarrow>
        (let A = EndianChange (le_word key 0); B = EndianChange (le_word key 1);
             C = EndianChange (le_word key 2); D = EndianChange (le_word key 3)
         in (1, Some \<lparr>encrypt = enc, seed_key = key_chain (A, B, C, D), cbc_buffer = [0, 0, 0, 0],
              buffer_length = 0, cbc_last_block = [0, 0, 0, 0], last_block_flag = 0,
              ivec = chartoint32 iv 16\<rparr>))
    | _ \<Rightarrow> (0, pInfo))"

text \<open>
  The two loops of \<open>SEED_CBC_Process\<close>: the words written, the final \<open>pdwXOR\<close>, the final
  \<open>in\<close> and the final \<open>nCurrentCount\<close>.
\<close>

function cbc_enc_blocks ::
  "u32 list \<Rightarrow> u32 list \<Rightarrow> u32 list \<Rightarrow> nat \<Rightarrow> nat \<Rightarrow> u32 list \<times> u32 list \<times> u32 list \<times> nat" where
  "cbc_enc_blocks K pdwXOR inp inLen nCurrentCount =
    (if nCurrentCount \<le> inLen then
       let out = BLOCK_XOR_CBC inp pdwXOR;
           out = KISA_SEED_Encrypt_Block_forCBC out K;
           (outs, x, rest, n) = cbc_enc_blocks K out (drop 4 inp) inLen (nCurrentCount + 16)
       in (out @ outs, x, rest, n)
     else ([], pdwXOR, inp, nCurrentCount))"
  by pat_completeness auto
termination
  by (relation "measure (\<lambda>(k, x, i, l, n). l + 16 - n)") auto

function cbc_dec_blocks ::
  "u32 list \<Rightarrow> u32 list \<Rightarrow> u32 list \<Rightarrow> nat \<Rightarrow> nat \<Rightarrow> u32 list \<times> u32 list \<times> nat" where
  "cbc_dec_blocks K pdwXOR inp inLen nCurrentCount =
    (if nCurrentCount \<le> inLen then
       let out = KISA_SEED_Decrypt_Block_forCBC inp K;
           out = BLOCK_XOR_CBC out pdwXOR;
           (outs, x, n) = cbc_dec_blocks K (take 4 inp) (drop 4 inp) inLen (nCurrentCount + 16)
       in (out @ outs, x, n)
     else ([], pdwXOR, nCurrentCount))"
  by pat_completeness auto
termination
  by (relation "measure (\<lambda>(k, x, i, l, n). l + 16 - n)") auto

declare cbc_enc_blocks.simps [simp del] cbc_dec_blocks.simps [simp del]

text \<open>
  Returned code, state, words written and \<open>*outLen\<close>. \<open>nCurrentCount\<close> overflows for an
  \<open>inLen\<close> within 16 of the largest \<open>int\<close>; decrypting less than a block copies
  \<open>cbc_last_block\<close> from in front of the output.
\<close>

definition SEED_CBC_Process ::
  "cbc_info option \<Rightarrow> u32 list option \<Rightarrow> int \<Rightarrow> bool \<Rightarrow>
    c_fault + (int \<times> cbc_info option \<times> u32 list \<times> int option)" where
  "SEED_CBC_Process pInfo inp inLen out_ok =
    (case (pInfo, inp) of
      (Some info, Some w) \<Rightarrow>
        if \<not> out_ok \<or> inLen < 0 then Inr (0, pInfo, [], None)
        else if 2 ^ 31 - 16 \<le> inLen then Inl Int_overflow
        else if 4 * int (length w) < inLen then Inl Out_of_bounds
        else
          let info = info\<lparr>buffer_length := inLen - 16\<rparr>
          in if encrypt info = KISA_ENCRYPT then
               let (out, pdwXOR, rest, n) = cbc_enc_blocks (seed_key info) (ivec info) w (nat inLen) 16;
                   outLen = int n - 16;
                   info = info\<lparr>buffer_length := inLen - outLen\<rparr>;
                   info = info\<lparr>ivec := pdwXOR\<rparr>;
                   info = info\<lparr>cbc_buffer := memcpy_words (cbc_buffer info) rest (nat (buffer_length info))\<rparr>
               in Inr (1, Some info, out, Some outLen)
             else
               let (out, pdwXOR, n) = cbc_dec_blocks (seed_key info) (ivec info) w (nat inLen) 16;
                   outLen = int n - 16;
                   info = info\<lparr>ivec := pdwXOR\<rparr>
               in if length out < 4 then Inl Out_of_bounds
                  else Inr (1, Some (info\<lparr>cbc_last_block := drop (length out - 4) out\<rparr>), out, Some outLen)
    | _ \<Rightarrow> Inr (0, pInfo, [], None))"

text \<open>
  \<open>SEED_CBC_Close\<close>: \<open>before\<close> are the words in front of \<open>out\<close>, which the decrypting branch
  clears from the back.
\<close>

definition SEED_CBC_Close ::
  "cbc_info \<Rightarrow> u32 list \<Rightarrow> bool \<Rightarrow> c_fault + (int \<times> cbc_info \<times> u32 list \<times> u32 list \<times> int)" where
  "SEED_CBC_Close info before out_ok =
    (if \<not> out_ok then Inr (0, info, before, [], 0)
     else if encrypt info = KISA_ENCRYPT then
       if buffer_length info < 0 then Inl Out_of_bounds
       else
         let nPaddngLeng = (16 - of_int (buffer_length info) :: u32);
             b = le_bytes (cbc_buffer info);
             b = fold (\<lambda>i b. b[i := ucast nPaddngLeng]) [nat (buffer_length info)..<16] b;
             info = info\<lparr>cbc_buffer := BLOCK_XOR_CBC (chartoint32 b 16) (ivec info)\<rparr>;
             out = KISA_SEED_Encrypt_Block_forCBC (cbc_buffer info) (seed_key info)
         in Inr (1, info, before, out, 16)
     else
       let nPaddngLeng = unat (le_bytes (cbc_last_block info) ! 15)
       in if 0 < nPaddngLeng \<and> nPaddngLeng \<le> 16 then
            if 4 * length before < nPaddngLeng then Inl Out_of_bounds
            else
              let b = le_bytes before;
                  b = fold (\<lambda>i b. b[length b - i := 0]) (rev [1..<nPaddngLeng + 1]) b
              in Inr (1, info, chartoint32 b (4 * length before), [], int nPaddngLeng)
          else Inr (0, info, before, [], 0))"

text \<open>
  The one-shot functions: the returned length and the bytes written. \<open>info0\<close> is the
  uninitialised local \<open>info\<close>, and \<open>fresh\<close> what \<open>malloc\<close> leaves in the bytes after the
  copied message.
\<close>

definition SEED_CBC_Encrypt ::
  "cbc_info \<Rightarrow> (nat \<Rightarrow> u8) \<Rightarrow> u8 list \<Rightarrow> u8 list \<Rightarrow> u8 list \<Rightarrow> c_fault + (int \<times> u8 list)" where
  "SEED_CBC_Encrypt info0 fresh pbszUserKey pbszIV pt =
    (let n = length pt;
         nPlainTextPadding = 16 - n mod 16;
         newpbszPlainText = pt @ map fresh [0..<nPlainTextPadding];
         info = SEED_CBC_init (Some info0) KISA_ENCRYPT (Some pbszUserKey) (Some pbszIV);
         data = chartoint32 newpbszPlainText n
     in case SEED_CBC_Process (snd info) (Some data) (int n) True of
          Inr (_, Some info, outbuf, Some nRetOutLeng) \<Rightarrow>
            (case SEED_CBC_Close info outbuf True of
              Inr (_, _, outbuf, out, nPaddingLeng) \<Rightarrow>
                Inr (nRetOutLeng + nPaddingLeng, int32tochar (outbuf @ out) (nat (nRetOutLeng + nPaddingLeng)))
            | Inl e \<Rightarrow> Inl e)
        | Inl e \<Rightarrow> Inl e
        | _ \<Rightarrow> Inl Out_of_bounds)"

definition SEED_CBC_Decrypt :: "cbc_info \<Rightarrow> u8 list \<Rightarrow> u8 list \<Rightarrow> u8 list \<Rightarrow> c_fault + (int \<times> u8 list)" where
  "SEED_CBC_Decrypt info0 pbszUserKey pbszIV ct =
    (let n = length ct
     in if n mod 16 > 0 then Inr (0, [])
        else
          let info = SEED_CBC_init (Some info0) KISA_DECRYPT (Some pbszUserKey) (Some pbszIV);
              data = chartoint32 ct n
          in case SEED_CBC_Process (snd info) (Some data) (int n) True of
               Inr (_, Some info, outbuf, Some nRetOutLeng) \<Rightarrow>
                 (case SEED_CBC_Close info outbuf True of
                   Inr (r, _, outbuf, _, nPaddingLeng) \<Rightarrow>
                     if r > 0 then
                       let message_length = nRetOutLeng - nPaddingLeng;
                           message_length = (if message_length < 0 then 0 else message_length)
                       in Inr (message_length, int32tochar outbuf (nat message_length))
                     else Inr (0, [])
                 | Inl e \<Rightarrow> Inl e)
             | Inl e \<Rightarrow> Inl e
             | _ \<Rightarrow> Inl Out_of_bounds)"

section \<open>The block functions on bytes\<close>

lemma Encrypt_Block_forCBC:
  assumes "4 \<le> length b"
  shows "KISA_SEED_Encrypt_Block_forCBC b K = map EndianChange (SEED_Encrypt (map EndianChange (take 4 b)) K)"
  unfolding KISA_SEED_Encrypt_Block_forCBC_def halves_swapped [OF assms]
  by (simp add: SEED_Encrypt_feistel Let_def round_pair feistel_join key_pairs_list out_swap_map
      del: feistel.simps)

lemma Decrypt_Block_forCBC:
  assumes "4 \<le> length b"
  shows "KISA_SEED_Decrypt_Block_forCBC b K = map EndianChange (SEED_Decrypt (map EndianChange (take 4 b)) K)"
  unfolding KISA_SEED_Decrypt_Block_forCBC_def halves_swapped [OF assms]
  by (simp add: SEED_Decrypt_feistel Let_def round_pair feistel_join key_pairs_list out_swap_map
      del: feistel.simps)

lemma le_Encrypt_Block:
  "4 \<le> length b \<Longrightarrow> le_bytes (KISA_SEED_Encrypt_Block_forCBC b K) = seed_bytes K (take 16 (le_bytes b))"
  using swapped_encrypt [of "take 4 b" K] take_le_bytes [of 4 b] by (simp add: Encrypt_Block_forCBC)

lemma le_Decrypt_Block:
  "4 \<le> length b \<Longrightarrow> le_bytes (KISA_SEED_Decrypt_Block_forCBC b K) = seed_bytes_dec K (take 16 (le_bytes b))"
  using swapped_decrypt [of "take 4 b" K] take_le_bytes [of 4 b] by (simp add: Decrypt_Block_forCBC)

lemma length_Blocks [simp, len_simps]:
  "4 \<le> length b \<Longrightarrow> length (KISA_SEED_Encrypt_Block_forCBC b K) = 4"
  "4 \<le> length b \<Longrightarrow> length (KISA_SEED_Decrypt_Block_forCBC b K) = 4"
  by (simp_all add: Encrypt_Block_forCBC Decrypt_Block_forCBC)

lemma length_BLOCK_XOR_CBC [simp, len_simps]: "length (BLOCK_XOR_CBC a b) = 4"
  by (simp add: BLOCK_XOR_CBC_def)

lemma le_BLOCK_XOR_CBC:
  "4 \<le> length a \<Longrightarrow> length b = 4 \<Longrightarrow>
    le_bytes (BLOCK_XOR_CBC a b) = xorl (take 16 (le_bytes a)) (le_bytes b)"
  unfolding BLOCK_XOR_CBC_def by (rule le_bytes_xor4)

section \<open>The loops chain blocks\<close>

text \<open>The cipher blocks and the plain blocks of the first \<open>m\<close> blocks of the input.\<close>

definition cbc_cipher :: "u32 list \<Rightarrow> u32 list \<Rightarrow> u32 list \<Rightarrow> nat \<Rightarrow> u8 list list" where
  "cbc_cipher K x inp m = cbc_enc (seed_bytes K) xorl (le_bytes x) (chunks 16 (take (16 * m) (le_bytes inp)))"

lemma cbc_enc_blocks_ok:
  assumes "length x = 4" and "inLen + 16 - n \<le> 4 * length inp" and "16 \<le> n"
  shows "\<exists>outs x'. cbc_enc_blocks K x inp inLen n =
      (outs, x', drop (4 * ((inLen + 16 - n) div 16)) inp, n + 16 * ((inLen + 16 - n) div 16)) \<and>
    le_bytes outs = concat (cbc_cipher K x inp ((inLen + 16 - n) div 16)) \<and>
    le_bytes x' = cbc_last (le_bytes x) (cbc_cipher K x inp ((inLen + 16 - n) div 16)) \<and>
    length outs = 4 * ((inLen + 16 - n) div 16) \<and> length x' = 4"
  using assms unfolding cbc_cipher_def
proof (induction K x inp inLen n rule: cbc_enc_blocks.induct)
  case (1 K x inp inLen n)
  show ?case
  proof (cases "n \<le> inLen")
    case False
    then have "(inLen + 16 - n) div 16 = 0"
      by simp
    with False 1(2) show ?thesis
      by (subst cbc_enc_blocks.simps) simp
  next
    case True
    let ?o = "KISA_SEED_Encrypt_Block_forCBC (BLOCK_XOR_CBC inp x) K"
    let ?m = "(inLen + 16 - (n + 16)) div 16"
    have m: "(inLen + 16 - n) div 16 = Suc ?m"
      using True by (simp add: le_div_geq)
    have long: "4 \<le> length inp"
      using True 1(3) by simp
    have lo: "length ?o = 4"
      by simp
    have o: "le_bytes ?o = seed_bytes K (xorl (take 16 (le_bytes inp)) (le_bytes x))"
      using long 1(2) by (simp add: le_Encrypt_Block le_BLOCK_XOR_CBC)
    have fit: "inLen + 16 - (n + 16) \<le> 4 * length (drop 4 inp)"
      using 1(3) True long by simp
    have ge: "16 \<le> n + 16"
      by simp
    obtain outs x' where IH: "cbc_enc_blocks K ?o (drop 4 inp) inLen (n + 16) =
          (outs, x', drop (4 * ?m) (drop 4 inp), n + 16 + 16 * ?m)"
        "le_bytes outs = concat (cbc_enc (seed_bytes K) xorl (le_bytes ?o)
          (chunks 16 (take (16 * ?m) (le_bytes (drop 4 inp)))))"
        "le_bytes x' = cbc_last (le_bytes ?o) (cbc_enc (seed_bytes K) xorl (le_bytes ?o)
          (chunks 16 (take (16 * ?m) (le_bytes (drop 4 inp)))))"
        "length outs = 4 * ?m" "length x' = 4"
      using 1(1) [OF True refl refl lo fit ge] by blast
    have ch: "chunks 16 (take (16 * Suc ?m) (le_bytes inp)) =
        take 16 (le_bytes inp) # chunks 16 (take (16 * ?m) (le_bytes (drop 4 inp)))"
      using chunks_le_bytes [OF long] .
    have "cbc_enc_blocks K x inp inLen n = (?o @ outs, x', drop (4 * Suc ?m) inp, n + 16 * Suc ?m)"
      using True IH(1) by (subst cbc_enc_blocks.simps) (simp add: add.commute)
    then show ?thesis
      unfolding m ch using IH(2-5) lo
      by (simp add: le_bytes_append o Let_def)
  qed
qed

definition cbc_plain :: "u32 list \<Rightarrow> u32 list \<Rightarrow> u32 list \<Rightarrow> nat \<Rightarrow> u8 list list" where
  "cbc_plain K x inp m = cbc_dec (seed_bytes_dec K) xorl (le_bytes x) (chunks 16 (take (16 * m) (le_bytes inp)))"

lemma cbc_dec_blocks_ok:
  assumes "length x = 4" and "inLen + 16 - n \<le> 4 * length inp" and "16 \<le> n"
  shows "\<exists>outs x'. cbc_dec_blocks K x inp inLen n = (outs, x', n + 16 * ((inLen + 16 - n) div 16)) \<and>
    le_bytes outs = concat (cbc_plain K x inp ((inLen + 16 - n) div 16)) \<and>
    le_bytes x' = cbc_last (le_bytes x) (chunks 16 (take (16 * ((inLen + 16 - n) div 16)) (le_bytes inp))) \<and>
    length outs = 4 * ((inLen + 16 - n) div 16) \<and> length x' = 4"
  using assms unfolding cbc_plain_def
proof (induction K x inp inLen n rule: cbc_dec_blocks.induct)
  case (1 K x inp inLen n)
  show ?case
  proof (cases "n \<le> inLen")
    case False
    then have "(inLen + 16 - n) div 16 = 0"
      by simp
    with False 1(2) show ?thesis
      by (subst cbc_dec_blocks.simps) simp
  next
    case True
    let ?o = "BLOCK_XOR_CBC (KISA_SEED_Decrypt_Block_forCBC inp K) x"
    let ?m = "(inLen + 16 - (n + 16)) div 16"
    have m: "(inLen + 16 - n) div 16 = Suc ?m"
      using True by (simp add: le_div_geq)
    have long: "4 \<le> length inp"
      using True 1(3) by simp
    have lo: "length ?o = 4" "length (take 4 inp) = 4"
      using long by simp_all
    have o: "le_bytes ?o = xorl (seed_bytes_dec K (take 16 (le_bytes inp))) (le_bytes x)"
      using long 1(2) by (simp add: le_Decrypt_Block le_BLOCK_XOR_CBC seed_byte.blk_D)
    have c: "le_bytes (take 4 inp) = take 16 (le_bytes inp)"
      using take_le_bytes [of 4 inp] by simp
    have fit: "inLen + 16 - (n + 16) \<le> 4 * length (drop 4 inp)"
      using 1(3) True long by simp
    have ge: "16 \<le> n + 16"
      by simp
    obtain outs x' where IH: "cbc_dec_blocks K (take 4 inp) (drop 4 inp) inLen (n + 16) =
          (outs, x', n + 16 + 16 * ?m)"
        "le_bytes outs = concat (cbc_dec (seed_bytes_dec K) xorl (le_bytes (take 4 inp))
          (chunks 16 (take (16 * ?m) (le_bytes (drop 4 inp)))))"
        "le_bytes x' = cbc_last (le_bytes (take 4 inp))
          (chunks 16 (take (16 * ?m) (le_bytes (drop 4 inp))))"
        "length outs = 4 * ?m" "length x' = 4"
      using 1(1) [OF True refl refl lo(2) fit ge] by blast
    have ch: "chunks 16 (take (16 * Suc ?m) (le_bytes inp)) =
        take 16 (le_bytes inp) # chunks 16 (take (16 * ?m) (le_bytes (drop 4 inp)))"
      using chunks_le_bytes [OF long] .
    have "cbc_dec_blocks K x inp inLen n = (?o @ outs, x', n + 16 * Suc ?m)"
      using True IH(1) by (subst cbc_dec_blocks.simps) simp
    then show ?thesis
      unfolding m ch using IH(2-5) lo
      by (simp add: le_bytes_append o c)
  qed
qed

section \<open>One call of each operation\<close>

definition wf_cbc :: "cbc_info \<Rightarrow> bool" where
  "wf_cbc info \<longleftrightarrow> length (ivec info) = 4 \<and> length (cbc_buffer info) = 4"

lemma SEED_CBC_init_ok:
  assumes "length iv = 16"
  shows "\<exists>info. SEED_CBC_init (Some info0) enc (Some key) (Some iv) = (1, Some info) \<and> wf_cbc info \<and>
    encrypt info = enc \<and> seed_key info = SEED_KeySched key \<and> le_bytes (ivec info) = iv \<and>
    buffer_length info = 0"
  using le_bytes_load16 [OF assms] key_chain_le [of key]
  by (simp add: SEED_CBC_init_def Let_def wf_cbc_def)

lemma SEED_CBC_Process_encrypt:
  assumes "wf_cbc info" and "encrypt info = KISA_ENCRYPT" and "n \<le> 4 * length w" and "int n < 2 ^ 31 - 16"
  defines "cs \<equiv> cbc_enc (seed_bytes (seed_key info)) xorl (le_bytes (ivec info))
                  (chunks 16 (take (16 * (n div 16)) (le_bytes w)))"
  shows "\<exists>info' out. SEED_CBC_Process (Some info) (Some w) (int n) True =
      Inr (1, Some info', out, Some (int (16 * (n div 16)))) \<and>
    le_bytes out = concat cs \<and> le_bytes (ivec info') = cbc_last (le_bytes (ivec info)) cs \<and>
    length out = 4 * (n div 16) \<and> wf_cbc info' \<and> encrypt info' = KISA_ENCRYPT \<and> seed_key info' = seed_key info \<and>
    buffer_length info' = int (n mod 16) \<and>
    take (n mod 16) (le_bytes (cbc_buffer info')) = take (n mod 16) (drop (16 * (n div 16)) (le_bytes w))"
proof -
  let ?m = "n div 16"
  have x: "length (ivec info) = 4" and fit: "n + 16 - 16 \<le> 4 * length w"
    using assms(1,3) by (simp_all add: wf_cbc_def)
  obtain outs x' where loop: "cbc_enc_blocks (seed_key info) (ivec info) w n 16 = (outs, x', drop (4 * ?m) w, 16 + 16 * ?m)"
      "le_bytes outs = concat cs" "le_bytes x' = cbc_last (le_bytes (ivec info)) cs" "length outs = 4 * ?m" "length x' = 4"
    using cbc_enc_blocks_ok [OF x fit order_refl, of "seed_key info"] by (auto simp: cs_def cbc_cipher_def)
  have r: "int n - int (16 * ?m) = int (n mod 16)"
    by (simp add: minus_mult_div_eq_mod [symmetric] of_nat_diff)
  let ?b = "memcpy_words (cbc_buffer info) (drop (4 * ?m) w) (n mod 16)"
  have src: "n mod 16 \<le> 4 * length (drop (4 * ?m) w)"
    using assms(3) by (simp add: minus_mult_div_eq_mod [symmetric])
  have b: "le_bytes ?b = take (n mod 16) (le_bytes (drop (4 * ?m) w)) @ drop (n mod 16) (le_bytes (cbc_buffer info))"
    "length ?b = 4"
    using assms(1) src by (intro le_bytes_memcpy; simp add: wf_cbc_def)+
  have d: "le_bytes (drop (4 * ?m) w) = drop (16 * ?m) (le_bytes w)"
    using drop_le_bytes [of "4 * ?m" w] by simp
  have tb: "take (n mod 16) (le_bytes ?b) = take (n mod 16) (drop (16 * ?m) (le_bytes w))"
    using src unfolding b d by simp
  have guards: "\<not> int n < 0" "\<not> 2 ^ 31 - 16 \<le> int n" "\<not> 4 * int (length w) < int n"
    using assms(3,4) by simp_all
  have "SEED_CBC_Process (Some info) (Some w) (int n) True =
      Inr (1, Some (info\<lparr>buffer_length := int (n mod 16), ivec := x', cbc_buffer := ?b\<rparr>), outs, Some (int (16 * ?m)))"
    unfolding SEED_CBC_Process_def using guards r assms(2) by (simp add: Let_def loop(1))
  then show ?thesis
    using loop(2-5) tb b(2) assms(2) by (simp add: wf_cbc_def)
qed

lemma SEED_CBC_Process_decrypt:
  assumes "wf_cbc info" and "encrypt info = KISA_DECRYPT" and "n \<le> 4 * length w" and "int n < 2 ^ 31 - 16"
    and "16 \<le> n"
  defines "cs \<equiv> chunks 16 (take (16 * (n div 16)) (le_bytes w))"
  defines "ps \<equiv> cbc_dec (seed_bytes_dec (seed_key info)) xorl (le_bytes (ivec info)) cs"
  shows "\<exists>info' out. SEED_CBC_Process (Some info) (Some w) (int n) True =
      Inr (1, Some info', out, Some (int (16 * (n div 16)))) \<and>
    le_bytes out = concat ps \<and> le_bytes (ivec info') = cbc_last (le_bytes (ivec info)) cs \<and>
    wf_cbc info' \<and> encrypt info' = KISA_DECRYPT \<and> seed_key info' = seed_key info \<and>
    length out = 4 * (n div 16) \<and> cbc_last_block info' = drop (length out - 4) out"
proof -
  let ?m = "n div 16"
  have x: "length (ivec info) = 4" and fit: "n + 16 - 16 \<le> 4 * length w"
    using assms(1,3) by (simp_all add: wf_cbc_def)
  obtain outs x' where loop: "cbc_dec_blocks (seed_key info) (ivec info) w n 16 = (outs, x', 16 + 16 * ?m)"
      "le_bytes outs = concat ps" "le_bytes x' = cbc_last (le_bytes (ivec info)) cs"
      "length outs = 4 * ?m" "length x' = 4"
    using cbc_dec_blocks_ok [OF x fit order_refl, of "seed_key info"]
    by (auto simp: cs_def ps_def cbc_plain_def)
  have guards: "\<not> int n < 0" "\<not> 2 ^ 31 - 16 \<le> int n" "\<not> 4 * int (length w) < int n"
    using assms(3,4) by simp_all
  have long: "\<not> 4 * ?m < 4"
    using assms(5) by simp
  have "SEED_CBC_Process (Some info) (Some w) (int n) True =
      Inr (1, Some (info\<lparr>buffer_length := int n - 16, ivec := x', cbc_last_block := drop (length outs - 4) outs\<rparr>),
        outs, Some (int (16 * ?m)))"
    unfolding SEED_CBC_Process_def using guards assms(2) long by (simp add: Let_def loop(1,4))
  then show ?thesis
    using loop(2-5) assms(1,2) by (simp add: wf_cbc_def)
qed

lemma fold_fill:
  "r + k \<le> length b \<Longrightarrow>
    fold (\<lambda>i b. b[i := p]) [r..<r + k] b = take r b @ replicate k p @ drop (r + k) b"
proof (induction k)
  case (Suc k)
  have "fold (\<lambda>i b. b[i := p]) [r..<r + Suc k] b = (take r b @ replicate k p @ drop (r + k) b)[r + k := p]"
    using Suc by simp
  also have "\<dots> = take r b @ replicate (Suc k) p @ drop (r + Suc k) b"
    by (rule nth_equalityI) (use Suc.prems in \<open>auto simp: nth_append nth_list_update min_def nth_Cons'\<close>)
  finally show ?case .
qed simp

definition pkcs7 :: "u8 list \<Rightarrow> u8 list" where
  "pkcs7 pt = pt @ replicate (16 - length pt mod 16) (of_nat (16 - length pt mod 16))"

lemma SEED_CBC_Close_encrypt:
  assumes "wf_cbc info" and "encrypt info = KISA_ENCRYPT" and "buffer_length info = int r" and "r < 16"
    and rest: "length rest = r" "take r (le_bytes (cbc_buffer info)) = rest"
  shows "\<exists>info' out. SEED_CBC_Close info before True = Inr (1, info', before, out, 16) \<and>
    le_bytes out = seed_bytes (seed_key info) (xorl (pkcs7 rest) (le_bytes (ivec info))) \<and> length out = 4"
proof -
  let ?p = "of_nat (16 - r) :: u8"
  have pad: "ucast (16 - of_int (int r) :: u32) = ?p"
  proof -
    have "(16 - of_int (int r) :: u32) = of_nat (16 - r)"
      using assms(4) by (simp add: of_nat_diff)
    moreover have "ucast (of_nat (16 - r) :: u32) = ?p"
      using assms(4) by (simp only: unsigned_of_nat) (simp add: take_bit_nat_eq_self del: of_nat_diff)
    ultimately show ?thesis
      by simp
  qed
  let ?b = "rest @ replicate (16 - r) ?p"
  have fill: "fold (\<lambda>i b. b[i := ?p]) [r..<16] (le_bytes (cbc_buffer info)) = ?b"
    using fold_fill [of r "16 - r" "le_bytes (cbc_buffer info)" ?p] assms by (simp add: wf_cbc_def)
  have b: "?b = pkcs7 rest"
    using assms(4) rest(1) by (simp add: pkcs7_def)
  have lb: "length (pkcs7 rest) = 16"
    using assms(4) rest(1) by (simp add: pkcs7_def)
  let ?x = "BLOCK_XOR_CBC (chartoint32 (pkcs7 rest) 16) (ivec info)"
  have "SEED_CBC_Close info before True =
      Inr (1, info\<lparr>cbc_buffer := ?x\<rparr>, before, KISA_SEED_Encrypt_Block_forCBC ?x (seed_key info), 16)"
    unfolding SEED_CBC_Close_def using assms(2,3) pad fill b by (simp add: Let_def)
  moreover have "le_bytes (KISA_SEED_Encrypt_Block_forCBC ?x (seed_key info)) =
      seed_bytes (seed_key info) (xorl (pkcs7 rest) (le_bytes (ivec info)))"
    using le_bytes_load16 [OF lb] lb assms(1)
    by (simp add: le_Encrypt_Block le_BLOCK_XOR_CBC wf_cbc_def)
  ultimately show ?thesis
    by simp
qed

lemma last_le_bytes:
  "4 \<le> length out \<Longrightarrow> le_bytes (drop (length out - 4) out) ! 15 = last (le_bytes out)"
proof -
  assume "4 \<le> length out"
  then have "le_bytes (drop (length out - 4) out) ! 15 = le_bytes out ! (4 * (length out - 4) + 15)"
    by (subst drop_le_bytes [symmetric]) (simp add: nth_drop)
  also have "\<dots> = last (le_bytes out)"
    using \<open>4 \<le> length out\<close> by (subst last_conv_nth) (auto intro!: arg_cong [where f = "\<lambda>i. le_bytes out ! i"])
  finally show ?thesis .
qed

lemma SEED_CBC_Close_decrypt:
  assumes "encrypt info = KISA_DECRYPT" and "cbc_last_block info = drop (length out - 4) out" and "4 \<le> length out"
  defines "p \<equiv> unat (last (le_bytes out))"
  shows "if 0 < p \<and> p \<le> 16
    then \<exists>out'. SEED_CBC_Close info out True = Inr (1, info, out', [], int p) \<and>
      le_bytes out' = take (4 * length out - p) (le_bytes out) @ replicate p 0
    else SEED_CBC_Close info out True = Inr (0, info, out, [], 0)"
proof (cases "0 < p \<and> p \<le> 16")
  case True
  have l: "unat (le_bytes (cbc_last_block info) ! 15) = p"
    using assms(2,3) by (simp add: last_le_bytes p_def)
  let ?b = "take (4 * length out - p) (le_bytes out) @ replicate p (0 :: u8)"
  have b: "fold (\<lambda>i b. b[length b - i := 0]) (rev [1..<p + 1]) (le_bytes out) = ?b"
    using True assms(3) fold_clear [of p "le_bytes out"] by (simp del: upt_Suc)
  have "SEED_CBC_Close info out True = Inr (1, info, chartoint32 ?b (4 * length out), [], int p)"
    unfolding SEED_CBC_Close_def using True assms(1,3) b by (simp add: l Let_def del: upt_Suc)
  moreover have "le_bytes (chartoint32 ?b (4 * length out)) = ?b"
    using True assms(3) by (subst le_bytes_chartoint32) simp_all
  ultimately show ?thesis
    using True by simp
next
  case False
  have l: "unat (le_bytes (cbc_last_block info) ! 15) = p"
    using assms(2,3) by (simp add: last_le_bytes p_def)
  have "SEED_CBC_Close info out True = Inr (0, info, out, [], 0)"
    unfolding SEED_CBC_Close_def using False assms(1) by (auto simp: l Let_def)
  with False show ?thesis
    by auto
qed

section \<open>The one-shot functions\<close>

lemma pkcs7_split:
  "pkcs7 pt = take (16 * (length pt div 16)) pt @ pkcs7 (drop (16 * (length pt div 16)) pt)"
proof -
  have "length (drop (16 * (length pt div 16)) pt) mod 16 = length pt mod 16"
    by (simp add: minus_mult_div_eq_mod)
  then show ?thesis
    by (simp add: pkcs7_def)
qed

lemma length_pkcs7: "length (pkcs7 pt) = 16 * (length pt div 16 + 1)"
  unfolding pkcs7_def by (simp, presburger)

text \<open>What the standard mode computes: PKCS7 padding, then CBC over the padded message.\<close>

definition cbc_std :: "u8 list \<Rightarrow> u8 list \<Rightarrow> u8 list \<Rightarrow> u8 list" where
  "cbc_std key iv pt = concat (cbc_enc (seed_bytes (SEED_KeySched key)) xorl iv (chunks 16 (pkcs7 pt)))"

definition cbc_std_plain :: "u8 list \<Rightarrow> u8 list \<Rightarrow> u8 list \<Rightarrow> u8 list" where
  "cbc_std_plain key iv ct = concat (cbc_dec (seed_bytes_dec (SEED_KeySched key)) xorl iv (chunks 16 ct))"

lemma cbc_pkcs7_split:
  fixes pt iv :: "u8 list" and E :: "u8 list \<Rightarrow> u8 list"
  defines "m \<equiv> 16 * (length pt div 16)"
  defines "cs \<equiv> cbc_enc E xorl iv (chunks 16 (take m pt))"
  shows "concat (cbc_enc E xorl iv (chunks 16 (pkcs7 pt))) =
    concat cs @ E (xorl (pkcs7 (drop m pt)) (cbc_last iv cs))"
proof -
  have l: "length (pkcs7 (drop m pt)) = 16"
    unfolding length_pkcs7 m_def by simp
  then have "chunks 16 (pkcs7 (drop m pt)) = [pkcs7 (drop m pt)]"
    by (subst chunks_step) auto
  moreover have "16 dvd length (take m pt)"
    by (simp add: m_def min_def, presburger)
  ultimately have "chunks 16 (pkcs7 pt) = chunks 16 (take m pt) @ [pkcs7 (drop m pt)]"
    by (subst pkcs7_split) (simp add: chunks_append flip: m_def)
  then show ?thesis
    by (simp add: cbc_enc_append cs_def Let_def)
qed


text \<open>
  C7: \<open>SEED_CBC_Encrypt\<close> returns \<open>16 * (n / 16 + 1)\<close> for a message of \<open>n\<close> bytes and writes
  the CBC encryption of the message padded by PKCS7, whatever the uninitialised memory it
  allocates holds.
\<close>
theorem cbc_encrypt_standard:
  assumes "length iv = 16" and "int (length pt) < 2 ^ 31 - 16"
  shows "SEED_CBC_Encrypt info0 fresh key iv pt =
    Inr (int (16 * (length pt div 16 + 1)), cbc_std key iv pt)"
proof -
  let ?n = "length pt" and ?K = "SEED_KeySched key"
  let ?m = "16 * (?n div 16)" and ?np = "pt @ map fresh [0..<16 - ?n mod 16]"
  obtain info where i: "SEED_CBC_init (Some info0) KISA_ENCRYPT (Some key) (Some iv) = (1, Some info)"
      "wf_cbc info" "encrypt info = KISA_ENCRYPT" "seed_key info = ?K" "le_bytes (ivec info) = iv"
    using SEED_CBC_init_ok [OF assms(1), of info0 KISA_ENCRYPT key] by auto
  let ?w = "chartoint32 ?np ?n"
  have room: "4 * ((?n + 3) div 4) \<le> length ?np"
    using words_room [of ?n] by simp
  have w: "take ?n (le_bytes ?w) = pt" "?n \<le> 4 * length ?w"
  proof -
    have "?n \<le> 4 * ((?n + 3) div 4)"
      by presburger
    then show "take ?n (le_bytes ?w) = pt" "?n \<le> 4 * length ?w"
      using room by (simp_all add: le_bytes_chartoint32 length_chartoint32 min_absorb1)
  qed
  have tm: "take ?m (le_bytes ?w) = take ?m pt"
    using arg_cong [OF w(1), of "take ?m"] by simp
  have td: "take (?n mod 16) (drop ?m (le_bytes ?w)) = drop ?m pt"
    using arg_cong [OF w(1), of "drop ?m"] by (simp add: drop_take minus_mult_div_eq_mod)
  let ?cs = "cbc_enc (seed_bytes ?K) xorl iv (chunks 16 (take ?m pt))"
  obtain info' out where p: "SEED_CBC_Process (Some info) (Some ?w) (int ?n) True =
        Inr (1, Some info', out, Some (int ?m))" "le_bytes out = concat ?cs"
      "le_bytes (ivec info') = cbc_last iv ?cs" "wf_cbc info'" "encrypt info' = KISA_ENCRYPT"
      "seed_key info' = ?K" "buffer_length info' = int (?n mod 16)" "length out = 4 * (?n div 16)"
      "take (?n mod 16) (le_bytes (cbc_buffer info')) = drop ?m pt"
    using SEED_CBC_Process_encrypt [OF i(2,3) w(2) assms(2)] unfolding i(4,5) tm td by blast
  have r: "length (drop ?m pt) = ?n mod 16"
    by (simp add: minus_mult_div_eq_mod)
  obtain info'' last where c: "SEED_CBC_Close info' out True = Inr (1, info'', out, last, 16)"
      "le_bytes last = seed_bytes ?K (xorl (pkcs7 (drop ?m pt)) (cbc_last iv ?cs))" "length last = 4"
    using SEED_CBC_Close_encrypt [OF p(4,5,7) mod_less_divisor r p(9), of out] unfolding p(3,6) by auto
  have lb: "le_bytes (out @ last) = cbc_std key iv pt"
    unfolding le_bytes_append p(2) c(2) cbc_std_def cbc_pkcs7_split ..
  have len: "length (out @ last) = 4 * (?n div 16 + 1)"
    using p(8) c(3) by simp
  have nat: "nat (int ?m + 16) = 4 * length (out @ last)"
    unfolding len by simp
  have "int32tochar (out @ last) (nat (int ?m + 16)) = cbc_std key iv pt"
    unfolding nat lb [symmetric] by (subst int32tochar_le_bytes) simp_all
  then show ?thesis
    unfolding SEED_CBC_Encrypt_def Let_def i(1) snd_conv p(1) by (simp add: c(1))
qed


theorem cbc_encrypt_standard_witness:
  "\<forall>info0. SEED_CBC_Encrypt info0 (\<lambda>_. 7) (replicate 16 1) (replicate 16 2) [1, 2, 3] =
    Inr (16, cbc_std (replicate 16 1) (replicate 16 2) [1, 2, 3])"
  by (rule allI, subst cbc_encrypt_standard) simp_all

lemma cbc_dec_length:
  assumes "16 dvd length ct" and "length iv = 16"
  shows "length (cbc_std_plain key iv ct) = length ct"
proof -
  have "length (concat (cbc_dec (seed_bytes_dec K) xorl iv cs)) = 16 * length cs"
    if "\<forall>c \<in> set cs. length c = 16" for K and cs :: "u8 list list"
    using that assms(2) by (induction cs arbitrary: iv) (simp_all add: seed_byte.blk_D)
  from this [of "chunks 16 ct"] show ?thesis
    using assms(1) by (simp add: cbc_std_plain_def chunk_lengths length_chunks)
qed

text \<open>
  \<open>SEED_CBC_Decrypt\<close> of a positive multiple of 16 bytes computes the CBC decryption and
  then looks at its last byte alone: between 1 and 16 it is the number of bytes taken off
  the end, otherwise the call returns 0.
\<close>
theorem cbc_decrypt_standard:
  assumes "length iv = 16" and "int (length ct) < 2 ^ 31 - 16" and "16 dvd length ct" and "ct \<noteq> []"
  shows "SEED_CBC_Decrypt info0 key iv ct =
    (let p = unat (last (cbc_std_plain key iv ct)); n = length ct - p
     in if 0 < p \<and> p \<le> 16 then Inr (int n, take n (cbc_std_plain key iv ct)) else Inr (0, []))"
proof -
  let ?n = "length ct" and ?K = "SEED_KeySched key" and ?ps = "cbc_std_plain key iv ct"
  obtain info where i: "SEED_CBC_init (Some info0) KISA_DECRYPT (Some key) (Some iv) = (1, Some info)"
      "wf_cbc info" "encrypt info = KISA_DECRYPT" "seed_key info = ?K" "le_bytes (ivec info) = iv"
    using SEED_CBC_init_ok [OF assms(1), of info0 KISA_DECRYPT key] by auto
  obtain q where q0: "?n = 16 * q"
    using assms(3) by (rule dvdE)
  with assms(4) have q: "?n = 16 * q" "0 < q"
    by (cases "q = 0"; simp)+
  let ?w = "chartoint32 ct ?n"
  have words: "4 * ((?n + 3) div 4) = ?n"
    using q by presburger
  have w: "le_bytes ?w = ct" "?n \<le> 4 * length ?w"
    using words by (simp_all add: le_bytes_chartoint32 length_chartoint32)
  have n16: "16 \<le> ?n"
    using q by simp
  obtain info' out where p: "SEED_CBC_Process (Some info) (Some ?w) (int ?n) True =
        Inr (1, Some info', out, Some (int ?n))" "le_bytes out = ?ps"
      "encrypt info' = KISA_DECRYPT" "length out = 4 * q" "cbc_last_block info' = drop (length out - 4) out"
    using SEED_CBC_Process_decrypt [OF i(2,3) w(2) assms(2) n16] unfolding i(4,5) w(1) cbc_std_plain_def
    using q by auto
  have four: "4 \<le> length out"
    using p(4) q by simp
  define k where "k = unat (last ?ps)"
  have "SEED_CBC_Decrypt info0 key iv ct =
    (if 0 < k \<and> k \<le> 16 then Inr (int (?n - k), take (?n - k) ?ps) else Inr (0, []))" (is ?main)
  proof (cases "0 < k \<and> k \<le> 16")
    case True
    then obtain out' where c: "SEED_CBC_Close info' out True = Inr (1, info', out', [], int k)"
        "le_bytes out' = take (?n - k) ?ps @ replicate k 0"
      using SEED_CBC_Close_decrypt [OF p(3,5) four] q p(4) unfolding p(2) k_def [symmetric] by auto
    have l: "4 * length out' = ?n"
      using arg_cong [OF c(2), of length] cbc_dec_length [OF assms(3,1), of key] True n16 by simp
    have "int32tochar out' (?n - k) = take (?n - k) ?ps"
      using l cbc_dec_length [OF assms(3,1), of key] by (subst int32tochar_le_bytes) (simp_all add: c(2))
    moreover have "nat (16 * int q - int k) = ?n - k" "int k \<le> 16 * int q"
      using True q by (simp_all add: nat_diff_distrib')
    ultimately show ?main
      unfolding SEED_CBC_Decrypt_def Let_def i(1) snd_conv p(1) using True q by (simp add: c(1) of_nat_diff)
  next
    case False
    then have "SEED_CBC_Close info' out True = Inr (0, info', out, [], 0)"
      using SEED_CBC_Close_decrypt [OF p(3,5) four] unfolding p(2) k_def [symmetric] by auto
    then show ?main
      unfolding SEED_CBC_Decrypt_def Let_def i(1) snd_conv p(1) using False q by auto
  qed
  then show ?thesis
    by (simp add: Let_def k_def)
qed


theorem cbc_decrypt_standard_witness:
  "\<forall>info0. SEED_CBC_Decrypt info0 (replicate 16 1) (replicate 16 2) (replicate 16 5) =
    (let q = cbc_std_plain (replicate 16 1) (replicate 16 2) (replicate 16 5);
         p = unat (last q); n = 16 - p
     in if 0 < p \<and> p \<le> 16 then Inr (int n, take n q) else Inr (0, []))"
  by (rule allI, subst cbc_decrypt_standard) (simp_all add: Let_def)

lemma cbc_std_back:
  assumes "length iv = 16"
  shows "cbc_std_plain key iv (cbc_std key iv pt) = pkcs7 pt"
proof -
  let ?K = "SEED_KeySched key"
  let ?c = "cbc_enc (seed_bytes ?K) xorl iv (chunks 16 (pkcs7 pt))"
  have b: "\<forall>b \<in> set (chunks 16 (pkcs7 pt)). length b = 16"
    using chunk_lengths [of 16 "pkcs7 pt"] by (simp add: length_pkcs7)
  have "length c = 16" if "c \<in> set ?c" for c
    using seed_byte.cbc_blocks [OF assms b that] .
  then have "chunks 16 (concat ?c) = ?c"
    by (intro chunks_concat) auto
  then show ?thesis
    using seed_byte.cbc_back [OF assms b, of ?K] by (simp add: cbc_std_plain_def cbc_std_def concat_chunks)
qed

lemma length_cbc_std:
  assumes "length iv = 16"
  shows "length (cbc_std key iv pt) = 16 * (length pt div 16 + 1)"
proof -
  have "length (concat cs) = 16 * length cs" if "\<forall>c \<in> set cs. length c = 16" for cs :: "u8 list list"
    using that by (induction cs) auto
  moreover have "\<forall>b \<in> set (chunks 16 (pkcs7 pt)). length b = 16"
    using chunk_lengths [of 16 "pkcs7 pt"] by (simp add: length_pkcs7)
  ultimately show ?thesis
    using seed_byte.cbc_blocks [OF assms] unfolding cbc_std_def
    by (simp add: length_chunks length_pkcs7)
qed

lemma last_pkcs7: "unat (last (pkcs7 pt)) = 16 - length pt mod 16" "pkcs7 pt \<noteq> []"
proof -
  have "unat (of_nat p :: u8) = p" if "p \<le> 16" for p
    using that by (simp add: unat_of_nat)
  then show "unat (last (pkcs7 pt)) = 16 - length pt mod 16"
    by (simp add: pkcs7_def last_replicate del: of_nat_diff)
qed (simp add: pkcs7_def)

text \<open>
  Decrypting what \<open>SEED_CBC_Encrypt\<close> wrote gives back the message and its length.
\<close>
theorem cbc_roundtrip:
  assumes "SEED_CBC_Encrypt info0 fresh key iv pt = Inr (n, ct)"
    and "length iv = 16" and "int (length pt) < 2 ^ 31 - 32"
  shows "SEED_CBC_Decrypt info1 key iv ct = Inr (int (length pt), pt)"
proof -
  have ct: "ct = cbc_std key iv pt"
    using assms(1) cbc_encrypt_standard [OF assms(2), of pt info0 fresh key] assms(3) by simp
  have l: "length ct = 16 * (length pt div 16 + 1)"
    unfolding ct by (rule length_cbc_std [OF assms(2)])
  have small: "int (length ct) < 2 ^ 31 - 16"
    unfolding l using assms(3) by simp
  have d: "16 dvd length ct" "ct \<noteq> []"
    using l by auto
  have k: "length ct - (16 - length pt mod 16) = length pt"
    unfolding l using mult_div_mod_eq [of 16 "length pt"] by simp
  have "take (length pt) (pkcs7 pt) = pt" "0 < 16 - length pt mod 16" "16 - length pt mod 16 \<le> 16"
    by (simp_all add: pkcs7_def)
  then show ?thesis
    using cbc_decrypt_standard [OF assms(2) small d, of info1 key] k
    by (simp only: ct cbc_std_back [OF assms(2)] last_pkcs7 Let_def) simp
qed

theorem cbc_roundtrip_witness:
  "\<forall>info1. SEED_CBC_Decrypt info1 (replicate 16 1) (replicate 16 2)
      (cbc_std (replicate 16 1) (replicate 16 2) [1, 2, 3]) = Inr (3, [1, 2, 3])"
  using cbc_roundtrip [of _ "\<lambda>_. 7" "replicate 16 1" "replicate 16 2" "[1, 2, 3]"]
  by (simp add: cbc_encrypt_standard)


section \<open>Streaming\<close>

lemma cbc_enc_blocks_shift:
  "cbc_enc_blocks K x inp (l + d) (n + d) =
    (case cbc_enc_blocks K x inp l n of (outs, x', rest, m) \<Rightarrow> (outs, x', rest, m + d))"
proof (induction K x inp l n rule: cbc_enc_blocks.induct)
  case (1 K x inp l n)
  show ?case
  proof (cases "n \<le> l")
    case True
    let ?o = "KISA_SEED_Encrypt_Block_forCBC (BLOCK_XOR_CBC inp x) K"
    have "cbc_enc_blocks K ?o (drop 4 inp) (l + d) (n + 16 + d) =
        (case cbc_enc_blocks K ?o (drop 4 inp) l (n + 16) of (outs, x', rest, m) \<Rightarrow> (outs, x', rest, m + d))"
      by (rule 1 [OF True refl refl])
    with True show ?thesis
      by (subst (1 2) cbc_enc_blocks.simps) (simp add: ac_simps split: prod.splits)
  qed (subst (1 2) cbc_enc_blocks.simps, simp)
qed

lemma cbc_enc_blocks_append:
  assumes "length w1 = 4 * j"
    and "cbc_enc_blocks K x w1 (16 * j) 16 = (o1, x1, r1, m1)"
    and "cbc_enc_blocks K x1 w2 n2 16 = (o2, x2, r2, m2)"
  shows "cbc_enc_blocks K x (w1 @ w2) (16 * j + n2) 16 = (o1 @ o2, x2, r2, 16 * j + m2) \<and> m1 = 16 * j + 16"
  using assms
proof (induction j arbitrary: w1 x o1 m1)
  case 0
  have "cbc_enc_blocks K x w1 0 16 = ([], x, w1, 16)"
    by (subst cbc_enc_blocks.simps) simp
  with 0 show ?case
    by auto
next
  case (Suc j)
  let ?o = "KISA_SEED_Encrypt_Block_forCBC (BLOCK_XOR_CBC w1 x) K"
  have e: "BLOCK_XOR_CBC (w1 @ w2) x = BLOCK_XOR_CBC w1 x"
    using Suc.prems(1) by (simp add: BLOCK_XOR_CBC_def nth_append)
  obtain o' m' where r: "cbc_enc_blocks K ?o (drop 4 w1) (16 * j) 16 = (o', x1, r1, m')"
      "o1 = ?o @ o'" "m1 = m' + 16"
    using Suc.prems(2) cbc_enc_blocks_shift [of K ?o "drop 4 w1" "16 * j" 16 16]
    by (subst (asm) (2) cbc_enc_blocks.simps) (auto simp: Let_def add.commute split: prod.splits)
  have l: "length (drop 4 w1) = 4 * j"
    using Suc.prems(1) by simp
  have IH: "cbc_enc_blocks K ?o (drop 4 w1 @ w2) (16 * j + n2) 16 = (o' @ o2, x2, r2, 16 * j + m2)"
      "m' = 16 * j + 16"
    using Suc.IH [OF l r(1) Suc.prems(3)] by auto
  have "cbc_enc_blocks K ?o (drop 4 w1 @ w2) (16 * Suc j + n2) (16 + 16) = (o' @ o2, x2, r2, 16 * j + m2 + 16)"
    using cbc_enc_blocks_shift [of K ?o "drop 4 w1 @ w2" "16 * j + n2" 16 16] IH(1) by (simp add: ac_simps)
  then show ?case
    using r IH(2) Suc.prems(1)
    by (subst cbc_enc_blocks.simps) (simp add: e Let_def)
qed


text \<open>
  Encrypting a message in two calls of \<open>SEED_CBC_Process\<close>, the first of whole blocks,
  leaves the state and the output of the one call on the whole message.
\<close>
theorem cbc_streaming:
  assumes first: "SEED_CBC_Process (Some info) (Some w1) (int n1) True = Inr (1, Some info1, out1, Some len1)"
    and second: "SEED_CBC_Process (Some info1) (Some w2) (int n2) True = Inr (1, Some info2, out2, Some len2)"
    and wf: "wf_cbc info" and "encrypt info = KISA_ENCRYPT" and "16 dvd n1" and "length w1 = n1 div 4"
    and "int (n1 + n2) < 2 ^ 31 - 16"
  shows "SEED_CBC_Process (Some info) (Some (w1 @ w2)) (int (n1 + n2)) True =
    Inr (1, Some info2, out1 @ out2, Some (len1 + len2))"
proof -
  obtain j where j: "n1 = 16 * j"
    using assms(5) by (rule dvdE)
  obtain o1 x1 r1 m1 where l1: "cbc_enc_blocks (seed_key info) (ivec info) w1 n1 16 = (o1, x1, r1, m1)"
    by (cases "cbc_enc_blocks (seed_key info) (ivec info) w1 n1 16") auto
  obtain o2 x2 r2 m2 where l2: "cbc_enc_blocks (seed_key info) x1 w2 n2 16 = (o2, x2, r2, m2)"
    by (cases "cbc_enc_blocks (seed_key info) x1 w2 n2 16") auto
  have w1: "length w1 = 4 * j"
    using assms(6) j by simp
  have both: "cbc_enc_blocks (seed_key info) (ivec info) (w1 @ w2) (n1 + n2) 16 = (o1 @ o2, x2, r2, n1 + m2)"
      "m1 = n1 + 16"
    using cbc_enc_blocks_append [OF w1 l1 [unfolded j] l2] by (simp_all add: j)
  have m: "memcpy_words (cbc_buffer info) r 0 = cbc_buffer info" for r
    using le_bytes_load16 [of "le_bytes (cbc_buffer info)"] wf
    by (simp add: memcpy_words_def wf_cbc_def flip: le_bytes_inject)
  have s1: "info1 = info\<lparr>buffer_length := 0, ivec := x1\<rparr>" "out1 = o1" "len1 = int n1"
    using first assms(4) unfolding SEED_CBC_Process_def
    by (auto simp: Let_def l1 both(2) m split: if_splits)
  have s2: "info2 = info\<lparr>buffer_length := int n2 - (int m2 - 16), ivec := x2,
      cbc_buffer := memcpy_words (cbc_buffer info) r2 (nat (int n2 - (int m2 - 16)))\<rparr>"
    "out2 = o2" "len2 = int m2 - 16" "n2 \<le> 4 * length w2"
    using second assms(4) unfolding SEED_CBC_Process_def s1(1)
    by (auto simp: Let_def l2 split: if_splits)
  have guards: "\<not> int (n1 + n2) < 0" "\<not> 2 ^ 31 - 16 \<le> int (n1 + n2)"
      "\<not> 4 * int (length (w1 @ w2)) < int (n1 + n2)"
    using assms(5,7) s2(4) w1 j by simp_all
  have e: "int (n1 + n2) - (int (n1 + m2) - 16) = int n2 - (int m2 - 16)" "nat (int n1 + int n2) = n1 + n2"
      "int n2 + (16 - int m2) = int n2 - (int m2 - 16)"
    by simp_all
  show ?thesis
    unfolding SEED_CBC_Process_def using guards assms(4)
    by (simp add: Let_def both(1) e(2,3) s1 s2)
qed

theorem cbc_streaming_witness:
  "\<exists>info2 out1 out2. SEED_CBC_Process (Some \<lparr>encrypt = KISA_ENCRYPT, seed_key = [], cbc_buffer = [0, 0, 0, 0],
      buffer_length = 0, cbc_last_block = [0, 0, 0, 0], last_block_flag = 0, ivec = [9, 9, 9, 9]\<rparr>)
      (Some ([1, 2, 3, 4] @ [5, 6, 7, 8])) (int (16 + 7)) True =
    Inr (1, Some info2, out1 @ out2, Some (16 + 0))" (is "\<exists>info2 out1 out2. SEED_CBC_Process (Some ?info) _ _ _ = _")
proof -
  have wf: "wf_cbc ?info" "encrypt ?info = KISA_ENCRYPT"
    by (simp_all add: wf_cbc_def)
  obtain info1 out1 where 1: "SEED_CBC_Process (Some ?info) (Some [1, 2, 3, 4]) (int 16) True =
      Inr (1, Some info1, out1, Some 16)" "wf_cbc info1" "encrypt info1 = KISA_ENCRYPT"
    using SEED_CBC_Process_encrypt [OF wf, of 16 "[1, 2, 3, 4]"] by auto
  obtain info2 out2 where 2: "SEED_CBC_Process (Some info1) (Some [5, 6, 7, 8]) (int 7) True =
      Inr (1, Some info2, out2, Some 0)"
    using SEED_CBC_Process_encrypt [OF 1(2,3), of 7 "[5, 6, 7, 8]"] by auto
  show ?thesis
    using cbc_streaming [OF 1(1) 2 wf] by auto
qed

text \<open>
  The refusals. A null pointer or a negative length leaves the state alone and returns
  0; so does a ciphertext that is not a multiple of 16 bytes. Decrypting no bytes at all
  reads the block in front of the output buffer.
\<close>
theorem cbc_refusals:
  "SEED_CBC_init None enc user_key init_vec = (0, None) \<and>
   SEED_CBC_init pInfo enc None init_vec = (0, pInfo) \<and>
   SEED_CBC_init pInfo enc user_key None = (0, pInfo) \<and>
   (pInfo = None \<or> inp = None \<or> \<not> out_ok \<or> inLen < 0 \<longrightarrow>
      SEED_CBC_Process pInfo inp inLen out_ok = Inr (0, pInfo, [], None)) \<and>
   SEED_CBC_Close info before False = Inr (0, info, before, [], 0) \<and>
   (length ct mod 16 \<noteq> 0 \<longrightarrow> SEED_CBC_Decrypt info0 key iv ct = Inr (0, [])) \<and>
   (ct = [] \<longrightarrow> SEED_CBC_Decrypt info0 key iv ct = Inl Out_of_bounds)"
proof -
  have "cbc_dec_blocks K x w 0 16 = ([], x, 16)" for K x w
    by (subst cbc_dec_blocks.simps) simp
  then have "SEED_CBC_Decrypt info0 key iv [] = Inl Out_of_bounds"
    by (simp add: SEED_CBC_Decrypt_def SEED_CBC_init_def SEED_CBC_Process_def Let_def)
  then show ?thesis
    by (auto simp: SEED_CBC_init_def SEED_CBC_Process_def SEED_CBC_Close_def SEED_CBC_Decrypt_def
        split: option.splits)
qed

theorem cbc_refusals_witness:
  "\<forall>info0. SEED_CBC_Process (Some info0) (Some []) (- 1) True = Inr (0, Some info0, [], None) \<and>
    SEED_CBC_Decrypt info0 [] [] [1] = Inr (0, []) \<and> SEED_CBC_Decrypt info0 [] [] [] = Inl Out_of_bounds"
proof
  fix info0
  show "SEED_CBC_Process (Some info0) (Some []) (- 1) True = Inr (0, Some info0, [], None) \<and>
    SEED_CBC_Decrypt info0 [] [] [1] = Inr (0, []) \<and> SEED_CBC_Decrypt info0 [] [] [] = Inl Out_of_bounds"
    using cbc_refusals [where pInfo = "Some info0" and inp = "Some []" and inLen = "- 1" and out_ok = True]
      cbc_refusals [where info0 = info0 and key = "[]" and iv = "[]" and ct = "[1]"]
      cbc_refusals [where info0 = info0 and key = "[]" and iv = "[]" and ct = "[]"]
    by simp
qed

end
