(* ===== verification/SeedCtr.thy ===== *)
theory SeedCtr
  imports SeedLe
begin

text \<open>
  Counter mode, \<open>KISA_SEED_CTR.c\<close>: the nonce and counter helpers, the block function,
  \<open>SEED_CTR_init\<close>, the streaming \<open>SEED_CTR_Process\<close>, \<open>SEED_CTR_Close\<close>, and the one-shot
  \<open>SEED_CTR_Encrypt\<close> and \<open>SEED_CTR_Decrypt\<close>. Pointers the code compares with \<open>NULL\<close> are
  options; the words an operation writes through \<open>out\<close> are a result.
\<close>

record ctr_info = seed_info +
  ctr :: "u32 list"

datatype NONCE_TYPE = NONCE_NONE | NONCE_OR | NONCE_AND | NONCE_XOR

section \<open>Counter and nonce\<close>

text \<open>
  The carry loop of \<open>UpdateCounter_for_SEED\<close> from index \<open>i\<close> downwards: the array, and
  whether the loop returned from the function.
\<close>

function counter_carry :: "u8 list \<Rightarrow> u8 \<Rightarrow> nat \<Rightarrow> u8 list \<times> bool" where
  "counter_carry pbOUT bszBackup i =
    (if i > 1 then
       if bszBackup \<le> pbOUT ! i then (pbOUT, True)
       else counter_carry (pbOUT[i - 1 := pbOUT ! (i - 1) + 1]) (pbOUT ! (i - 1)) (i - 1)
     else (pbOUT, False))"
  by pat_completeness auto
termination
  by (relation "measure (\<lambda>(b, x, i). i)") auto

declare counter_carry.simps [simp del]

definition UpdateCounter_for_SEED :: "u8 list \<Rightarrow> u8 \<Rightarrow> int \<Rightarrow> u8 list" where
  "UpdateCounter_for_SEED pbOUT nIncreaseValue nMin =
    (if 0 > nMin then pbOUT
     else
       let (bszBackup, pbOUT) =
             (if 0 < nMin then (pbOUT ! nat nMin, pbOUT[nat nMin := pbOUT ! nat nMin + nIncreaseValue])
              else (0, pbOUT));
           (pbOUT, returned) = counter_carry pbOUT bszBackup (nat nMin)
       in if returned then pbOUT else pbOUT[0 := pbOUT ! 0 + nIncreaseValue])"

definition InitNonce_SEED :: "NONCE_TYPE \<Rightarrow> u8 list \<Rightarrow> u8 list \<Rightarrow> u8 list \<Rightarrow> u8 list" where
  "InitNonce_SEED type pbszIV pbszCounter pbszNonce =
    (case type of
       NONCE_NONE \<Rightarrow> pbszNonce
     | NONCE_OR \<Rightarrow> map (\<lambda>i. pbszIV ! i OR pbszCounter ! i) [0..<16]
     | NONCE_AND \<Rightarrow> map (\<lambda>i. pbszIV ! i AND pbszCounter ! i) [0..<16]
     | NONCE_XOR \<Rightarrow> map (\<lambda>i. pbszIV ! i XOR pbszCounter ! i) [0..<16])"

section \<open>Blocks\<close>

definition KISA_SEED_Block_forCTR :: "u32 list \<Rightarrow> u32 list \<Rightarrow> u32 list" where
  "KISA_SEED_Block_forCTR inp K =
    (let s = ((EndianChange (inp ! 0), EndianChange (inp ! 1)), (EndianChange (inp ! 2), EndianChange (inp ! 3)));
     s = round_L K 0 s;
     s = round_R K 2 s;
     s = round_L K 4 s;
     s = round_R K 6 s;
     s = round_L K 8 s;
     s = round_R K 10 s;
     s = round_L K 12 s;
     s = round_R K 14 s;
     s = round_L K 16 s;
     s = round_R K 18 s;
     s = round_L K 20 s;
     s = round_R K 22 s;
     s = round_L K 24 s;
     s = round_R K 26 s;
     s = round_L K 28 s;
     s = round_R K 30 s;
     ((L0, L1), (R0, R1)) = s;
     L0 = EndianChange L0; L1 = EndianChange L1; R0 = EndianChange R0; R1 = EndianChange R1
     in [R0, R1, L0, L1])"

definition BLOCK_XOR_SEED :: "u32 list \<Rightarrow> u32 list \<Rightarrow> u32 list" where
  "BLOCK_XOR_SEED IN_VALUE1 IN_VALUE2 =
    [IN_VALUE1 ! 0 XOR IN_VALUE2 ! 0, IN_VALUE1 ! 1 XOR IN_VALUE2 ! 1,
     IN_VALUE1 ! 2 XOR IN_VALUE2 ! 2, IN_VALUE1 ! 3 XOR IN_VALUE2 ! 3]"

section \<open>The operations\<close>

definition SEED_CTR_init ::
  "ctr_info option \<Rightarrow> KISA_ENC_DEC \<Rightarrow> u8 list option \<Rightarrow> u8 list option \<Rightarrow> int \<times> ctr_info option" where
  "SEED_CTR_init pInfo enc pbszUserKey pbszCounter =
    (case (pInfo, pbszUserKey, pbszCounter) of
      (Some _, Some key, Some counter) \<Rightarrow>
        (let A = EndianChange (le_word key 0); B = EndianChange (le_word key 1);
             C = EndianChange (le_word key 2); D = EndianChange (le_word key 3)
         in (1, Some \<lparr>encrypt = enc, seed_key = key_chain (A, B, C, D), cbc_buffer = [0, 0, 0, 0],
              buffer_length = 0, cbc_last_block = [0, 0, 0, 0], last_block_flag = 0,
              ctr = chartoint32 counter 16\<rparr>))
    | _ \<Rightarrow> (0, pInfo))"

text \<open>The loop of \<open>SEED_CTR_Process\<close>: the words written, the counter and \<open>nCurrentCount\<close>.\<close>

function ctr_blocks :: "u32 list \<Rightarrow> u32 list \<Rightarrow> u32 list \<Rightarrow> nat \<Rightarrow> nat \<Rightarrow> u32 list \<times> u32 list \<times> nat" where
  "ctr_blocks K pdwCounter inp inLen nCurrentCount =
    (if nCurrentCount < inLen then
       let out = KISA_SEED_Block_forCTR pdwCounter K;
           out = BLOCK_XOR_SEED inp out;
           pdwCounter = chartoint32 (UpdateCounter_for_SEED (le_bytes pdwCounter) 1 15) 16;
           (outs, c, n) = ctr_blocks K pdwCounter (drop 4 inp) inLen (nCurrentCount + 16)
       in (out @ outs, c, n)
     else ([], pdwCounter, nCurrentCount))"
  by pat_completeness auto
termination
  by (relation "measure (\<lambda>(k, x, i, l, n). l - n)") auto

declare ctr_blocks.simps [simp del]

text \<open>
  Each round reads four words of the input, also for a partial last block.
  \<open>nCurrentCount\<close> overflows for an \<open>inLen\<close> above the largest multiple of 16.
\<close>

definition SEED_CTR_Process ::
  "ctr_info option \<Rightarrow> u32 list option \<Rightarrow> int \<Rightarrow> bool \<Rightarrow>
    c_fault + (int \<times> ctr_info option \<times> u32 list \<times> int option)" where
  "SEED_CTR_Process pInfo inp inLen out_ok =
    (case (pInfo, inp) of
      (Some info, Some w) \<Rightarrow>
        if \<not> out_ok \<or> inLen < 0 then Inr (0, pInfo, [], None)
        else if 2 ^ 31 - 16 < inLen then Inl Int_overflow
        else if length w < 4 * nblocks (nat inLen) then Inl Out_of_bounds
        else
          let (out, c, n) = ctr_blocks (seed_key info) (ctr info) w (nat inLen) 0;
              outLen = int n;
              info = info\<lparr>ctr := c, buffer_length := inLen - outLen\<rparr>
          in Inr (1, Some info, out, Some outLen)
    | _ \<Rightarrow> Inr (0, pInfo, [], None))"

text \<open>
  \<open>SEED_CTR_Close\<close> clears the bytes in front of \<open>out\<close> that the last call wrote beyond the
  message; \<open>before\<close> are the words there.
\<close>

definition SEED_CTR_Close :: "ctr_info \<Rightarrow> u32 list \<Rightarrow> c_fault + (int \<times> u32 list \<times> int)" where
  "SEED_CTR_Close info before =
    (if buffer_length info = - (2 ^ 31) then Inl Int_overflow
     else
       let nEncRmainLeng = - buffer_length info
       in if 4 * int (length before) < nEncRmainLeng then Inl Out_of_bounds
          else
            let b = le_bytes before;
                b = fold (\<lambda>i b. b[length b - i := 0]) (rev [1..<nat nEncRmainLeng + 1]) b
            in Inr (1, chartoint32 b (4 * length before), nEncRmainLeng))"

text \<open>
  The one-shot functions: the returned length and the bytes written. \<open>info0\<close> is the
  uninitialised local \<open>info\<close>, and \<open>fresh\<close> what \<open>malloc\<close> leaves in the bytes after the
  copied message.
\<close>

definition SEED_CTR_Encrypt ::
  "ctr_info \<Rightarrow> (nat \<Rightarrow> u8) \<Rightarrow> u8 list \<Rightarrow> u8 list \<Rightarrow> u8 list \<Rightarrow> c_fault + (int \<times> u8 list)" where
  "SEED_CTR_Encrypt info0 fresh pbszUserKey pbszCTR pbszInputText =
    (let n = length pbszInputText;
         nInputTextPadding = (16 - n mod 16) mod 16;
         newpbszInputText = pbszInputText @ map fresh [0..<nInputTextPadding];
         info = SEED_CTR_init (Some info0) KISA_ENCRYPT (Some pbszUserKey) (Some pbszCTR);
         data = chartoint32 newpbszInputText n
     in case SEED_CTR_Process (snd info) (Some data) (int n) True of
          Inr (_, Some info, outbuf, Some nOutLeng) \<Rightarrow>
            (case SEED_CTR_Close info outbuf of
              Inr (_, outbuf, nEncRmainLeng) \<Rightarrow>
                Inr (nOutLeng - nEncRmainLeng, int32tochar outbuf (nat (nOutLeng - nEncRmainLeng)))
            | Inl e \<Rightarrow> Inl e)
        | Inl e \<Rightarrow> Inl e
        | _ \<Rightarrow> Inl Out_of_bounds)"

definition SEED_CTR_Decrypt ::
  "ctr_info \<Rightarrow> (nat \<Rightarrow> u8) \<Rightarrow> u8 list \<Rightarrow> u8 list \<Rightarrow> u8 list \<Rightarrow> c_fault + (int \<times> u8 list)" where
  "SEED_CTR_Decrypt info0 fresh pbszUserKey pbszCTR pbszInputText =
    (let n = length pbszInputText;
         nInputTextPadding = (16 - n mod 16) mod 16;
         newpbszInputText = pbszInputText @ map fresh [0..<nInputTextPadding];
         info = SEED_CTR_init (Some info0) KISA_ENCRYPT (Some pbszUserKey) (Some pbszCTR);
         data = chartoint32 newpbszInputText n
     in case SEED_CTR_Process (snd info) (Some data) (int n) True of
          Inr (_, Some info, outbuf, Some nOutLeng) \<Rightarrow>
            (case SEED_CTR_Close info outbuf of
              Inr (_, outbuf, nEncRmainLeng) \<Rightarrow>
                Inr (nOutLeng - nEncRmainLeng, int32tochar outbuf (nat (nOutLeng - nEncRmainLeng)))
            | Inl e \<Rightarrow> Inl e)
        | Inl e \<Rightarrow> Inl e
        | _ \<Rightarrow> Inl Out_of_bounds)"

section \<open>The counter\<close>

text \<open>A big-endian number, and its successor byte by byte, least significant byte first.\<close>

definition be_val :: "u8 list \<Rightarrow> nat" where
  "be_val bs = foldl (\<lambda>a b. 256 * a + unat b) 0 bs"

fun inc_le :: "u8 list \<Rightarrow> u8 list" where
  "inc_le [] = []"
| "inc_le (x # xs) = (x + 1) # (if x = 0xFF then inc_le xs else xs)"

lemma length_inc_le [simp, len_simps]: "length (inc_le xs) = length xs"
  by (induction xs) auto

lemma be_val_rev: "be_val (rev xs) = foldr (\<lambda>b a. 256 * a + unat b) xs 0"
  by (simp add: be_val_def foldl_conv_foldr)

lemma unat_u8_inc: "x \<noteq> 0xFF \<Longrightarrow> unat (x + 1 :: u8) = unat x + 1"
proof -
  assume "x \<noteq> 0xFF"
  then have "unat x \<noteq> 255"
    by (auto simp: word_unat_eq_iff)
  then have "unat x < 255"
    using unat_u8_less [of x] by linarith
  then show ?thesis
    by (simp add: unat_word_ariths)
qed

lemma byte_wrap: "(256 :: u8) = 0"
  by simp

lemma be_val_inc_le: "\<exists>x \<in> set xs. x \<noteq> 0xFF \<Longrightarrow> be_val (rev (inc_le xs)) = be_val (rev xs) + 1"
  unfolding be_val_rev by (induction xs) (auto simp: unat_u8_inc)

lemma le_inc: "(x \<le> x + 1) = (x \<noteq> (0xFF :: u8))"
proof (cases "x = 0xFF")
  case False
  then show ?thesis
    using unat_u8_inc [OF False] by (simp add: word_le_nat_alt)
qed simp

lemma counter_carry_steps:
  "1 < i \<Longrightarrow> x \<le> b ! i \<Longrightarrow> counter_carry b x i = (b, True)"
  "1 < i \<Longrightarrow> \<not> x \<le> b ! i \<Longrightarrow> counter_carry b x i = counter_carry (b[i - 1 := b ! (i - 1) + 1]) (b ! (i - 1)) (i - 1)"
  "\<not> 1 < i \<Longrightarrow> counter_carry b x i = (b, False)"
  by (subst counter_carry.simps; simp)+

text \<open>
  The carry from index \<open>Suc (Suc i)\<close> on, where that byte has been stepped: the bytes from 1 to there are
  stepped as one number, and the loop returns unless all of the bytes from 2 on were \<open>0xFF\<close>.
\<close>

lemma counter_carry_inc:
  assumes "length b = i + 2"
  shows "counter_carry (b @ (x + 1) # r) x (i + 2) =
    (if \<forall>y \<in> set (x # drop 2 b). y = 0xFF
     then (take 1 b @ (b ! 1 + 1) # replicate i 0 @ 0 # r, False)
     else (take 1 b @ rev (inc_le (x # rev (drop 1 b))) @ r, True))"
  using assms
proof (induction i arbitrary: b x r)
  case 0
  then obtain b0 b1 where b: "b = [b0, b1]"
    by (auto simp: length_Suc_conv eval_nat_numeral)
  show ?case
    by (cases "x = 0xFF") (simp_all add: b le_inc counter_carry_steps)
next
  case (Suc i)
  then obtain c y where b: "b = c @ [y]" "length c = i + 2"
    by (metis append_butlast_last_id length_0_conv length_append_singleton add_Suc nat.inject Zero_not_Suc)
  show ?case
  proof (cases "x = 0xFF")
    case False
    then show ?thesis
      using Suc.prems by (subst counter_carry_steps(1)) (auto simp: le_inc nth_append b)
  next
    case True
    have "counter_carry (b @ (x + 1) # r) x (Suc i + 2) = counter_carry (c @ (y + 1) # 0 # r) y (i + 2)"
      using True b by (subst counter_carry_steps(2)) (auto simp: le_inc nth_append list_update_append byte_wrap)
    also have "\<dots> = (if \<forall>z \<in> set (y # drop 2 c). z = 0xFF
     then (take 1 c @ (c ! 1 + 1) # replicate i 0 @ 0 # 0 # r, False)
     else (take 1 c @ rev (inc_le (y # rev (drop 1 c))) @ 0 # r, True))"
      by (rule Suc.IH [OF b(2)])
    also have "\<dots> = (if \<forall>z \<in> set (x # drop 2 b). z = 0xFF
     then (take 1 b @ (b ! 1 + 1) # replicate (Suc i) 0 @ 0 # r, False)
     else (take 1 b @ rev (inc_le (x # rev (drop 1 b))) @ r, True))"
      using True b by (auto simp: nth_append replicate_append_same replicate_app_Cons_same byte_wrap)
    finally show ?thesis .
  qed
qed


text \<open>
  C9: while one of the bytes 2 to 15 is not \<open>0xFF\<close>, stepping a counter block adds one to it
  as a 128-bit big-endian number. Otherwise byte 1 is stepped and byte 0 with it,
  whether or not byte 1 wraps.
\<close>
theorem counter_steps:
  assumes "length b = 16"
  shows "if \<exists>x \<in> set (drop 2 b). x \<noteq> 0xFF
    then be_val (UpdateCounter_for_SEED b 1 15) = be_val b + 1
    else UpdateCounter_for_SEED b 1 15 = [b ! 0 + 1, b ! 1 + 1] @ replicate 14 0"
proof -
  obtain c x where b: "b = c @ [x]" and c: "length c = 13 + 2"
    using assms by (cases b rule: rev_cases) auto
  have u: "UpdateCounter_for_SEED b 1 15 =
      (let (b', ret') = counter_carry (c @ (x + 1) # []) x (13 + 2) in if ret' then b' else b'[0 := b' ! 0 + 1])"
    using c by (simp add: UpdateCounter_for_SEED_def b nth_append list_update_append)
  obtain a d e where abc: "c = a # d # e" "length e = 13"
    using c by (auto simp: length_Suc_conv eval_nat_numeral)
  show ?thesis
  proof (cases "\<exists>x \<in> set (drop 2 b). x \<noteq> 0xFF")
    case True
    then have *: "\<not> (\<forall>y \<in> set (x # drop 2 c). y = 0xFF)"
      by (auto simp: b abc)
    have U: "UpdateCounter_for_SEED b 1 15 = a # rev (inc_le (rev (d # e @ [x])))"
      unfolding u counter_carry_inc [OF c] if_not_P [OF *] by (simp add: abc)
    have ne: "\<exists>y \<in> set (rev (d # e @ [x])). y \<noteq> 0xFF"
      using True by (auto simp: b abc)
    have "be_val (a # bs) = unat a * 256 ^ length bs + be_val bs" for bs
    proof (induction bs rule: rev_induct)
      case (snoc y ys)
      then show ?case
        by (simp add: be_val_def algebra_simps)
    qed (simp add: be_val_def)
    then have "be_val (UpdateCounter_for_SEED b 1 15) = be_val b + 1"
      using be_val_inc_le [OF ne] abc unfolding U by (simp add: b)
    then show ?thesis
      using True by simp
  next
    case False
    then have *: "\<forall>y \<in> set (x # drop 2 c). y = 0xFF"
      by (auto simp: b abc)
    have "UpdateCounter_for_SEED b 1 15 = [b ! 0 + 1, b ! 1 + 1] @ replicate 14 0"
      unfolding u counter_carry_inc [OF c] if_P [OF *] by (simp add: abc b eval_nat_numeral)
    with False show ?thesis
      by simp
  qed
qed

theorem counter_steps_witness:
  "be_val (UpdateCounter_for_SEED (replicate 15 0 @ [0xFF]) 1 15) = be_val (replicate 15 0 @ [0xFF]) + 1 \<and>
   UpdateCounter_for_SEED ([3, 4] @ replicate 14 0xFF) 1 15 = [4, 5] @ replicate 14 0"
  using counter_steps [of "replicate 15 0 @ [0xFF]"] counter_steps [of "[3, 4] @ replicate 14 0xFF"]
  by simp

section \<open>The loop adds a key stream\<close>

lemma length_counter_carry: "counter_carry b x i = (b', r) \<Longrightarrow> length b' = length b"
proof (induction b x i rule: counter_carry.induct)
  case (1 b x i)
  then show ?case
    by (subst (asm) (2) counter_carry.simps) (simp split: if_splits)
qed

lemma length_UpdateCounter [simp, len_simps]: "length (UpdateCounter_for_SEED b v n) = length b"
  by (auto simp: UpdateCounter_for_SEED_def Let_def dest: length_counter_carry split: prod.splits if_splits)

definition ctr_next :: "u8 list \<Rightarrow> u8 list" where
  "ctr_next b = UpdateCounter_for_SEED b 1 15"

lemma length_ctr_next [simp, len_simps]: "length (ctr_next b) = length b"
  by (simp add: ctr_next_def)

definition ctr_stream :: "u32 list \<Rightarrow> u8 list \<Rightarrow> nat \<Rightarrow> u8 list" where
  "ctr_stream K c m = concat (map (\<lambda>j. seed_bytes K ((ctr_next ^^ j) c)) [0..<m])"

lemma ctr_stream_simps [simp]:
  "ctr_stream K c 0 = []"
  "ctr_stream K c (Suc m) = seed_bytes K c @ ctr_stream K (ctr_next c) m"
proof -
  have "[0..<Suc m] = 0 # map Suc [0..<m]"
    by (simp add: map_Suc_upt upt_conv_Cons)
  then show "ctr_stream K c (Suc m) = seed_bytes K c @ ctr_stream K (ctr_next c) m"
    by (simp add: ctr_stream_def funpow_swap1 comp_def)
qed (simp add: ctr_stream_def)

lemma length_ctr_stream: "length c = 16 \<Longrightarrow> length (ctr_stream K c m) = 16 * m"
  by (induction m arbitrary: c) (simp_all add: seed_byte.blk_E)

lemma Block_forCTR:
  assumes "4 \<le> length b"
  shows "KISA_SEED_Block_forCTR b K = map EndianChange (SEED_Encrypt (map EndianChange (take 4 b)) K)"
  unfolding KISA_SEED_Block_forCTR_def halves_swapped [OF assms]
  by (simp add: SEED_Encrypt_feistel Let_def round_pair feistel_join key_pairs_list out_swap_map
      del: feistel.simps)

lemma le_Block_forCTR:
  "length b = 4 \<Longrightarrow> le_bytes (KISA_SEED_Block_forCTR b K) = seed_bytes K (le_bytes b)"
  "length b = 4 \<Longrightarrow> length (KISA_SEED_Block_forCTR b K) = 4"
  using swapped_encrypt [of b K] by (simp_all add: Block_forCTR)

lemma le_BLOCK_XOR_SEED:
  "4 \<le> length a \<Longrightarrow> length b = 4 \<Longrightarrow>
    le_bytes (BLOCK_XOR_SEED a b) = xorl (take 16 (le_bytes a)) (le_bytes b)"
  "length (BLOCK_XOR_SEED a b) = 4"
  unfolding BLOCK_XOR_SEED_def by (rule le_bytes_xor4) simp_all

lemma le_counter_load:
  assumes "length c = 4"
  shows "le_bytes (chartoint32 (ctr_next (le_bytes c)) 16) = ctr_next (le_bytes c)"
    and "length (chartoint32 (ctr_next (le_bytes c)) 16) = 4"
  using assms le_bytes_load16 [of "ctr_next (le_bytes c)"] by (simp_all add: length_ctr_next)

lemma ctr_blocks_ok:
  assumes "length c = 4" and "4 * nblocks (inLen - n) \<le> length inp"
  shows "\<exists>outs c'. ctr_blocks K c inp inLen n = (outs, c', n + 16 * nblocks (inLen - n)) \<and>
    le_bytes outs = xorl (take (16 * nblocks (inLen - n)) (le_bytes inp))
      (ctr_stream K (le_bytes c) (nblocks (inLen - n))) \<and>
    le_bytes c' = (ctr_next ^^ nblocks (inLen - n)) (le_bytes c) \<and>
    length outs = 4 * nblocks (inLen - n) \<and> length c' = 4"
  using assms
proof (induction K c inp inLen n rule: ctr_blocks.induct)
  case (1 K c inp inLen n)
  show ?case
  proof (cases "n < inLen")
    case False
    with 1(2) show ?thesis
      by (subst ctr_blocks.simps) simp
  next
    case True
    let ?o = "BLOCK_XOR_SEED inp (KISA_SEED_Block_forCTR c K)"
    let ?c = "chartoint32 (ctr_next (le_bytes c)) 16"
    let ?m = "nblocks (inLen - (n + 16))"
    have m: "nblocks (inLen - n) = Suc ?m"
      using True by (cases "16 \<le> inLen - n") (simp_all add: nblocks_step)
    have long: "4 \<le> length inp" and fit: "4 * ?m \<le> length (drop 4 inp)"
      using 1(3) unfolding m by simp_all
    have c: "le_bytes ?c = ctr_next (le_bytes c)" "length ?c = 4"
      using le_counter_load [OF 1(2)] by simp_all
    have o: "le_bytes ?o = xorl (take 16 (le_bytes inp)) (seed_bytes K (le_bytes c))" "length ?o = 4"
      using long 1(2) by (simp_all add: le_BLOCK_XOR_SEED le_Block_forCTR)
    obtain outs c' where IH: "ctr_blocks K ?c (drop 4 inp) inLen (n + 16) = (outs, c', n + 16 + 16 * ?m)"
        "le_bytes outs = xorl (take (16 * ?m) (le_bytes (drop 4 inp))) (ctr_stream K (ctr_next (le_bytes c)) ?m)"
        "le_bytes c' = (ctr_next ^^ ?m) (ctr_next (le_bytes c))" "length outs = 4 * ?m" "length c' = 4"
      using 1(1) [OF True refl refl refl] c fit unfolding ctr_next_def by auto
    have "take (16 * Suc ?m) (le_bytes inp) = take 16 (le_bytes inp) @ take (16 * ?m) (le_bytes (drop 4 inp))"
      using take_add [of 16 "16 * ?m" "le_bytes inp"] drop_le_bytes [of 4 inp] by simp
    moreover have "length (seed_bytes K (le_bytes c)) = length (take 16 (le_bytes inp))"
      using long 1(2) by (simp add: seed_byte.blk_E)
    ultimately have "xorl (take (16 * Suc ?m) (le_bytes inp)) (ctr_stream K (le_bytes c) (Suc ?m)) =
        le_bytes (?o @ outs)"
      by (simp add: xorl_append le_bytes_append o IH(2))
    then show ?thesis
      unfolding m using True IH(1,3,4,5) o(2)
      by (subst ctr_blocks.simps) (simp add: funpow_swap1 add.assoc flip: ctr_next_def)
  qed
qed


section \<open>One call of each operation\<close>

lemma SEED_CTR_init_ok:
  assumes "length counter = 16"
  shows "\<exists>info. SEED_CTR_init (Some info0) enc (Some key) (Some counter) = (1, Some info) \<and>
    seed_key info = SEED_KeySched key \<and> le_bytes (ctr info) = counter \<and> length (ctr info) = 4"
  using le_bytes_load16 [OF assms] key_chain_le [of key]
  by (simp add: SEED_CTR_init_def Let_def)

lemma SEED_CTR_Process_ok:
  assumes "length (ctr info) = 4" and "4 * nblocks n \<le> length w" and "int n \<le> 2 ^ 31 - 16"
  shows "\<exists>info' out. SEED_CTR_Process (Some info) (Some w) (int n) True =
      Inr (1, Some info', out, Some (int (16 * nblocks n))) \<and>
    le_bytes out = xorl (take (16 * nblocks n) (le_bytes w)) (ctr_stream (seed_key info) (le_bytes (ctr info)) (nblocks n)) \<and>
    length out = 4 * nblocks n \<and> seed_key info' = seed_key info \<and>
    le_bytes (ctr info') = (ctr_next ^^ nblocks n) (le_bytes (ctr info)) \<and> length (ctr info') = 4 \<and>
    buffer_length info' = int n - int (16 * nblocks n)"
proof -
  have fit: "4 * nblocks (n - 0) \<le> length w"
    using assms(2) by simp
  obtain outs c' where loop: "ctr_blocks (seed_key info) (ctr info) w n 0 = (outs, c', 16 * nblocks n)"
      "le_bytes outs = xorl (take (16 * nblocks n) (le_bytes w)) (ctr_stream (seed_key info) (le_bytes (ctr info)) (nblocks n))"
      "le_bytes c' = (ctr_next ^^ nblocks n) (le_bytes (ctr info))" "length outs = 4 * nblocks n" "length c' = 4"
    using ctr_blocks_ok [OF assms(1) fit, of "seed_key info"] by auto
  then show ?thesis
    using assms(2,3) by (simp add: SEED_CTR_Process_def Let_def)
qed

lemma SEED_CTR_Close_ok:
  assumes "buffer_length info = int n - int (16 * nblocks n)" and "length out = 4 * nblocks n"
  shows "\<exists>out'. SEED_CTR_Close info out = Inr (1, out', int (16 * nblocks n - n)) \<and>
    le_bytes out' = take n (le_bytes out) @ replicate (16 * nblocks n - n) 0"
proof -
  have cover: "n \<le> 16 * nblocks n" "16 * nblocks n - n < 16"
    using nblocks_cover [of n] mod_less_divisor [of 16 "n + 15"] mult_div_mod_eq [of 16 "n + 15"]
    by (auto simp: nblocks_def)
  define p where "p = 16 * nblocks n - n"
  have e: "buffer_length info = - int p" and p: "p < 16" "p \<le> 4 * length out" "4 * length out - p = n"
    using cover assms by (simp_all add: p_def of_nat_diff)
  let ?b = "take n (le_bytes out) @ replicate p (0 :: u8)"
  have b: "fold (\<lambda>i b. b[length b - i := 0]) (rev [1..<p + 1]) (le_bytes out) = ?b"
    using fold_clear [of p "le_bytes out"] p by (simp del: upt_Suc)
  have "SEED_CTR_Close info out = Inr (1, chartoint32 ?b (4 * length out), int p)"
    unfolding SEED_CTR_Close_def e using b p by (simp add: Let_def del: upt_Suc)
  moreover have "le_bytes (chartoint32 ?b (4 * length out)) = ?b"
    using p by (subst le_bytes_chartoint32) simp_all
  ultimately show ?thesis
    by (simp add: p_def)
qed

lemma words_read:
  "(n + 3) div 4 < 4 * nblocks n \<longleftrightarrow> 1 \<le> n mod 16 \<and> n mod 16 \<le> 12"
proof -
  define q r where "q = n div 16" and "r = n mod 16"
  have n: "n = r + (4 * q) * 4" "n + 15 = (r + 15) + q * 16" and r: "r < 16"
    using mult_div_mod_eq [of 16 n] by (simp_all add: q_def r_def)
  have a: "(n + 3) div 4 = 4 * q + (r + 3) div 4"
    unfolding n(1) using div_mult_self1 [of 4 "r + 3" "4 * q"] by (simp add: ac_simps)
  have b: "nblocks n = q + (r + 15) div 16"
    unfolding nblocks_def n(2) by (subst div_mult_self1) simp_all
  have "r \<in> set [0..<16]"
    using r by simp
  then show ?thesis
    unfolding a b r_def [symmetric] upt_16 by auto
qed


section \<open>The one-shot functions\<close>

text \<open>What the standard mode computes: the message plus the key stream of the counter.\<close>

definition ctr_std :: "u8 list \<Rightarrow> u8 list \<Rightarrow> u8 list \<Rightarrow> u8 list" where
  "ctr_std key counter pt = xorl pt (ctr_stream (SEED_KeySched key) counter (nblocks (length pt)))"

lemma length_ctr_std: "length counter = 16 \<Longrightarrow> length (ctr_std key counter pt) = length pt"
  using nblocks_cover [of "length pt"] by (simp add: ctr_std_def length_ctr_stream)

lemma xorl_take_right: "xorl xs (take (length xs) ys) = xorl xs ys"
  by (rule nth_equalityI) auto

lemma CTR_Encrypt_cases:
  assumes "length counter = 16" and "int (length pt) \<le> 2 ^ 31 - 16"
  shows "SEED_CTR_Encrypt info0 fresh key counter pt =
    (if 1 \<le> length pt mod 16 \<and> length pt mod 16 \<le> 12 then Inl Out_of_bounds
     else Inr (int (length pt), ctr_std key counter pt))"
proof -
  let ?n = "length pt" and ?m = "nblocks (length pt)"
  let ?w = "chartoint32 (pt @ map fresh [0..<(16 - ?n mod 16) mod 16]) ?n"
  obtain info where i: "SEED_CTR_init (Some info0) KISA_ENCRYPT (Some key) (Some counter) = (1, Some info)"
      "seed_key info = SEED_KeySched key" "le_bytes (ctr info) = counter" "length (ctr info) = 4"
    using SEED_CTR_init_ok [OF assms(1), of info0 KISA_ENCRYPT key] by auto
  have words: "length ?w = (?n + 3) div 4"
    by (simp add: length_chartoint32)
  show ?thesis
  proof (cases "1 \<le> ?n mod 16 \<and> ?n mod 16 \<le> 12")
    case True
    then have "length ?w < 4 * ?m"
      unfolding words words_read .
    then have "SEED_CTR_Process (Some info) (Some ?w) (int ?n) True = Inl Out_of_bounds"
      using assms(2) by (simp add: SEED_CTR_Process_def)
    then show ?thesis
      using True unfolding SEED_CTR_Encrypt_def Let_def i(1) snd_conv by simp
  next
    case False
    then have "\<not> length ?w < 4 * ?m"
      unfolding words words_read .
    then have fit: "4 * ?m \<le> length ?w"
      by simp
    obtain info' out where p: "SEED_CTR_Process (Some info) (Some ?w) (int ?n) True =
          Inr (1, Some info', out, Some (int (16 * ?m)))"
        "le_bytes out = xorl (take (16 * ?m) (le_bytes ?w)) (ctr_stream (SEED_KeySched key) counter ?m)"
        "length out = 4 * ?m" "buffer_length info' = int ?n - int (16 * ?m)"
      using SEED_CTR_Process_ok [OF i(4) fit assms(2)] unfolding i(2,3) by blast
    obtain out' where c: "SEED_CTR_Close info' out = Inr (1, out', int (16 * ?m - ?n))"
        "le_bytes out' = take ?n (le_bytes out) @ replicate (16 * ?m - ?n) 0"
      using SEED_CTR_Close_ok [OF p(4,3)] by auto
    have "4 * ((?n + 3) div 4) \<le> ?n + (16 - ?n mod 16) mod 16"
      using words_room [of ?n] False by (cases "?n mod 16 = 0") auto
    moreover have n4: "?n \<le> 4 * ((?n + 3) div 4)"
      by presburger
    ultimately have w: "take ?n (le_bytes ?w) = pt"
      by (simp add: le_bytes_chartoint32 min_absorb1)
    have "take ?n (le_bytes out) = ctr_std key counter pt"
      using nblocks_cover [of ?n] w
      by (simp add: p(2) take_xorl min_absorb1 xorl_take_right ctr_std_def)
    moreover have "?n \<le> length (le_bytes out)"
      using nblocks_cover [of ?n] p(3) by simp
    moreover have "nat (int (16 * ?m) - int (16 * ?m - ?n)) = ?n" "int (16 * ?m) - int (16 * ?m - ?n) = int ?n"
      using nblocks_cover [of ?n] by (simp_all add: of_nat_diff)
    moreover have "?n \<le> 4 * length out'"
      using arg_cong [OF c(2), of length] nblocks_cover [of ?n] p(3) by simp
    ultimately show ?thesis
      using False unfolding SEED_CTR_Encrypt_def Let_def i(1) snd_conv p(1)
      by (simp add: c(1) int32tochar_le_bytes c(2) length_ctr_std [OF assms(1)] del: of_nat_diff)
  qed
qed

lemma CTR_Decrypt_is_Encrypt: "SEED_CTR_Decrypt = SEED_CTR_Encrypt"
  by (intro ext) (simp add: SEED_CTR_Decrypt_def SEED_CTR_Encrypt_def)

text \<open>
  C8: \<open>SEED_CTR_Encrypt\<close> adds the key stream of the counter to the message, except that
  for a message whose last block has 1 to 12 bytes it reads beyond the words it was given.
\<close>
theorem ctr_encrypt_standard:
  assumes "length counter = 16" and "int (length pt) \<le> 2 ^ 31 - 16"
  shows "SEED_CTR_Encrypt info0 fresh key counter pt =
    (if length pt mod 16 = 0 \<or> 12 < length pt mod 16 then Inr (int (length pt), ctr_std key counter pt)
     else Inl Out_of_bounds)"
  unfolding CTR_Encrypt_cases [OF assms] by auto

theorem ctr_encrypt_standard_witness:
  "\<forall>info0. SEED_CTR_Encrypt info0 (\<lambda>_. 7) (replicate 16 1) (replicate 16 2) (replicate 29 3) =
      Inr (29, ctr_std (replicate 16 1) (replicate 16 2) (replicate 29 3)) \<and>
    SEED_CTR_Encrypt info0 (\<lambda>_. 7) (replicate 16 1) (replicate 16 2) [1, 2, 3] = Inl Out_of_bounds"
  by (intro allI conjI; subst ctr_encrypt_standard) simp_all

text \<open>\<open>SEED_CTR_Decrypt\<close> gives the message back from what \<open>SEED_CTR_Encrypt\<close> wrote.\<close>
theorem ctr_roundtrip:
  assumes "SEED_CTR_Encrypt info0 fresh key counter pt = Inr (n, ct)"
    and "length counter = 16" and "int (length pt) \<le> 2 ^ 31 - 16"
  shows "SEED_CTR_Decrypt info1 fresh' key counter ct = Inr (int (length pt), pt)"
proof -
  have ct: "ct = ctr_std key counter pt" and ok: "\<not> (1 \<le> length pt mod 16 \<and> length pt mod 16 \<le> 12)"
    using assms(1) unfolding CTR_Encrypt_cases [OF assms(2,3)] by (auto split: if_splits)
  have l: "length ct = length pt"
    unfolding ct by (rule length_ctr_std [OF assms(2)])
  have "ctr_std key counter ct = pt"
    unfolding ctr_std_def l
    using nblocks_cover [of "length pt"] assms(2) by (simp add: ct ctr_std_def xorl_cancel length_ctr_stream)
  then show ?thesis
    using CTR_Encrypt_cases [OF assms(2), of ct info1 fresh' key] assms(3) ok
    by (simp add: CTR_Decrypt_is_Encrypt l)
qed

theorem ctr_roundtrip_witness:
  "\<forall>info1. SEED_CTR_Decrypt info1 (\<lambda>_. 3) (replicate 16 1) (replicate 16 2)
      (ctr_std (replicate 16 1) (replicate 16 2) (replicate 16 5)) = Inr (16, replicate 16 5)"
  using ctr_roundtrip [of _ "\<lambda>_. 7" "replicate 16 1" "replicate 16 2" "replicate 16 5"]
  by (simp add: CTR_Encrypt_cases)

lemma ctr_stream_add: "ctr_stream K c (m + k) = ctr_stream K c m @ ctr_stream K ((ctr_next ^^ m) c) k"
  by (induction m arbitrary: c) (simp_all add: funpow_swap1)

text \<open>
  Two calls of \<open>SEED_CTR_Process\<close>, the first of whole blocks, write what one call on
  the whole message writes: the counter carries the stream from call to call.
\<close>
theorem ctr_streaming:
  assumes "length (ctr info) = 4" and "16 dvd n1" and "length w1 = n1 div 4"
    and "4 * nblocks n2 \<le> length w2" and "int (n1 + n2) \<le> 2 ^ 31 - 16"
  shows "\<exists>info1 info2 info12 out1 out2.
    SEED_CTR_Process (Some info) (Some w1) (int n1) True = Inr (1, Some info1, out1, Some (int n1)) \<and>
    SEED_CTR_Process (Some info1) (Some w2) (int n2) True = Inr (1, Some info2, out2, Some (int (16 * nblocks n2))) \<and>
    SEED_CTR_Process (Some info) (Some (w1 @ w2)) (int (n1 + n2)) True =
      Inr (1, Some info12, out1 @ out2, Some (int (n1 + 16 * nblocks n2))) \<and> ctr info12 = ctr info2"
proof -
  obtain j where j: "n1 = 16 * j"
    using assms(2) by (rule dvdE)
  have b: "nblocks n1 = j" "nblocks (n1 + n2) = j + nblocks n2"
    unfolding j nblocks_def by simp_all
  have "4 * nblocks n1 \<le> length w1" "int n1 \<le> 2 ^ 31 - 16"
    using assms(3,5) unfolding b by (simp_all add: j)
  then obtain info1 out1 where 1: "SEED_CTR_Process (Some info) (Some w1) (int n1) True = Inr (1, Some info1, out1, Some (int n1))"
      "le_bytes out1 = xorl (take (16 * j) (le_bytes w1)) (ctr_stream (seed_key info) (le_bytes (ctr info)) j)"
      "length out1 = 4 * j" "seed_key info1 = seed_key info"
      "le_bytes (ctr info1) = (ctr_next ^^ j) (le_bytes (ctr info))" "length (ctr info1) = 4"
    using SEED_CTR_Process_ok [OF assms(1), of n1 w1] unfolding b(1) by (auto simp: j)
  have "int n2 \<le> 2 ^ 31 - 16"
    using assms(5) by simp
  then obtain info2 out2 where 2: "SEED_CTR_Process (Some info1) (Some w2) (int n2) True =
        Inr (1, Some info2, out2, Some (int (16 * nblocks n2)))"
      "le_bytes out2 = xorl (take (16 * nblocks n2) (le_bytes w2))
        (ctr_stream (seed_key info) ((ctr_next ^^ j) (le_bytes (ctr info))) (nblocks n2))"
      "length out2 = 4 * nblocks n2" "length (ctr info2) = 4"
      "le_bytes (ctr info2) = (ctr_next ^^ nblocks n2) ((ctr_next ^^ j) (le_bytes (ctr info)))"
    using SEED_CTR_Process_ok [OF 1(6) assms(4)] unfolding 1(4,5) by blast
  have "4 * nblocks (n1 + n2) \<le> length (w1 @ w2)"
    using assms(3,4) unfolding b by (simp add: j)
  then obtain info12 out where 3: "SEED_CTR_Process (Some info) (Some (w1 @ w2)) (int (n1 + n2)) True =
        Inr (1, Some info12, out, Some (int (16 * (j + nblocks n2))))"
      "le_bytes out = xorl (take (16 * (j + nblocks n2)) (le_bytes (w1 @ w2)))
        (ctr_stream (seed_key info) (le_bytes (ctr info)) (j + nblocks n2))"
      "length out = 4 * (j + nblocks n2)" "length (ctr info12) = 4"
      "le_bytes (ctr info12) = (ctr_next ^^ (j + nblocks n2)) (le_bytes (ctr info))"
    using SEED_CTR_Process_ok [OF assms(1) _ assms(5)] unfolding b by blast
  have "le_bytes out = le_bytes (out1 @ out2)"
    unfolding 3(2) le_bytes_append 1(2) 2(2) ctr_stream_add
    using assms(1,3) j by (simp add: distrib_left xorl_append length_ctr_stream)
  then have "out = out1 @ out2"
    using le_bytes_inject [of out "out1 @ out2"] 1(3) 2(3) 3(3) by simp
  moreover have "ctr info12 = ctr info2"
    using le_bytes_inject [of "ctr info12" "ctr info2"] 3(4,5) 2(4,5)
    by (simp add: funpow_add add.commute [of j])
  ultimately show ?thesis
    using 1(1) 2(1) 3(1) by (auto simp: j distrib_left)
qed

theorem ctr_streaming_witness:
  "\<exists>info1 info2 info12 out1 out2.
    SEED_CTR_Process (Some \<lparr>encrypt = KISA_ENCRYPT, seed_key = [], cbc_buffer = [], buffer_length = 0,
      cbc_last_block = [], last_block_flag = 0, ctr = [0, 0, 0, 0]\<rparr>) (Some [1, 2, 3, 4]) 16 True =
      Inr (1, Some info1, out1, Some 16) \<and>
    SEED_CTR_Process (Some info1) (Some [5, 6, 7, 8]) 7 True = Inr (1, Some info2, out2, Some 16) \<and>
    SEED_CTR_Process (Some \<lparr>encrypt = KISA_ENCRYPT, seed_key = [], cbc_buffer = [], buffer_length = 0,
      cbc_last_block = [], last_block_flag = 0, ctr = [0, 0, 0, 0]\<rparr>) (Some ([1, 2, 3, 4] @ [5, 6, 7, 8])) 23 True =
      Inr (1, Some info12, out1 @ out2, Some 32) \<and> ctr info12 = ctr info2"
  using ctr_streaming [of "\<lparr>encrypt = KISA_ENCRYPT, seed_key = [], cbc_buffer = [], buffer_length = 0,
      cbc_last_block = [], last_block_flag = 0, ctr = [0, 0, 0, 0]\<rparr>" 16 "[1, 2, 3, 4]" 7 "[5, 6, 7, 8]"]
  by simp

end
