(* ===== verification/Spn_Spec.thy ===== *)
theory Spn_Spec
  imports Main
begin

text \<open>
  Substitution-permutation networks: rounds of a byte substitution with a permutation
  (\<open>SB\<close>), a linear mixing layer (\<open>MC\<close>) and a key addition. The inverse network has the
  same shape, with the inverse layers, the round keys in reverse order, and the inverse
  mixing layer applied to the inner ones.
\<close>

definition spn :: "('s \<Rightarrow> 's) \<Rightarrow> ('s \<Rightarrow> 's) \<Rightarrow> ('s \<Rightarrow> 's \<Rightarrow> 's) \<Rightarrow> 's \<Rightarrow> 's list \<Rightarrow> 's \<Rightarrow> 's \<Rightarrow> 's" where
  "spn SB MC add k0 ks kl s = add (SB (fold (\<lambda>k s. add (MC (SB s)) k) ks (add s k0))) kl"

locale spn_layers =
  fixes SB ISB MC IMC :: "'s \<Rightarrow> 's" and add :: "'s \<Rightarrow> 's \<Rightarrow> 's"
  assumes ISB_SB: "ISB (SB s) = s"
    and IMC_MC: "IMC (MC s) = s"
    and IMC_add: "IMC (add s k) = add (IMC s) (IMC k)"
    and add_cancel: "add (add s k) k = s"
begin

lemma rounds_back:
  "fold (\<lambda>k s. add (IMC (ISB s)) k) (map IMC (rev ks)) (SB (fold (\<lambda>k s. add (MC (SB s)) k) ks t)) = SB t"
proof (induction ks arbitrary: t)
  case (Cons k ks)
  then show ?case
    by (simp add: ISB_SB IMC_MC IMC_add add_cancel)
qed simp

lemma network_back:
  "spn ISB IMC add kl (map IMC (rev ks)) k0 (spn SB MC add k0 ks kl s) = s"
  by (simp add: spn_def add_cancel rounds_back ISB_SB)

end

text \<open>When the layers are inverse to each other both ways, so are the networks.\<close>

locale spn_cipher = spn_layers SB ISB MC IMC add + inv: spn_layers ISB SB IMC MC add
  for SB ISB MC IMC :: "'s \<Rightarrow> 's" and add :: "'s \<Rightarrow> 's \<Rightarrow> 's"
begin

lemma network_forth:
  "spn SB MC add k0 ks kl (spn ISB IMC add kl (map IMC (rev ks)) k0 s) = s"
proof -
  have "map MC (rev (map IMC (rev ks))) = ks"
    by (simp add: rev_map comp_def inv.IMC_MC)
  then show ?thesis
    using inv.network_back [of k0 "map IMC (rev ks)" kl s] by simp
qed

end

end
