(* ===== verification/Aes.thy ===== *)
theory Aes
  imports AesTables Cipher_Spec Spn_Spec
begin

text \<open>
  AES with 128-bit keys, \<open>test_aes_cbc/Aes.c\<close>: the key set-ups, the table-driven block
  functions in their unrolled form, the loops the file also has for a build without
  \<open>FULL_UNROLL\<close>, the CBC functions, and \<open>nasAesCrypt\<close> of \<open>test_aes_cbc/main.c\<close>. The key
  array of 44 words is a list; \<open>rk += 4\<close> is an offset.
\<close>

type_synonym aes_state = "u32 \<times> u32 \<times> u32 \<times> u32"

section \<open>Words and bytes\<close>

definition GETU32 :: "u8 list \<Rightarrow> nat \<Rightarrow> u32" where
  "GETU32 pt i = push_bit 24 (ucast (pt ! i)) XOR push_bit 16 (ucast (pt ! (i + 1)))
    XOR push_bit 8 (ucast (pt ! (i + 2))) XOR ucast (pt ! (i + 3))"

definition PUTU32 :: "u32 \<Rightarrow> u8 list" where
  "PUTU32 st = [ucast (drop_bit 24 st), ucast (drop_bit 16 st), ucast (drop_bit 8 st), ucast st]"

section \<open>Key set-up\<close>

definition key_step :: "nat \<Rightarrow> u32 list \<Rightarrow> u32 list" where
  "key_step i rk =
    (let b = 4 * i;
         temp = rk ! (b + 3);
         rk = rk[b + 4 := rk ! b XOR
           (Te4 ! unat (drop_bit 16 temp AND 0xff) AND 0xff000000) XOR
           (Te4 ! unat (drop_bit 8 temp AND 0xff) AND 0x00ff0000) XOR
           (Te4 ! unat (temp AND 0xff) AND 0x0000ff00) XOR
           (Te4 ! unat (drop_bit 24 temp) AND 0x000000ff) XOR rcon ! i];
         rk = rk[b + 5 := rk ! (b + 1) XOR rk ! (b + 4)];
         rk = rk[b + 6 := rk ! (b + 2) XOR rk ! (b + 5)]
     in rk[b + 7 := rk ! (b + 3) XOR rk ! (b + 6)])"

definition rijndaelKeySetupEnc :: "u32 list \<Rightarrow> u8 list \<Rightarrow> u32 list" where
  "rijndaelKeySetupEnc rk cipherKey =
    (let rk = rk[0 := GETU32 cipherKey 0];
         rk = rk[1 := GETU32 cipherKey 4];
         rk = rk[2 := GETU32 cipherKey 8];
         rk = rk[3 := GETU32 cipherKey 12]
     in fold key_step [0..<10] rk)"

definition swap_words :: "nat \<Rightarrow> nat \<Rightarrow> u32 list \<Rightarrow> u32 list" where
  "swap_words i j rk = (let temp = rk ! i; rk = rk[i := rk ! j] in rk[j := temp])"

function invert_order :: "nat \<Rightarrow> nat \<Rightarrow> u32 list \<Rightarrow> u32 list" where
  "invert_order i j rk =
    (if i < j then
       let rk = swap_words i j rk;
           rk = swap_words (i + 1) (j + 1) rk;
           rk = swap_words (i + 2) (j + 2) rk;
           rk = swap_words (i + 3) (j + 3) rk
       in invert_order (i + 4) (j - 4) rk
     else rk)"
  by pat_completeness auto
termination
  by (relation "measure (\<lambda>(i, j, rk). j - i)") auto

declare invert_order.simps [simp del]

definition inv_mix_word :: "u32 \<Rightarrow> u32" where
  "inv_mix_word w =
    Td0 ! unat (Te4 ! unat (drop_bit 24 w) AND 0xff) XOR
    Td1 ! unat (Te4 ! unat (drop_bit 16 w AND 0xff) AND 0xff) XOR
    Td2 ! unat (Te4 ! unat (drop_bit 8 w AND 0xff) AND 0xff) XOR
    Td3 ! unat (Te4 ! unat (w AND 0xff) AND 0xff)"

definition inv_mix_key :: "nat \<Rightarrow> u32 list \<Rightarrow> u32 list" where
  "inv_mix_key i rk =
    (let b = 4 * i;
         rk = rk[b := inv_mix_word (rk ! b)];
         rk = rk[b + 1 := inv_mix_word (rk ! (b + 1))];
         rk = rk[b + 2 := inv_mix_word (rk ! (b + 2))]
     in rk[b + 3 := inv_mix_word (rk ! (b + 3))])"

definition rijndaelKeySetupDec :: "u32 list \<Rightarrow> u8 list \<Rightarrow> u32 list" where
  "rijndaelKeySetupDec rk cipherKey =
    (let rk = rijndaelKeySetupEnc rk cipherKey;
         rk = invert_order 0 40 rk
     in fold inv_mix_key [1..<10] rk)"

section \<open>The block functions\<close>

definition Te_word :: "u32 \<Rightarrow> u32 \<Rightarrow> u32 \<Rightarrow> u32 \<Rightarrow> u32" where
  "Te_word s0 s1 s2 s3 = Te0 ! unat (drop_bit 24 s0) XOR Te1 ! unat (drop_bit 16 s1 AND 0xff) XOR
    Te2 ! unat (drop_bit 8 s2 AND 0xff) XOR Te3 ! unat (s3 AND 0xff)"

definition te_round :: "u32 list \<Rightarrow> nat \<Rightarrow> aes_state \<Rightarrow> aes_state" where
  "te_round rk k = (\<lambda>(s0, s1, s2, s3).
    (Te_word s0 s1 s2 s3 XOR rk ! k, Te_word s1 s2 s3 s0 XOR rk ! (k + 1),
     Te_word s2 s3 s0 s1 XOR rk ! (k + 2), Te_word s3 s0 s1 s2 XOR rk ! (k + 3)))"

definition Te4_word :: "u32 \<Rightarrow> u32 \<Rightarrow> u32 \<Rightarrow> u32 \<Rightarrow> u32" where
  "Te4_word t0 t1 t2 t3 = (Te4 ! unat (drop_bit 24 t0) AND 0xff000000) XOR
    (Te4 ! unat (drop_bit 16 t1 AND 0xff) AND 0x00ff0000) XOR
    (Te4 ! unat (drop_bit 8 t2 AND 0xff) AND 0x0000ff00) XOR
    (Te4 ! unat (t3 AND 0xff) AND 0x000000ff)"

text \<open>The last round and the four \<open>PUTU32\<close> that store its words.\<close>

definition te_last :: "u32 list \<Rightarrow> nat \<Rightarrow> aes_state \<Rightarrow> u8 list" where
  "te_last rk k = (\<lambda>(t0, t1, t2, t3).
    PUTU32 (Te4_word t0 t1 t2 t3 XOR rk ! k) @ PUTU32 (Te4_word t1 t2 t3 t0 XOR rk ! (k + 1)) @
    PUTU32 (Te4_word t2 t3 t0 t1 XOR rk ! (k + 2)) @ PUTU32 (Te4_word t3 t0 t1 t2 XOR rk ! (k + 3)))"

definition rijndaelEncrypt :: "u32 list \<Rightarrow> u8 list \<Rightarrow> u8 list" where
  "rijndaelEncrypt rk pt =
    (let s = (GETU32 pt 0 XOR rk ! 0, GETU32 pt 4 XOR rk ! 1, GETU32 pt 8 XOR rk ! 2, GETU32 pt 12 XOR rk ! 3);
         t = te_round rk 4 s;
         s = te_round rk 8 t;
         t = te_round rk 12 s;
         s = te_round rk 16 t;
         t = te_round rk 20 s;
         s = te_round rk 24 t;
         t = te_round rk 28 s;
         s = te_round rk 32 t;
         t = te_round rk 36 s
     in te_last rk 40 t)"

definition Td_word :: "u32 \<Rightarrow> u32 \<Rightarrow> u32 \<Rightarrow> u32 \<Rightarrow> u32" where
  "Td_word s0 s3 s2 s1 = Td0 ! unat (drop_bit 24 s0) XOR Td1 ! unat (drop_bit 16 s3 AND 0xff) XOR
    Td2 ! unat (drop_bit 8 s2 AND 0xff) XOR Td3 ! unat (s1 AND 0xff)"

definition td_round :: "u32 list \<Rightarrow> nat \<Rightarrow> aes_state \<Rightarrow> aes_state" where
  "td_round rk k = (\<lambda>(s0, s1, s2, s3).
    (Td_word s0 s3 s2 s1 XOR rk ! k, Td_word s1 s0 s3 s2 XOR rk ! (k + 1),
     Td_word s2 s1 s0 s3 XOR rk ! (k + 2), Td_word s3 s2 s1 s0 XOR rk ! (k + 3)))"

definition Td4_word :: "u32 \<Rightarrow> u32 \<Rightarrow> u32 \<Rightarrow> u32 \<Rightarrow> u32" where
  "Td4_word t0 t3 t2 t1 = (Td4 ! unat (drop_bit 24 t0) AND 0xff000000) XOR
    (Td4 ! unat (drop_bit 16 t3 AND 0xff) AND 0x00ff0000) XOR
    (Td4 ! unat (drop_bit 8 t2 AND 0xff) AND 0x0000ff00) XOR
    (Td4 ! unat (t1 AND 0xff) AND 0x000000ff)"

definition td_last :: "u32 list \<Rightarrow> nat \<Rightarrow> aes_state \<Rightarrow> u8 list" where
  "td_last rk k = (\<lambda>(t0, t1, t2, t3).
    PUTU32 (Td4_word t0 t3 t2 t1 XOR rk ! k) @ PUTU32 (Td4_word t1 t0 t3 t2 XOR rk ! (k + 1)) @
    PUTU32 (Td4_word t2 t1 t0 t3 XOR rk ! (k + 2)) @ PUTU32 (Td4_word t3 t2 t1 t0 XOR rk ! (k + 3)))"

definition rijndaelDecrypt :: "u32 list \<Rightarrow> u8 list \<Rightarrow> u8 list" where
  "rijndaelDecrypt rk ct =
    (let s = (GETU32 ct 0 XOR rk ! 0, GETU32 ct 4 XOR rk ! 1, GETU32 ct 8 XOR rk ! 2, GETU32 ct 12 XOR rk ! 3);
         t = td_round rk 4 s;
         s = td_round rk 8 t;
         t = td_round rk 12 s;
         s = td_round rk 16 t;
         t = td_round rk 20 s;
         s = td_round rk 24 t;
         t = td_round rk 28 s;
         s = td_round rk 32 t;
         t = td_round rk 36 s
     in td_last rk 40 t)"

text \<open>
  The loops of the build without \<open>FULL_UNROLL\<close>: two rounds per turn, \<open>r\<close> turns, leaving
  after the first round of the last one. They return the state and the offset of \<open>rk\<close>.
\<close>

function te_loop :: "u32 list \<Rightarrow> nat \<Rightarrow> int \<Rightarrow> aes_state \<Rightarrow> aes_state \<times> nat" where
  "te_loop rk k r s =
    (let t = te_round rk (k + 4) s; k = k + 8; r = r - 1
     in if r \<le> 0 then (t, k) else te_loop rk k r (te_round rk k t))"
  by pat_completeness auto
termination
  by (relation "measure (\<lambda>(rk, k, r, s). nat r)") auto

function td_loop :: "u32 list \<Rightarrow> nat \<Rightarrow> int \<Rightarrow> aes_state \<Rightarrow> aes_state \<times> nat" where
  "td_loop rk k r s =
    (let t = td_round rk (k + 4) s; k = k + 8; r = r - 1
     in if r \<le> 0 then (t, k) else td_loop rk k r (td_round rk k t))"
  by pat_completeness auto
termination
  by (relation "measure (\<lambda>(rk, k, r, s). nat r)") auto

declare te_loop.simps [simp del] td_loop.simps [simp del]

definition rijndaelEncrypt_rolled :: "u32 list \<Rightarrow> u8 list \<Rightarrow> u8 list" where
  "rijndaelEncrypt_rolled rk pt =
    (let Nr = 10;
         s = (GETU32 pt 0 XOR rk ! 0, GETU32 pt 4 XOR rk ! 1, GETU32 pt 8 XOR rk ! 2, GETU32 pt 12 XOR rk ! 3);
         (t, k) = te_loop rk 0 (Nr div 2) s
     in te_last rk k t)"

definition rijndaelDecrypt_rolled :: "u32 list \<Rightarrow> u8 list \<Rightarrow> u8 list" where
  "rijndaelDecrypt_rolled rk ct =
    (let Nr = 10;
         s = (GETU32 ct 0 XOR rk ! 0, GETU32 ct 4 XOR rk ! 1, GETU32 ct 8 XOR rk ! 2, GETU32 ct 12 XOR rk ! 3);
         (t, k) = td_loop rk 0 (Nr div 2) s
     in td_last rk k t)"

section \<open>CBC mode in place\<close>

text \<open>
  The loops over the blocks of \<open>data\<close>; what lies behind them is left as it is. \<open>blocks\<close>
  is the quotient of the \<open>size_t\<close> length, converted to \<open>int\<close>.
\<close>

fun aes_cbc_enc_loop :: "u32 list \<Rightarrow> u8 list \<Rightarrow> nat \<Rightarrow> u8 list \<Rightarrow> u8 list" where
  "aes_cbc_enc_loop rk cbc 0 pos = pos"
| "aes_cbc_enc_loop rk cbc (Suc n) pos =
    (let cbc = map (\<lambda>j. cbc ! j XOR pos ! j) [0..<16];
         cbc = rijndaelEncrypt rk cbc
     in cbc @ aes_cbc_enc_loop rk cbc n (drop 16 pos))"

fun aes_cbc_dec_loop :: "u32 list \<Rightarrow> u8 list \<Rightarrow> nat \<Rightarrow> u8 list \<Rightarrow> u8 list" where
  "aes_cbc_dec_loop rk cbc 0 pos = pos"
| "aes_cbc_dec_loop rk cbc (Suc n) pos =
    (let tmp = take 16 pos;
         out = rijndaelDecrypt rk tmp;
         out = map (\<lambda>j. out ! j XOR cbc ! j) [0..<16]
     in out @ aes_cbc_dec_loop rk tmp n (drop 16 pos))"

definition aes_blocks :: "nat \<Rightarrow> nat" where
  "aes_blocks data_len = nat (sint (of_nat (data_len div 16) :: 32 word))"

definition aes_128_cbc_encrypt ::
  "u32 list \<Rightarrow> u8 list \<Rightarrow> u8 list \<Rightarrow> u8 list \<Rightarrow> nat \<Rightarrow> c_fault + u8 list" where
  "aes_128_cbc_encrypt akey key iv data data_len =
    (let akey = rijndaelKeySetupEnc akey key;
         blocks = aes_blocks data_len
     in if length data < 16 * blocks then Inl Out_of_bounds
        else Inr (aes_cbc_enc_loop akey (take 16 iv) blocks data))"

definition aes_128_cbc_decrypt ::
  "u32 list \<Rightarrow> u8 list \<Rightarrow> u8 list \<Rightarrow> u8 list \<Rightarrow> nat \<Rightarrow> c_fault + u8 list" where
  "aes_128_cbc_decrypt akey key iv data data_len =
    (let akey = rijndaelKeySetupDec akey key;
         blocks = aes_blocks data_len
     in if length data < 16 * blocks then Inl Out_of_bounds
        else Inr (aes_cbc_dec_loop akey (take 16 iv) blocks data))"

text \<open>
  \<open>nasAesCrypt\<close> works on the caller's buffer \<open>result\<close>: the returned length, a \<open>size_t\<close>
  converted to \<open>int\<close>, and the buffer afterwards. The rounded-up length is not checked against anything, and \<open>iMode\<close> is not
  used.
\<close>

definition as_int :: "nat \<Rightarrow> int" where
  "as_int n = sint (of_nat n :: 32 word)"

definition nasAesCrypt ::
  "u32 list \<Rightarrow> string \<Rightarrow> u8 list \<Rightarrow> u8 list \<Rightarrow> nat \<Rightarrow> u8 list \<Rightarrow> u8 list \<Rightarrow> nat \<Rightarrow> c_fault + (int \<times> u8 list)" where
  "nasAesCrypt akey type key iv cryptByte inp result len =
    (if length inp < len \<or> length result < len then Inl Out_of_bounds
     else
       let result = take len inp @ drop len result
       in if cryptByte = 0 then Inl Div_by_zero
          else
            let len = (if len mod cryptByte \<noteq> 0 then len + (cryptByte - len mod cryptByte) else len)
            in if type = ''E'' then
                 (case aes_128_cbc_encrypt akey key iv result len of Inl e \<Rightarrow> Inl e | Inr r \<Rightarrow> Inr (as_int len, r))
               else if type = ''D'' then
                 (case aes_128_cbc_decrypt akey key iv result len of Inl e \<Rightarrow> Inl e | Inr r \<Rightarrow> Inr (as_int len, r))
               else Inr (as_int len, result))"

section \<open>The layers of the standard\<close>

definition sub_byte :: "u8 \<Rightarrow> u8" where
  "sub_byte a = aes_sbox ! unat a"

definition inv_sub_byte :: "u8 \<Rightarrow> u8" where
  "inv_sub_byte a = aes_inv_sbox ! unat a"

text \<open>MixColumns and its inverse on a column, its first byte the most significant one.\<close>

definition mix_column :: "u32 \<Rightarrow> u32" where
  "mix_column w = (let a = byte_of 3 w; b = byte_of 2 w; c = byte_of 1 w; d = byte_of 0 w in
    be32 (xtime a XOR (xtime b XOR b) XOR c XOR d) (a XOR xtime b XOR (xtime c XOR c) XOR d)
      (a XOR b XOR xtime c XOR (xtime d XOR d)) ((xtime a XOR a) XOR b XOR c XOR xtime d))"

definition inv_mix_column :: "u32 \<Rightarrow> u32" where
  "inv_mix_column w = (let a = byte_of 3 w; b = byte_of 2 w; c = byte_of 1 w; d = byte_of 0 w in
    be32 (mul14 a XOR mul11 b XOR mul13 c XOR mul9 d) (mul9 a XOR mul14 b XOR mul11 c XOR mul13 d)
      (mul13 a XOR mul9 b XOR mul14 c XOR mul11 d) (mul11 a XOR mul13 b XOR mul9 c XOR mul14 d))"

definition sub_word :: "(u8 \<Rightarrow> u8) \<Rightarrow> u32 \<Rightarrow> u32 \<Rightarrow> u32 \<Rightarrow> u32 \<Rightarrow> u32" where
  "sub_word f a b c d = be32 (f (byte_of 3 a)) (f (byte_of 2 b)) (f (byte_of 1 c)) (f (byte_of 0 d))"

text \<open>SubBytes with ShiftRows, and the inverse of both, on the four columns.\<close>

definition sub_shift :: "aes_state \<Rightarrow> aes_state" where
  "sub_shift = (\<lambda>(s0, s1, s2, s3). (sub_word sub_byte s0 s1 s2 s3, sub_word sub_byte s1 s2 s3 s0,
    sub_word sub_byte s2 s3 s0 s1, sub_word sub_byte s3 s0 s1 s2))"

definition inv_sub_shift :: "aes_state \<Rightarrow> aes_state" where
  "inv_sub_shift = (\<lambda>(s0, s1, s2, s3). (sub_word inv_sub_byte s0 s3 s2 s1, sub_word inv_sub_byte s1 s0 s3 s2,
    sub_word inv_sub_byte s2 s1 s0 s3, sub_word inv_sub_byte s3 s2 s1 s0))"

definition map_cols :: "(u32 \<Rightarrow> u32) \<Rightarrow> aes_state \<Rightarrow> aes_state" where
  "map_cols f = (\<lambda>(s0, s1, s2, s3). (f s0, f s1, f s2, f s3))"

definition add_key :: "aes_state \<Rightarrow> aes_state \<Rightarrow> aes_state" where
  "add_key = (\<lambda>(s0, s1, s2, s3) (k0, k1, k2, k3). (s0 XOR k0, s1 XOR k1, s2 XOR k2, s3 XOR k3))"

definition round_key :: "u32 list \<Rightarrow> nat \<Rightarrow> aes_state" where
  "round_key rk k = (rk ! k, rk ! (k + 1), rk ! (k + 2), rk ! (k + 3))"

definition load_block :: "u8 list \<Rightarrow> aes_state" where
  "load_block pt = (GETU32 pt 0, GETU32 pt 4, GETU32 pt 8, GETU32 pt 12)"

definition store_block :: "aes_state \<Rightarrow> u8 list" where
  "store_block = (\<lambda>(s0, s1, s2, s3). PUTU32 s0 @ PUTU32 s1 @ PUTU32 s2 @ PUTU32 s3)"

section \<open>Table lookups\<close>

lemma lookup_index:
  "unat (drop_bit 24 w) = unat (byte_of 3 w)" "unat (drop_bit 16 w AND 0xff) = unat (byte_of 2 w)"
  "unat (drop_bit 8 w AND 0xff) = unat (byte_of 1 w)" "unat (w AND 0xff) = unat (byte_of 0 w)"
  for w :: u32
proof -
  have m: "(0xff :: u32) = mask 8"
    by (simp add: mask_eq_exp_minus_1)
  have *: "v = ucast b \<Longrightarrow> unat v = unat b" for v :: u32 and b :: u8
  proof -
    have "unat b < 2 ^ 32"
      by (rule less_trans [OF unat_u8_less]) simp
    then show "v = ucast b \<Longrightarrow> unat v = unat b"
      by (simp add: unsigned_ucast_eq take_bit_nat_eq_self)
  qed
  show "unat (drop_bit 24 w) = unat (byte_of 3 w)"
    by (rule *, rule bit_word_eqI) (auto simp: bit_simps bit_byte_of dest: bit_imp_le_length)
  show "unat (drop_bit 16 w AND 0xff) = unat (byte_of 2 w)" "unat (drop_bit 8 w AND 0xff) = unat (byte_of 1 w)"
    "unat (w AND 0xff) = unat (byte_of 0 w)"
    unfolding m by (rule *, rule bit_word_eqI, auto simp: bit_simps bit_byte_of)+
qed

lemma byte_of_shift:
  "byte_of 0 (drop_bit 16 w) = byte_of 2 w" "byte_of 0 (drop_bit 8 w) = byte_of (Suc 0) w"
  by (simp_all add: byte_of_def)

lemmas lookups = lookup_index byte_of_shift

lemma nth_u8_map: "length xs = 256 \<Longrightarrow> map f xs ! unat (b :: u8) = f (xs ! unat b)"
  by (simp add: nth_map)

lemma Te_word_columns: "Te_word s0 s1 s2 s3 = mix_column (sub_word sub_byte s0 s1 s2 s3)"
  by (simp add: Te_word_def lookups Te0_columns Te1_columns Te2_columns Te3_columns nth_u8_map
      mix_column_def sub_word_def sub_byte_def be32_xor Let_def xor.assoc)

lemma Td_word_columns: "Td_word s0 s3 s2 s1 = inv_mix_column (sub_word inv_sub_byte s0 s3 s2 s1)"
  by (simp add: Td_word_def lookups Td0_columns Td1_columns Td2_columns Td3_columns nth_u8_map
      inv_mix_column_def sub_word_def inv_sub_byte_def be32_xor Let_def xor.assoc)

lemma be32_and_masks:
  "be32 a b c d AND 0xff000000 = be32 a 0 0 0" "be32 a b c d AND 0x00ff0000 = be32 0 b 0 0"
  "be32 a b c d AND 0x0000ff00 = be32 0 0 c 0" "be32 a b c d AND 0x000000ff = be32 0 0 0 d"
proof -
  have m: "(0xff000000 :: u32) = push_bit 24 (mask 8)" "(0x00ff0000 :: u32) = push_bit 16 (mask 8)"
      "(0x0000ff00 :: u32) = push_bit 8 (mask 8)" "(0x000000ff :: u32) = mask 8"
    by (simp_all add: mask_eq_exp_minus_1)
  show "be32 a b c d AND 0xff000000 = be32 a 0 0 0" "be32 a b c d AND 0x00ff0000 = be32 0 b 0 0"
    "be32 a b c d AND 0x0000ff00 = be32 0 0 c 0" "be32 a b c d AND 0x000000ff = be32 0 0 0 d"
    unfolding m by (rule bit_word_eqI, auto simp: bit_simps bit_be32)+
qed

lemma Te4_word_sub: "Te4_word t0 t1 t2 t3 = sub_word sub_byte t0 t1 t2 t3"
  by (simp add: Te4_word_def lookups Te4_columns nth_u8_map be32_and_masks be32_xor sub_word_def sub_byte_def)

lemma Td4_word_sub: "Td4_word t0 t3 t2 t1 = sub_word inv_sub_byte t0 t3 t2 t1"
  by (simp add: Td4_word_def lookups Td4_columns nth_u8_map be32_and_masks be32_xor sub_word_def inv_sub_byte_def)


lemma te_round_layers: "te_round rk k s = add_key (map_cols mix_column (sub_shift s)) (round_key rk k)"
  by (simp add: te_round_def add_key_def map_cols_def sub_shift_def round_key_def Te_word_columns split: prod.split)

lemma td_round_layers: "td_round rk k s = add_key (map_cols inv_mix_column (inv_sub_shift s)) (round_key rk k)"
  by (simp add: td_round_def add_key_def map_cols_def inv_sub_shift_def round_key_def Td_word_columns split: prod.split)

lemma te_last_layers: "te_last rk k s = store_block (add_key (sub_shift s) (round_key rk k))"
  by (simp add: te_last_def store_block_def add_key_def sub_shift_def round_key_def Te4_word_sub split: prod.split)

lemma td_last_layers: "td_last rk k s = store_block (add_key (inv_sub_shift s) (round_key rk k))"
  by (simp add: td_last_def store_block_def add_key_def inv_sub_shift_def round_key_def Td4_word_sub split: prod.split)

definition round_keys :: "u32 list \<Rightarrow> aes_state list" where
  "round_keys rk = map (\<lambda>i. round_key rk (4 * i)) [1..<10]"

lemma upt_1_10: "[1..<10] = [1, 2, 3, 4, 5, 6, 7, 8, 9 :: nat]"
  by (simp add: upt_rec)

lemma first_key:
  "(GETU32 pt 0 XOR rk ! 0, GETU32 pt 4 XOR rk ! 1, GETU32 pt 8 XOR rk ! 2, GETU32 pt 12 XOR rk ! 3) =
    add_key (load_block pt) (round_key rk 0)"
  by (simp add: add_key_def load_block_def round_key_def numeral_2_eq_2)

lemma rijndaelEncrypt_spn:
  "rijndaelEncrypt rk pt = store_block
    (spn sub_shift (map_cols mix_column) add_key (round_key rk 0) (round_keys rk) (round_key rk 40) (load_block pt))"
  unfolding rijndaelEncrypt_def Let_def te_last_layers spn_def round_keys_def upt_1_10 first_key
  by (simp add: te_round_layers)

lemma rijndaelDecrypt_spn:
  "rijndaelDecrypt rk ct = store_block
    (spn inv_sub_shift (map_cols inv_mix_column) add_key (round_key rk 0) (round_keys rk) (round_key rk 40) (load_block ct))"
  unfolding rijndaelDecrypt_def Let_def td_last_layers spn_def round_keys_def upt_1_10 first_key
  by (simp add: td_round_layers)

section \<open>The layers are inverse to each other\<close>

lemma xtime_xor: "xtime (a XOR b) = xtime a XOR xtime b"
  by (simp add: xtime_def push_bit_xor bit_xor_iff xor_ac)

lemma xtime_0 [simp]: "xtime 0 = 0"
  by (simp add: xtime_def)

lemma mul_xor:
  "mul9 (a XOR b) = mul9 a XOR mul9 b" "mul11 (a XOR b) = mul11 a XOR mul11 b"
  "mul13 (a XOR b) = mul13 a XOR mul13 b" "mul14 (a XOR b) = mul14 a XOR mul14 b"
  by (simp_all add: mul9_def mul11_def mul13_def mul14_def xtime_xor xor_ac)

lemma mix_column_xor: "mix_column (v XOR w) = mix_column v XOR mix_column w"
  by (simp add: mix_column_def Let_def byte_of_xor xtime_xor be32_xor xor_ac)

lemma inv_mix_column_xor: "inv_mix_column (v XOR w) = inv_mix_column v XOR inv_mix_column w"
  by (simp add: inv_mix_column_def Let_def byte_of_xor mul_xor be32_xor xor_ac)

lemma inv_mix_mix: "inv_mix_column (mix_column w) = w"
  by (simp add: mix_column_def inv_mix_column_def Let_def mul9_def mul11_def mul13_def mul14_def xtime_xor xor_ac)

lemma mix_inv_mix: "mix_column (inv_mix_column w) = w"
  by (simp add: mix_column_def inv_mix_column_def Let_def mul9_def mul11_def mul13_def mul14_def xtime_xor xor_ac)


lemma aes_inv_nth: "n < 256 \<Longrightarrow> aes_inv_sbox ! n = aes_inv_rows ! (n div 16) ! (n mod 16)"
proof -
  assume "n < 256"
  have rows: "\<forall>r \<in> set aes_inv_rows. length r = 16"
    by (simp add: aes_inv_rows_def)
  have "concat rs ! n = rs ! (n div 16) ! (n mod 16)"
    if "\<forall>r \<in> set rs. length r = 16" and "n < 16 * length rs" for rs :: "u8 list list"
    using that
  proof (induction rs arbitrary: n)
    case (Cons r rs)
    show ?case
    proof (cases "n < 16")
      case False
      then have "n div 16 = Suc ((n - 16) div 16)" "n mod 16 = (n - 16) mod 16"
        by (simp_all add: le_div_geq le_mod_geq)
      then show ?thesis
        using Cons False by (simp add: nth_append)
    qed (use Cons in \<open>simp add: nth_append\<close>)
  qed simp
  moreover have "length aes_inv_rows = 16"
    by (simp add: aes_inv_rows_def)
  ultimately show ?thesis
    using rows \<open>n < 256\<close> by (simp add: aes_inv_sbox_def)
qed

lemma inv_sub_all: "map inv_sub_byte aes_sbox = map of_nat [0..<256]"
  by (simp add: inv_sub_byte_def aes_sbox_def aes_inv_nth aes_inv_row [unfolded One_nat_def] upt_rec)


lemma inv_sub_sub [simp]: "inv_sub_byte (sub_byte a) = a"
proof -
  have "inv_sub_byte (sub_byte a) = map inv_sub_byte aes_sbox ! unat a"
    by (simp add: sub_byte_def)
  also have "\<dots> = a"
    unfolding inv_sub_all by simp
  finally show ?thesis .
qed

lemma sub_inv_sub [simp]: "sub_byte (inv_sub_byte a) = a"
proof -
  have "inj sub_byte"
    by (metis injI inv_sub_sub)
  then have "surj sub_byte"
    by (simp add: finite_UNIV_inj_surj)
  then obtain b where "a = sub_byte b"
    by (auto elim: surjE)
  then show ?thesis
    by simp
qed

lemma sub_shift_back: "inv_sub_shift (sub_shift s) = s" "sub_shift (inv_sub_shift s) = s"
  by (cases s; simp add: sub_shift_def inv_sub_shift_def sub_word_def)+

interpretation aes_net: spn_cipher sub_shift inv_sub_shift "map_cols mix_column" "map_cols inv_mix_column" add_key
  by unfold_locales
    (auto simp: sub_shift_back map_cols_def add_key_def inv_mix_mix mix_inv_mix mix_column_xor inv_mix_column_xor
      split: prod.splits)

section \<open>Blocks in memory\<close>

lemma GETU32_be32: "GETU32 pt i = be32 (pt ! i) (pt ! (i + 1)) (pt ! (i + 2)) (pt ! (i + 3))"
  by (rule bit_word_eqI) (auto simp: GETU32_def bit_be32 bit_simps dest: bit_imp_le_length)

lemma PUTU32_bytes: "PUTU32 w = [byte_of 3 w, byte_of 2 w, byte_of 1 w, byte_of 0 w]"
  by (simp add: PUTU32_def byte_of_def)

lemma load_store: "load_block (store_block s) = s"
  by (cases s) (simp add: load_block_def store_block_def PUTU32_bytes GETU32_be32 nth_append)

lemma length_store [simp]: "length (store_block s) = 16"
  by (cases s) (simp add: store_block_def PUTU32_bytes)

lemma store_load: "length b = 16 \<Longrightarrow> store_block (load_block b) = b"
  by (rule nth_equalityI)
    (auto simp: load_block_def store_block_def PUTU32_bytes GETU32_be32 less_Suc_eq eval_nat_numeral
      byte_of_be32 [unfolded numeral_3_eq_3 numeral_2_eq_2])

lemma length_rijndael [simp, len_simps]:
  "length (rijndaelEncrypt rk pt) = 16" "length (rijndaelDecrypt rk ct) = 16"
  by (simp_all add: rijndaelEncrypt_spn rijndaelDecrypt_spn)

text \<open>A decryption schedule for an encryption schedule.\<close>

definition inverse_schedule :: "u32 list \<Rightarrow> u32 list \<Rightarrow> bool" where
  "inverse_schedule rk dk \<longleftrightarrow> round_key dk 0 = round_key rk 40 \<and> round_key dk 40 = round_key rk 0 \<and>
    round_keys dk = map (map_cols inv_mix_column) (rev (round_keys rk))"

lemma decrypt_encrypt:
  "inverse_schedule rk dk \<Longrightarrow> length pt = 16 \<Longrightarrow> rijndaelDecrypt dk (rijndaelEncrypt rk pt) = pt"
  by (simp add: rijndaelEncrypt_spn rijndaelDecrypt_spn inverse_schedule_def load_store store_load
      aes_net.network_back)

lemma encrypt_decrypt:
  "inverse_schedule rk dk \<Longrightarrow> length ct = 16 \<Longrightarrow> rijndaelEncrypt rk (rijndaelDecrypt dk ct) = ct"
  by (simp add: rijndaelEncrypt_spn rijndaelDecrypt_spn inverse_schedule_def load_store store_load
      aes_net.network_forth)

section \<open>The key schedules\<close>

text \<open>The key expansion of the standard, four words at a time.\<close>

definition next_key :: "nat \<Rightarrow> aes_state \<Rightarrow> aes_state" where
  "next_key i = (\<lambda>(w0, w1, w2, w3).
    let v0 = w0 XOR be32 (sub_byte (byte_of 2 w3)) (sub_byte (byte_of 1 w3)) (sub_byte (byte_of 0 w3))
               (sub_byte (byte_of 3 w3)) XOR rcon ! i;
        v1 = w1 XOR v0; v2 = w2 XOR v1; v3 = w3 XOR v2
    in (v0, v1, v2, v3))"

primrec aes_key :: "u8 list \<Rightarrow> nat \<Rightarrow> aes_state" where
  "aes_key key 0 = load_block key"
| "aes_key key (Suc i) = next_key i (aes_key key i)"

lemma length_key_step [simp]: "length (key_step i rk) = length rk"
  by (simp add: key_step_def Let_def)

lemma key_step_below: "j < 4 * i + 4 \<Longrightarrow> key_step i rk ! j = rk ! j"
  by (simp add: key_step_def Let_def)

lemma be32_join:
  "be32 a 0 0 0 XOR be32 0 b 0 0 XOR be32 0 0 c 0 XOR be32 0 0 0 d XOR w = be32 a b c d XOR w"
  by (simp add: be32_xor flip: xor.assoc)

lemma key_step_next:
  assumes "4 * i + 8 \<le> length rk"
  shows "round_key (key_step i rk) (4 * Suc i) = next_key i (round_key rk (4 * i))"
  using assms
  by (simp add: key_step_def next_key_def round_key_def Let_def lookups Te4_columns nth_u8_map
      be32_and_masks be32_join sub_byte_def xor.assoc nth_list_update numeral_2_eq_2 numeral_3_eq_3)

lemma key_steps:
  assumes "4 * n + 4 \<le> length rk" and "round_key rk 0 = aes_key key 0" and "j \<le> n"
  shows "round_key (fold key_step [0..<n] rk) (4 * j) = aes_key key j \<and>
    length (fold key_step [0..<n] rk) = length rk"
  using assms(1,3)
proof (induction n arbitrary: j)
  case (Suc n)
  let ?r = "fold key_step [0..<n] rk"
  have l: "length ?r = length rk"
    using Suc.IH [of 0] Suc.prems by simp
  show ?case
  proof (cases "j = Suc n")
    case True
    then show ?thesis
      using Suc key_step_next [of n ?r] l by simp
  next
    case False
    then have "round_key (key_step n ?r) (4 * j) = round_key ?r (4 * j)"
      using Suc.prems by (simp add: round_key_def key_step_below)
    then show ?thesis
      using False Suc l by simp
  qed
qed (use assms(2) in simp)

lemma setup_enc:
  assumes "length rk = 44"
  shows "length (rijndaelKeySetupEnc rk key) = 44"
    and "j \<le> 10 \<Longrightarrow> round_key (rijndaelKeySetupEnc rk key) (4 * j) = aes_key key j"
proof -
  let ?r = "rk[0 := GETU32 key 0, 1 := GETU32 key 4, 2 := GETU32 key 8, 3 := GETU32 key 12]"
  have "round_key ?r 0 = aes_key key 0"
    using assms by (simp add: round_key_def load_block_def numeral_2_eq_2 numeral_3_eq_3)
  then have "round_key (fold key_step [0..<10] ?r) (4 * j) = aes_key key j \<and>
      length (fold key_step [0..<10] ?r) = length ?r" if "j \<le> 10" for j
    using that assms by (intro key_steps) simp_all
  then show "length (rijndaelKeySetupEnc rk key) = 44"
      "j \<le> 10 \<Longrightarrow> round_key (rijndaelKeySetupEnc rk key) (4 * j) = aes_key key j"
    using assms unfolding rijndaelKeySetupEnc_def Let_def by auto
qed

text \<open>Reversing the order.\<close>

lemma length_swap_words [simp]: "length (swap_words i j rk) = length rk"
  by (simp add: swap_words_def Let_def)

lemma nth_swap_words:
  "i < length rk \<Longrightarrow> j < length rk \<Longrightarrow>
    swap_words i j rk ! m = (if m = i then rk ! j else if m = j then rk ! i else rk ! m)"
  by (auto simp: swap_words_def Let_def nth_list_update)

definition swap4 :: "nat \<Rightarrow> nat \<Rightarrow> u32 list \<Rightarrow> u32 list" where
  "swap4 i j rk = swap_words (i + 3) (j + 3) (swap_words (i + 2) (j + 2) (swap_words (i + 1) (j + 1) (swap_words i j rk)))"

lemma length_swap4 [simp]: "length (swap4 i j rk) = length rk"
  by (simp add: swap4_def)

lemma nth_swap4:
  assumes "i + 4 \<le> j" and "j + 4 \<le> length rk"
  shows "swap4 i j rk ! m = (if i \<le> m \<and> m < i + 4 then rk ! (j + (m - i))
    else if j \<le> m \<and> m < j + 4 then rk ! (i + (m - j)) else rk ! m)"
proof -
  have "m = i \<or> m = i + 1 \<or> m = i + 2 \<or> m = i + 3 \<or> m = j \<or> m = j + 1 \<or> m = j + 2 \<or> m = j + 3 \<or>
      m < i \<or> (i + 4 \<le> m \<and> m < j) \<or> j + 4 \<le> m"
    by linarith
  then show ?thesis
    using assms by (elim disjE) (simp_all add: swap4_def nth_swap_words)
qed

lemma invert_order_steps:
  "invert_order 0 40 rk = swap4 16 24 (swap4 12 28 (swap4 8 32 (swap4 4 36 (swap4 0 40 rk))))"
  by (simp add: invert_order.simps [of _ _ rk] invert_order.simps swap4_def Let_def)

lemma upt_11: "[0..<11] = [0, 1, 2, 3, 4, 5, 6, 7, 8, 9, 10 :: nat]"
  by (simp add: upt_rec)

lemma invert_order_keys:
  assumes "length rk = 44" and "j \<le> 10"
  shows "round_key (invert_order 0 40 rk) (4 * j) = round_key rk (4 * (10 - j))"
proof -
  have "\<forall>j \<in> set [0..<11]. round_key (invert_order 0 40 rk) (4 * j) = round_key rk (4 * (10 - j))"
    unfolding upt_11 invert_order_steps by (simp add: round_key_def nth_swap4 assms(1))
  then show ?thesis
    using assms(2) by simp
qed

lemma inv_mix_word_column: "inv_mix_word w = inv_mix_column w"
proof -
  have FF: "unat (be32 s s s s AND 0xff) = unat s" for s
    by (simp add: lookup_index)
  have sub: "aes_inv_sbox ! unat (aes_sbox ! unat b) = b" for b
    using inv_sub_sub [of b] by (simp add: inv_sub_byte_def sub_byte_def)
  show ?thesis
    by (simp add: inv_mix_word_def lookups Te4_columns nth_u8_map FF sub Td0_columns Td1_columns Td2_columns
        Td3_columns inv_mix_column_def be32_xor Let_def xor.assoc)
qed

lemma length_inv_mix_key [simp]: "length (inv_mix_key i rk) = length rk"
  by (simp add: inv_mix_key_def Let_def)

lemma nth_inv_mix_key:
  assumes "4 * i + 4 \<le> length rk"
  shows "inv_mix_key i rk ! m = (if 4 * i \<le> m \<and> m < 4 * i + 4 then inv_mix_column (rk ! m) else rk ! m)"
proof -
  have "m = 4 * i \<or> m = 4 * i + 1 \<or> m = 4 * i + 2 \<or> m = 4 * i + 3 \<or> m < 4 * i \<or> 4 * i + 4 \<le> m"
    by linarith
  then show ?thesis
    using assms by (elim disjE) (simp_all add: inv_mix_key_def Let_def inv_mix_word_column)
qed

lemma inv_mix_keys:
  assumes "4 * n \<le> length rk" and "1 \<le> n"
  shows "length (fold inv_mix_key [1..<n] rk) = length rk"
    and "fold inv_mix_key [1..<n] rk ! m = (if 4 \<le> m \<and> m < 4 * n then inv_mix_column (rk ! m) else rk ! m)"
proof -
  have "length (fold inv_mix_key [1..<n] rk) = length rk \<and>
      fold inv_mix_key [1..<n] rk ! m = (if 4 \<le> m \<and> m < 4 * n then inv_mix_column (rk ! m) else rk ! m)" for m
    using assms(2,1)
  proof (induction n arbitrary: m rule: dec_induct)
    case (step n)
    then have "[1..<Suc n] = [1..<n] @ [n]"
      by simp
    then show ?case
      using step nth_inv_mix_key [of n "fold inv_mix_key [1..<n] rk" m] by auto
  qed auto
  then show "length (fold inv_mix_key [1..<n] rk) = length rk"
      "fold inv_mix_key [1..<n] rk ! m = (if 4 \<le> m \<and> m < 4 * n then inv_mix_column (rk ! m) else rk ! m)"
    by simp_all
qed

lemma length_invert_order: "length rk = 44 \<Longrightarrow> length (invert_order 0 40 rk) = 44"
  by (simp add: invert_order_steps)

lemma setup_dec:
  assumes "length rk = 44" and "j \<le> 10"
  shows "round_key (rijndaelKeySetupDec rk key) (4 * j) =
    (if j = 0 \<or> j = 10 then aes_key key (10 - j) else map_cols inv_mix_column (aes_key key (10 - j)))"
proof -
  let ?d = "invert_order 0 40 (rijndaelKeySetupEnc rk key)"
  have l: "4 * 10 \<le> length ?d" "(1 :: nat) \<le> 10"
    using assms(1) by (simp_all add: length_invert_order setup_enc)
  have d: "round_key ?d (4 * j) = aes_key key (10 - j)"
    using assms setup_enc(2) [OF assms(1), of "10 - j" key] invert_order_keys [of "rijndaelKeySetupEnc rk key" j]
    by (simp add: setup_enc)
  have "round_key (rijndaelKeySetupDec rk key) (4 * j) =
      (if j = 0 \<or> j = 10 then round_key ?d (4 * j) else map_cols inv_mix_column (round_key ?d (4 * j)))"
  proof -
    have "j = 0 \<or> j = 10 \<or> 1 \<le> j \<and> j < 10"
      using assms(2) by linarith
    then show ?thesis
      unfolding rijndaelKeySetupDec_def Let_def round_key_def inv_mix_keys(2) [OF l]
      by (elim disjE) (simp_all add: map_cols_def)
  qed
  then show ?thesis
    unfolding d .
qed

lemma setup_enc_keys:
  assumes "length rk = 44"
  shows "round_key (rijndaelKeySetupEnc rk key) 0 = aes_key key 0"
    and "round_keys (rijndaelKeySetupEnc rk key) = map (aes_key key) [1..<10]"
    and "round_key (rijndaelKeySetupEnc rk key) 40 = aes_key key 10"
  using setup_enc(2) [OF assms, of 0 key] setup_enc(2) [OF assms, of 10 key]
    map_cong [OF refl, of "[1..<10]" "\<lambda>i. round_key (rijndaelKeySetupEnc rk key) (4 * i)" "aes_key key"]
    setup_enc(2) [OF assms, of _ key]
  by (simp_all add: round_keys_def)

lemma setup_dec_keys:
  assumes "length rk = 44"
  shows "round_key (rijndaelKeySetupDec rk key) 0 = aes_key key 10"
    and "round_keys (rijndaelKeySetupDec rk key) = map (map_cols inv_mix_column) (rev (map (aes_key key) [1..<10]))"
    and "round_key (rijndaelKeySetupDec rk key) 40 = aes_key key 0"
proof -
  have "round_keys (rijndaelKeySetupDec rk key) = map (\<lambda>j. map_cols inv_mix_column (aes_key key (10 - j))) [1..<10]"
    unfolding round_keys_def using setup_dec [OF assms, of _ key] by (intro map_cong refl) auto
  also have "\<dots> = map (map_cols inv_mix_column) (rev (map (aes_key key) [1..<10]))"
    unfolding upt_1_10 by simp
  finally show "round_keys (rijndaelKeySetupDec rk key) =
      map (map_cols inv_mix_column) (rev (map (aes_key key) [1..<10]))" .
qed (use setup_dec [OF assms, of 0 key] setup_dec [OF assms, of 10 key] in simp_all)

lemma schedules_inverse:
  "length rk = 44 \<Longrightarrow> length rk' = 44 \<Longrightarrow>
    inverse_schedule (rijndaelKeySetupEnc rk key) (rijndaelKeySetupDec rk' key)"
  unfolding inverse_schedule_def by (simp only: setup_enc_keys setup_dec_keys)

section \<open>The block functions compute the standard\<close>

definition aes128 :: "u8 list \<Rightarrow> u8 list \<Rightarrow> u8 list" where
  "aes128 key pt = store_block (spn sub_shift (map_cols mix_column) add_key (aes_key key 0)
    (map (aes_key key) [1..<10]) (aes_key key 10) (load_block pt))"

lemma encrypt_is_aes128:
  "length rk = 44 \<Longrightarrow> rijndaelEncrypt (rijndaelKeySetupEnc rk key) pt = aes128 key pt"
  unfolding rijndaelEncrypt_spn aes128_def by (simp only: setup_enc_keys)

text \<open>
  C15: whatever the key array held before, the table-driven \<open>rijndaelEncrypt\<close> under
  \<open>rijndaelKeySetupEnc\<close> is the AES of the standard: SubBytes, ShiftRows, MixColumns over
  the field of 256 elements and the expanded key, on the bytes of the block.
\<close>
theorem aes_encrypt_standard:
  assumes "length rk = 44"
  shows "rijndaelEncrypt (rijndaelKeySetupEnc rk key) pt = aes128 key pt"
  by (rule encrypt_is_aes128 [OF assms])

theorem aes_encrypt_standard_witness:
  "rijndaelEncrypt (rijndaelKeySetupEnc (replicate 44 7) (replicate 16 1)) (replicate 16 2) =
    aes128 (replicate 16 1) (replicate 16 2)"
  by (rule aes_encrypt_standard) simp

text \<open>
  C16: \<open>rijndaelDecrypt\<close> under \<open>rijndaelKeySetupDec\<close> inverts \<open>rijndaelEncrypt\<close> under
  \<open>rijndaelKeySetupEnc\<close> of the same key, in both orders, on every block.
\<close>
theorem aes_decrypt_encrypt:
  assumes "length rk = 44" and "length rk' = 44" and "length b = 16"
  shows "rijndaelDecrypt (rijndaelKeySetupDec rk' key) (rijndaelEncrypt (rijndaelKeySetupEnc rk key) b) = b \<and>
    rijndaelEncrypt (rijndaelKeySetupEnc rk key) (rijndaelDecrypt (rijndaelKeySetupDec rk' key) b) = b"
  using decrypt_encrypt [OF schedules_inverse [OF assms(1,2)] assms(3)]
    encrypt_decrypt [OF schedules_inverse [OF assms(1,2)] assms(3)] by simp

theorem aes_decrypt_encrypt_witness:
  "rijndaelDecrypt (rijndaelKeySetupDec (replicate 44 1) (replicate 16 3))
    (rijndaelEncrypt (rijndaelKeySetupEnc (replicate 44 0) (replicate 16 3)) (replicate 16 5)) = replicate 16 5"
  using aes_decrypt_encrypt [of "replicate 44 0" "replicate 44 1" "replicate 16 5" "replicate 16 3"] by simp

text \<open>
  The unrolled rounds and the loops of the build without \<open>FULL_UNROLL\<close> compute the
  same block, for any key array.
\<close>
theorem aes_unrolled_is_rolled:
  "rijndaelEncrypt rk b = rijndaelEncrypt_rolled rk b \<and> rijndaelDecrypt rk b = rijndaelDecrypt_rolled rk b"
proof -
  have te: "te_loop rk 0 5 s = (te_round rk 36 (te_round rk 32 (te_round rk 28 (te_round rk 24 (te_round rk 20
      (te_round rk 16 (te_round rk 12 (te_round rk 8 (te_round rk 4 s)))))))), 40)" for s
    by (simp add: te_loop.simps [of _ _ _ _] Let_def)
  have td: "td_loop rk 0 5 s = (td_round rk 36 (td_round rk 32 (td_round rk 28 (td_round rk 24 (td_round rk 20
      (td_round rk 16 (td_round rk 12 (td_round rk 8 (td_round rk 4 s)))))))), 40)" for s
    by (simp add: td_loop.simps [of _ _ _ _] Let_def)
  show ?thesis
    unfolding rijndaelEncrypt_def rijndaelDecrypt_def rijndaelEncrypt_rolled_def rijndaelDecrypt_rolled_def Let_def
    by (simp add: te td)
qed

section \<open>CBC mode\<close>

definition aes128_inv :: "u8 list \<Rightarrow> u8 list \<Rightarrow> u8 list" where
  "aes128_inv key = rijndaelDecrypt (rijndaelKeySetupDec (replicate 44 0) key)"

lemma decrypt_is_aes128_inv:
  assumes "length rk = 44"
  shows "rijndaelDecrypt (rijndaelKeySetupDec rk key) ct = aes128_inv key ct"
proof -
  have l: "length (replicate 44 (0 :: u32)) = 44"
    by simp
  show ?thesis
    unfolding aes128_inv_def rijndaelDecrypt_spn setup_dec_keys [OF assms] setup_dec_keys [OF l] ..
qed

interpretation aes_byte: chained_cipher "aes128 key" "aes128_inv key" "\<lambda>b. length b = 16" xorl for key
proof -
  have l: "length (replicate 44 (0 :: u32)) = 44"
    by simp
  have E: "aes128 key b = rijndaelEncrypt (rijndaelKeySetupEnc (replicate 44 0) key) b" for b
    by (simp add: encrypt_is_aes128)
  show "chained_cipher (aes128 key) (aes128_inv key) (\<lambda>b. length b = 16) xorl"
    by unfold_locales
      (simp_all add: E aes128_inv_def decrypt_encrypt encrypt_decrypt schedules_inverse xorl_cancel)
qed

lemma length_concat_blocks: "(\<And>c. c \<in> set cs \<Longrightarrow> length c = n) \<Longrightarrow> length (concat cs) = n * length cs"
  by (induction cs) auto

lemma xor_block:
  "length a = 16 \<Longrightarrow> 16 \<le> length b \<Longrightarrow> map (\<lambda>j. a ! j XOR b ! j) [0..<16] = xorl (take 16 b) a"
  by (rule nth_equalityI) (auto simp: xor.commute)

lemma aes_cbc_enc_loop_chain:
  assumes "\<And>b. rijndaelEncrypt rk b = E b" and "length c = 16" and "16 * n \<le> length pos"
  shows "aes_cbc_enc_loop rk c n pos = concat (cbc_enc E xorl c (chunks 16 (take (16 * n) pos))) @ drop (16 * n) pos"
  using assms(2,3)
proof (induction n arbitrary: c pos)
  case (Suc n)
  have l: "length (E b) = 16" for b
    using length_rijndael(1) [of rk b] by (simp add: assms(1))
  have long: "16 \<le> length pos" and "16 * n \<le> length (drop 16 pos)"
    using Suc.prems by simp_all
  then show ?case
    using Suc.IH [of "E (xorl (take 16 pos) c)" "drop 16 pos"] Suc.prems(1)
    by (simp add: xor_block [OF Suc.prems(1) long] chunks_take_Suc [where k = 16, simplified, OF long] Let_def assms(1) l add.commute)
qed simp

lemma aes_cbc_dec_loop_chain:
  assumes "\<And>b. rijndaelDecrypt rk b = D b" and "length c = 16" and "16 * n \<le> length pos"
  shows "aes_cbc_dec_loop rk c n pos = concat (cbc_dec D xorl c (chunks 16 (take (16 * n) pos))) @ drop (16 * n) pos"
  using assms(2,3)
proof (induction n arbitrary: c pos)
  case (Suc n)
  have l: "length (D b) = 16" for b
    using length_rijndael(2) [of rk b] by (simp add: assms(1))
  have "map (\<lambda>j. D (take 16 pos) ! j XOR c ! j) [0..<16] = xorl (D (take 16 pos)) c"
    by (rule nth_equalityI) (use Suc.prems l in auto)
  moreover have long: "16 \<le> length pos" and "16 * n \<le> length (drop 16 pos)"
    using Suc.prems by simp_all
  ultimately show ?case
    using Suc.IH [of "take 16 pos" "drop 16 pos"]
    by (simp add: chunks_take_Suc [where k = 16, simplified, OF long] Let_def assms(1) add.commute)
qed simp

lemma aes_blocks_small: "n < 2 ^ 35 \<Longrightarrow> aes_blocks n = n div 16"
proof -
  assume "n < 2 ^ 35"
  then have "int (n div 16) < 2 ^ 31"
    by simp
  then have "sint (of_nat (n div 16) :: 32 word) = int (n div 16)"
    by (simp add: signed_of_nat signed_take_bit_int_eq_self)
  then show ?thesis
    by (simp add: aes_blocks_def)
qed

lemma aes_cbc_ok:
  assumes "length rk = 44" and "length iv = 16" and "data_len \<le> length data" and "data_len < 2 ^ 35"
  shows "aes_128_cbc_encrypt rk key iv data data_len =
      Inr (concat (cbc_enc (aes128 key) xorl iv (chunks 16 (take (16 * (data_len div 16)) data))) @
        drop (16 * (data_len div 16)) data)"
    and "aes_128_cbc_decrypt rk key iv data data_len =
      Inr (concat (cbc_dec (aes128_inv key) xorl iv (chunks 16 (take (16 * (data_len div 16)) data))) @
        drop (16 * (data_len div 16)) data)"
proof -
  have fit: "16 * (data_len div 16) \<le> length data"
    using div_times_less_eq_dividend [of data_len 16] assms(3) by linarith
  then show "aes_128_cbc_encrypt rk key iv data data_len =
      Inr (concat (cbc_enc (aes128 key) xorl iv (chunks 16 (take (16 * (data_len div 16)) data))) @
        drop (16 * (data_len div 16)) data)"
    using aes_cbc_enc_loop_chain [OF encrypt_is_aes128 [OF assms(1)] assms(2) fit] assms(2)
    by (simp add: aes_128_cbc_encrypt_def Let_def aes_blocks_small [OF assms(4)])
  show "aes_128_cbc_decrypt rk key iv data data_len =
      Inr (concat (cbc_dec (aes128_inv key) xorl iv (chunks 16 (take (16 * (data_len div 16)) data))) @
        drop (16 * (data_len div 16)) data)"
    using aes_cbc_dec_loop_chain [OF decrypt_is_aes128_inv [OF assms(1)] assms(2) fit] assms(2) fit
    by (simp add: aes_128_cbc_decrypt_def Let_def aes_blocks_small [OF assms(4)])
qed

text \<open>
  \<open>aes_128_cbc_encrypt\<close> replaces the whole blocks of the buffer by their CBC encryption
  under AES and leaves the bytes behind them, a ragged tail included, as they are.
\<close>
theorem aes_cbc_standard:
  assumes "length rk = 44" and "length iv = 16" and "data_len \<le> length data" and "data_len < 2 ^ 35"
  shows "aes_128_cbc_encrypt rk key iv data data_len =
    Inr (concat (cbc_enc (aes128 key) xorl iv (chunks 16 (take (16 * (data_len div 16)) data))) @
      drop (16 * (data_len div 16)) data)"
  by (rule aes_cbc_ok(1) [OF assms])

theorem aes_cbc_standard_witness:
  "aes_128_cbc_encrypt (replicate 44 0) (replicate 16 1) (replicate 16 2) (replicate 21 3) 20 =
    Inr (concat (cbc_enc (aes128 (replicate 16 1)) xorl (replicate 16 2) (chunks 16 (replicate 16 3))) @
      replicate 5 3)"
  by (subst aes_cbc_standard) simp_all

lemma aes_cbc_back:
  assumes "length rk = 44" and "length rk' = 44" and "length iv = 16" and "data_len \<le> length data"
    and "data_len < 2 ^ 35"
  shows "\<exists>ct. aes_128_cbc_encrypt rk key iv data data_len = Inr ct \<and> length ct = length data \<and>
    aes_128_cbc_decrypt rk' key iv ct data_len = Inr data"
proof -
  let ?m = "16 * (data_len div 16)"
  let ?cs = "cbc_enc (aes128 key) xorl iv (chunks 16 (take ?m data))"
  have fit: "?m \<le> length data"
    using div_times_less_eq_dividend [of data_len 16] assms(4) by linarith
  then have lm: "length (take ?m data) = ?m"
    by simp
  have b: "\<forall>b \<in> set (chunks 16 (take ?m data)). length b = 16"
    using chunk_lengths [of 16 "take ?m data"] unfolding lm by auto
  have c: "length c = 16" if "c \<in> set ?cs" for c
    using aes_byte.cbc_blocks [OF assms(3) b that] .
  then have "length (concat ?cs) = 16 * length ?cs"
    by (rule length_concat_blocks)
  also have "length ?cs = data_len div 16"
    using length_chunks [of 16 "take ?m data"] unfolding lm by simp
  finally have l: "length (concat ?cs) = ?m" .
  have "chunks 16 (concat ?cs) = ?cs"
    using c by (intro chunks_concat) auto
  then have "concat (cbc_dec (aes128_inv key) xorl iv (chunks 16 (concat ?cs))) = take ?m data"
    using aes_byte.cbc_back [OF assms(3) b] by (simp add: concat_chunks)
  moreover have "length (concat ?cs @ drop ?m data) = length data"
    using l fit by simp
  ultimately show ?thesis
    using aes_cbc_ok(1) [OF assms(1,3,4,5)] aes_cbc_ok(2) [OF assms(2,3) _ assms(5), of "concat ?cs @ drop ?m data"] assms(4)
    by (simp add: l)
qed


text \<open>\<open>aes_128_cbc_decrypt\<close> restores the buffer that \<open>aes_128_cbc_encrypt\<close> was given.\<close>
theorem aes_cbc_roundtrip:
  assumes "aes_128_cbc_encrypt rk key iv data data_len = Inr ct"
    and "length rk = 44" and "length rk' = 44" and "length iv = 16" and "data_len \<le> length data"
    and "data_len < 2 ^ 35"
  shows "aes_128_cbc_decrypt rk' key iv ct data_len = Inr data"
  using aes_cbc_back [OF assms(2-6), of key] assms(1) by auto

theorem aes_cbc_roundtrip_witness:
  "\<exists>ct. aes_128_cbc_encrypt (replicate 44 0) (replicate 16 7) (replicate 16 2) (replicate 21 3) 20 = Inr ct \<and>
    aes_128_cbc_decrypt (replicate 44 1) (replicate 16 7) (replicate 16 2) ct 20 = Inr (replicate 21 3)"
  using aes_cbc_roundtrip [of "replicate 44 0" "replicate 16 7" "replicate 16 2" "replicate 21 3" 20 _ "replicate 44 1"]
  by (simp add: aes_cbc_ok(1))

text \<open>
  \<open>nasAesCrypt\<close> with type \<open>D\<close> and the returned length gives back the message that type
  \<open>E\<close> encrypted, padded with what the result buffer held; when the buffer ends before
  the rounded-up length, type \<open>E\<close> runs over its end.
\<close>
theorem nasAesCrypt_cases:
  fixes len :: nat
  defines "n \<equiv> (if len mod 16 \<noteq> 0 then len + (16 - len mod 16) else len)"
  assumes "length rk = 44" and "length rk' = 44" and "length iv = 16" and "len \<le> length inp"
    and "len \<le> length result" and "n < 2 ^ 35" and "length result' = length result"
  shows "if n \<le> length result
    then \<exists>r. nasAesCrypt rk ''E'' key iv 16 inp result len = Inr (as_int n, r) \<and> length r = length result \<and>
      nasAesCrypt rk' ''D'' key iv 16 r result' n =
        Inr (as_int n, take len inp @ take (n - len) (drop len result) @ drop n result')
    else nasAesCrypt rk ''E'' key iv 16 inp result len = Inl Out_of_bounds"
proof -
  let ?d = "take len inp @ drop len result"
  have "n mod 16 = 0"
  proof -
    define q r where "q = len div 16" and "r = len mod 16"
    have "len = 16 * q + r" "r < 16"
      by (simp_all add: q_def r_def)
    then have "n = 16 * (if r = 0 then q else Suc q)"
      unfolding n_def r_def [symmetric] by simp
    then show ?thesis
      by simp
  qed
  then have n16: "n mod 16 = 0" .
  have ge: "len \<le> n"
    unfolding n_def by (metis le_add1 order_refl)
  have ld: "length ?d = length result"
    using assms(5,6) by simp
  have E: "nasAesCrypt rk ''E'' key iv 16 inp result len =
      (case aes_128_cbc_encrypt rk key iv ?d n of Inl e \<Rightarrow> Inl e | Inr r \<Rightarrow> Inr (as_int n, r))"
    using assms(5,6) unfolding nasAesCrypt_def n_def Let_def by simp
  show ?thesis
  proof (cases "n \<le> length result")
    case True
    obtain ct where ct: "aes_128_cbc_encrypt rk key iv ?d n = Inr ct" "length ct = length ?d"
      using aes_cbc_back [OF assms(2,3,4) _ assms(7), of ?d key] True ld by auto
    have dec: "aes_128_cbc_decrypt rk' key iv ct n = Inr ?d"
      using aes_cbc_back [OF assms(2,3,4) _ assms(7), of ?d key] ct True ld by auto
    let ?P = "concat (cbc_dec (aes128_inv key) xorl iv (chunks 16 (take n ct)))"
    have whole: "16 * (n div 16) = n"
      using n16 by auto
    have cat: "?P @ drop n ct = ?d"
      using dec aes_cbc_ok(2) [OF assms(3,4) _ assms(7), of ct key] True ld ct(2) by (simp add: whole)
    have "length ?P = n"
      using arg_cong [OF cat, of length] True ld ct(2) by (simp only: length_append length_drop)
    then have P: "?P = take n ?d"
      using arg_cong [OF cat, of "take n"] by (simp only: take_append) simp
    have n2: "n \<le> length (take n ct @ drop n result')" "length (take n ct) = n"
      using True ld ct(2) assms(8) by simp_all
    have "aes_128_cbc_decrypt rk' key iv (take n ct @ drop n result') n = Inr (take n ?d @ drop n result')"
      using aes_cbc_ok(2) [OF assms(3,4) n2(1) assms(7), of key] n2(2) by (simp add: whole P)
    moreover have "take n ?d = take len inp @ take (n - len) (drop len result)"
      using ge assms(5) by (simp add: min_absorb2)
    ultimately have "nasAesCrypt rk' ''D'' key iv 16 ct result' n =
        Inr (as_int n, take len inp @ take (n - len) (drop len result) @ drop n result')"
      using True ld ct(2) assms(8) n16 by (simp add: nasAesCrypt_def Let_def)
    then show ?thesis
      using True ct ld E by auto
  next
    case False
    have "aes_blocks n = n div 16"
      by (rule aes_blocks_small [OF assms(7)])
    moreover have "16 * (n div 16) = n"
      using n16 by auto
    ultimately show ?thesis
      using False E ld by (simp add: aes_128_cbc_encrypt_def)
  qed
qed


theorem nasAesCrypt_cases_witness:
  "(\<exists>r. nasAesCrypt (replicate 44 0) ''E'' (replicate 16 7) (replicate 16 2) 16 [1, 2, 3] (replicate 20 9) 3 = Inr (16, r) \<and>
      nasAesCrypt (replicate 44 0) ''D'' (replicate 16 7) (replicate 16 2) 16 r (replicate 20 8) 16 =
        Inr (16, [1, 2, 3] @ replicate 13 9 @ replicate 4 8)) \<and>
    nasAesCrypt (replicate 44 0) ''E'' (replicate 16 7) (replicate 16 2) 16 [1, 2, 3] [9, 9, 9] 3 = Inl Out_of_bounds"
  using nasAesCrypt_cases [of "replicate 44 0" "replicate 44 0" "replicate 16 2" 3 "[1, 2, 3]" "replicate 20 9" "replicate 20 8" "replicate 16 7"]
    nasAesCrypt_cases [of "replicate 44 0" "replicate 44 0" "replicate 16 2" 3 "[1, 2, 3]" "[9, 9, 9]" "[9, 9, 9]" "replicate 16 7"]
  by (auto simp: as_int_def)

section \<open>The S-box of the standard\<close>

text \<open>
  Multiplication in the field of 256 elements, and the affine map that follows the
  inversion.
\<close>

definition field_mul :: "u8 \<Rightarrow> u8 \<Rightarrow> u8" where
  "field_mul a b = fold (\<lambda>i c. if bit b i then c XOR (xtime ^^ i) a else c) [0..<8] 0"

definition affine :: "u8 \<Rightarrow> u8" where
  "affine b = b XOR word_rotl 1 b XOR word_rotl 2 b XOR word_rotl 3 b XOR word_rotl 4 b XOR 0x63"

definition field_inv :: "u8 list" where
  "field_inv = [
    0x00, 0x01, 0x8d, 0xf6, 0xcb, 0x52, 0x7b, 0xd1, 0xe8, 0x4f, 0x29, 0xc0, 0xb0, 0xe1, 0xe5, 0xc7,
    0x74, 0xb4, 0xaa, 0x4b, 0x99, 0x2b, 0x60, 0x5f, 0x58, 0x3f, 0xfd, 0xcc, 0xff, 0x40, 0xee, 0xb2,
    0x3a, 0x6e, 0x5a, 0xf1, 0x55, 0x4d, 0xa8, 0xc9, 0xc1, 0x0a, 0x98, 0x15, 0x30, 0x44, 0xa2, 0xc2,
    0x2c, 0x45, 0x92, 0x6c, 0xf3, 0x39, 0x66, 0x42, 0xf2, 0x35, 0x20, 0x6f, 0x77, 0xbb, 0x59, 0x19,
    0x1d, 0xfe, 0x37, 0x67, 0x2d, 0x31, 0xf5, 0x69, 0xa7, 0x64, 0xab, 0x13, 0x54, 0x25, 0xe9, 0x09,
    0xed, 0x5c, 0x05, 0xca, 0x4c, 0x24, 0x87, 0xbf, 0x18, 0x3e, 0x22, 0xf0, 0x51, 0xec, 0x61, 0x17,
    0x16, 0x5e, 0xaf, 0xd3, 0x49, 0xa6, 0x36, 0x43, 0xf4, 0x47, 0x91, 0xdf, 0x33, 0x93, 0x21, 0x3b,
    0x79, 0xb7, 0x97, 0x85, 0x10, 0xb5, 0xba, 0x3c, 0xb6, 0x70, 0xd0, 0x06, 0xa1, 0xfa, 0x81, 0x82,
    0x83, 0x7e, 0x7f, 0x80, 0x96, 0x73, 0xbe, 0x56, 0x9b, 0x9e, 0x95, 0xd9, 0xf7, 0x02, 0xb9, 0xa4,
    0xde, 0x6a, 0x32, 0x6d, 0xd8, 0x8a, 0x84, 0x72, 0x2a, 0x14, 0x9f, 0x88, 0xf9, 0xdc, 0x89, 0x9a,
    0xfb, 0x7c, 0x2e, 0xc3, 0x8f, 0xb8, 0x65, 0x48, 0x26, 0xc8, 0x12, 0x4a, 0xce, 0xe7, 0xd2, 0x62,
    0x0c, 0xe0, 0x1f, 0xef, 0x11, 0x75, 0x78, 0x71, 0xa5, 0x8e, 0x76, 0x3d, 0xbd, 0xbc, 0x86, 0x57,
    0x0b, 0x28, 0x2f, 0xa3, 0xda, 0xd4, 0xe4, 0x0f, 0xa9, 0x27, 0x53, 0x04, 0x1b, 0xfc, 0xac, 0xe6,
    0x7a, 0x07, 0xae, 0x63, 0xc5, 0xdb, 0xe2, 0xea, 0x94, 0x8b, 0xc4, 0xd5, 0x9d, 0xf8, 0x90, 0x6b,
    0xb1, 0x0d, 0xd6, 0xeb, 0xc6, 0x0e, 0xcf, 0xad, 0x08, 0x4e, 0xd7, 0xe3, 0x5d, 0x50, 0x1e, 0xb3,
    0x5b, 0x23, 0x38, 0x34, 0x68, 0x46, 0x03, 0x8c, 0xdd, 0x9c, 0x7d, 0xa0, 0xcd, 0x1a, 0x41, 0x1c]"

lemma word_rotl_shift: "k \<le> 8 \<Longrightarrow> word_rotl k (b :: u8) = push_bit k b OR drop_bit (8 - k) b"
  by (rule bit_word_eqI) (auto simp: bit_simps bit_word_rotl_iff mod_if add.commute [of 8] dest: bit_imp_le_length)

lemma sbox_affine: "aes_sbox = map affine field_inv"
  by (simp add: aes_sbox_def field_inv_def affine_def word_rotl_shift)

lemma field_mul_unrolled:
  "field_mul a b =
    (if bit b 0 then a else 0) XOR (if bit b 1 then xtime a else 0) XOR
    (if bit b 2 then xtime (xtime a) else 0) XOR (if bit b 3 then xtime (xtime (xtime a)) else 0) XOR
    (if bit b 4 then xtime (xtime (xtime (xtime a))) else 0) XOR
    (if bit b 5 then xtime (xtime (xtime (xtime (xtime a)))) else 0) XOR
    (if bit b 6 then xtime (xtime (xtime (xtime (xtime (xtime a))))) else 0) XOR
    (if bit b 7 then xtime (xtime (xtime (xtime (xtime (xtime (xtime a)))))) else 0)"
proof -
  have step: "(if c then r XOR x else r) = r XOR (if c then x else 0)" for c and r x :: u8
    by simp
  show ?thesis
    unfolding field_mul_def upt_8 by (simp add: step numeral_eq_Suc xor.assoc cong: if_cong split del: if_split)
qed

lemma field_inverses:
  "list_all (\<lambda>(a, b). a = 0 \<and> b = 0 \<or> field_mul a b = 1) (zip (map of_nat [0..<256]) field_inv)"
  by (simp add: field_inv_def field_mul_unrolled xtime_def upt_rec)

lemma field_inv_all: "a = 0 \<and> field_inv ! unat a = 0 \<or> field_mul a (field_inv ! unat a) = 1"
proof -
  have "length field_inv = 256"
    by (simp add: field_inv_def)
  then show ?thesis
    using field_inverses by (auto simp: list_all_length dest: spec [of _ "unat a"])
qed

text \<open>
  The S-box that the tables spread is the one of the standard, the affine map after
  inversion in the field of 256 elements, and the \<open>Td\<close> tables hold its inverse.
\<close>
theorem aes_sbox_standard:
  "\<exists>b. (if a = 0 then b = 0 else field_mul a b = 1) \<and> Te4 ! unat a = be32 (affine b) (affine b) (affine b) (affine b) \<and>
    Td4 ! unat (affine b) = be32 a a a a"
proof -
  let ?b = "field_inv ! unat a"
  have l: "length field_inv = 256"
    by (simp add: field_inv_def)
  have s: "affine ?b = sub_byte a"
    by (simp add: sub_byte_def sbox_affine l)
  have "inv_sub_byte (affine ?b) = a"
    unfolding s by simp
  moreover have "field_mul 0 x = 0" for x
    by (simp add: field_mul_unrolled)
  ultimately show ?thesis
    using field_inv_all [of a] s
    by (intro exI [of _ ?b]) (auto simp: Te4_columns Td4_columns nth_u8_map sub_byte_def inv_sub_byte_def)
qed

end
