(* ===== verification/Des.thy ===== *)
theory Des
  imports DesTables Cipher_Spec "HOL-Library.Signed_Division"
begin

text \<open>
  DES and triple DES of \<open>test_tripleDesCbc/main.c\<close>: the block macros, the key schedules,
  ECB and CBC. The macros assign to variables of type \<open>unsigned long\<close>, 64 bits wide on
  LP64, and their shifts are not masked everywhere. Key arrays are lists of 64-bit
  words; a context is what its structure holds, the key array of an uninitialised one
  being arbitrary. Input and output buffers do not overlap.
\<close>

section \<open>Words and bytes\<close>

definition GET_ULONG_BE :: "u8 list \<Rightarrow> nat \<Rightarrow> u64" where
  "GET_ULONG_BE b i =
    push_bit 24 (ucast (b ! i)) OR push_bit 16 (ucast (b ! (i + 1))) OR
    push_bit 8 (ucast (b ! (i + 2))) OR ucast (b ! (i + 3))"

definition PUT_ULONG_BE :: "u64 \<Rightarrow> u8 list" where
  "PUT_ULONG_BE n = [ucast (drop_bit 24 n), ucast (drop_bit 16 n), ucast (drop_bit 8 n), ucast n]"

section \<open>The block macros\<close>

text \<open>Each macro takes the variables it changes and gives their values afterwards.\<close>

definition DES_IP :: "u64 \<Rightarrow> u64 \<Rightarrow> u64 \<times> u64" where
  "DES_IP X Y =
    (let T = (drop_bit 4 X XOR Y) AND 0x0F0F0F0F; Y = Y XOR T; X = X XOR push_bit 4 T;
         T = (drop_bit 16 X XOR Y) AND 0x0000FFFF; Y = Y XOR T; X = X XOR push_bit 16 T;
         T = (drop_bit 2 Y XOR X) AND 0x33333333; X = X XOR T; Y = Y XOR push_bit 2 T;
         T = (drop_bit 8 Y XOR X) AND 0x00FF00FF; X = X XOR T; Y = Y XOR push_bit 8 T;
         Y = (push_bit 1 Y OR drop_bit 31 Y) AND 0xFFFFFFFF;
         T = (X XOR Y) AND 0xAAAAAAAA; Y = Y XOR T; X = X XOR T;
         X = (push_bit 1 X OR drop_bit 31 X) AND 0xFFFFFFFF
     in (X, Y))"

definition DES_FP :: "u64 \<Rightarrow> u64 \<Rightarrow> u64 \<times> u64" where
  "DES_FP X Y =
    (let X = (push_bit 31 X OR drop_bit 1 X) AND 0xFFFFFFFF;
         T = (X XOR Y) AND 0xAAAAAAAA; X = X XOR T; Y = Y XOR T;
         Y = (push_bit 31 Y OR drop_bit 1 Y) AND 0xFFFFFFFF;
         T = (drop_bit 8 Y XOR X) AND 0x00FF00FF; X = X XOR T; Y = Y XOR push_bit 8 T;
         T = (drop_bit 2 Y XOR X) AND 0x33333333; X = X XOR T; Y = Y XOR push_bit 2 T;
         T = (drop_bit 16 X XOR Y) AND 0x0000FFFF; Y = Y XOR T; X = X XOR push_bit 16 T;
         T = (drop_bit 4 X XOR Y) AND 0x0F0F0F0F; Y = Y XOR T; X = X XOR push_bit 4 T
     in (X, Y))"

text \<open>What a round adds to \<open>Y\<close>: \<open>k\<close> and \<open>k'\<close> are the two words \<open>SK\<close> steps over.\<close>

definition box6 :: "u64 list \<Rightarrow> u64 \<Rightarrow> nat \<Rightarrow> u64" where
  "box6 SB T n = SB ! unat (drop_bit n T AND 0x3F)"

definition DES_F :: "u64 \<times> u64 \<Rightarrow> u64 \<Rightarrow> u64" where
  "DES_F k X =
    (let T = fst k XOR X;
         A = box6 SB8 T 0 XOR box6 SB6 T 8 XOR box6 SB4 T 16 XOR box6 SB2 T 24;
         T = snd k XOR (push_bit 28 X OR drop_bit 4 X);
         B = box6 SB7 T 0 XOR box6 SB5 T 8 XOR box6 SB3 T 16 XOR box6 SB1 T 24
     in A XOR B)"

definition DES_ROUND :: "u64 list \<Rightarrow> nat \<Rightarrow> u64 \<Rightarrow> u64 \<Rightarrow> u64" where
  "DES_ROUND SK k X Y = Y XOR DES_F (SK ! k, SK ! (k + 1)) X"

text \<open>
  \<open>n\<close> turns of a loop \<open>{ DES_ROUND(B, A); DES_ROUND(A, B); }\<close>, with \<open>SK\<close> at word \<open>k\<close>.
\<close>

fun round_pairs :: "u64 list \<Rightarrow> nat \<Rightarrow> nat \<Rightarrow> u64 \<times> u64 \<Rightarrow> u64 \<times> u64" where
  "round_pairs SK k 0 (A, B) = (A, B)"
| "round_pairs SK k (Suc n) (A, B) =
    (let A = DES_ROUND SK k B A; B = DES_ROUND SK (k + 2) A B
     in round_pairs SK (k + 4) n (A, B))"

section \<open>Parity and weak keys\<close>

definition des_key_set_parity :: "u8 list \<Rightarrow> u8 list" where
  "des_key_set_parity key = fold (\<lambda>i key. key[i := odd_parity_table ! (unat (key ! i) div 2)]) [0..<8] key"

definition des_key_check_key_parity :: "u8 list \<Rightarrow> int" where
  "des_key_check_key_parity key =
    (if \<exists>i \<in> set [0..<8]. key ! i \<noteq> odd_parity_table ! (unat (key ! i) div 2) then 1 else 0)"

definition des_key_check_weak :: "u8 list \<Rightarrow> int" where
  "des_key_check_weak key = (if \<exists>i \<in> set [0..<16]. weak_key_table ! i = take 8 key then 1 else 0)"

section \<open>The key schedule\<close>

definition lhs_nib :: "u64 \<Rightarrow> nat \<Rightarrow> u64" where
  "lhs_nib X n = LHs ! unat (drop_bit n X AND 0xF)"

definition rhs_nib :: "u64 \<Rightarrow> nat \<Rightarrow> u64" where
  "rhs_nib Y n = RHs ! unat (drop_bit n Y AND 0xF)"

definition des_pc1 :: "u8 list \<Rightarrow> u64 \<times> u64" where
  "des_pc1 key =
    (let X = GET_ULONG_BE key 0; Y = GET_ULONG_BE key 4;
         T = (drop_bit 4 Y XOR X) AND 0x0F0F0F0F; X = X XOR T; Y = Y XOR push_bit 4 T;
         T = (Y XOR X) AND 0x10101010; X = X XOR T; Y = Y XOR T;
         X = push_bit 3 (lhs_nib X 0) OR push_bit 2 (lhs_nib X 8)
           OR push_bit 1 (lhs_nib X 16) OR lhs_nib X 24
           OR push_bit 7 (lhs_nib X 5) OR push_bit 6 (lhs_nib X 13)
           OR push_bit 5 (lhs_nib X 21) OR push_bit 4 (lhs_nib X 29);
         Y = push_bit 3 (rhs_nib Y 1) OR push_bit 2 (rhs_nib Y 9)
           OR push_bit 1 (rhs_nib Y 17) OR rhs_nib Y 25
           OR push_bit 7 (rhs_nib Y 4) OR push_bit 6 (rhs_nib Y 12)
           OR push_bit 5 (rhs_nib Y 20) OR push_bit 4 (rhs_nib Y 28)
     in (X AND 0x0FFFFFFF, Y AND 0x0FFFFFFF))"

definition key_rotate :: "nat \<Rightarrow> u64 \<Rightarrow> u64" where
  "key_rotate i X =
    (if i < 2 \<or> i = 8 \<or> i = 15 then (push_bit 1 X OR drop_bit 27 X) AND 0x0FFFFFFF
     else (push_bit 2 X OR drop_bit 26 X) AND 0x0FFFFFFF)"

definition subkey_even :: "u64 \<Rightarrow> u64 \<Rightarrow> u64" where
  "subkey_even X Y =
    (push_bit 4 X AND 0x24000000) OR (push_bit 28 X AND 0x10000000)
    OR (push_bit 14 X AND 0x08000000) OR (push_bit 18 X AND 0x02080000)
    OR (push_bit 6 X AND 0x01000000) OR (push_bit 9 X AND 0x00200000)
    OR (drop_bit 1 X AND 0x00100000) OR (push_bit 10 X AND 0x00040000)
    OR (push_bit 2 X AND 0x00020000) OR (drop_bit 10 X AND 0x00010000)
    OR (drop_bit 13 Y AND 0x00002000) OR (drop_bit 4 Y AND 0x00001000)
    OR (push_bit 6 Y AND 0x00000800) OR (drop_bit 1 Y AND 0x00000400)
    OR (drop_bit 14 Y AND 0x00000200) OR (Y AND 0x00000100)
    OR (drop_bit 5 Y AND 0x00000020) OR (drop_bit 10 Y AND 0x00000010)
    OR (drop_bit 3 Y AND 0x00000008) OR (drop_bit 18 Y AND 0x00000004)
    OR (drop_bit 26 Y AND 0x00000002) OR (drop_bit 24 Y AND 0x00000001)"

definition subkey_odd :: "u64 \<Rightarrow> u64 \<Rightarrow> u64" where
  "subkey_odd X Y =
    (push_bit 15 X AND 0x20000000) OR (push_bit 17 X AND 0x10000000)
    OR (push_bit 10 X AND 0x08000000) OR (push_bit 22 X AND 0x04000000)
    OR (drop_bit 2 X AND 0x02000000) OR (push_bit 1 X AND 0x01000000)
    OR (push_bit 16 X AND 0x00200000) OR (push_bit 11 X AND 0x00100000)
    OR (push_bit 3 X AND 0x00080000) OR (drop_bit 6 X AND 0x00040000)
    OR (push_bit 15 X AND 0x00020000) OR (drop_bit 4 X AND 0x00010000)
    OR (drop_bit 2 Y AND 0x00002000) OR (push_bit 8 Y AND 0x00001000)
    OR (drop_bit 14 Y AND 0x00000808) OR (drop_bit 9 Y AND 0x00000400)
    OR (Y AND 0x00000200) OR (push_bit 7 Y AND 0x00000100)
    OR (drop_bit 7 Y AND 0x00000020) OR (drop_bit 3 Y AND 0x00000011)
    OR (push_bit 2 Y AND 0x00000004) OR (drop_bit 21 Y AND 0x00000002)"

fun subkey_loop :: "nat \<Rightarrow> nat \<Rightarrow> u64 \<Rightarrow> u64 \<Rightarrow> u64 list" where
  "subkey_loop i 0 X Y = []"
| "subkey_loop i (Suc n) X Y =
    (let X = key_rotate i X; Y = key_rotate i Y
     in subkey_even X Y # subkey_odd X Y # subkey_loop (i + 1) n X Y)"

text \<open>The 32 words \<open>des_setkey\<close> writes; \<open>makenoise\<close> is not used.\<close>

definition des_setkey :: "u8 list \<Rightarrow> u64 list" where
  "des_setkey key = (case des_pc1 key of (X, Y) \<Rightarrow> subkey_loop 0 16 X Y)"

section \<open>Contexts and key set-up\<close>

record des_context =
  ctx_mode :: int
  sk :: "u64 list"

record des3_context =
  ctx3_mode :: int
  sk3 :: "u64 list"

text \<open>\<open>write_at\<close> stores an array into a larger one. The set-up functions all return 0.\<close>

definition write_at :: "'a list \<Rightarrow> nat \<Rightarrow> 'a list \<Rightarrow> 'a list" where
  "write_at xs off ys = take off xs @ ys @ drop (off + length ys) xs"

definition des_setkey_enc :: "des_context \<Rightarrow> u8 list \<Rightarrow> des_context" where
  "des_setkey_enc ctx key = ctx\<lparr>sk := write_at (sk ctx) 0 (des_setkey key)\<rparr>"

definition SWAP :: "nat \<Rightarrow> nat \<Rightarrow> u64 list \<Rightarrow> u64 list" where
  "SWAP a b SK = SK[a := SK ! b, b := SK ! a]"

definition des_setkey_dec :: "des_context \<Rightarrow> u8 list \<Rightarrow> des_context" where
  "des_setkey_dec ctx key =
    (let SK = write_at (sk ctx) 0 (des_setkey key)
     in ctx\<lparr>sk := fold (\<lambda>i SK. SWAP (i + 1) (31 - i) (SWAP i (30 - i) SK)) [0, 2, 4, 6, 8, 10, 12, 14] SK\<rparr>)"

text \<open>The indices \<open>i\<close> of the loops over the 32 words of a single key schedule.\<close>

definition even_indices :: "nat list" where
  "even_indices = map (\<lambda>j. 2 * j) [0..<16]"

definition set2key_step :: "nat \<Rightarrow> u64 list \<times> u64 list \<Rightarrow> u64 list \<times> u64 list" where
  "set2key_step i s =
    (let (esk, dsk) = s;
         dsk = dsk[i := esk ! (30 - i)];
         dsk = dsk[i + 1 := esk ! (31 - i)];
         esk = esk[i + 32 := dsk ! (62 - i)];
         esk = esk[i + 33 := dsk ! (63 - i)];
         esk = esk[i + 64 := esk ! i];
         esk = esk[i + 65 := esk ! (i + 1)];
         dsk = dsk[i + 64 := dsk ! i];
         dsk = dsk[i + 65 := dsk ! (i + 1)]
     in (esk, dsk))"

definition des3_set2key :: "u64 list \<Rightarrow> u64 list \<Rightarrow> u8 list \<Rightarrow> u64 list \<times> u64 list" where
  "des3_set2key esk dsk key =
    (let esk = write_at esk 0 (des_setkey key);
         dsk = write_at dsk 32 (des_setkey (drop 8 key))
     in fold set2key_step even_indices (esk, dsk))"

definition set3key_step :: "nat \<Rightarrow> u64 list \<times> u64 list \<Rightarrow> u64 list \<times> u64 list" where
  "set3key_step i s =
    (let (esk, dsk) = s;
         dsk = dsk[i := esk ! (94 - i)];
         dsk = dsk[i + 1 := esk ! (95 - i)];
         esk = esk[i + 32 := dsk ! (62 - i)];
         esk = esk[i + 33 := dsk ! (63 - i)];
         dsk = dsk[i + 64 := esk ! (30 - i)];
         dsk = dsk[i + 65 := esk ! (31 - i)]
     in (esk, dsk))"

definition des3_set3key :: "u64 list \<Rightarrow> u64 list \<Rightarrow> u8 list \<Rightarrow> u64 list \<times> u64 list" where
  "des3_set3key esk dsk key =
    (let esk = write_at esk 0 (des_setkey key);
         dsk = write_at dsk 32 (des_setkey (drop 8 key));
         esk = write_at esk 64 (des_setkey (drop 16 key))
     in fold set3key_step even_indices (esk, dsk))"

text \<open>
  \<open>junk\<close> is what the local array holds on entry; the functions that clear it leave no
  trace of it, and \<open>des3_set3key_enc\<close> clears both arrays first.
\<close>

definition des3_set2key_enc :: "u64 list \<Rightarrow> des3_context \<Rightarrow> u8 list \<Rightarrow> des3_context" where
  "des3_set2key_enc junk ctx key = ctx\<lparr>sk3 := fst (des3_set2key (sk3 ctx) junk key)\<rparr>"

definition des3_set2key_dec :: "u64 list \<Rightarrow> des3_context \<Rightarrow> u8 list \<Rightarrow> des3_context" where
  "des3_set2key_dec junk ctx key = ctx\<lparr>sk3 := snd (des3_set2key junk (sk3 ctx) key)\<rparr>"

definition des3_set3key_enc :: "des3_context \<Rightarrow> u8 list \<Rightarrow> des3_context" where
  "des3_set3key_enc ctx key = ctx\<lparr>sk3 := fst (des3_set3key (replicate 96 0) (replicate 96 0) key)\<rparr>"

definition des3_set3key_dec :: "u64 list \<Rightarrow> des3_context \<Rightarrow> u8 list \<Rightarrow> des3_context" where
  "des3_set3key_dec junk ctx key = ctx\<lparr>sk3 := snd (des3_set3key junk (sk3 ctx) key)\<rparr>"

section \<open>Blocks\<close>

text \<open>The output block; the functions return 0.\<close>

definition des_crypt_ecb :: "des_context \<Rightarrow> u8 list \<Rightarrow> u8 list" where
  "des_crypt_ecb ctx input =
    (let SK = sk ctx;
         X = GET_ULONG_BE input 0; Y = GET_ULONG_BE input 4;
         (X, Y) = DES_IP X Y;
         (X, Y) = round_pairs SK 0 8 (X, Y);
         (Y, X) = DES_FP Y X
     in PUT_ULONG_BE Y @ PUT_ULONG_BE X)"

definition des3_crypt_ecb :: "des3_context \<Rightarrow> u8 list \<Rightarrow> u8 list" where
  "des3_crypt_ecb ctx input =
    (let SK = sk3 ctx;
         X = GET_ULONG_BE input 0; Y = GET_ULONG_BE input 4;
         (X, Y) = DES_IP X Y;
         (X, Y) = round_pairs SK 0 8 (X, Y);
         (Y, X) = round_pairs SK 32 8 (Y, X);
         (X, Y) = round_pairs SK 64 8 (X, Y);
         (Y, X) = DES_FP Y X
     in PUT_ULONG_BE Y @ PUT_ULONG_BE X)"

section \<open>Chaining\<close>

definition DES_ENCRYPT :: int where [simp]: "DES_ENCRYPT = 0"
definition DES_DECRYPT :: int where [simp]: "DES_DECRYPT = 1"
definition TYPE_2KEY :: int where [simp]: "TYPE_2KEY = 0"
definition TYPE_3KEY :: int where [simp]: "TYPE_3KEY = 1"

text \<open>
  The loops of \<open>des_crypt_cbc\<close> and \<open>des3_crypt_cbc\<close> differ in the block function \<open>ecb\<close>
  only. They give the bytes written to \<open>output\<close> and the new contents of \<open>iv\<close>.
\<close>

fun cbc_encrypt_loop :: "(u8 list \<Rightarrow> u8 list) \<Rightarrow> nat \<Rightarrow> u8 list \<Rightarrow> u8 list \<Rightarrow> u8 list \<times> u8 list" where
  "cbc_encrypt_loop ecb len iv input =
    (if len > 0 then
       let out = map (\<lambda>i. input ! i XOR iv ! i) [0..<8];
           out = ecb out;
           (rest, iv) = cbc_encrypt_loop ecb (len - 8) out (drop 8 input)
       in (out @ rest, iv)
     else ([], iv))"

fun cbc_decrypt_loop :: "(u8 list \<Rightarrow> u8 list) \<Rightarrow> nat \<Rightarrow> u8 list \<Rightarrow> u8 list \<Rightarrow> u8 list \<times> u8 list" where
  "cbc_decrypt_loop ecb len iv input =
    (if len > 0 then
       let temp = take 8 input;
           out = ecb temp;
           out = map (\<lambda>i. out ! i XOR iv ! i) [0..<8];
           (rest, iv) = cbc_decrypt_loop ecb (len - 8) temp (drop 8 input)
       in (out @ rest, iv)
     else ([], iv))"

declare cbc_encrypt_loop.simps [simp del] cbc_decrypt_loop.simps [simp del]

text \<open>The return value, \<open>iv\<close> and \<open>output\<close>.\<close>

definition crypt_cbc :: "(u8 list \<Rightarrow> u8 list) \<Rightarrow> int \<Rightarrow> nat \<Rightarrow> u8 list \<Rightarrow> u8 list \<Rightarrow> u8 list \<Rightarrow>
    c_fault + (int \<times> u8 list \<times> u8 list)" where
  "crypt_cbc ecb mode len iv input out =
    (if len mod 8 \<noteq> 0 then Inr (-1, iv, out)
     else if length input < len \<or> length out < len then Inl Out_of_bounds
     else if mode = DES_ENCRYPT then
       (let (bs, iv) = cbc_encrypt_loop ecb len iv input in Inr (0, iv, bs @ drop len out))
     else
       (let (bs, iv) = cbc_decrypt_loop ecb len iv input in Inr (0, iv, bs @ drop len out)))"

definition des_crypt_cbc :: "des_context \<Rightarrow> int \<Rightarrow> nat \<Rightarrow> u8 list \<Rightarrow> u8 list \<Rightarrow> u8 list \<Rightarrow>
    c_fault + (int \<times> u8 list \<times> u8 list)" where
  "des_crypt_cbc ctx = crypt_cbc (des_crypt_ecb ctx)"

definition des3_crypt_cbc :: "des3_context \<Rightarrow> int \<Rightarrow> nat \<Rightarrow> u8 list \<Rightarrow> u8 list \<Rightarrow> u8 list \<Rightarrow>
    c_fault + (int \<times> u8 list \<times> u8 list)" where
  "des3_crypt_cbc ctx = crypt_cbc (des3_crypt_ecb ctx)"

section \<open>The calls of the program\<close>

text \<open>\<open>dataIn\<close> to \<open>dataOut\<close>, block by block, for the first \<open>cnt\<close> blocks.\<close>

definition ecb_loop :: "(u8 list \<Rightarrow> u8 list) \<Rightarrow> nat \<Rightarrow> u8 list \<Rightarrow> u8 list \<Rightarrow> c_fault + (int \<times> u8 list)" where
  "ecb_loop ecb cnt dataIn dataOut =
    (if length dataIn < 8 * cnt \<or> length dataOut < 8 * cnt then Inl Out_of_bounds
     else Inr (0, concat (map (\<lambda>i. ecb (take 8 (drop (8 * i) dataIn))) [0..<cnt]) @ drop (8 * cnt) dataOut))"

definition de_des_ecb :: "des_context \<Rightarrow> u8 list \<Rightarrow> u8 list \<Rightarrow> u8 list \<Rightarrow> u32 \<Rightarrow> int \<Rightarrow> c_fault + (int \<times> u8 list)" where
  "de_des_ecb ctx dataOut dataIn key data_byteLen mode =
    (let cnt = unat (data_byteLen div 8);
         ctx = (if mode = DES_ENCRYPT then des_setkey_enc ctx key else des_setkey_dec ctx key)
     in ecb_loop (des_crypt_ecb ctx) cnt dataIn dataOut)"

definition de_des_cbc :: "des_context \<Rightarrow> u8 list \<Rightarrow> u8 list \<Rightarrow> u8 list \<Rightarrow> u8 list \<Rightarrow> u32 \<Rightarrow> int \<Rightarrow>
    c_fault + (int \<times> u8 list \<times> u8 list)" where
  "de_des_cbc ctx dataOut dataIn key IV data_byteLen mode =
    (let ctx = (if mode = DES_ENCRYPT then des_setkey_enc ctx key else des_setkey_dec ctx key)
     in case des_crypt_cbc ctx mode (unat data_byteLen) IV dataIn dataOut of
          Inl e \<Rightarrow> Inl e
        | Inr (_, IV, dataOut) \<Rightarrow> Inr (0, IV, dataOut))"

definition des3_key_setup :: "u64 list \<Rightarrow> des3_context \<Rightarrow> u8 list \<Rightarrow> int \<Rightarrow> int \<Rightarrow> des3_context" where
  "des3_key_setup junk ctx key keytype mode =
    (if mode = DES_ENCRYPT then
       (if keytype = TYPE_2KEY then des3_set2key_enc junk ctx key else des3_set3key_enc ctx key)
     else
       (if keytype = TYPE_2KEY then des3_set2key_dec junk ctx key else des3_set3key_dec junk ctx key))"

definition de_3des_ecb :: "u64 list \<Rightarrow> des3_context \<Rightarrow> u8 list \<Rightarrow> u8 list \<Rightarrow> u8 list \<Rightarrow> int \<Rightarrow> u32 \<Rightarrow> int \<Rightarrow>
    c_fault + (int \<times> u8 list)" where
  "de_3des_ecb junk ctx dataOut dataIn key keytype data_byteLen mode =
    (let cnt = unat (data_byteLen div 8)
     in if data_byteLen mod 8 \<noteq> 0 then Inr (-1, dataOut)
        else ecb_loop (des3_crypt_ecb (des3_key_setup junk ctx key keytype mode)) cnt dataIn dataOut)"

definition de_3des_cbc :: "u64 list \<Rightarrow> des3_context \<Rightarrow> u8 list \<Rightarrow> u8 list \<Rightarrow> u8 list \<Rightarrow> int \<Rightarrow> u8 list \<Rightarrow> u32 \<Rightarrow> int \<Rightarrow>
    c_fault + (int \<times> u8 list \<times> u8 list)" where
  "de_3des_cbc junk ctx dataOut dataIn key keytype IV data_byteLen mode =
    (case des3_crypt_cbc (des3_key_setup junk ctx key keytype mode) mode (unat data_byteLen) IV dataIn dataOut of
       Inl e \<Rightarrow> Inl e
     | Inr (_, IV, dataOut) \<Rightarrow> Inr (0, IV, dataOut))"

section \<open>Words below \<open>2 ^ 32\<close>\<close>

text \<open>The value of an \<open>unsigned long\<close> that fits in 32 bits.\<close>

definition lo32 :: "u64 \<Rightarrow> bool" where
  "lo32 x \<longleftrightarrow> (\<forall>n. bit x n \<longrightarrow> n < 32)"

lemma lo32_ops [intro, simp]:
  "lo32 x \<Longrightarrow> lo32 y \<Longrightarrow> lo32 (x XOR y)"
  "lo32 x \<Longrightarrow> lo32 y \<Longrightarrow> lo32 (x OR y)"
  "lo32 x \<Longrightarrow> lo32 (x AND y)"
  "lo32 y \<Longrightarrow> lo32 (x AND y)"
  "lo32 x \<Longrightarrow> lo32 (drop_bit n x)"
  unfolding lo32_def by (auto simp: bit_simps)

lemma mask32: "(0xFFFFFFFF :: u64) = mask 32"
  by (simp add: mask_eq_exp_minus_1)

lemma lo32_mask [simp]: "lo32 (x AND 0xFFFFFFFF)" "lo32 (ucast (b :: u8))"
  unfolding lo32_def mask32 by (auto simp: bit_simps dest: bit_imp_le_length)

lemma lo32_push: "lo32 (push_bit k m) \<Longrightarrow> lo32 (push_bit k (x AND m))"
  unfolding lo32_def by (auto simp: bit_simps)

lemma lo32_lit: "m AND mask 32 = m \<Longrightarrow> lo32 m"
  unfolding lo32_def by (metis bit_and_iff bit_mask_iff)

text \<open>Rotation of the low 32 bits.\<close>

definition rot32 :: "nat \<Rightarrow> u64 \<Rightarrow> u64" where
  "rot32 k x = (push_bit k x OR drop_bit (32 - k) x) AND 0xFFFFFFFF"

lemma lo32_rot [simp]: "lo32 (rot32 k x)"
  by (simp add: rot32_def)

lemma bit_rot32: "lo32 x \<Longrightarrow> k \<le> 32 \<Longrightarrow>
    bit (rot32 k x) n \<longleftrightarrow> n < 32 \<and> (if n < k then bit x (n + 32 - k) else bit x (n - k))"
  unfolding rot32_def mask32 lo32_def by (auto simp: bit_simps add.commute)

lemma rot32_back: "lo32 x \<Longrightarrow> rot32 31 (rot32 1 x) = x" "lo32 x \<Longrightarrow> rot32 1 (rot32 31 x) = x"
  by (rule bit_word_eqI; auto simp: bit_rot32 lo32_def)+

section \<open>The permutation macros undo each other\<close>

text \<open>The step of both macros: bits of \<open>a\<close> and \<open>b\<close> under the mask are exchanged.\<close>

definition bit_swap :: "nat \<Rightarrow> u64 \<Rightarrow> u64 \<times> u64 \<Rightarrow> u64 \<times> u64" where
  "bit_swap k m s = (let T = (drop_bit k (fst s) XOR snd s) AND m in (fst s XOR push_bit k T, snd s XOR T))"

lemma bit_swap_back:
  assumes "drop_bit k (push_bit k m) = m"
  shows "bit_swap k m (bit_swap k m s) = s"
proof -
  have *: "drop_bit k (push_bit k (x AND m)) = x AND m" for x
    by (subst (2) assms [symmetric]) (auto intro!: bit_word_eqI simp: bit_simps)
  define T where "T = (drop_bit k (fst s) XOR snd s) AND m"
  have t: "drop_bit k (push_bit k T) = T"
    unfolding T_def by (rule *)
  have "(drop_bit k (fst s) XOR T) XOR (snd s XOR T) = drop_bit k (fst s) XOR snd s"
    by (simp add: xor_ac)
  then have "(drop_bit k (fst s XOR push_bit k T) XOR (snd s XOR T)) AND m = T"
    by (simp only: drop_bit_xor t T_def [symmetric])
  then show ?thesis
    by (simp add: bit_swap_def Let_def flip: T_def)
qed

text \<open>The steps as the macros write them.\<close>

lemma bit_swap_let:
  "(let T = (drop_bit k X XOR Y) AND m; Y' = Y XOR T; X' = X XOR push_bit k T in f X' Y') =
    (case bit_swap k m (X, Y) of (X', Y') \<Rightarrow> f X' Y')"
  "(let T = (drop_bit k Y XOR X) AND m; X' = X XOR T; Y' = Y XOR push_bit k T in f X' Y') =
    (case bit_swap k m (Y, X) of (Y', X') \<Rightarrow> f X' Y')"
  "(let T = (X XOR Y) AND m; Y' = Y XOR T; X' = X XOR T in f X' Y') =
    (case bit_swap 0 m (Y, X) of (Y', X') \<Rightarrow> f X' Y')"
  "(let T = (X XOR Y) AND m; X' = X XOR T; Y' = Y XOR T in f X' Y') =
    (case bit_swap 0 m (Y, X) of (Y', X') \<Rightarrow> f X' Y')"
  by (simp_all add: bit_swap_def Let_def xor.commute)

lemma rot32_let:
  "(let X' = (push_bit 1 X OR drop_bit 31 X) AND 0xFFFFFFFF in f X') = f (rot32 1 X)"
  "(let X' = (push_bit 31 X OR drop_bit 1 X) AND 0xFFFFFFFF in f X') = f (rot32 31 X)"
  by (simp_all add: rot32_def Let_def)

definition on_fst :: "('a \<Rightarrow> 'a) \<Rightarrow> 'a \<times> 'b \<Rightarrow> 'a \<times> 'b" where
  "on_fst f s = (f (fst s), snd s)"

lemma DES_IP_steps:
  "DES_IP X Y =
    on_fst (rot32 1) (prod.swap (bit_swap 0 0xAAAAAAAA (on_fst (rot32 1) (bit_swap 8 0x00FF00FF
      (bit_swap 2 0x33333333 (prod.swap (bit_swap 16 0x0000FFFF (bit_swap 4 0x0F0F0F0F (X, Y)))))))))"
  unfolding DES_IP_def bit_swap_let rot32_let by (simp add: on_fst_def split_def prod.swap_def)

lemma DES_FP_steps:
  "DES_FP X Y = bit_swap 4 0x0F0F0F0F (bit_swap 16 0x0000FFFF (prod.swap (bit_swap 2 0x33333333
      (bit_swap 8 0x00FF00FF (on_fst (rot32 31) (bit_swap 0 0xAAAAAAAA (prod.swap (on_fst (rot32 31) (X, Y)))))))))"
  unfolding DES_FP_def bit_swap_let rot32_let by (simp add: on_fst_def split_def prod.swap_def)

definition lo_pair :: "u64 \<times> u64 \<Rightarrow> bool" where
  "lo_pair s \<longleftrightarrow> lo32 (fst s) \<and> lo32 (snd s)"

lemma lo_pair_steps [simp]:
  "lo_pair s \<Longrightarrow> lo_pair (prod.swap s)"
  "lo_pair s \<Longrightarrow> lo_pair (on_fst (rot32 k) s)"
  "lo32 m \<Longrightarrow> lo32 (push_bit k m) \<Longrightarrow> lo_pair s \<Longrightarrow> lo_pair (bit_swap k m s)"
  by (auto simp: lo_pair_def on_fst_def bit_swap_def Let_def lo32_push)

definition IP :: "u64 \<times> u64 \<Rightarrow> u64 \<times> u64" where
  "IP s = DES_IP (fst s) (snd s)"

definition FP :: "u64 \<times> u64 \<Rightarrow> u64 \<times> u64" where
  "FP s = DES_FP (fst s) (snd s)"

lemma on_fst_rot_back:
  "lo_pair s \<Longrightarrow> on_fst (rot32 31) (on_fst (rot32 1) s) = s"
  "lo_pair s \<Longrightarrow> on_fst (rot32 1) (on_fst (rot32 31) s) = s"
  by (simp_all add: on_fst_def lo_pair_def rot32_back del: One_nat_def)

lemma lo32_masks [simp]:
  "lo32 0x0F0F0F0F" "lo32 0x0000FFFF" "lo32 0x33333333" "lo32 0x00FF00FF" "lo32 0xAAAAAAAA"
  "lo32 0xF0F0F0F0" "lo32 0xFFFF0000" "lo32 0xCCCCCCCC" "lo32 0xFF00FF00"
  by (rule lo32_lit; simp flip: mask32)+

lemma FP_IP:
  assumes "lo_pair s"
  shows "FP (IP s) = s" and "IP (FP s) = s"
proof -
  have b: "bit_swap 4 0x0F0F0F0F (bit_swap 4 0x0F0F0F0F s) = s"
    "bit_swap 16 0x0000FFFF (bit_swap 16 0x0000FFFF s) = s"
    "bit_swap 2 0x33333333 (bit_swap 2 0x33333333 s) = s"
    "bit_swap 8 0x00FF00FF (bit_swap 8 0x00FF00FF s) = s"
    "bit_swap 0 0xAAAAAAAA (bit_swap 0 0xAAAAAAAA s) = s" for s
    by (rule bit_swap_back; simp)+
  have l: "lo_pair s \<Longrightarrow> lo_pair (bit_swap 4 0x0F0F0F0F s)" "lo_pair s \<Longrightarrow> lo_pair (bit_swap 16 0x0000FFFF s)"
    "lo_pair s \<Longrightarrow> lo_pair (bit_swap 2 0x33333333 s)" "lo_pair s \<Longrightarrow> lo_pair (bit_swap 8 0x00FF00FF s)"
    "lo_pair s \<Longrightarrow> lo_pair (bit_swap 0 0xAAAAAAAA s)" for s
    by (rule lo_pair_steps(3); simp)+
  have r: "on_fst (rot32 31) (on_fst (rot32 1) s) = s" "on_fst (rot32 1) (on_fst (rot32 31) s) = s"
    if "lo_pair s" for s
    using on_fst_rot_back [OF that] by simp_all
  show "FP (IP s) = s" and "IP (FP s) = s"
    using assms unfolding IP_def FP_def DES_IP_steps DES_FP_steps prod.collapse
    by (simp_all only: b r l swap_swap lo_pair_steps(1,2))
qed

lemma lo_pair_IP [simp]: "lo_pair s \<Longrightarrow> lo_pair (IP s)" "lo_pair s \<Longrightarrow> lo_pair (FP s)"
  unfolding IP_def FP_def DES_IP_steps DES_FP_steps prod.collapse by simp_all

section \<open>Blocks as pairs of words\<close>

definition load8 :: "u8 list \<Rightarrow> u64 \<times> u64" where
  "load8 b = (GET_ULONG_BE b 0, GET_ULONG_BE b 4)"

definition store8 :: "u64 \<times> u64 \<Rightarrow> u8 list" where
  "store8 s = PUT_ULONG_BE (fst s) @ PUT_ULONG_BE (snd s)"

lemma bit_GET: "bit (GET_ULONG_BE b i) n \<longleftrightarrow>
    (if n < 8 then bit (b ! (i + 3)) n else if n < 16 then bit (b ! (i + 2)) (n - 8)
     else if n < 24 then bit (b ! (i + 1)) (n - 16) else n < 32 \<and> bit (b ! i) (n - 24))"
  by (auto simp: GET_ULONG_BE_def bit_simps dest: bit_imp_le_length)

lemma lo32_GET [simp]: "lo32 (GET_ULONG_BE b i)"
  by (auto simp: lo32_def bit_GET split: if_splits)

lemma lo_pair_load [simp]: "lo_pair (load8 b)"
  by (simp add: lo_pair_def load8_def)

lemma length_store8 [simp, len_simps]: "length (store8 s) = 8"
  by (simp add: store8_def PUT_ULONG_BE_def)

lemma four_bytes:
  assumes "lo32 w"
  shows "push_bit 24 (ucast (ucast (drop_bit 24 w) :: u8)) OR push_bit 16 (ucast (ucast (drop_bit 16 w) :: u8)) OR
    push_bit 8 (ucast (ucast (drop_bit 8 w) :: u8)) OR ucast (ucast w :: u8) = w"
proof (rule bit_word_eqI)
  fix n
  have "n < 32" if "bit w n"
    using that assms by (simp add: lo32_def)
  then show "bit (push_bit 24 (ucast (ucast (drop_bit 24 w) :: u8)) OR push_bit 16 (ucast (ucast (drop_bit 16 w) :: u8)) OR
      push_bit 8 (ucast (ucast (drop_bit 8 w) :: u8)) OR ucast (ucast w :: u8) :: u64) n = bit w n"
    by (cases "8 \<le> n"; cases "16 \<le> n"; cases "24 \<le> n") (auto simp: bit_simps)
qed

lemma GET_PUT:
  assumes "lo32 w"
  shows "GET_ULONG_BE (PUT_ULONG_BE w @ ys) 0 = w" and "GET_ULONG_BE (PUT_ULONG_BE v @ PUT_ULONG_BE w) 4 = w"
  using four_bytes [OF assms]
  by (simp_all add: GET_ULONG_BE_def PUT_ULONG_BE_def numeral_2_eq_2 numeral_3_eq_3 nth_Cons_numeral)

lemma load_store8: "lo_pair s \<Longrightarrow> load8 (store8 s) = s"
  by (rule prod_eqI) (simp_all add: load8_def store8_def lo_pair_def GET_PUT)

lemma list8:
  assumes "length b = 8"
  obtains b0 b1 b2 b3 b4 b5 b6 b7 where "b = [b0, b1, b2, b3, b4, b5, b6, b7]"
  using assms by (auto simp: length_Suc_conv eval_nat_numeral)

lemma PUT_GET: "PUT_ULONG_BE (GET_ULONG_BE b i) = [b ! i, b ! (i + 1), b ! (i + 2), b ! (i + 3)]"
  by (auto simp: PUT_ULONG_BE_def bit_GET bit_simps intro!: bit_word_eqI)

lemma store_load8: "length b = 8 \<Longrightarrow> store8 (load8 b) = b"
  by (erule list8) (simp add: load8_def store8_def PUT_GET)

section \<open>The rounds are a Feistel network\<close>

lemma lo32_nth: "list_all lo32 xs \<Longrightarrow> n < length xs \<Longrightarrow> lo32 (xs ! n)"
  by (simp add: list_all_length)

lemma six_bits: "unat (x AND 0x3F :: u64) < 64"
proof -
  have "x AND 0x3F = take_bit 6 x"
    by (simp add: take_bit_eq_mask mask_eq_exp_minus_1)
  then show ?thesis
    using take_bit_nat_less_exp [of 6 "unat x"] by (simp add: unsigned_take_bit_eq)
qed

lemma lo32_SBs:
  "list_all lo32 SB1" "list_all lo32 SB2" "list_all lo32 SB3" "list_all lo32 SB4"
  "list_all lo32 SB5" "list_all lo32 SB6" "list_all lo32 SB7" "list_all lo32 SB8"
  unfolding SB1_def SB2_def SB3_def SB4_def SB5_def SB6_def SB7_def SB8_def list.pred_inject
  by (intro conjI TrueI lo32_lit; simp flip: mask32)+

lemma lo32_F [simp]: "lo32 (DES_F k X)"
  unfolding DES_F_def box6_def Let_def
  by (intro lo32_ops(1) lo32_nth lo32_SBs) (simp_all add: six_bits)

interpretation des_net: feistel_net DES_F "(XOR)"
  by unfold_locales simp

definition sk_pairs :: "u64 list \<Rightarrow> nat \<Rightarrow> nat \<Rightarrow> (u64 \<times> u64) list" where
  "sk_pairs SK k n = map (\<lambda>j. (SK ! (k + 2 * j), SK ! (k + 2 * j + 1))) [0..<n]"

lemma sk_pairs_Suc2: "sk_pairs SK k (2 * Suc n) = (SK ! k, SK ! (k + 1)) # (SK ! (k + 2), SK ! (k + 3)) # sk_pairs SK (k + 4) (2 * n)"
proof -
  have "[0..<2 * Suc n] = 0 # Suc 0 # map (\<lambda>j. j + 2) [0..<2 * n]"
    by (rule nth_equalityI) (auto simp: nth_Cons split: nat.splits simp del: upt_Suc)
  then show ?thesis
    by (simp add: sk_pairs_def eval_nat_numeral)
qed

lemma round_pairs_feistel:
  "round_pairs SK k n s = feistel DES_F (XOR) (sk_pairs SK k (2 * n)) s"
proof (induction SK k n s rule: round_pairs.induct)
  case (2 SK k n A B)
  then show ?case
    unfolding sk_pairs_Suc2 by (simp add: Let_def DES_ROUND_def mult.commute numeral_3_eq_3)
qed (simp add: sk_pairs_def)

lemma lo_pair_feistel [simp]: "lo_pair s \<Longrightarrow> lo_pair (feistel DES_F (XOR) ks s)"
  by (induction DES_F "(XOR) :: u64 \<Rightarrow> _" ks s rule: feistel.induct) (auto simp: lo_pair_def)

text \<open>One DES, given its 16 round keys.\<close>

definition des_block :: "(u64 \<times> u64) list \<Rightarrow> u8 list \<Rightarrow> u8 list" where
  "des_block ks b = store8 (FP (prod.swap (feistel DES_F (XOR) ks (IP (load8 b)))))"

lemma length_des_block [simp, len_simps]: "length (des_block ks b) = 8"
  by (simp add: des_block_def)

lemma IP_load_block: "IP (load8 (des_block ks b)) = prod.swap (feistel DES_F (XOR) ks (IP (load8 b)))"
  by (simp add: des_block_def load_store8 FP_IP)

lemma des_block_back:
  assumes "length b = 8"
  shows "des_block (rev ks) (des_block ks b) = b"
  unfolding des_block_def [of "rev ks"] IP_load_block des_net.reversed_keys
  by (simp add: FP_IP store_load8 assms)

lemma des_crypt_ecb_block: "des_crypt_ecb ctx b = des_block (sk_pairs (sk ctx) 0 16) b"
  by (simp add: des_crypt_ecb_def des_block_def IP_def FP_def load8_def store8_def round_pairs_feistel
      split_def Let_def prod.swap_def)

lemma des3_crypt_ecb_blocks:
  "des3_crypt_ecb ctx b =
    des_block (sk_pairs (sk3 ctx) 64 16) (des_block (sk_pairs (sk3 ctx) 32 16) (des_block (sk_pairs (sk3 ctx) 0 16) b))"
proof -
  define ks where "ks = sk_pairs (sk3 ctx)"
  have "des3_crypt_ecb ctx b = store8 (FP (prod.swap (feistel DES_F (XOR) (ks 64 16)
      (prod.swap (feistel DES_F (XOR) (ks 32 16) (prod.swap (feistel DES_F (XOR) (ks 0 16) (IP (load8 b)))))))))"
    by (simp add: des3_crypt_ecb_def IP_def FP_def load8_def store8_def round_pairs_feistel ks_def
        split_def Let_def prod.swap_def)
  then show ?thesis
    by (simp only: des_block_def [of "ks 64 16"] IP_load_block flip: ks_def)
qed

section \<open>The key arrays of the contexts\<close>

text \<open>The 16 round keys of a key.\<close>

definition des_keys :: "u8 list \<Rightarrow> (u64 \<times> u64) list" where
  "des_keys key = sk_pairs (des_setkey key) 0 16"

lemma length_subkey_loop: "length (subkey_loop i n X Y) = 2 * n"
  by (induction n arbitrary: i X Y) (simp_all add: Let_def)

lemma length_des_setkey [simp, len_simps]: "length (des_setkey key) = 32"
  by (simp add: des_setkey_def length_subkey_loop split: prod.split)

lemma nth_write_at: "off \<le> length xs \<Longrightarrow> p < off + length ys \<Longrightarrow>
    write_at xs off ys ! p = (if p < off then xs ! p else ys ! (p - off))"
  by (auto simp: write_at_def nth_append)

lemma length_write_at [simp, len_simps]: "off + length ys \<le> length xs \<Longrightarrow> length (write_at xs off ys) = length xs"
  by (simp add: write_at_def)

lemma sk_pairs_cong: "(\<And>p. p < 2 * n \<Longrightarrow> SK ! (k + p) = SK' ! (k' + p)) \<Longrightarrow> sk_pairs SK k n = sk_pairs SK' k' n"
proof -
  assume *: "\<And>p. p < 2 * n \<Longrightarrow> SK ! (k + p) = SK' ! (k' + p)"
  show ?thesis
    unfolding sk_pairs_def using *[of "2 * _"] *[of "2 * _ + 1"] by (auto simp: add.assoc)
qed

lemma sk_pairs_rev:
  assumes "\<And>j. j < 16 \<Longrightarrow> SK ! (k + 2 * j) = SK' ! (k' + (30 - 2 * j)) \<and> SK ! (k + 2 * j + 1) = SK' ! (k' + (31 - 2 * j))"
  shows "sk_pairs SK k 16 = rev (sk_pairs SK' k' 16)"
proof (rule nth_equalityI)
  fix j
  assume "j < length (sk_pairs SK k 16)"
  then have j: "j < 16"
    by (simp add: sk_pairs_def)
  then have "30 - 2 * j = 2 * (15 - j)" "31 - 2 * j = 2 * (15 - j) + 1"
    by arith+
  moreover have "[0..<16] ! (15 - j) = 15 - j"
    by (subst nth_upt) simp_all
  ultimately show "sk_pairs SK k 16 ! j = rev (sk_pairs SK' k' 16) ! j"
    using assms [OF j] j by (simp add: sk_pairs_def rev_nth)
qed (simp add: sk_pairs_def)

lemma des_enc_keys: "sk_pairs (sk (des_setkey_enc ctx key)) 0 16 = des_keys key"
  unfolding des_keys_def by (rule sk_pairs_cong) (simp add: des_setkey_enc_def nth_write_at)

lemma nth_SWAP: "p < length SK \<Longrightarrow> a < length SK \<Longrightarrow> b < length SK \<Longrightarrow>
    SWAP a b SK ! p = SK ! (if p = a then b else if p = b then a else p)"
  by (simp add: SWAP_def nth_list_update)

lemma length_SWAP [simp]: "length (SWAP a b SK) = length SK"
  by (simp add: SWAP_def)

lemma des_dec_keys:
  assumes "length (sk ctx) = 32"
  shows "sk_pairs (sk (des_setkey_dec ctx key)) 0 16 = rev (des_keys key)"
proof -
  have "write_at (sk ctx) 0 (des_setkey key) = des_setkey key"
    using assms by (simp add: write_at_def)
  then show ?thesis
    unfolding des_keys_def by (simp add: sk_pairs_def upt_16 des_setkey_dec_def nth_SWAP)
qed


text \<open>
  The loops of the triple schedules: after \<open>j\<close> turns, \<open>e\<close> and \<open>d\<close> are the encryption and
  decryption arrays and \<open>e0\<close> and \<open>d0\<close> what the single schedules left in them.
\<close>

lemma even_indices_fold: "fold f even_indices s = fold (\<lambda>j. f (2 * j)) [0..<16] s"
  by (simp add: even_indices_def fold_map comp_def)

lemma fold_upt_inv:
  assumes "P 0 s" and "\<And>j s. j < n \<Longrightarrow> P j s \<Longrightarrow> P (Suc j) (f j s)"
  shows "P n (fold f [0..<n] s)"
proof -
  have "m \<le> n \<Longrightarrow> P m (fold f [0..<m] s)" for m
    by (induction m) (use assms in auto)
  then show ?thesis
    by simp
qed

definition inv2 :: "u64 list \<Rightarrow> u64 list \<Rightarrow> nat \<Rightarrow> u64 list \<times> u64 list \<Rightarrow> bool" where
  "inv2 e0 d0 j s = (case s of (e, d) \<Rightarrow> length e = 96 \<and> length d = 96 \<and>
    (\<forall>p < 32. e ! p = e0 ! p \<and> d ! (32 + p) = d0 ! (32 + p)) \<and>
    (\<forall>i < j. d ! (2 * i) = e0 ! (30 - 2 * i) \<and> d ! (2 * i + 1) = e0 ! (31 - 2 * i) \<and>
      e ! (32 + 2 * i) = d0 ! (62 - 2 * i) \<and> e ! (32 + 2 * i + 1) = d0 ! (63 - 2 * i) \<and>
      e ! (64 + 2 * i) = e0 ! (2 * i) \<and> e ! (64 + 2 * i + 1) = e0 ! (2 * i + 1) \<and>
      d ! (64 + 2 * i) = e0 ! (30 - 2 * i) \<and> d ! (64 + 2 * i + 1) = e0 ! (31 - 2 * i)))"

lemma inv2_step:
  assumes "j < 16" and "inv2 e0 d0 j s"
  shows "inv2 e0 d0 (Suc j) (set2key_step (2 * j) s)"
proof -
  obtain e d where s: "s = (e, d)"
    by (cases s)
  have k: "d ! (32 + p) = d0 ! (32 + p)" if "p < 32" for p
    using assms(2) that by (simp add: inv2_def s)
  have dd: "d ! (62 - 2 * j) = d0 ! (62 - 2 * j)" "d ! (63 - 2 * j) = d0 ! (63 - 2 * j)"
    using k [of "30 - 2 * j"] k [of "31 - 2 * j"] assms(1) by simp_all
  show ?thesis
    using assms by (simp add: inv2_def s set2key_step_def Let_def)
      (intro conjI allI impI, simp_all add: nth_list_update less_Suc_eq dd, auto)
qed

lemma set2key_pairs:
  fixes key :: "u8 list"
  assumes "length esk = 96" and "length dsk = 96"
  defines "s \<equiv> des3_set2key esk dsk key"
  shows "sk_pairs (fst s) 0 16 = des_keys key" and "sk_pairs (fst s) 32 16 = rev (des_keys (drop 8 key))"
    and "sk_pairs (fst s) 64 16 = des_keys key" and "sk_pairs (snd s) 0 16 = rev (des_keys key)"
    and "sk_pairs (snd s) 32 16 = des_keys (drop 8 key)" and "sk_pairs (snd s) 64 16 = rev (des_keys key)"
proof -
  define e0 where "e0 = write_at esk 0 (des_setkey key)"
  define d0 where "d0 = write_at dsk 32 (des_setkey (drop 8 key))"
  have "inv2 e0 d0 16 s"
    unfolding s_def des3_set2key_def e0_def [symmetric] d0_def [symmetric] Let_def even_indices_fold
    by (rule fold_upt_inv) (use assms in \<open>simp_all add: inv2_step\<close>, simp add: inv2_def e0_def d0_def)
  then obtain e d where s: "s = (e, d)" and
    k: "p < 32 \<Longrightarrow> e ! p = e0 ! p" "p < 32 \<Longrightarrow> d ! (32 + p) = d0 ! (32 + p)" and
    u: "i < 16 \<Longrightarrow> d ! (2 * i) = e0 ! (30 - 2 * i) \<and> d ! (2 * i + 1) = e0 ! (31 - 2 * i)"
      "i < 16 \<Longrightarrow> e ! (32 + 2 * i) = d0 ! (62 - 2 * i) \<and> e ! (32 + 2 * i + 1) = d0 ! (63 - 2 * i)"
      "i < 16 \<Longrightarrow> e ! (64 + 2 * i) = e0 ! (2 * i) \<and> e ! (64 + 2 * i + 1) = e0 ! (2 * i + 1)"
      "i < 16 \<Longrightarrow> d ! (64 + 2 * i) = e0 ! (30 - 2 * i) \<and> d ! (64 + 2 * i + 1) = e0 ! (31 - 2 * i)" for p i
    unfolding inv2_def by (cases s) auto
  have e0: "p < 32 \<Longrightarrow> e0 ! p = des_setkey key ! p" and
    d0: "p < 32 \<Longrightarrow> d0 ! (32 + p) = des_setkey (drop 8 key) ! p" for p
    using assms by (simp_all add: e0_def d0_def nth_write_at)
  have d0': "i < 16 \<Longrightarrow> d0 ! (62 - 2 * i) = des_setkey (drop 8 key) ! (30 - 2 * i)"
    "i < 16 \<Longrightarrow> d0 ! (63 - 2 * i) = des_setkey (drop 8 key) ! (31 - 2 * i)" for i
    using d0 [of "30 - 2 * i"] d0 [of "31 - 2 * i"] by (simp_all add: algebra_simps)
  show "sk_pairs (fst s) 0 16 = des_keys key" "sk_pairs (snd s) 32 16 = des_keys (drop 8 key)"
    unfolding des_keys_def by (rule sk_pairs_cong, simp add: s k e0 d0)+
  show "sk_pairs (fst s) 64 16 = des_keys key"
    using u(3) by (simp add: des_keys_def sk_pairs_def s e0 ac_simps)
  show "sk_pairs (snd s) 0 16 = rev (des_keys key)" "sk_pairs (fst s) 32 16 = rev (des_keys (drop 8 key))"
    "sk_pairs (snd s) 64 16 = rev (des_keys key)"
    unfolding des_keys_def by (rule sk_pairs_rev; use u in \<open>simp add: s e0 d0'\<close>)+
qed

definition inv3 :: "u64 list \<Rightarrow> u64 list \<Rightarrow> nat \<Rightarrow> u64 list \<times> u64 list \<Rightarrow> bool" where
  "inv3 e0 d0 j s = (case s of (e, d) \<Rightarrow> length e = 96 \<and> length d = 96 \<and>
    (\<forall>p < 32. e ! p = e0 ! p \<and> e ! (64 + p) = e0 ! (64 + p) \<and> d ! (32 + p) = d0 ! (32 + p)) \<and>
    (\<forall>i < j. d ! (2 * i) = e0 ! (94 - 2 * i) \<and> d ! (2 * i + 1) = e0 ! (95 - 2 * i) \<and>
      e ! (32 + 2 * i) = d0 ! (62 - 2 * i) \<and> e ! (32 + 2 * i + 1) = d0 ! (63 - 2 * i) \<and>
      d ! (64 + 2 * i) = e0 ! (30 - 2 * i) \<and> d ! (64 + 2 * i + 1) = e0 ! (31 - 2 * i)))"

lemma inv3_step:
  assumes "j < 16" and "inv3 e0 d0 j s"
  shows "inv3 e0 d0 (Suc j) (set3key_step (2 * j) s)"
proof -
  obtain e d where s: "s = (e, d)"
    by (cases s)
  have k: "d ! (32 + p) = d0 ! (32 + p)" "e ! (64 + p) = e0 ! (64 + p)" if "p < 32" for p
    using assms(2) that by (simp_all add: inv3_def s)
  have dd: "d ! (62 - 2 * j) = d0 ! (62 - 2 * j)" "d ! (63 - 2 * j) = d0 ! (63 - 2 * j)"
    "e ! (94 - 2 * j) = e0 ! (94 - 2 * j)" "e ! (95 - 2 * j) = e0 ! (95 - 2 * j)"
    using k [of "30 - 2 * j"] k [of "31 - 2 * j"] assms(1) by simp_all
  show ?thesis
    using assms by (simp add: inv3_def s set3key_step_def Let_def)
      (intro conjI allI impI, simp_all add: nth_list_update less_Suc_eq dd, auto)
qed

lemma set3key_pairs:
  fixes key :: "u8 list"
  assumes "length esk = 96" and "length dsk = 96"
  defines "s \<equiv> des3_set3key esk dsk key"
  shows "sk_pairs (fst s) 0 16 = des_keys key" and "sk_pairs (fst s) 32 16 = rev (des_keys (drop 8 key))"
    and "sk_pairs (fst s) 64 16 = des_keys (drop 16 key)" and "sk_pairs (snd s) 0 16 = rev (des_keys (drop 16 key))"
    and "sk_pairs (snd s) 32 16 = des_keys (drop 8 key)" and "sk_pairs (snd s) 64 16 = rev (des_keys key)"
proof -
  define e0 where "e0 = write_at (write_at esk 0 (des_setkey key)) 64 (des_setkey (drop 16 key))"
  define d0 where "d0 = write_at dsk 32 (des_setkey (drop 8 key))"
  have "inv3 e0 d0 16 s"
    unfolding s_def des3_set3key_def Let_def e0_def [symmetric] d0_def [symmetric] even_indices_fold
    by (rule fold_upt_inv) (use assms in \<open>simp_all add: inv3_step\<close>, simp add: inv3_def e0_def d0_def)
  then obtain e d where s: "s = (e, d)" and
    k: "p < 32 \<Longrightarrow> e ! p = e0 ! p" "p < 32 \<Longrightarrow> e ! (64 + p) = e0 ! (64 + p)" "p < 32 \<Longrightarrow> d ! (32 + p) = d0 ! (32 + p)" and
    u: "i < 16 \<Longrightarrow> d ! (2 * i) = e0 ! (94 - 2 * i) \<and> d ! (2 * i + 1) = e0 ! (95 - 2 * i)"
      "i < 16 \<Longrightarrow> e ! (32 + 2 * i) = d0 ! (62 - 2 * i) \<and> e ! (32 + 2 * i + 1) = d0 ! (63 - 2 * i)"
      "i < 16 \<Longrightarrow> d ! (64 + 2 * i) = e0 ! (30 - 2 * i) \<and> d ! (64 + 2 * i + 1) = e0 ! (31 - 2 * i)" for p i
    unfolding inv3_def by (cases s) auto
  have e0: "p < 32 \<Longrightarrow> e0 ! p = des_setkey key ! p" "p < 32 \<Longrightarrow> e0 ! (64 + p) = des_setkey (drop 16 key) ! p" and
    d0: "p < 32 \<Longrightarrow> d0 ! (32 + p) = des_setkey (drop 8 key) ! p" for p
    using assms by (simp_all add: e0_def d0_def nth_write_at)
  have d0': "i < 16 \<Longrightarrow> d0 ! (62 - 2 * i) = des_setkey (drop 8 key) ! (30 - 2 * i)"
    "i < 16 \<Longrightarrow> d0 ! (63 - 2 * i) = des_setkey (drop 8 key) ! (31 - 2 * i)" 
    "i < 16 \<Longrightarrow> e0 ! (94 - 2 * i) = des_setkey (drop 16 key) ! (30 - 2 * i)"
    "i < 16 \<Longrightarrow> e0 ! (95 - 2 * i) = des_setkey (drop 16 key) ! (31 - 2 * i)" for i
    using d0 [of "30 - 2 * i"] d0 [of "31 - 2 * i"] e0(2) [of "30 - 2 * i"] e0(2) [of "31 - 2 * i"]
    by (simp_all add: algebra_simps)
  show "sk_pairs (fst s) 0 16 = des_keys key" "sk_pairs (snd s) 32 16 = des_keys (drop 8 key)"
    "sk_pairs (fst s) 64 16 = des_keys (drop 16 key)"
    unfolding des_keys_def by (rule sk_pairs_cong, simp add: s k e0 d0)+
  show "sk_pairs (snd s) 0 16 = rev (des_keys (drop 16 key))" "sk_pairs (fst s) 32 16 = rev (des_keys (drop 8 key))"
    "sk_pairs (snd s) 64 16 = rev (des_keys key)"
    unfolding des_keys_def by (rule sk_pairs_rev; use u in \<open>simp add: s e0 d0'\<close>)+
qed

section \<open>Encryption, decryption and their modes\<close>

interpretation des_chain: chained_cipher "des_block ks" "des_block (rev ks)" "\<lambda>b. length b = 8" xorl
  for ks
proof
  show "des_block ks (des_block (rev ks) b) = b" if "length b = 8" for b
    using des_block_back [of b "rev ks"] that by simp
qed (simp_all add: des_block_back xorl_cancel)

text \<open>The three passes of triple DES under the key groups \<open>a\<close>, \<open>b\<close>, \<open>c\<close>.\<close>

definition ede :: "(u64 \<times> u64) list \<Rightarrow> (u64 \<times> u64) list \<Rightarrow> (u64 \<times> u64) list \<Rightarrow> u8 list \<Rightarrow> u8 list" where
  "ede a b c x = des_block c (des_block (rev b) (des_block a x))"

lemma length_ede [simp, len_simps]: "length (ede a b c x) = 8"
  by (simp add: ede_def)

lemma ede_back: "length x = 8 \<Longrightarrow> ede (rev c) (rev b) (rev a) (ede a b c x) = x"
  using des_block_back [of _ "rev b"] by (simp add: ede_def des_block_back)

interpretation ede_chain: chained_cipher "ede a b c" "ede (rev c) (rev b) (rev a)" "\<lambda>b. length b = 8" xorl
  for a b c
proof
  show "ede a b c (ede (rev c) (rev b) (rev a) x) = x" if "length x = 8" for x
    using ede_back [of x "rev a" "rev b" "rev c"] that by simp
qed (simp_all add: ede_back xorl_cancel)

lemma des_enc_block: "des_crypt_ecb (des_setkey_enc ctx key) = des_block (des_keys key)"
  by (simp add: fun_eq_iff des_crypt_ecb_block des_enc_keys)

lemma des_dec_block:
  "length (sk ctx) = 32 \<Longrightarrow> des_crypt_ecb (des_setkey_dec ctx key) = des_block (rev (des_keys key))"
  by (simp add: fun_eq_iff des_crypt_ecb_block des_dec_keys)

text \<open>The third group of a two-key schedule is the first one.\<close>

definition third_key :: "int \<Rightarrow> u8 list \<Rightarrow> u8 list" where
  "third_key keytype key = (if keytype = TYPE_2KEY then key else drop 16 key)"

definition ede_keys :: "int \<Rightarrow> u8 list \<Rightarrow> u8 list \<Rightarrow> u8 list" where
  "ede_keys keytype key = ede (des_keys key) (des_keys (drop 8 key)) (des_keys (third_key keytype key))"

definition ede_inv :: "int \<Rightarrow> u8 list \<Rightarrow> u8 list \<Rightarrow> u8 list" where
  "ede_inv keytype key =
    ede (rev (des_keys (third_key keytype key))) (rev (des_keys (drop 8 key))) (rev (des_keys key))"

lemma des3_blocks:
  assumes "length junk = 96" and "length (sk3 ctx) = 96"
  shows "des3_crypt_ecb (des3_key_setup junk ctx key keytype mode) =
    (if mode = DES_ENCRYPT then ede_keys keytype key else ede_inv keytype key)"
  using assms
  by (auto simp: fun_eq_iff des3_key_setup_def des3_set2key_enc_def des3_set2key_dec_def des3_set3key_enc_def
      des3_set3key_dec_def des3_crypt_ecb_blocks set2key_pairs set3key_pairs ede_keys_def ede_inv_def ede_def third_key_def)

lemma xor_map8:
  "8 \<le> length xs \<Longrightarrow> length ys = 8 \<Longrightarrow> map (\<lambda>i. xs ! i XOR ys ! i) [0..<8] = xorl (take 8 xs) ys"
  by (rule nth_equalityI) simp_all

lemma cbc_encrypt_loop_blocks:
  assumes "\<And>b. length (ecb b) = 8"
  shows "length iv = 8 \<Longrightarrow> 8 * n \<le> length inp \<Longrightarrow>
    cbc_encrypt_loop ecb (8 * n) iv inp =
      (let cs = cbc_enc ecb xorl iv (chunks 8 (take (8 * n) inp)) in (concat cs, cbc_last iv cs))"
proof (induction n arbitrary: iv inp)
  case 0
  then show ?case
    by (simp add: cbc_encrypt_loop.simps)
next
  case (Suc n)
  define out where "out = ecb (xorl (take 8 inp) iv)"
  have "cbc_encrypt_loop ecb (8 * n) out (drop 8 inp) =
      (let cs = cbc_enc ecb xorl out (chunks 8 (take (8 * n) (drop 8 inp))) in (concat cs, cbc_last out cs))"
    using Suc.prems assms by (intro Suc.IH) (simp_all add: out_def)
  moreover have le: "8 \<le> length inp"
    using Suc.prems by simp
  ultimately show ?case
    unfolding mult_Suc_right chunks_take_Suc [where k = 8, simplified, OF le] using Suc.prems
    by (subst cbc_encrypt_loop.simps) (simp add: Let_def xor_map8 flip: out_def)
qed

lemma cbc_decrypt_loop_blocks:
  assumes "\<And>b. length (ecb b) = 8"
  shows "length iv = 8 \<Longrightarrow> 8 * n \<le> length inp \<Longrightarrow>
    cbc_decrypt_loop ecb (8 * n) iv inp =
      (let cs = chunks 8 (take (8 * n) inp) in (concat (cbc_dec ecb xorl iv cs), cbc_last iv cs))"
proof (induction n arbitrary: iv inp)
  case 0
  then show ?case
    by (simp add: cbc_decrypt_loop.simps)
next
  case (Suc n)
  have "cbc_decrypt_loop ecb (8 * n) (take 8 inp) (drop 8 inp) =
      (let cs = chunks 8 (take (8 * n) (drop 8 inp))
       in (concat (cbc_dec ecb xorl (take 8 inp) cs), cbc_last (take 8 inp) cs))"
    using Suc.prems by (intro Suc.IH) simp_all
  moreover have le: "8 \<le> length inp"
    using Suc.prems by simp
  ultimately show ?case
    unfolding mult_Suc_right chunks_take_Suc [where k = 8, simplified, OF le] using Suc.prems assms
    by (subst cbc_decrypt_loop.simps) (simp add: Let_def xor_map8)
qed

text \<open>Both directions of \<open>crypt_cbc\<close> on whole blocks.\<close>

lemma crypt_cbc_blocks:
  assumes "\<And>b. length (ecb b) = 8" and "length iv = 8" and "8 dvd len" and "len \<le> length inp" and "len \<le> length out"
  defines "bs \<equiv> chunks 8 (take len inp)"
  shows "crypt_cbc ecb 0 len iv inp out =
      Inr (0, cbc_last iv (cbc_enc ecb xorl iv bs), concat (cbc_enc ecb xorl iv bs) @ drop len out)"
    and "m \<noteq> 0 \<Longrightarrow> crypt_cbc ecb m len iv inp out =
      Inr (0, cbc_last iv bs, concat (cbc_dec ecb xorl iv bs) @ drop len out)"
proof -
  obtain n where n: "len = 8 * n"
    using assms(3) by blast
  show "crypt_cbc ecb 0 len iv inp out =
      Inr (0, cbc_last iv (cbc_enc ecb xorl iv bs), concat (cbc_enc ecb xorl iv bs) @ drop len out)"
    "m \<noteq> 0 \<Longrightarrow> crypt_cbc ecb m len iv inp out =
      Inr (0, cbc_last iv bs, concat (cbc_dec ecb xorl iv bs) @ drop len out)"
    using assms(2,4,5) cbc_encrypt_loop_blocks [of ecb, OF assms(1), of iv n inp]
      cbc_decrypt_loop_blocks [of ecb, OF assms(1), of iv n inp]
    by (simp_all add: crypt_cbc_def n Let_def bs_def)
qed

lemma concat_append_last: "cs \<noteq> [] \<Longrightarrow> concat (butlast cs) @ last cs = concat cs"
  by (induction cs) auto

lemma crypt_cbc_back:
  assumes c: "chained_cipher E D (\<lambda>b. length b = 8) xorl" and len: "\<And>b. length (E b) = 8" "\<And>b. length (D b) = 8"
    and iv: "length iv = 8" and n: "8 dvd len" "len \<le> length inp" "len \<le> length out" "len \<le> length out'"
    and enc: "crypt_cbc E 0 len iv inp out = Inr (r, iv', ct)" and m: "m \<noteq> 0"
  shows "\<exists>iv''. crypt_cbc D m len iv ct out' = Inr (0, iv'', take len inp @ drop len out') \<and>
    iv' = (if len = 0 then iv else drop (len - 8) (take len ct)) \<and> r = 0"
proof -
  define bs where "bs = chunks 8 (take len inp)"
  define cs where "cs = cbc_enc E xorl iv bs"
  have blk: "\<forall>b \<in> set bs. length b = 8"
    using n by (auto simp: bs_def intro: chunk_lengths [of 8 "take len inp"])
  then have l8: "length c = 8" if "c \<in> set cs" for c
    using chained_cipher.cbc_blocks [OF c iv] that by (simp add: cs_def)
  have ct: "ct = concat cs @ drop len out" "iv' = cbc_last iv cs" "r = 0"
    using enc crypt_cbc_blocks(1) [of E, OF len(1) iv n(1,2,3)] by (simp_all add: cs_def bs_def)
  have "length (concat cs) = 8 * length bs"
    using l8 by (simp add: length_concat sum_list_triv cs_def cong: map_cong)
  then have lc: "length (concat cs) = len"
    using n by (simp add: bs_def length_chunks min_absorb2)
  moreover have "iv' = (if len = 0 then iv else drop (len - 8) (take len ct))"
  proof (cases "cs = []")
    case False
    then have "concat cs = concat (butlast cs) @ last cs" "length (last cs) = 8"
      using l8 by (simp_all flip: concat_append_last)
    then show ?thesis
      using lc False by (auto simp: ct cbc_last_def)
  qed (use lc in \<open>simp add: ct cbc_last_def\<close>)
  moreover have "chunks 8 (take len ct) = cs"
    by (simp add: ct chunks_concat l8 lc)
  ultimately show ?thesis
    using crypt_cbc_blocks(2) [of D, OF len(2) iv n(1) _ n(4) m, of ct] lc n
      chained_cipher.cbc_back [OF c iv blk] by (simp add: ct(1,3) cs_def) (simp add: bs_def concat_chunks)
qed

lemma crypt_cbc_roundtrip:
  assumes c: "chained_cipher E D (\<lambda>b. length b = 8) xorl" and l: "\<And>b. length (E b) = 8" "\<And>b. length (D b) = 8"
    and IV: "length IV = 8" and n: "8 dvd n" "n \<le> length inp" "n \<le> length out" "n \<le> length out'"
  shows "\<exists>iv1 ct iv2. crypt_cbc E 0 n IV inp out = Inr (0, iv1, ct) \<and>
    crypt_cbc D 1 n IV ct out' = Inr (0, iv2, take n inp @ drop n out') \<and>
    iv1 = (if n = 0 then IV else drop (n - 8) (take n ct))"
  using crypt_cbc_blocks(1) [of E, OF l(1) IV n(1-3)] crypt_cbc_back [OF c l IV n, of 0 _ _ 1] by simp

lemma ede_chained: "chained_cipher (ede_keys kt key) (ede_inv kt key) (\<lambda>b. length b = 8) xorl"
  unfolding ede_keys_def ede_inv_def by (rule ede_chain.chained_cipher_axioms)

lemma length_ede_keys [simp]: "length (ede_keys kt key b) = 8" "length (ede_inv kt key b) = 8"
  by (simp_all add: ede_keys_def ede_inv_def)

section \<open>What the calls promise\<close>

text \<open>
  \<open>des_crypt_ecb\<close> under \<open>des_setkey_dec\<close> inverts it under \<open>des_setkey_enc\<close> of the same
  key, in both orders, for every key and block.
\<close>
theorem des_decrypt_encrypt:
  assumes "length (sk ctx') = 32" and "length b = 8"
  shows "des_crypt_ecb (des_setkey_dec ctx' key) (des_crypt_ecb (des_setkey_enc ctx key) b) = b \<and>
    des_crypt_ecb (des_setkey_enc ctx key) (des_crypt_ecb (des_setkey_dec ctx' key) b) = b"
  using des_chain.D_E [of b "des_keys key"] des_chain.E_D [of b "des_keys key"] assms
  by (simp add: des_enc_block des_dec_block)

theorem des_decrypt_encrypt_witness:
  "des_crypt_ecb (des_setkey_dec \<lparr>ctx_mode = 0, sk = replicate 32 0\<rparr> [1, 2, 3, 4, 5, 6, 7, 8])
    (des_crypt_ecb (des_setkey_enc \<lparr>ctx_mode = 0, sk = replicate 32 9\<rparr> [1, 2, 3, 4, 5, 6, 7, 8]) (replicate 8 5))
      = replicate 8 5"
  using des_decrypt_encrypt [of "\<lparr>ctx_mode = 0, sk = replicate 32 0\<rparr>" "replicate 8 5"] by simp

text \<open>
  C11: triple DES is the composition of three single ones of the program, encryption,
  decryption, encryption for the first, second and third 8 bytes of the key (the first
  again for a two-key schedule), and its inverse in the other direction, whatever the
  uninitialised arrays hold.
\<close>
theorem des3_is_ede:
  fixes key :: "u8 list" and keytype :: int
  assumes "length junk = 96" and "length (sk3 ctx) = 96" and "length (sk c) = 32"
  defines "k1 \<equiv> key" and "k2 \<equiv> drop 8 key" and "k3 \<equiv> if keytype = TYPE_2KEY then key else drop 16 key"
  shows "des3_crypt_ecb (des3_key_setup junk ctx key keytype DES_ENCRYPT) b =
      des_crypt_ecb (des_setkey_enc c k3) (des_crypt_ecb (des_setkey_dec c k2) (des_crypt_ecb (des_setkey_enc c k1) b)) \<and>
    des3_crypt_ecb (des3_key_setup junk ctx key keytype DES_DECRYPT) b =
      des_crypt_ecb (des_setkey_dec c k1) (des_crypt_ecb (des_setkey_enc c k2) (des_crypt_ecb (des_setkey_dec c k3) b))"
  using assms(1-3)
  by (simp add: des3_blocks ede_keys_def ede_inv_def ede_def third_key_def des_enc_block des_dec_block k1_def k2_def k3_def)

theorem des3_is_ede_witness:
  "des3_crypt_ecb (des3_key_setup (replicate 96 7) \<lparr>ctx3_mode = 0, sk3 = replicate 96 8\<rparr> (replicate 16 4) TYPE_2KEY DES_ENCRYPT)
      (replicate 8 5) =
    des_crypt_ecb (des_setkey_enc \<lparr>ctx_mode = 0, sk = replicate 32 0\<rparr> (replicate 16 4))
      (des_crypt_ecb (des_setkey_dec \<lparr>ctx_mode = 0, sk = replicate 32 0\<rparr> (drop 8 (replicate 16 4)))
        (des_crypt_ecb (des_setkey_enc \<lparr>ctx_mode = 0, sk = replicate 32 0\<rparr> (replicate 16 4)) (replicate 8 5)))"
  using des3_is_ede [of "replicate 96 7" "\<lparr>ctx3_mode = 0, sk3 = replicate 96 8\<rparr>" "\<lparr>ctx_mode = 0, sk = replicate 32 0\<rparr>"
      "replicate 16 4" TYPE_2KEY "replicate 8 5"] by simp

lemma de_des_cbc_crypt:
  "length (sk ctx) = 32 \<Longrightarrow> de_des_cbc ctx out inp key IV n m =
    (case crypt_cbc (if m = 0 then des_block (des_keys key) else des_block (rev (des_keys key))) m (unat n) IV inp out of
       Inl e \<Rightarrow> Inl e | Inr (_, IV, out) \<Rightarrow> Inr (0, IV, out))"
  by (simp add: de_des_cbc_def des_crypt_cbc_def des_enc_block des_dec_block)

lemma de_3des_cbc_crypt:
  "length junk = 96 \<Longrightarrow> length (sk3 ctx) = 96 \<Longrightarrow> de_3des_cbc junk ctx out inp key kt IV n m =
    (case crypt_cbc (if m = 0 then ede_keys kt key else ede_inv kt key) m (unat n) IV inp out of
       Inl e \<Rightarrow> Inl e | Inr (_, IV, out) \<Rightarrow> Inr (0, IV, out))"
  by (simp add: de_3des_cbc_def des3_crypt_cbc_def des3_blocks)

lemma de_3des_cbc_back:
  assumes "length junk = 96" and "length (sk3 ctx3) = 96"
    and IV: "length IV = 8" and n: "8 dvd unat n" "unat n \<le> length inp" "unat n \<le> length out" "unat n \<le> length out'"
  shows "\<exists>iv1 ct iv2. de_3des_cbc junk ctx3 out inp key kt IV n DES_ENCRYPT = Inr (0, iv1, ct) \<and>
    de_3des_cbc junk ctx3 out' ct key kt IV n DES_DECRYPT = Inr (0, iv2, take (unat n) inp @ drop (unat n) out') \<and>
    iv1 = (if n = 0 then IV else drop (unat n - 8) (take (unat n) ct))"
proof -
  obtain iv1 ct iv2 where "crypt_cbc (ede_keys kt key) 0 (unat n) IV inp out = Inr (0, iv1, ct)"
      "crypt_cbc (ede_inv kt key) 1 (unat n) IV ct out' = Inr (0, iv2, take (unat n) inp @ drop (unat n) out')"
      "iv1 = (if unat n = 0 then IV else drop (unat n - 8) (take (unat n) ct))"
    using crypt_cbc_roundtrip [OF ede_chained length_ede_keys IV n] by blast
  then show ?thesis
    unfolding de_3des_cbc_crypt [OF assms(1,2)] by (intro exI [of _ iv1] exI [of _ ct] exI [of _ iv2]) (simp add: unat_eq_zero)
qed

lemma de_des_cbc_back:
  assumes "length (sk ctx) = 32"
    and IV: "length IV = 8" and n: "8 dvd unat n" "unat n \<le> length inp" "unat n \<le> length out" "unat n \<le> length out'"
  shows "\<exists>iv1 ct iv2. de_des_cbc ctx out inp key IV n DES_ENCRYPT = Inr (0, iv1, ct) \<and>
    de_des_cbc ctx out' ct key IV n DES_DECRYPT = Inr (0, iv2, take (unat n) inp @ drop (unat n) out') \<and>
    iv1 = (if n = 0 then IV else drop (unat n - 8) (take (unat n) ct))"
proof -
  obtain iv1 ct iv2 where "crypt_cbc (des_block (des_keys key)) 0 (unat n) IV inp out = Inr (0, iv1, ct)"
      "crypt_cbc (des_block (rev (des_keys key))) 1 (unat n) IV ct out' = Inr (0, iv2, take (unat n) inp @ drop (unat n) out')"
      "iv1 = (if unat n = 0 then IV else drop (unat n - 8) (take (unat n) ct))"
    using crypt_cbc_roundtrip [OF des_chain.chained_cipher_axioms length_des_block length_des_block IV n] by blast
  then show ?thesis
    unfolding de_des_cbc_crypt [OF assms(1)] by (intro exI [of _ iv1] exI [of _ ct] exI [of _ iv2]) (simp add: unat_eq_zero)
qed

text \<open>
  Decrypting what \<open>de_3des_cbc\<close> or \<open>de_des_cbc\<close> wrote, under the same key and the IV
  the encryption started from, gives the data back and leaves the rest of the output
  alone. Encryption replaces the IV by the last block it wrote.
\<close>
theorem des_cbc_roundtrip:
  assumes "length junk = 96" and "length (sk3 ctx3) = 96" and "length (sk ctx) = 32"
    and "length IV = 8" and "8 dvd unat n" and "unat n \<le> length inp" and "unat n \<le> length out" and "unat n \<le> length out'"
  shows "(\<exists>iv1 ct iv2. de_3des_cbc junk ctx3 out inp key kt IV n DES_ENCRYPT = Inr (0, iv1, ct) \<and>
      de_3des_cbc junk ctx3 out' ct key kt IV n DES_DECRYPT = Inr (0, iv2, take (unat n) inp @ drop (unat n) out') \<and>
      iv1 = (if n = 0 then IV else drop (unat n - 8) (take (unat n) ct))) \<and>
    (\<exists>iv1 ct iv2. de_des_cbc ctx out inp key IV n DES_ENCRYPT = Inr (0, iv1, ct) \<and>
      de_des_cbc ctx out' ct key IV n DES_DECRYPT = Inr (0, iv2, take (unat n) inp @ drop (unat n) out') \<and>
      iv1 = (if n = 0 then IV else drop (unat n - 8) (take (unat n) ct)))"
  using de_3des_cbc_back [OF assms(1,2,4-8)] de_des_cbc_back [OF assms(3-8)] by blast

theorem des_cbc_roundtrip_witness:
  "\<exists>iv1 ct iv2.
    de_3des_cbc (replicate 96 7) \<lparr>ctx3_mode = 0, sk3 = replicate 96 8\<rparr> (replicate 20 0) (replicate 16 3)
      (replicate 24 4) TYPE_3KEY (replicate 8 6) 16 DES_ENCRYPT = Inr (0, iv1, ct) \<and>
    de_3des_cbc (replicate 96 7) \<lparr>ctx3_mode = 0, sk3 = replicate 96 8\<rparr> (replicate 20 1) ct
      (replicate 24 4) TYPE_3KEY (replicate 8 6) 16 DES_DECRYPT = Inr (0, iv2, replicate 16 3 @ replicate 4 1)"
  using des_cbc_roundtrip [of "replicate 96 7" "\<lparr>ctx3_mode = 0, sk3 = replicate 96 8\<rparr>"
      "\<lparr>ctx_mode = 0, sk = replicate 32 0\<rparr>" "replicate 8 6" 16 "replicate 16 3" "replicate 20 0" "replicate 20 1"
      "replicate 24 4" TYPE_3KEY]
  by auto

text \<open>
  A length that is no multiple of 8. \<open>de_3des_ecb\<close> reports it; \<open>de_3des_cbc\<close> and
  \<open>de_des_cbc\<close> drop the error of the call they make and return 0 with nothing written;
  \<open>de_des_ecb\<close> returns 0 and leaves the last bytes out.
\<close>
theorem des_ragged_lengths:
  assumes "unat n mod 8 \<noteq> 0" and "length inp = unat n" and "length out = unat n"
  shows "de_3des_ecb junk ctx3 out inp key kt n m = Inr (-1, out) \<and>
    de_3des_cbc junk ctx3 out inp key kt IV n m = Inr (0, IV, out) \<and>
    de_des_cbc ctx out inp key IV n m = Inr (0, IV, out) \<and>
    (\<exists>bs. de_des_ecb ctx out inp key n m = Inr (0, bs @ drop (8 * (unat n div 8)) out))"
  using assms
  by (simp add: de_3des_ecb_def de_3des_cbc_def de_des_cbc_def de_des_ecb_def des3_crypt_cbc_def des_crypt_cbc_def
      crypt_cbc_def ecb_loop_def Let_def unat_div unat_mod word_unat_eq_iff)

theorem des_ragged_lengths_witness:
  "de_3des_cbc (replicate 96 7) \<lparr>ctx3_mode = 0, sk3 = replicate 96 8\<rparr> (replicate 12 0) (replicate 12 3)
      (replicate 24 4) TYPE_3KEY (replicate 8 6) 12 DES_ENCRYPT = Inr (0, replicate 8 6, replicate 12 0)"
  using des_ragged_lengths [of 12 "replicate 12 3" "replicate 12 0"] by simp

section \<open>Parity\<close>

definition odd_byte :: "u8 \<Rightarrow> bool" where
  "odd_byte b \<longleftrightarrow> odd (length (filter (bit b) [0..<8]))"

lemma parity_table:
  "list_all (\<lambda>i. let v = odd_parity_table ! i in odd (length (filter (bit v) [0..<8])) \<and> unat v div 2 = i) [0..<128]"
  by code_simp

lemma parity_row:
  "i < 128 \<Longrightarrow> odd_byte (odd_parity_table ! i) \<and> unat (odd_parity_table ! i) div 2 = i"
  using parity_table by (simp add: list_all_iff Let_def odd_byte_def)

text \<open>Two bytes with the same upper seven bits and odd parity are equal.\<close>

lemma odd_byte_unique:
  assumes "odd_byte a" and "odd_byte b" and "unat a div 2 = unat b div 2"
  shows "a = b"
proof (rule bit_word_eqI)
  fix n :: nat
  assume n: "n < LENGTH(8)"
  have up: "bit a (Suc k) = bit b (Suc k)" for k
    using arg_cong [OF assms(3), of "\<lambda>x. bit x k"] by (simp add: bit_unsigned_iff flip: bit_Suc)
  then have "filter (bit a) [1..<8] = filter (bit b) [1..<8]"
    by (intro filter_cong) (auto simp: Suc_le_eq gr0_conv_Suc)
  then have "bit a 0 = bit b 0"
    using assms(1,2) by (auto simp: odd_byte_def upt_conv_Cons split: if_splits)
  then show "bit a n = bit b n"
    using up by (cases n) auto
qed

definition fix_parity :: "u8 \<Rightarrow> u8" where
  "fix_parity b = odd_parity_table ! (unat b div 2)"

lemma half_less: "unat (b :: u8) div 2 < 128"
  using unat_u8_less [of b] by linarith

lemma fix_parity_eq: "fix_parity b = b \<longleftrightarrow> odd_byte b"
proof -
  have "odd_byte (fix_parity b)" "unat (fix_parity b) div 2 = unat b div 2"
    using parity_row [OF half_less] by (simp_all add: fix_parity_def)
  then show ?thesis
    using odd_byte_unique [of "fix_parity b" b] by auto
qed

lemma set_parity_map: "length key = 8 \<Longrightarrow> des_key_set_parity key = map fix_parity key"
  by (erule list8) (simp add: des_key_set_parity_def fix_parity_def upt_rec)

text \<open>
  \<open>des_key_set_parity\<close> keeps the upper seven bits of every byte and makes its parity
  odd, so that \<open>des_key_check_key_parity\<close> passes afterwards; the check passes exactly
  for keys all of whose bytes have odd parity, which \<open>des_key_set_parity\<close> leaves alone.
\<close>
theorem des_parity:
  assumes "length key = 8"
  shows "des_key_check_key_parity (des_key_set_parity key) = 0 \<and>
    map (\<lambda>b. unat b div 2) (des_key_set_parity key) = map (\<lambda>b. unat b div 2) key \<and>
    (des_key_check_key_parity key = 0 \<longleftrightarrow> (\<forall>b \<in> set key. odd (length (filter (bit b) [0..<8])))) \<and>
    (des_key_check_key_parity key = 0 \<longleftrightarrow> des_key_set_parity key = key)"
proof -
  have chk: "des_key_check_key_parity k = 0 \<longleftrightarrow> (\<forall>b \<in> set k. odd_byte b)" if "length k = 8" for k
    using that by (auto simp: des_key_check_key_parity_def all_set_conv_all_nth simp flip: fix_parity_def fix_parity_eq)
  show ?thesis
    using assms chk [OF assms] chk [of "des_key_set_parity key"] parity_row [OF half_less]
    by (auto simp: set_parity_map fix_parity_def [symmetric] fix_parity_eq map_idI simp flip: odd_byte_def
        intro: map_idI)
qed


theorem des_parity_witness:
  "des_key_check_key_parity (des_key_set_parity [0, 1, 2, 3, 4, 5, 6, 255]) = 0 \<and>
    des_key_check_key_parity [1, 1, 1, 1, 1, 1, 1, 3] = 1"
  using des_parity [of "[0, 1, 2, 3, 4, 5, 6, 255]"]
  by (simp add: des_key_check_key_parity_def odd_parity_table_def upt_rec)

section \<open>Widths\<close>

text \<open>The bits of four groups of six.\<close>

definition six_groups :: "u64 \<Rightarrow> bool" where
  "six_groups w \<longleftrightarrow> w AND 0x3F3F3F3F = w"

lemma six_groups_or: "six_groups v \<Longrightarrow> six_groups w \<Longrightarrow> six_groups (v OR w)"
  by (simp add: six_groups_def bit.conj_disj_distrib2)

lemma six_groups_and: "m AND 0x3F3F3F3F = m \<Longrightarrow> six_groups (x AND m)"
  by (simp add: six_groups_def and.assoc)

lemma six_groups_subkeys: "six_groups (subkey_even X Y)" "six_groups (subkey_odd X Y)"
  unfolding subkey_even_def subkey_odd_def
  by (intro six_groups_or six_groups_and; simp)+

lemma six_groups_loop: "list_all six_groups (subkey_loop i n X Y)"
  by (induction n arbitrary: i X Y) (simp_all add: Let_def six_groups_subkeys)

lemma lo32_less: "lo32 x \<longleftrightarrow> x < 2 ^ 32"
proof -
  have "lo32 x \<longleftrightarrow> take_bit 32 x = x"
  proof
    assume "lo32 x"
    then show "take_bit 32 x = x"
      by (intro bit_word_eqI) (auto simp: lo32_def bit_simps)
  next
    assume "take_bit 32 x = x"
    then show "lo32 x"
      unfolding lo32_def by (metis bit_take_bit_iff)
  qed
  also have "\<dots> \<longleftrightarrow> x < 2 ^ 32"
    by (simp add: word_unat_eq_iff unsigned_take_bit_eq take_bit_nat_eq_self_iff word_less_nat_alt)
  finally show ?thesis .
qed

text \<open>The temporary word of a round keeps bits above the 32nd, and the boxes do not look at them.\<close>

lemma box6_low:
  assumes "n \<le> 24"
  shows "box6 SB (take_bit 32 T) n = box6 SB T n"
proof -
  have m: "(0x3F :: u64) = mask 6"
    by (simp add: mask_eq_exp_minus_1)
  have "drop_bit n (take_bit 32 T) AND 0x3F = drop_bit n T AND 0x3F"
    unfolding m using assms by (intro bit_word_eqI) (auto simp: bit_simps)
  then show ?thesis
    by (simp add: box6_def)
qed

text \<open>
  C14: \<open>unsigned long\<close> has 64 bits and the shifts of a round are not masked, but a result never needs more than 32: every word of
  a key schedule consists of four groups of six bits, the permutations and the round map 32-bit halves to 32-bit halves, and
  the boxes of a round do not depend on the higher bits of the temporary word, which can be set.
\<close>
theorem des_words_fit:
  "(\<forall>w \<in> set (des_setkey key). w AND 0x3F3F3F3F = w) \<and>
    (\<forall>X Y. X < 2 ^ 32 \<longrightarrow> Y < 2 ^ 32 \<longrightarrow>
      fst (DES_IP X Y) < 2 ^ 32 \<and> snd (DES_IP X Y) < 2 ^ 32 \<and>
      fst (DES_FP X Y) < 2 ^ 32 \<and> snd (DES_FP X Y) < 2 ^ 32 \<and>
      (\<forall>SK k. DES_ROUND SK k X Y < 2 ^ 32)) \<and>
    (\<forall>SB T. \<forall>n \<in> {0, 8, 16, 24}. box6 SB (take_bit 32 T) n = box6 SB T n)"
proof -
  have "\<forall>SB T. \<forall>n \<in> {0, 8, 16, 24}. box6 SB (take_bit 32 T) n = box6 SB T n"
    by (simp add: box6_low)
  then show ?thesis
    unfolding lo32_less [symmetric] using lo_pair_IP [of "(_, _)"] six_groups_loop
    by (auto simp: des_setkey_def list_all_iff six_groups_def DES_ROUND_def lo_pair_def IP_def FP_def split: prod.splits)
qed

theorem des_words_fit_witness:
  "fst (DES_IP 0xFFFFFFFF 5) < 2 ^ 32 \<and> DES_ROUND [1, 2] 0 0xFFFFFFFF 5 < 2 ^ 32
    \<and> 2 ^ 32 \<le> (push_bit 28 0x80000000 OR drop_bit 4 0x80000000 :: u64)
    \<and> box6 SB1 (take_bit 32 (push_bit 28 0x80000000 OR drop_bit 4 0x80000000)) 24 = box6 SB1 (push_bit 28 0x80000000 OR drop_bit 4 0x80000000) 24"
proof (intro conjI)
  show "box6 SB1 (take_bit 32 (push_bit 28 0x80000000 OR drop_bit 4 0x80000000)) 24 = box6 SB1 (push_bit 28 0x80000000 OR drop_bit 4 0x80000000) 24"
    by (rule box6_low) simp
  show "(2 ^ 32 :: u64) \<le> push_bit 28 0x80000000 OR drop_bit 4 0x80000000"
    by simp
qed (use des_words_fit [of "[]"] in simp_all)

end
