(* ===== verification/Des_Spec.thy ===== *)
theory Des_Spec
  imports Cipher_Spec
begin

text \<open>
  DES as the standard states it, over lists of bits numbered from 1, the most significant
  bit first: the permutations are tables of the positions they select, the S-boxes
  tables of four rows of sixteen numbers.
\<close>

section \<open>The tables of the standard\<close>

definition ip_table :: "nat list" where
  "ip_table = [
    58, 50, 42, 34, 26, 18, 10, 2, 60, 52, 44, 36, 28, 20, 12, 4,
    62, 54, 46, 38, 30, 22, 14, 6, 64, 56, 48, 40, 32, 24, 16, 8,
    57, 49, 41, 33, 25, 17, 9, 1, 59, 51, 43, 35, 27, 19, 11, 3,
    61, 53, 45, 37, 29, 21, 13, 5, 63, 55, 47, 39, 31, 23, 15, 7]"

definition fp_table :: "nat list" where
  "fp_table = [
    40, 8, 48, 16, 56, 24, 64, 32, 39, 7, 47, 15, 55, 23, 63, 31,
    38, 6, 46, 14, 54, 22, 62, 30, 37, 5, 45, 13, 53, 21, 61, 29,
    36, 4, 44, 12, 52, 20, 60, 28, 35, 3, 43, 11, 51, 19, 59, 27,
    34, 2, 42, 10, 50, 18, 58, 26, 33, 1, 41, 9, 49, 17, 57, 25]"

definition e_table :: "nat list" where
  "e_table = [
    32, 1, 2, 3, 4, 5, 4, 5, 6, 7, 8, 9, 8, 9, 10, 11,
    12, 13, 12, 13, 14, 15, 16, 17, 16, 17, 18, 19, 20, 21, 20, 21,
    22, 23, 24, 25, 24, 25, 26, 27, 28, 29, 28, 29, 30, 31, 32, 1]"

definition p_table :: "nat list" where
  "p_table = [
    16, 7, 20, 21, 29, 12, 28, 17, 1, 15, 23, 26, 5, 18, 31, 10,
    2, 8, 24, 14, 32, 27, 3, 9, 19, 13, 30, 6, 22, 11, 4, 25]"

definition pc1_table :: "nat list" where
  "pc1_table = [
    57, 49, 41, 33, 25, 17, 9, 1, 58, 50, 42, 34, 26, 18, 10, 2,
    59, 51, 43, 35, 27, 19, 11, 3, 60, 52, 44, 36, 63, 55, 47, 39,
    31, 23, 15, 7, 62, 54, 46, 38, 30, 22, 14, 6, 61, 53, 45, 37,
    29, 21, 13, 5, 28, 20, 12, 4]"

definition pc2_table :: "nat list" where
  "pc2_table = [
    14, 17, 11, 24, 1, 5, 3, 28, 15, 6, 21, 10, 23, 19, 12, 4,
    26, 8, 16, 7, 27, 20, 13, 2, 41, 52, 31, 37, 47, 55, 30, 40,
    51, 45, 33, 48, 44, 49, 39, 56, 34, 53, 46, 42, 50, 36, 29, 32]"

definition S1 :: "nat list" where
  "S1 = [
    14, 4, 13, 1, 2, 15, 11, 8, 3, 10, 6, 12, 5, 9, 0, 7,
    0, 15, 7, 4, 14, 2, 13, 1, 10, 6, 12, 11, 9, 5, 3, 8,
    4, 1, 14, 8, 13, 6, 2, 11, 15, 12, 9, 7, 3, 10, 5, 0,
    15, 12, 8, 2, 4, 9, 1, 7, 5, 11, 3, 14, 10, 0, 6, 13]"

definition S2 :: "nat list" where
  "S2 = [
    15, 1, 8, 14, 6, 11, 3, 4, 9, 7, 2, 13, 12, 0, 5, 10,
    3, 13, 4, 7, 15, 2, 8, 14, 12, 0, 1, 10, 6, 9, 11, 5,
    0, 14, 7, 11, 10, 4, 13, 1, 5, 8, 12, 6, 9, 3, 2, 15,
    13, 8, 10, 1, 3, 15, 4, 2, 11, 6, 7, 12, 0, 5, 14, 9]"

definition S3 :: "nat list" where
  "S3 = [
    10, 0, 9, 14, 6, 3, 15, 5, 1, 13, 12, 7, 11, 4, 2, 8,
    13, 7, 0, 9, 3, 4, 6, 10, 2, 8, 5, 14, 12, 11, 15, 1,
    13, 6, 4, 9, 8, 15, 3, 0, 11, 1, 2, 12, 5, 10, 14, 7,
    1, 10, 13, 0, 6, 9, 8, 7, 4, 15, 14, 3, 11, 5, 2, 12]"

definition S4 :: "nat list" where
  "S4 = [
    7, 13, 14, 3, 0, 6, 9, 10, 1, 2, 8, 5, 11, 12, 4, 15,
    13, 8, 11, 5, 6, 15, 0, 3, 4, 7, 2, 12, 1, 10, 14, 9,
    10, 6, 9, 0, 12, 11, 7, 13, 15, 1, 3, 14, 5, 2, 8, 4,
    3, 15, 0, 6, 10, 1, 13, 8, 9, 4, 5, 11, 12, 7, 2, 14]"

definition S5 :: "nat list" where
  "S5 = [
    2, 12, 4, 1, 7, 10, 11, 6, 8, 5, 3, 15, 13, 0, 14, 9,
    14, 11, 2, 12, 4, 7, 13, 1, 5, 0, 15, 10, 3, 9, 8, 6,
    4, 2, 1, 11, 10, 13, 7, 8, 15, 9, 12, 5, 6, 3, 0, 14,
    11, 8, 12, 7, 1, 14, 2, 13, 6, 15, 0, 9, 10, 4, 5, 3]"

definition S6 :: "nat list" where
  "S6 = [
    12, 1, 10, 15, 9, 2, 6, 8, 0, 13, 3, 4, 14, 7, 5, 11,
    10, 15, 4, 2, 7, 12, 9, 5, 6, 1, 13, 14, 0, 11, 3, 8,
    9, 14, 15, 5, 2, 8, 12, 3, 7, 0, 4, 10, 1, 13, 11, 6,
    4, 3, 2, 12, 9, 5, 15, 10, 11, 14, 1, 7, 6, 0, 8, 13]"

definition S7 :: "nat list" where
  "S7 = [
    4, 11, 2, 14, 15, 0, 8, 13, 3, 12, 9, 7, 5, 10, 6, 1,
    13, 0, 11, 7, 4, 9, 1, 10, 14, 3, 5, 12, 2, 15, 8, 6,
    1, 4, 11, 13, 12, 3, 7, 14, 10, 15, 6, 8, 0, 5, 9, 2,
    6, 11, 13, 8, 1, 4, 10, 7, 9, 5, 0, 15, 14, 2, 3, 12]"

definition S8 :: "nat list" where
  "S8 = [
    13, 2, 8, 4, 6, 15, 11, 1, 10, 9, 3, 14, 5, 0, 12, 7,
    1, 15, 13, 8, 10, 3, 7, 4, 12, 5, 6, 11, 0, 14, 9, 2,
    7, 11, 4, 1, 9, 12, 14, 2, 0, 6, 10, 13, 15, 3, 5, 8,
    2, 1, 14, 7, 4, 10, 8, 13, 15, 12, 9, 0, 3, 5, 6, 11]"

definition sboxes :: "nat list list" where
  "sboxes = [S1, S2, S3, S4, S5, S6, S7, S8]"

definition key_shifts :: "nat list" where
  "key_shifts = [1, 1, 2, 2, 2, 2, 2, 2, 1, 2, 2, 2, 2, 2, 2, 1]"

section \<open>The cipher\<close>

definition permute :: "nat list \<Rightarrow> bool list \<Rightarrow> bool list" where
  "permute tab bs = map (\<lambda>i. bs ! (i - 1)) tab"

definition xorb :: "bool list \<Rightarrow> bool list \<Rightarrow> bool list" where
  "xorb xs ys = map2 (\<noteq>) xs ys"

definition bits_nat :: "bool list \<Rightarrow> nat" where
  "bits_nat bs = foldl (\<lambda>n b. 2 * n + of_bool b) 0 bs"

definition nibble :: "nat \<Rightarrow> bool list" where
  "nibble n = [bit n 3, bit n 2, bit n 1, bit n 0]"

text \<open>The outer bits of the six choose the row, the inner ones the column.\<close>

definition sbox :: "nat list \<Rightarrow> bool list \<Rightarrow> bool list" where
  "sbox S b = nibble (S ! (16 * bits_nat [b ! 0, b ! 5] + bits_nat [b ! 1, b ! 2, b ! 3, b ! 4]))"

definition des_f :: "bool list \<Rightarrow> bool list \<Rightarrow> bool list" where
  "des_f K R =
    (let B = xorb (permute e_table R) K
     in permute p_table (concat (map (\<lambda>i. sbox (sboxes ! i) (take 6 (drop (6 * i) B))) [0..<8])))"

fun std_key_loop :: "nat list \<Rightarrow> bool list \<Rightarrow> bool list \<Rightarrow> bool list list" where
  "std_key_loop [] C D = []"
| "std_key_loop (s # ss) C D =
    (let C = rotate s C; D = rotate s D in permute pc2_table (C @ D) # std_key_loop ss C D)"

definition std_keys :: "bool list \<Rightarrow> bool list list" where
  "std_keys K = (let cd = permute pc1_table K in std_key_loop key_shifts (take 28 cd) (drop 28 cd))"

definition std_des :: "bool list list \<Rightarrow> bool list \<Rightarrow> bool list" where
  "std_des ks M =
    (let b = permute ip_table M; (L, R) = feistel des_f xorb ks (take 32 b, drop 32 b)
     in permute fp_table (R @ L))"

text \<open>The bits of a byte array.\<close>

definition bits_of :: "u8 list \<Rightarrow> bool list" where
  "bits_of bs = concat (map (\<lambda>b. map (\<lambda>i. bit b (7 - i)) [0..<8]) bs)"

end
