(* ===== verification/DesStd.thy ===== *)
theory DesStd
  imports Des Des_Spec
begin

text \<open>
  The program's DES is the DES of the standard: the exchange steps of the permutation
  macros are followed bit by bit, the merged S-box tables and the key schedule are
  compared with the tables of the standard.
\<close>

section \<open>The permutations, by the positions they select\<close>

text \<open>Bits 0 to 31 of the first word of a pair and, as 32 to 63, of the second.\<close>

definition bitp :: "u64 \<times> u64 \<Rightarrow> nat \<Rightarrow> bool" where
  "bitp s i = (if i < 32 then bit (fst s) i else bit (snd s) (i - 32))"

definition swap_ix :: "nat \<Rightarrow> nat" where
  "swap_ix i = (if i < 32 then i + 32 else i - 32)"

definition rot_ix :: "nat \<Rightarrow> nat \<Rightarrow> nat" where
  "rot_ix k i = (if i < 32 then (if i < k then i + 32 - k else i - k) else i)"

definition bs_ix :: "nat \<Rightarrow> u64 \<Rightarrow> nat \<Rightarrow> nat" where
  "bs_ix k m i =
    (if i < 32 then (if k \<le> i \<and> bit m (i - k) then i - k + 32 else i)
     else if bit m (i - 32) then i - 32 + k else i)"

lemma bitp_swap: "i < 64 \<Longrightarrow> bitp (prod.swap s) i = bitp s (swap_ix i)"
  by (auto simp: bitp_def swap_ix_def)

lemma bitp_rot: "lo_pair s \<Longrightarrow> k \<le> 32 \<Longrightarrow> bitp (on_fst (rot32 k) s) i = bitp s (rot_ix k i)"
  by (auto simp: bitp_def rot_ix_def on_fst_def bit_rot32 lo_pair_def)

lemma bitp_bit_swap:
  assumes "lo32 (push_bit k m)" and "k \<le> 16" and "i < 64"
  shows "bitp (bit_swap k m s) i = bitp s (bs_ix k m i)"
proof -
  have "j + k < 32" if "bit m j" "j < 32" for j
    using assms(1,2) that by (auto simp: lo32_def bit_simps dest: spec [of _ "j + k"])
  note b = this
  show ?thesis
  proof (cases "i < 32")
    case True
    then show ?thesis
      by (auto simp: bitp_def bs_ix_def bit_swap_def Let_def bit_simps)
  next
    case False
    then obtain j where "i = 32 + j" "j < 32"
      using assms(3) by (metis add.commute le_add_diff_inverse2 less_diff_conv2 not_less numeral_Bit0)
    then show ?thesis
      using b [of j] by (auto simp: bitp_def bs_ix_def bit_swap_def Let_def bit_simps add.commute)
  qed
qed


definition ip_ix :: "nat \<Rightarrow> nat" where
  "ip_ix i = bs_ix 4 0x0F0F0F0F (bs_ix 16 0x0000FFFF (swap_ix (bs_ix 2 0x33333333 (bs_ix 8 0x00FF00FF
    (rot_ix 1 (bs_ix 0 0xAAAAAAAA (swap_ix (rot_ix 1 i))))))))"

definition fp_ix :: "nat \<Rightarrow> nat" where
  "fp_ix i = rot_ix 31 (swap_ix (bs_ix 0 0xAAAAAAAA (rot_ix 31 (bs_ix 8 0x00FF00FF (bs_ix 2 0x33333333
    (swap_ix (bs_ix 16 0x0000FFFF (bs_ix 4 0x0F0F0F0F i))))))))"

lemma ix_less:
  "i < 64 \<Longrightarrow> swap_ix i < 64"
  "i < 64 \<Longrightarrow> k \<le> 32 \<Longrightarrow> rot_ix k i < 64"
  "i < 64 \<Longrightarrow> k \<le> 16 \<Longrightarrow> bs_ix k m i < 64"
  by (auto simp: swap_ix_def rot_ix_def bs_ix_def)

lemma lo_pair_swaps:
  "lo_pair s \<Longrightarrow> lo_pair (bit_swap 4 0x0F0F0F0F s)" "lo_pair s \<Longrightarrow> lo_pair (bit_swap 16 0x0000FFFF s)"
  "lo_pair s \<Longrightarrow> lo_pair (bit_swap 2 0x33333333 s)" "lo_pair s \<Longrightarrow> lo_pair (bit_swap 8 0x00FF00FF s)"
  "lo_pair s \<Longrightarrow> lo_pair (bit_swap 0 0xAAAAAAAA s)" for s
  by (rule lo_pair_steps(3); simp)+

lemma bitp_swaps:
  "i < 64 \<Longrightarrow> bitp (bit_swap 4 0x0F0F0F0F s) i = bitp s (bs_ix 4 0x0F0F0F0F i)"
  "i < 64 \<Longrightarrow> bitp (bit_swap 16 0x0000FFFF s) i = bitp s (bs_ix 16 0x0000FFFF i)"
  "i < 64 \<Longrightarrow> bitp (bit_swap 2 0x33333333 s) i = bitp s (bs_ix 2 0x33333333 i)"
  "i < 64 \<Longrightarrow> bitp (bit_swap 8 0x00FF00FF s) i = bitp s (bs_ix 8 0x00FF00FF i)"
  "i < 64 \<Longrightarrow> bitp (bit_swap 0 0xAAAAAAAA s) i = bitp s (bs_ix 0 0xAAAAAAAA i)"
  by (rule bitp_bit_swap; simp)+

lemma bitp_IP: "lo_pair s \<Longrightarrow> i < 64 \<Longrightarrow> bitp (IP s) i = bitp s (ip_ix i)"
  unfolding IP_def DES_IP_steps prod.collapse ip_ix_def
  by (simp only: bitp_swaps bitp_swap bitp_rot ix_less lo_pair_swaps lo_pair_steps(1,2) le_numeral_extra
      numeral_le_iff one_le_numeral semiring_norm zero_le_numeral)

lemma bitp_FP: "lo_pair s \<Longrightarrow> i < 64 \<Longrightarrow> bitp (FP s) i = bitp s (fp_ix i)"
  unfolding FP_def DES_FP_steps prod.collapse fp_ix_def
  by (simp only: bitp_swaps bitp_swap bitp_rot ix_less lo_pair_swaps lo_pair_steps(1,2) le_numeral_extra
      numeral_le_iff one_le_numeral semiring_norm zero_le_numeral)

text \<open>
  The bits of a half in the order of the standard: the program keeps the halves
  rotated by one. \<open>pos\<close> is where bit \<open>j\<close> of a block is in a loaded pair.
\<close>

definition half :: "u64 \<Rightarrow> bool list" where
  "half x = map (\<lambda>j. bit x ((32 - j) mod 32)) [0..<32]"

definition pos :: "nat \<Rightarrow> nat" where
  "pos j = (if j < 32 then 31 - j else 95 - j)"

definition half_pos :: "nat \<Rightarrow> nat" where
  "half_pos j = (if j < 32 then (32 - j) mod 32 else 32 + (64 - j) mod 32)"

lemma upt_32: "[0..<32] = [0, 1, 2, 3, 4, 5, 6, 7, 8, 9, 10, 11, 12, 13, 14, 15, 16, 17, 18, 19, 20, 21, 22, 23,
    24, 25, 26, 27, 28, 29, 30, 31]"
  by (simp add: upt_rec)

lemma upt_64: "[0..<64] = [0..<32] @ map (\<lambda>i. i + 32) [0..<32]"
  using upt_add_eq_append [of 0 32 32] map_add_upt [of 32 32] by simp

lemma bits_of_load: "length b = 8 \<Longrightarrow> bits_of b = map (\<lambda>j. bitp (load8 b) (pos j)) [0..<64]"
  by (erule list8) (simp add: bits_of_def upt_8 upt_64 upt_32 bitp_def pos_def load8_def bit_GET)

lemma halves_pos: "half (fst s) @ half (snd s) = map (\<lambda>j. bitp s (half_pos j)) [0..<64]"
  by (simp add: half_def upt_64 upt_32 bitp_def half_pos_def)

lemma length_half [simp]: "length (half x) = 32"
  by (simp add: half_def)

lemma length_bits_of: "length b = 8 \<Longrightarrow> length (bits_of b) = 64"
  by (simp add: bits_of_load)


lemma ip_positions: "map (\<lambda>j. ip_ix (half_pos j)) [0..<64] = map (\<lambda>i. pos (i - 1)) ip_table"
proof -
  have "map (\<lambda>j. ip_ix (half_pos j)) [0..<64] =
    map (bs_ix 4 0x0F0F0F0F) (map (bs_ix 16 0x0000FFFF) (map swap_ix (map (bs_ix 2 0x33333333)
      (map (bs_ix 8 0x00FF00FF) (map (rot_ix 1) (map (bs_ix 0 0xAAAAAAAA) (map swap_ix (map (rot_ix 1)
        (map half_pos [0..<64])))))))))"
    by (simp add: ip_ix_def comp_def)
  also have "\<dots> = map (\<lambda>i. pos (i - 1)) ip_table"
    by (simp add: upt_64 upt_32 ip_table_def pos_def half_pos_def bs_ix_def rot_ix_def swap_ix_def del: map_map)
  finally show ?thesis .
qed

lemma fp_positions: "map (\<lambda>j. fp_ix (pos j)) [0..<64] = map (\<lambda>i. half_pos (i - 1)) fp_table"
proof -
  have "map (\<lambda>j. fp_ix (pos j)) [0..<64] =
    map (rot_ix 31) (map swap_ix (map (bs_ix 0 0xAAAAAAAA) (map (rot_ix 31) (map (bs_ix 8 0x00FF00FF)
      (map (bs_ix 2 0x33333333) (map swap_ix (map (bs_ix 16 0x0000FFFF) (map (bs_ix 4 0x0F0F0F0F)
        (map pos [0..<64])))))))))"
    by (simp add: fp_ix_def comp_def)
  also have "\<dots> = map (\<lambda>i. half_pos (i - 1)) fp_table"
    by (simp add: upt_64 upt_32 fp_table_def pos_def half_pos_def bs_ix_def rot_ix_def swap_ix_def del: map_map)
  finally show ?thesis .
qed

lemma pos_less: "j < 64 \<Longrightarrow> pos j < 64" "j < 64 \<Longrightarrow> half_pos j < 64"
  by (auto simp: pos_def half_pos_def intro: order_less_trans [OF mod_less_divisor])

lemma tables_bounded:
  "list_all (\<lambda>i. i - 1 < 64) ip_table" "list_all (\<lambda>i. i - 1 < 64) fp_table"
  by (simp_all add: ip_table_def fp_table_def)

lemma permute_map:
  assumes "list_all (\<lambda>i. i - 1 < n) tab"
  shows "permute tab (map f [0..<n]) = map (\<lambda>i. f (i - 1)) tab"
  using assms by (simp add: permute_def list_all_iff)

lemma IP_standard:
  assumes "length b = 8"
  shows "half (fst (IP (load8 b))) @ half (snd (IP (load8 b))) = permute ip_table (bits_of b)"
proof -
  have "half (fst (IP (load8 b))) @ half (snd (IP (load8 b))) = map (bitp (load8 b)) (map (\<lambda>j. ip_ix (half_pos j)) [0..<64])"
    unfolding halves_pos by (simp add: bitp_IP pos_less)
  also have "\<dots> = permute ip_table (bits_of b)"
    unfolding ip_positions bits_of_load [OF assms] permute_map [OF tables_bounded(1)] by simp
  finally show ?thesis .
qed

lemma FP_standard:
  assumes "lo_pair s"
  shows "bits_of (store8 (FP s)) = permute fp_table (half (fst s) @ half (snd s))"
proof -
  have "bits_of (store8 (FP s)) = map (bitp s) (map (\<lambda>j. fp_ix (pos j)) [0..<64])"
    using assms by (simp add: bits_of_load load_store8 bitp_FP pos_less)
  also have "\<dots> = permute fp_table (half (fst s) @ half (snd s))"
    unfolding fp_positions halves_pos permute_map [OF tables_bounded(2)] by simp
  finally show ?thesis .
qed


section \<open>The S-boxes\<close>

text \<open>
  Where P takes the four output bits of each S-box, in the order of the halves of the
  program.
\<close>

definition spread1 :: "u64 list" where
  "spread1 = [
    0x00000000, 0x00000004, 0x00000400, 0x00000404, 0x00010000, 0x00010004, 0x00010400, 0x00010404,
    0x01000000, 0x01000004, 0x01000400, 0x01000404, 0x01010000, 0x01010004, 0x01010400, 0x01010404]"

definition spread2 :: "u64 list" where
  "spread2 = [
    0x00000000, 0x00008000, 0x80000000, 0x80008000, 0x00000020, 0x00008020, 0x80000020, 0x80008020,
    0x00100000, 0x00108000, 0x80100000, 0x80108000, 0x00100020, 0x00108020, 0x80100020, 0x80108020]"

definition spread3 :: "u64 list" where
  "spread3 = [
    0x00000000, 0x08000000, 0x00000008, 0x08000008, 0x00020000, 0x08020000, 0x00020008, 0x08020008,
    0x00000200, 0x08000200, 0x00000208, 0x08000208, 0x00020200, 0x08020200, 0x00020208, 0x08020208]"

definition spread4 :: "u64 list" where
  "spread4 = [
    0x00000000, 0x00000001, 0x00800000, 0x00800001, 0x00002000, 0x00002001, 0x00802000, 0x00802001,
    0x00000080, 0x00000081, 0x00800080, 0x00800081, 0x00002080, 0x00002081, 0x00802080, 0x00802081]"

definition spread5 :: "u64 list" where
  "spread5 = [
    0x00000000, 0x40000000, 0x00000100, 0x40000100, 0x00080000, 0x40080000, 0x00080100, 0x40080100,
    0x02000000, 0x42000000, 0x02000100, 0x42000100, 0x02080000, 0x42080000, 0x02080100, 0x42080100]"

definition spread6 :: "u64 list" where
  "spread6 = [
    0x00000000, 0x00004000, 0x00400000, 0x00404000, 0x00000010, 0x00004010, 0x00400010, 0x00404010,
    0x20000000, 0x20004000, 0x20400000, 0x20404000, 0x20000010, 0x20004010, 0x20400010, 0x20404010]"

definition spread7 :: "u64 list" where
  "spread7 = [
    0x00000000, 0x04000000, 0x00000800, 0x04000800, 0x00200000, 0x04200000, 0x00200800, 0x04200800,
    0x00000002, 0x04000002, 0x00000802, 0x04000802, 0x00200002, 0x04200002, 0x00200802, 0x04200802]"

definition spread8 :: "u64 list" where
  "spread8 = [
    0x00000000, 0x00001000, 0x00040000, 0x00041000, 0x00000040, 0x00001040, 0x00040040, 0x00041040,
    0x10000000, 0x10001000, 0x10040000, 0x10041000, 0x10000040, 0x10001040, 0x10040040, 0x10041040]"


definition sbox_ix :: "nat \<Rightarrow> nat" where
  "sbox_ix v = 16 * (2 * (v div 32) + v mod 2) + (v div 2) mod 16"

definition pad :: "nat \<Rightarrow> bool list \<Rightarrow> bool list" where
  "pad i bs = replicate (4 * i) False @ bs @ replicate (28 - 4 * i) False"

lemma SB1_spread: "SB1 = map (\<lambda>v. spread1 ! (S1 ! sbox_ix v)) [0..<64]"
  by (simp add: SB1_def spread1_def S1_def sbox_ix_def upt_64 upt_32)

lemma SB2_spread: "SB2 = map (\<lambda>v. spread2 ! (S2 ! sbox_ix v)) [0..<64]"
  by (simp add: SB2_def spread2_def S2_def sbox_ix_def upt_64 upt_32)

lemma SB3_spread: "SB3 = map (\<lambda>v. spread3 ! (S3 ! sbox_ix v)) [0..<64]"
  by (simp add: SB3_def spread3_def S3_def sbox_ix_def upt_64 upt_32)

lemma SB4_spread: "SB4 = map (\<lambda>v. spread4 ! (S4 ! sbox_ix v)) [0..<64]"
  by (simp add: SB4_def spread4_def S4_def sbox_ix_def upt_64 upt_32)

lemma SB5_spread: "SB5 = map (\<lambda>v. spread5 ! (S5 ! sbox_ix v)) [0..<64]"
  by (simp add: SB5_def spread5_def S5_def sbox_ix_def upt_64 upt_32)

lemma SB6_spread: "SB6 = map (\<lambda>v. spread6 ! (S6 ! sbox_ix v)) [0..<64]"
  by (simp add: SB6_def spread6_def S6_def sbox_ix_def upt_64 upt_32)

lemma SB7_spread: "SB7 = map (\<lambda>v. spread7 ! (S7 ! sbox_ix v)) [0..<64]"
  by (simp add: SB7_def spread7_def S7_def sbox_ix_def upt_64 upt_32)

lemma SB8_spread: "SB8 = map (\<lambda>v. spread8 ! (S8 ! sbox_ix v)) [0..<64]"
  by (simp add: SB8_def spread8_def S8_def sbox_ix_def upt_64 upt_32)

lemma spread1_P: "list_all (\<lambda>s. half (spread1 ! s) = permute p_table (pad 0 (nibble s))) [0..<16]"
  by (simp add: spread1_def upt_16 half_def upt_32 permute_def p_table_def pad_def nibble_def nth_append bit_Suc_0_iff)

lemma spread2_P: "list_all (\<lambda>s. half (spread2 ! s) = permute p_table (pad 1 (nibble s))) [0..<16]"
  by (simp add: spread2_def upt_16 half_def upt_32 permute_def p_table_def pad_def nibble_def nth_append bit_Suc_0_iff)

lemma spread3_P: "list_all (\<lambda>s. half (spread3 ! s) = permute p_table (pad 2 (nibble s))) [0..<16]"
  by (simp add: spread3_def upt_16 half_def upt_32 permute_def p_table_def pad_def nibble_def nth_append bit_Suc_0_iff)

lemma spread4_P: "list_all (\<lambda>s. half (spread4 ! s) = permute p_table (pad 3 (nibble s))) [0..<16]"
  by (simp add: spread4_def upt_16 half_def upt_32 permute_def p_table_def pad_def nibble_def nth_append bit_Suc_0_iff)

lemma spread5_P: "list_all (\<lambda>s. half (spread5 ! s) = permute p_table (pad 4 (nibble s))) [0..<16]"
  by (simp add: spread5_def upt_16 half_def upt_32 permute_def p_table_def pad_def nibble_def nth_append bit_Suc_0_iff)

lemma spread6_P: "list_all (\<lambda>s. half (spread6 ! s) = permute p_table (pad 5 (nibble s))) [0..<16]"
  by (simp add: spread6_def upt_16 half_def upt_32 permute_def p_table_def pad_def nibble_def nth_append bit_Suc_0_iff)

lemma spread7_P: "list_all (\<lambda>s. half (spread7 ! s) = permute p_table (pad 6 (nibble s))) [0..<16]"
  by (simp add: spread7_def upt_16 half_def upt_32 permute_def p_table_def pad_def nibble_def nth_append bit_Suc_0_iff)

lemma spread8_P: "list_all (\<lambda>s. half (spread8 ! s) = permute p_table (pad 7 (nibble s))) [0..<16]"
  by (simp add: spread8_def upt_16 half_def upt_32 permute_def p_table_def pad_def nibble_def nth_append bit_Suc_0_iff)

section \<open>The round\<close>

text \<open>Six bits of a word, the upper ones first, and the round key two words make.\<close>

definition six_of :: "u64 \<Rightarrow> nat \<Rightarrow> bool list" where
  "six_of w n = map (\<lambda>i. bit w (n + 5 - i)) [0..<6]"

definition kbits :: "u64 \<times> u64 \<Rightarrow> bool list" where
  "kbits k = six_of (snd k) 24 @ six_of (fst k) 24 @ six_of (snd k) 16 @ six_of (fst k) 16 @
    six_of (snd k) 8 @ six_of (fst k) 8 @ six_of (snd k) 0 @ six_of (fst k) 0"

lemma upt_6: "[0..<6] = [0, 1, 2, 3, 4, 5]"
  by (simp add: upt_rec)

lemma six_of_bits: "six_of w n = [bit w (n + 5), bit w (n + 4), bit w (n + 3), bit w (n + 2), bit w (n + 1), bit w n]"
  by (simp add: six_of_def upt_6 add.commute)

lemma length_kbits [simp]: "length (kbits k) = 48" "length (six_of w n) = 6"
  by (simp_all add: kbits_def six_of_def)

lemma xorb_append: "length xs = length xs' \<Longrightarrow> xorb (xs @ ys) (xs' @ ys') = xorb xs xs' @ xorb ys ys'"
  by (simp add: xorb_def)

lemma xorb_Cons: "xorb (x # xs) (y # ys) = (x \<noteq> y) # xorb xs ys" "xorb [] [] = []"
  by (simp_all add: xorb_def)

lemma flip_neq: "((a = (\<not> b)) = (b = (\<not> a))) = True"
  by blast

lemma expanded:
  assumes "lo32 X"
  shows "xorb (permute e_table (half X)) (kbits (k, k')) =
    (let T = k XOR X; T' = k' XOR (push_bit 28 X OR drop_bit 4 X)
     in six_of T' 24 @ six_of T 24 @ six_of T' 16 @ six_of T 16 @ six_of T' 8 @ six_of T 8 @ six_of T' 0 @ six_of T 0)"
proof -
  have "\<not> bit X 32" "\<not> bit X 33"
    using assms by (auto simp: lo32_def)
  then show ?thesis
    by (simp add: kbits_def six_of_bits Let_def permute_def e_table_def half_def upt_32 xorb_Cons bit_simps flip_neq Suc_Suc_0)
qed

lemma six_bits_nat: "unat (drop_bit n T AND 0x3F :: u64) = bits_nat (six_of T n)"
proof -
  have "unat (drop_bit n T AND 0x3F) = take_bit 6 (unat (drop_bit n T))"
    by (simp add: unsigned_and_eq take_bit_eq_mask mask_eq_exp_minus_1)
  also have "\<dots> = bits_nat (six_of T n)"
    by (simp add: eval_nat_numeral take_bit_Suc_from_most six_of_bits bits_nat_def bit_unsigned_iff bit_simps)
  finally show ?thesis .
qed


lemma bits_nat_less: "length b = 6 \<Longrightarrow> bits_nat b < 64"
  by (auto simp: length_Suc_conv eval_nat_numeral bits_nat_def)

lemma sbox_ix_bits:
  assumes "length b = 6"
  shows "16 * bits_nat [b ! 0, b ! 5] + bits_nat [b ! 1, b ! 2, b ! 3, b ! 4] = sbox_ix (bits_nat b)"
    and "sbox_ix (bits_nat b) < 64"
proof -
  obtain b0 b1 b2 b3 b4 b5 where b: "b = [b0, b1, b2, b3, b4, b5]"
    using assms by (auto simp: length_Suc_conv eval_nat_numeral)
  show "16 * bits_nat [b ! 0, b ! 5] + bits_nat [b ! 1, b ! 2, b ! 3, b ! 4] = sbox_ix (bits_nat b)"
    "sbox_ix (bits_nat b) < 64"
    by (cases b0; cases b1; cases b2; cases b3; cases b4; cases b5; simp add: b bits_nat_def sbox_ix_def)+
qed

lemma box_standard:
  assumes "SB = map (\<lambda>v. sp ! (S ! sbox_ix v)) [0..<64]"
    and "list_all (\<lambda>s. half (sp ! s) = permute p_table (pad i (nibble s))) [0..<16]"
    and "list_all (\<lambda>s. s < 16) S" and "length S = 64"
  shows "half (box6 SB T n) = permute p_table (pad i (sbox S (six_of T n)))"
proof -
  let ?v = "bits_nat (six_of T n)"
  have "S ! sbox_ix ?v < 16"
    using sbox_ix_bits(2) [of "six_of T n"] assms(3,4) by (simp add: list_all_length)
  moreover have "box6 SB T n = sp ! (S ! sbox_ix ?v)"
    using bits_nat_less [of "six_of T n"] by (simp add: box6_def six_bits_nat assms(1))
  ultimately show ?thesis
    using assms(2) sbox_ix_bits(1) [of "six_of T n"] by (simp add: list_all_iff sbox_def)
qed

lemma S_small:
  "list_all (\<lambda>s. s < 16) S1" "list_all (\<lambda>s. s < 16) S2" "list_all (\<lambda>s. s < 16) S3" "list_all (\<lambda>s. s < 16) S4"
  "list_all (\<lambda>s. s < 16) S5" "list_all (\<lambda>s. s < 16) S6" "list_all (\<lambda>s. s < 16) S7" "list_all (\<lambda>s. s < 16) S8"
  "length S1 = 64" "length S2 = 64" "length S3 = 64" "length S4 = 64"
  "length S5 = 64" "length S6 = 64" "length S7 = 64" "length S8 = 64"
  by (simp_all add: S1_def S2_def S3_def S4_def S5_def S6_def S7_def S8_def)

lemmas boxes_standard =
  box_standard [OF SB1_spread spread1_P S_small(1,9)] box_standard [OF SB2_spread spread2_P S_small(2,10)]
  box_standard [OF SB3_spread spread3_P S_small(3,11)] box_standard [OF SB4_spread spread4_P S_small(4,12)]
  box_standard [OF SB5_spread spread5_P S_small(5,13)] box_standard [OF SB6_spread spread6_P S_small(6,14)]
  box_standard [OF SB7_spread spread7_P S_small(7,15)] box_standard [OF SB8_spread spread8_P S_small(8,16)]

lemma half_xor: "half (a XOR b) = xorb (half a) (half b)"
  by (simp add: half_def upt_32 xorb_Cons bit_simps)

lemma permute_xorb:
  assumes "length xs = 32" and "length ys = 32"
  shows "permute p_table (xorb xs ys) = xorb (permute p_table xs) (permute p_table ys)"
proof -
  have "list_all (\<lambda>i. i - 1 < 32) p_table"
    by (simp add: p_table_def)
  then show ?thesis
    using assms by (simp add: permute_def xorb_def list_all_iff zip_map_map comp_def) (simp add: zip_same_conv_map)
qed

lemma xorb_pads:
  assumes "length q1 = 4" "length q2 = 4" "length q3 = 4" "length q4 = 4"
    and "length q5 = 4" "length q6 = 4" "length q7 = 4" "length q8 = 4"
  shows "xorb (xorb (pad 7 q8) (xorb (pad 5 q6) (xorb (pad 3 q4) (pad 1 q2))))
      (xorb (pad 6 q7) (xorb (pad 4 q5) (xorb (pad 2 q3) (pad 0 q1)))) =
    q1 @ q2 @ q3 @ q4 @ q5 @ q6 @ q7 @ q8"
proof -
  have r: "replicate 28 False = replicate 4 False @ replicate 24 False" "replicate 24 False = replicate 4 False @ replicate 20 False"
    "replicate 20 False = replicate 4 False @ replicate 16 False" "replicate 16 False = replicate 4 False @ replicate 12 False"
    "replicate 12 False = replicate 4 False @ replicate 8 False" "replicate 8 False = replicate 4 False @ replicate 4 False"
    "replicate 4 False = [False, False, False, False]"
    by (simp_all add: eval_nat_numeral)
  show ?thesis
    by (rule list4 [OF assms(1)], rule list4 [OF assms(2)], rule list4 [OF assms(3)], rule list4 [OF assms(4)],
        rule list4 [OF assms(5)], rule list4 [OF assms(6)], rule list4 [OF assms(7)], rule list4 [OF assms(8)])
      (simp add: pad_def xorb_Cons r)
qed

lemma length_des_sbox [simp]: "length (sbox S b) = 4"
  by (simp add: sbox_def nibble_def)

lemma length_pad [simp]: "length bs = 4 \<Longrightarrow> i \<le> 7 \<Longrightarrow> length (pad i bs) = 32"
  by (simp add: pad_def)

lemma length_xorb [simp]: "length (xorb xs ys) = min (length xs) (length ys)"
  by (simp add: xorb_def)

lemma DES_F_standard:
  assumes "lo32 X"
  shows "half (DES_F k X) = des_f (kbits k) (half X)"
proof -
  define T where "T = fst k XOR X"
  define T' where "T' = snd k XOR (push_bit 28 X OR drop_bit 4 X)"
  have B: "xorb (permute e_table (half X)) (kbits k) = six_of T' 24 @ six_of T 24 @ six_of T' 16 @ six_of T 16 @
      six_of T' 8 @ six_of T 8 @ six_of T' 0 @ six_of T 0"
    using expanded [OF assms, of "fst k" "snd k"] by (simp add: T_def T'_def Let_def)
  have "half (DES_F k X) = permute p_table (sbox S1 (six_of T' 24) @ sbox S2 (six_of T 24) @ sbox S3 (six_of T' 16) @
      sbox S4 (six_of T 16) @ sbox S5 (six_of T' 8) @ sbox S6 (six_of T 8) @ sbox S7 (six_of T' 0) @ sbox S8 (six_of T 0))"
    by (simp add: DES_F_def Let_def half_xor boxes_standard flip: T_def T'_def permute_xorb xorb_pads)
  then show ?thesis
    unfolding des_f_def B Let_def by (simp add: upt_8 sboxes_def)
qed

section \<open>The key schedule\<close>

text \<open>The 28 bits of a half of the key in the order of the standard.\<close>

definition cbits :: "u64 \<Rightarrow> bool list" where
  "cbits x = map (\<lambda>j. bit x (27 - j)) [0..<28]"

lemma upt_28: "[0..<28] = [0, 1, 2, 3, 4, 5, 6, 7, 8, 9, 10, 11, 12, 13, 14, 15, 16, 17, 18, 19, 20, 21, 22, 23,
    24, 25, 26, 27]"
  by (simp add: upt_rec)

lemma length_cbits [simp]: "length (cbits x) = 28"
  by (simp add: cbits_def)

text \<open>Which bits of the exchanged words each bit of the key halves is.\<close>

definition spread_ix :: "nat list" where
  "spread_ix = [
    35, 43, 51, 59, 39, 47, 55, 63, 34, 42, 50, 58, 38, 46,
    54, 62, 33, 41, 49, 57, 37, 45, 53, 61, 32, 40, 48, 56,
    1, 9, 17, 25, 5, 13, 21, 29, 2, 10, 18, 26, 6, 14,
    22, 30, 3, 11, 19, 27, 7, 15, 23, 31, 4, 12, 20, 28]"
lemma four_bits_nat: "unat (drop_bit n X AND 0xF :: u64) = bits_nat [bit X (n + 3), bit X (n + 2), bit X (n + 1), bit X n]"
proof -
  have "unat (drop_bit n X AND 0xF) = take_bit 4 (unat (drop_bit n X))"
    by (simp add: unsigned_and_eq take_bit_eq_mask mask_eq_exp_minus_1)
  also have "\<dots> = bits_nat [bit X (n + 3), bit X (n + 2), bit X (n + 1), bit X n]"
    by (simp add: eval_nat_numeral take_bit_Suc_from_most bits_nat_def bit_unsigned_iff bit_simps)
  finally show ?thesis .
qed

lemma lhs_nib_bits:
  "lhs_nib X n = of_bool (bit X n) OR push_bit 8 (of_bool (bit X (n + 1))) OR push_bit 16 (of_bool (bit X (n + 2)))
    OR push_bit 24 (of_bool (bit X (n + 3)))"
  unfolding lhs_nib_def four_bits_nat
  by (cases "bit X (n + 3)"; cases "bit X (n + 2)"; cases "bit X (n + 1)"; cases "bit X n"; simp add: bits_nat_def LHs_def)

lemma rhs_nib_bits:
  "rhs_nib X n = push_bit 24 (of_bool (bit X n)) OR push_bit 16 (of_bool (bit X (n + 1))) OR
    push_bit 8 (of_bool (bit X (n + 2))) OR of_bool (bit X (n + 3))"
  unfolding rhs_nib_def four_bits_nat
  by (cases "bit X (n + 3)"; cases "bit X (n + 2)"; cases "bit X (n + 1)"; cases "bit X n"; simp add: bits_nat_def RHs_def)

lemma bit_nibs:
  "bit (lhs_nib X n) m \<longleftrightarrow> m = 0 \<and> bit X n \<or> m = 8 \<and> bit X (n + 1) \<or> m = 16 \<and> bit X (n + 2) \<or> m = 24 \<and> bit X (n + 3)"
  "bit (rhs_nib X n) m \<longleftrightarrow> m = 24 \<and> bit X n \<or> m = 16 \<and> bit X (n + 1) \<or> m = 8 \<and> bit X (n + 2) \<or> m = 0 \<and> bit X (n + 3)"
  by (auto simp: lhs_nib_bits rhs_nib_bits bit_simps)

definition lhs_word :: "u64 \<Rightarrow> u64" where
  "lhs_word X = push_bit 3 (lhs_nib X 0) OR push_bit 2 (lhs_nib X 8)
           OR push_bit 1 (lhs_nib X 16) OR lhs_nib X 24
           OR push_bit 7 (lhs_nib X 5) OR push_bit 6 (lhs_nib X 13)
           OR push_bit 5 (lhs_nib X 21) OR push_bit 4 (lhs_nib X 29)"

definition rhs_word :: "u64 \<Rightarrow> u64" where
  "rhs_word Y = push_bit 3 (rhs_nib Y 1) OR push_bit 2 (rhs_nib Y 9)
           OR push_bit 1 (rhs_nib Y 17) OR rhs_nib Y 25
           OR push_bit 7 (rhs_nib Y 4) OR push_bit 6 (rhs_nib Y 12)
           OR push_bit 5 (rhs_nib Y 20) OR push_bit 4 (rhs_nib Y 28)"

lemma bit_times2: "bit (x * 2 :: u64) n \<longleftrightarrow> 0 < n \<and> n < 64 \<and> bit x (n - 1)"
  using bit_push_bit_iff [of 1 x n] by (auto simp: push_bit_eq_mult)

lemma spread_bits:
  "cbits (lhs_word (snd s) AND 0x0FFFFFFF) @ cbits (rhs_word (fst s) AND 0x0FFFFFFF) = map (bitp s) spread_ix"
  by (simp add: cbits_def upt_28 lhs_word_def rhs_word_def bit_simps bit_nibs bitp_def spread_ix_def bit_times2 Suc_Suc_0)

lemma des_pc1_steps:
  "des_pc1 key = (let s = bit_swap 0 0x10101010 (bit_swap 4 0x0F0F0F0F (prod.swap (load8 key)))
    in (lhs_word (snd s) AND 0x0FFFFFFF, rhs_word (fst s) AND 0x0FFFFFFF))"
proof -
  have c: "bit_swap 0 m (a, b) = prod.swap (bit_swap 0 m (b, a))" for m a b
    by (simp add: bit_swap_def Let_def xor.commute)
  show ?thesis
    unfolding des_pc1_def bit_swap_let
    by (simp add: Let_def lhs_word_def rhs_word_def load8_def split_def c [of _ "snd _" "fst _"])
qed

lemma pc1_positions:
  "map (\<lambda>i. swap_ix (bs_ix 4 0x0F0F0F0F (bs_ix 0 0x10101010 i))) spread_ix = map (\<lambda>i. pos (i - 1)) pc1_table"
proof -
  have "map (\<lambda>i. swap_ix (bs_ix 4 0x0F0F0F0F (bs_ix 0 0x10101010 i))) spread_ix =
      map swap_ix (map (bs_ix 4 0x0F0F0F0F) (map (bs_ix 0 0x10101010) spread_ix))"
    by simp
  also have "\<dots> = map (\<lambda>i. pos (i - 1)) pc1_table"
    by (simp add: spread_ix_def pc1_table_def pos_def bs_ix_def swap_ix_def del: map_map)
  finally show ?thesis .
qed

lemma PC1_standard:
  assumes "length key = 8"
  shows "cbits (fst (des_pc1 key)) @ cbits (snd (des_pc1 key)) = permute pc1_table (bits_of key)"
proof -
  have b: "list_all (\<lambda>i. i - 1 < 64) pc1_table" "list_all (\<lambda>i. i < 64) spread_ix"
    by (simp_all add: pc1_table_def spread_ix_def)
  have "lo32 (0x10101010 :: u64)"
    by (rule lo32_lit) (simp flip: mask32)
  then have s: "bitp (bit_swap 0 0x10101010 (bit_swap 4 0x0F0F0F0F (prod.swap (load8 key)))) i =
      bitp (load8 key) (swap_ix (bs_ix 4 0x0F0F0F0F (bs_ix 0 0x10101010 i)))" if "i < 64" for i
    using that by (simp add: bitp_bit_swap bitp_swap ix_less)
  have "cbits (fst (des_pc1 key)) @ cbits (snd (des_pc1 key)) =
      map (bitp (load8 key)) (map (\<lambda>i. swap_ix (bs_ix 4 0x0F0F0F0F (bs_ix 0 0x10101010 i))) spread_ix)"
    using b(2) by (simp add: des_pc1_steps Let_def spread_bits s list_all_iff)
  also have "\<dots> = permute pc1_table (bits_of key)"
    unfolding pc1_positions bits_of_load [OF assms] permute_map [OF b(1)] by simp
  finally show ?thesis .
qed


definition lo28 :: "u64 \<Rightarrow> bool" where
  "lo28 x \<longleftrightarrow> (\<forall>n. bit x n \<longrightarrow> n < 28)"

lemma lo28_mask [simp]: "lo28 (x AND 0x0FFFFFFF)"
proof -
  have "(0x0FFFFFFF :: u64) = mask 28"
    by (simp add: mask_eq_exp_minus_1)
  then show ?thesis
    unfolding lo28_def by (simp only: bit_and_iff bit_mask_iff) simp
qed

lemma rotate_2: "rotate 2 xs = rotate1 (rotate1 xs)"
  by (simp add: numeral_2_eq_2)

lemma key_rotate_bits:
  assumes "lo28 X"
  shows "cbits (key_rotate i X) = rotate (if i < 2 \<or> i = 8 \<or> i = 15 then 1 else 2) (cbits X)"
proof -
  have h: "\<not> bit X n" if "28 \<le> n" for n
    using assms that by (auto simp: lo28_def)
  show ?thesis
    by (simp add: key_rotate_def rotate_2 cbits_def upt_28 bit_simps bit_times2 Suc_Suc_0 h)
qed

lemma lo28_rotate [simp]: "lo28 (key_rotate i X)"
  by (simp add: key_rotate_def)

lemma PC2_standard: "kbits (subkey_even X Y, subkey_odd X Y) = permute pc2_table (cbits X @ cbits Y)"
  by (simp add: kbits_def six_of_bits subkey_even_def subkey_odd_def permute_def pc2_table_def cbits_def upt_28
      bit_simps bit_times2 Suc_Suc_0)


lemma sk_pairs_Cons: "sk_pairs (a # b # SK) 0 (Suc n) = (a, b) # sk_pairs SK 0 n"
  by (simp add: sk_pairs_def map_upt_Suc del: upt_Suc)

lemma key_shift_nth: "i < 16 \<Longrightarrow> key_shifts ! i = (if i < 2 \<or> i = 8 \<or> i = 15 then 1 else 2)"
proof -
  have "list_all (\<lambda>i. key_shifts ! i = (if i < 2 \<or> i = 8 \<or> i = 15 then 1 else 2)) [0..<16]"
    by code_simp
  then show "i < 16 \<Longrightarrow> key_shifts ! i = (if i < 2 \<or> i = 8 \<or> i = 15 then 1 else 2)"
    by (simp only: list_all_iff set_upt atLeastLessThan_iff) simp
qed

lemma subkeys_standard:
  "lo28 X \<Longrightarrow> lo28 Y \<Longrightarrow> i + n = 16 \<Longrightarrow>
    map kbits (sk_pairs (subkey_loop i n X Y) 0 n) = std_key_loop (drop i key_shifts) (cbits X) (cbits Y)"
proof (induction n arbitrary: i X Y)
  case 0
  then show ?case
    by (simp add: sk_pairs_def key_shifts_def)
next
  case (Suc n)
  have l: "length key_shifts = 16"
    by (simp add: key_shifts_def)
  have "drop i key_shifts = key_shifts ! i # drop (Suc i) key_shifts"
    using Suc.prems l by (simp add: Cons_nth_drop_Suc)
  then show ?case
    using Suc.IH [of "key_rotate i X" "key_rotate i Y" "Suc i"] Suc.prems
    by (simp add: Let_def sk_pairs_Cons PC2_standard key_rotate_bits key_shift_nth)
qed

lemma des_keys_standard:
  assumes "length key = 8"
  shows "map kbits (des_keys key) = std_keys (bits_of key)"
proof -
  obtain X Y where xy: "des_pc1 key = (X, Y)"
    by (cases "des_pc1 key")
  then have lo: "lo28 X" "lo28 Y"
    by (auto simp: des_pc1_steps Let_def)
  have p: "permute pc1_table (bits_of key) = cbits X @ cbits Y"
    using PC1_standard [OF assms] xy by simp
  show ?thesis
    using subkeys_standard [OF lo, of 0 16] by (simp add: des_keys_def des_setkey_def xy std_keys_def p)
qed

lemma feistel_standard:
  "lo_pair s \<Longrightarrow> feistel des_f xorb (map kbits ks) (half (fst s), half (snd s)) =
    (half (fst (feistel DES_F (XOR) ks s)), half (snd (feistel DES_F (XOR) ks s)))"
proof (induction ks arbitrary: s)
  case (Cons k ks)
  obtain l r where s: "s = (l, r)"
    by (cases s)
  have "lo_pair (r, l XOR DES_F k r)"
    using Cons.prems by (simp add: s lo_pair_def)
  then show ?case
    using Cons.IH [of "(r, l XOR DES_F k r)"] Cons.prems
    by (simp add: s lo_pair_def half_xor DES_F_standard)
qed simp

lemma des_block_standard:
  assumes "length b = 8"
  shows "bits_of (des_block ks b) = std_des (map kbits ks) (bits_of b)"
proof -
  define s where "s = IP (load8 b)"
  define t where "t = feistel DES_F (XOR) ks s"
  have lo: "lo_pair s" "lo_pair t"
    by (simp_all add: s_def t_def)
  have "permute ip_table (bits_of b) = half (fst s) @ half (snd s)"
    using IP_standard [OF assms] by (simp add: s_def)
  then have "std_des (map kbits ks) (bits_of b) = permute fp_table (half (snd t) @ half (fst t))"
    using feistel_standard [OF lo(1), of ks] by (simp add: std_des_def Let_def t_def)
  also have "\<dots> = bits_of (store8 (FP (prod.swap t)))"
    using FP_standard [of "prod.swap t"] lo by simp
  finally show ?thesis
    by (simp add: des_block_def s_def t_def)
qed

section \<open>The standard\<close>

text \<open>
  C10: \<open>des_crypt_ecb\<close> under \<open>des_setkey_enc\<close> is the encryption of the DES standard and under
  \<open>des_setkey_dec\<close> its decryption, the same rounds with the round keys reversed.
\<close>
theorem des_is_standard:
  assumes "length key = 8" and "length b = 8" and "length (sk ctx) = 32"
  shows "bits_of (des_crypt_ecb (des_setkey_enc ctx key) b) = std_des (std_keys (bits_of key)) (bits_of b) \<and>
    bits_of (des_crypt_ecb (des_setkey_dec ctx key) b) = std_des (rev (std_keys (bits_of key))) (bits_of b)"
  using assms by (simp add: des_enc_block des_dec_block des_block_standard rev_map flip: des_keys_standard)

theorem des_is_standard_witness:
  "bits_of (des_crypt_ecb (des_setkey_enc \<lparr>ctx_mode = 0, sk = replicate 32 0\<rparr> [0x13, 0x34, 0x57, 0x79, 0x9B, 0xBC, 0xDF, 0xF1])
      [0x01, 0x23, 0x45, 0x67, 0x89, 0xAB, 0xCD, 0xEF]) =
    std_des (std_keys (bits_of [0x13, 0x34, 0x57, 0x79, 0x9B, 0xBC, 0xDF, 0xF1]))
      (bits_of [0x01, 0x23, 0x45, 0x67, 0x89, 0xAB, 0xCD, 0xEF])"
  using des_is_standard [of "[0x13, 0x34, 0x57, 0x79, 0x9B, 0xBC, 0xDF, 0xF1]"
        "[0x01, 0x23, 0x45, 0x67, 0x89, 0xAB, 0xCD, 0xEF]" "\<lparr>ctx_mode = 0, sk = replicate 32 0\<rparr>"] by simp

section \<open>Weak keys\<close>

text \<open>The halves PC1 makes of the keys of the table, in its order.\<close>

definition weak_halves :: "(u64 \<times> u64) list" where
  "weak_halves = [
    (0, 0), (0xFFFFFFF, 0xFFFFFFF), (0, 0xFFFFFFF), (0xFFFFFFF, 0),
    (0, 0xAAAAAAA), (0, 0x5555555), (0xAAAAAAA, 0), (0x5555555, 0),
    (0xAAAAAAA, 0xAAAAAAA), (0x5555555, 0x5555555), (0xAAAAAAA, 0x5555555), (0x5555555, 0xAAAAAAA),
    (0xAAAAAAA, 0xFFFFFFF), (0x5555555, 0xFFFFFFF), (0xFFFFFFF, 0xAAAAAAA), (0xFFFFFFF, 0x5555555)]"

lemma cbits_inject:
  assumes "lo28 X" and "lo28 X'" and "cbits X = cbits X'"
  shows "X = X'"
proof (rule bit_word_eqI)
  fix n
  have "bit X (27 - j) = bit X' (27 - j)" if "j < 28" for j
    using assms(3) that by (simp add: cbits_def)
  from this [of "27 - n"] show "bit X n = bit X' n"
    using assms(1,2) by (cases "n < 28") (auto simp: lo28_def)
qed

lemma des_pc1_eq:
  assumes "length key = 8" and "permute pc1_table (bits_of key) = cbits a @ cbits b" and "lo28 a" and "lo28 b"
  shows "des_pc1 key = (a, b)"
  using PC1_standard [OF assms(1)] assms(2-4)
  by (cases "des_pc1 key") (auto simp: des_pc1_steps Let_def intro!: cbits_inject)

lemma weak_length: "list_all (\<lambda>k. length k = 8) weak_key_table"
  by (simp add: weak_key_table_def)

lemma pc1_weak_0:
  "map (\<lambda>k. permute pc1_table (bits_of k)) (take 4 (drop 0 weak_key_table)) =
    map (\<lambda>(a, b). cbits a @ cbits b) (take 4 (drop 0 weak_halves))"
  by (simp add: weak_key_table_def weak_halves_def bits_of_def upt_8 permute_def pc1_table_def cbits_def upt_28)

lemma pc1_weak_1:
  "map (\<lambda>k. permute pc1_table (bits_of k)) (take 4 (drop 4 weak_key_table)) =
    map (\<lambda>(a, b). cbits a @ cbits b) (take 4 (drop 4 weak_halves))"
  by (simp add: weak_key_table_def weak_halves_def bits_of_def upt_8 permute_def pc1_table_def cbits_def upt_28)

lemma pc1_weak_2:
  "map (\<lambda>k. permute pc1_table (bits_of k)) (take 4 (drop 8 weak_key_table)) =
    map (\<lambda>(a, b). cbits a @ cbits b) (take 4 (drop 8 weak_halves))"
  by (simp add: weak_key_table_def weak_halves_def bits_of_def upt_8 permute_def pc1_table_def cbits_def upt_28)

lemma pc1_weak_3:
  "map (\<lambda>k. permute pc1_table (bits_of k)) (take 4 (drop 12 weak_key_table)) =
    map (\<lambda>(a, b). cbits a @ cbits b) (take 4 (drop 12 weak_halves))"
  by (simp add: weak_key_table_def weak_halves_def bits_of_def upt_8 permute_def pc1_table_def cbits_def upt_28)

lemma lo28_lit: "x AND 0x0FFFFFFF = x \<Longrightarrow> lo28 x"
  using lo28_mask [of x] by simp

lemma pc1_weak: "i < 16 \<Longrightarrow> des_pc1 (weak_key_table ! i) = weak_halves ! i"
proof -
  assume i: "i < 16"
  have l: "length weak_halves = 16" and m: "list_all (\<lambda>(a, b). lo28 a \<and> lo28 b) weak_halves"
    by (simp_all add: weak_halves_def lo28_lit)
  have "permute pc1_table (bits_of (weak_key_table ! i)) = (case weak_halves ! i of (a, b) \<Rightarrow> cbits a @ cbits b)"
  proof -
    have "take 4 (drop (4 * j) xs) ! k = xs ! (4 * j + k)" if "4 * j + k < length xs" "k < 4" for xs :: "'a list" and j k
      using that by simp
    define j k where "j = i div 4" and "k = i mod 4"
    have ik: "i = 4 * j + k" "k < 4" "j < 4"
      using i by (simp_all add: j_def k_def)
    have "map (\<lambda>k. permute pc1_table (bits_of k)) (take 4 (drop (4 * j) weak_key_table)) ! k =
        map (\<lambda>(a, b). cbits a @ cbits b) (take 4 (drop (4 * j) weak_halves)) ! k"
      using ik(3) pc1_weak_0 pc1_weak_1 pc1_weak_2 pc1_weak_3
      by (auto simp: less_Suc_eq numeral_eq_Suc)
    then show ?thesis
      using ik i l by simp
  qed
  then show ?thesis
    using i l m weak_length by (cases "weak_halves ! i") (auto simp: list_all_length intro!: des_pc1_eq)
qed


text \<open>Halves that a rotation by one exchanges with \<open>X'\<close> and a rotation by two keeps.\<close>

definition alternates :: "u64 \<Rightarrow> u64 \<Rightarrow> bool" where
  "alternates X X' \<longleftrightarrow> (\<forall>i. key_rotate i X = (if i < 2 \<or> i = 8 \<or> i = 15 then X' else X) \<and>
    key_rotate i X' = (if i < 2 \<or> i = 8 \<or> i = 15 then X else X'))"

lemma alternates_weak:
  "alternates 0 0" "alternates 0xFFFFFFF 0xFFFFFFF" "alternates 0xAAAAAAA 0x5555555" "alternates 0x5555555 0xAAAAAAA"
  by (auto simp: alternates_def key_rotate_def)

lemma subkey_loop_alternates:
  assumes "alternates X X'" and "alternates Y Y'"
  shows "sk_pairs (subkey_loop 0 16 X Y) 0 16 =
    (let k = (subkey_even X Y, subkey_odd X Y); k' = (subkey_even X' Y', subkey_odd X' Y')
     in k' # replicate 7 k @ replicate 7 k' @ [k])"
proof -
  have step: "sk_pairs (subkey_loop i (Suc n) A B) 0 (Suc n) =
      (subkey_even (key_rotate i A) (key_rotate i B), subkey_odd (key_rotate i A) (key_rotate i B)) #
        sk_pairs (subkey_loop (i + 1) n (key_rotate i A) (key_rotate i B)) 0 n" for i n A B
    by (simp add: Let_def sk_pairs_Cons)
  have "(16 :: nat) = Suc (Suc (Suc (Suc (Suc (Suc (Suc (Suc (Suc (Suc (Suc (Suc (Suc (Suc (Suc (Suc 0)))))))))))))))"
    by simp
  moreover have "sk_pairs xs 0 0 = []" for xs
    by (simp add: sk_pairs_def)
  ultimately show ?thesis
    using assms unfolding alternates_def
    by (simp only: step) (simp add: Let_def eval_nat_numeral)
qed

lemma weak_keys_reversed:
  assumes "alternates X X'" and "alternates Y Y'" and "des_pc1 k = (X, Y)" and "des_pc1 k' = (X', Y')"
  shows "des_keys k' = rev (des_keys k)"
proof -
  have "alternates X' X" "alternates Y' Y"
    using assms(1,2) by (simp_all add: alternates_def)
  then show ?thesis
    using subkey_loop_alternates [OF assms(1,2)] subkey_loop_alternates [of X' X Y' Y] assms(3,4)
    by (simp add: des_keys_def des_setkey_def Let_def)
qed

definition weak_mate :: "nat \<Rightarrow> nat" where
  "weak_mate i = (if i < 4 then i else if even i then i + 1 else i - 1)"

lemma weak_schedule:
  assumes "i < 16"
  shows "des_keys (weak_key_table ! weak_mate i) = rev (des_keys (weak_key_table ! i))"
proof -
  have "list_all (\<lambda>i. weak_mate i < 16 \<and>
      alternates (fst (weak_halves ! i)) (fst (weak_halves ! weak_mate i)) \<and>
      alternates (snd (weak_halves ! i)) (snd (weak_halves ! weak_mate i))) [0..<16]"
    by (simp add: upt_16 weak_mate_def weak_halves_def alternates_weak)
  then have m: "weak_mate i < 16" "alternates (fst (weak_halves ! i)) (fst (weak_halves ! weak_mate i))"
      "alternates (snd (weak_halves ! i)) (snd (weak_halves ! weak_mate i))"
    using assms by (simp_all add: list_all_iff)
  show ?thesis
    using weak_keys_reversed [OF m(2,3)] pc1_weak [OF assms] pc1_weak [OF m(1)] by simp
qed

text \<open>
  The keys \<open>des_key_check_weak\<close> refuses are the weak and semi-weak keys: encryption
  under each of the first four undoes itself, the others come in pairs each of which
  undoes encryption under the other. Every key with other bytes passes the check.
\<close>
theorem des_weak_keys:
  assumes "i < 16" and "length b = 8"
  shows "des_key_check_weak (weak_key_table ! i) = 1 \<and>
    des_crypt_ecb (des_setkey_enc ctx (weak_key_table ! weak_mate i))
      (des_crypt_ecb (des_setkey_enc ctx (weak_key_table ! i)) b) = b \<and>
    (des_key_check_weak key = 0 \<longleftrightarrow> take 8 key \<notin> set weak_key_table)"
  using assms weak_length
  by (auto simp: des_key_check_weak_def des_enc_block weak_schedule des_block_back list_all_length in_set_conv_nth)

theorem des_weak_keys_witness:
  "des_crypt_ecb (des_setkey_enc \<lparr>ctx_mode = 0, sk = replicate 32 0\<rparr> [0x1F, 0x01, 0x1F, 0x01, 0x0E, 0x01, 0x0E, 0x01])
    (des_crypt_ecb (des_setkey_enc \<lparr>ctx_mode = 0, sk = replicate 32 0\<rparr> [0x01, 0x1F, 0x01, 0x1F, 0x01, 0x0E, 0x01, 0x0E]) (replicate 8 0)) = replicate 8 0"
  using des_weak_keys [of 4 "replicate 8 0" "\<lparr>ctx_mode = 0, sk = replicate 32 0\<rparr>"] by (simp add: weak_mate_def weak_key_table_def)

end
