(* ===== verification/PosDecode.thy ===== *)
theory PosDecode
  imports Des
begin

text \<open>
  The card-number decoder of \<open>test_tripleDesCbc/main.c\<close>: the key derived from a time
  stamp, the four-bit rotations, \<open>DecodeData_POS\<close>, \<open>DualDecode_ENC\<close> and the hexadecimal
  reader.
\<close>

section \<open>Byte operations\<close>

text \<open>
  \<open>XOR(k + a, k + b, size)\<close> on one array: the byte at \<open>b + i\<close> may have been changed by an
  earlier turn.
\<close>

definition XOR_bytes :: "nat \<Rightarrow> nat \<Rightarrow> nat \<Rightarrow> u8 list \<Rightarrow> u8 list" where
  "XOR_bytes a b n k = fold (\<lambda>i k. k[a + i := k ! (a + i) XOR k ! (b + i)]) [0..<n] k"

text \<open>The return value and the array \<open>out\<close> afterwards; \<open>in\<close> and \<open>out\<close> do not overlap.\<close>

definition nibbles :: "u8 \<Rightarrow> u8 \<Rightarrow> u8" where
  "nibbles lo hi = push_bit 4 (lo AND 0x0F) + drop_bit 4 (hi AND 0xF0)"

definition ShiftRight_4bit :: "u8 list \<Rightarrow> u8 list \<Rightarrow> int \<Rightarrow> c_fault + (u8 \<times> u8 list)" where
  "ShiftRight_4bit inp out len =
    (if len < 1 then Inr (0, out)
     else let n = nat len in
       if length inp < n \<or> length out < n then Inl Out_of_bounds
       else
         let first = inp ! 0; final = inp ! (n - 1);
             out = fold (\<lambda>i out. out[i := nibbles (inp ! i) (inp ! (i + 1))]) [0..<n - 1] out
         in Inr (1, out[n - 1 := nibbles final first]))"

definition ShiftLeft_4bit :: "u8 list \<Rightarrow> u8 list \<Rightarrow> int \<Rightarrow> c_fault + (u8 \<times> u8 list)" where
  "ShiftLeft_4bit inp out len =
    (if len < 1 then Inr (0, out)
     else let n = nat len in
       if length inp < n \<or> length out < n then Inl Out_of_bounds
       else
         let first = inp ! 0; final = inp ! (n - 1);
             out = fold (\<lambda>i out. out[i := nibbles (inp ! (i - 1)) (inp ! i)]) [1..<n] out
         in Inr (1, out[0 := nibbles final first]))"

section \<open>The key\<close>

text \<open>\<open>(ct[i] - 0x30) % 10\<close> of type \<open>int\<close>, truncated towards zero, stored in a byte.\<close>

definition time_digit :: "u8 \<Rightarrow> u8" where
  "time_digit c = word_of_int ((uint c - 0x30) smod 10)"

definition rnd :: "u8 \<Rightarrow> u8 \<Rightarrow> u8" where
  "rnd i j = pRND ! unat i ! unat j"

text \<open>\<open>pRND\<close> has sixteen rows of sixteen; every entry of \<open>ct\<close> but \<open>ct[7]\<close> is an index into it.\<close>

definition indices_ok :: "u8 list \<Rightarrow> bool" where
  "indices_ok ct \<longleftrightarrow> list_all (\<lambda>i. ct ! i < 16) [0, 1, 2, 3, 4, 5, 6, 8, 9, 10, 11, 12, 13]"

definition raw_key :: "u8 list \<Rightarrow> u8 list" where
  "raw_key ct =
    (let m = rnd 5 (ct ! 13);
         k2 = m XOR (rnd 5 (ct ! 10) + rnd 13 (ct ! 6) + rnd 4 6);
         k4 = m XOR (rnd 1 15 XOR rnd 7 (ct ! 2) XOR rnd (ct ! 11) 3)
     in [m XOR (rnd (ct ! 9) 5 + rnd 10 10),
         m XOR ((rnd (ct ! 12) 0 XOR rnd 1 11) + (rnd 0 8 OR rnd 14 7)),
         k2,
         m XOR rnd 7 4 XOR (rnd 11 (ct ! 8) OR rnd 0 9),
         k4,
         m XOR (rnd 7 11 + rnd 2 (ct ! 8)) XOR rnd 10 10,
         m XOR rnd 15 0 XOR (rnd 13 6 OR rnd 10 0),
         m XOR ((k2 XOR k4) + rnd 11 (ct ! 0)),
         m XOR (rnd 5 15 + rnd (ct ! 10) 8),
         m XOR (rnd 1 11 + rnd 9 0 + rnd 8 7),
         m XOR (rnd 9 (ct ! 13) + rnd 0 5 + rnd 1 1),
         m XOR (rnd 7 2 + rnd (ct ! 3) 2 + rnd 15 13),
         m XOR rnd 2 6 XOR (rnd 6 13 + rnd 2 0),
         m XOR (rnd 1 7 OR rnd 10 2 OR rnd (ct ! 1) 6),
         m XOR (rnd 2 15 + rnd 12 11 + rnd 2 (ct ! 4)),
         m XOR (rnd 10 2 + rnd 1 (ct ! 10) + rnd 1 9),
         m XOR rnd 15 (ct ! 5) XOR rnd 11 3 XOR rnd 10 1,
         m XOR (rnd 10 8 + rnd 9 (ct ! 9)),
         m XOR (rnd 3 0 + rnd 0 1 + rnd 3 1),
         m XOR (rnd 1 12 + rnd 3 9 + rnd (ct ! 12) 4),
         m XOR (rnd (ct ! 6) (ct ! 3) + rnd 4 3 + rnd 1 0),
         m XOR (rnd 4 10 + rnd 2 13) XOR rnd 3 0,
         m XOR rnd 1 (ct ! 10) XOR rnd 13 7 XOR rnd 14 13,
         m XOR (rnd 8 (ct ! 13) OR rnd (ct ! 12) 0) XOR rnd 15 13])"

text \<open>
  \<open>shift(k + off, ctmp, n); memcpy(k + off, ctmp, n)\<close> with a scratch array of ten bytes.
\<close>

definition shift_at :: "(u8 list \<Rightarrow> u8 list \<Rightarrow> int \<Rightarrow> c_fault + (u8 \<times> u8 list)) \<Rightarrow> nat \<Rightarrow> nat \<Rightarrow>
    u8 list \<times> u8 list \<Rightarrow> c_fault + (u8 list \<times> u8 list)" where
  "shift_at shift off n s =
    (case s of (k, ctmp) \<Rightarrow>
      (case shift (drop off k) ctmp (int n) of
         Inl e \<Rightarrow> Inl e
       | Inr (_, ctmp) \<Rightarrow> Inr (write_at k off (take n ctmp), ctmp)))"

definition mix_key :: "u8 list \<Rightarrow> u8 list \<Rightarrow> c_fault + u8 list" where
  "mix_key ctmp k =
    (let k = XOR_bytes 3 13 5 k in
     bind_fault (shift_at ShiftLeft_4bit 1 10 (k, ctmp)) (\<lambda>s.
     bind_fault (shift_at ShiftRight_4bit 20 3 s) (\<lambda>(k, ctmp).
     let k = XOR_bytes 11 6 10 k in
     bind_fault (shift_at ShiftRight_4bit 15 8 (k, ctmp)) (\<lambda>s.
     bind_fault (shift_at ShiftLeft_4bit 8 5 s) (\<lambda>(k, _). Inr k)))))"

text \<open>
  The return value, the array \<open>ct\<close> (overwritten by its digits) and the 24 bytes of the
  key. \<open>ctmp\<close> is what the scratch array holds on entry.
\<close>

definition GetKey :: "u8 list \<Rightarrow> u8 list \<Rightarrow> c_fault + (int \<times> u8 list \<times> u8 list)" where
  "GetKey ctmp ct =
    (if length ct < 14 then Inl Out_of_bounds
     else
       let ct = map time_digit (take 14 ct) @ drop 14 ct in
       if \<not> indices_ok ct then Inl Out_of_bounds
       else case mix_key ctmp (raw_key ct) of Inl e \<Rightarrow> Inl e | Inr k \<Rightarrow> Inr (24, ct, k))"

section \<open>The decoder\<close>

text \<open>
  \<open>pData\<close>, \<open>junk\<close> and \<open>ctx\<close> are what the local arrays hold on entry. The return value, the
  time stamp and the output buffer.
\<close>

definition DecodeData_POS :: "u8 list \<Rightarrow> u8 list \<Rightarrow> u64 list \<Rightarrow> des3_context \<Rightarrow>
    u8 list \<Rightarrow> u8 list \<Rightarrow> int \<Rightarrow> u8 list \<Rightarrow> c_fault + (int \<times> u8 list \<times> u8 list)" where
  "DecodeData_POS ctmp pData junk ctx time inbuf ninbuf outbuf =
    (case GetKey ctmp time of
       Inl e \<Rightarrow> Inl e
     | Inr (len, time, key) \<Rightarrow>
         if ninbuf < 16 then Inr (-3, time, outbuf)
         else
           let IV = [0, 1, 2, 3, 4, 5, 6, 7];
               len = (if len mod 8 \<noteq> 0 then len + (8 - len mod 8) else len)
           in case de_3des_cbc junk ctx pData inbuf key TYPE_3KEY IV (word_of_int len) DES_DECRYPT of
                Inl e \<Rightarrow> Inl e
              | Inr (_, _, pData) \<Rightarrow>
                  if pData ! 0 = 0x44 \<and> pData ! 1 = 0x45 then
                    (if length outbuf < 16 then Inl Out_of_bounds
                     else Inr (16, time, write_at outbuf 0 (take 16 (drop 3 pData))))
                  else Inr (-1, time, outbuf))"

text \<open>The call that would decrypt is commented out: \<open>pData\<close> keeps what it held on entry.\<close>

definition DualDecode_ENC :: "u8 list \<Rightarrow> u8 list \<Rightarrow> u8 list \<Rightarrow> u8 list \<Rightarrow> int \<Rightarrow> u8 list \<Rightarrow>
    c_fault + (int \<times> u8 list \<times> u8 list)" where
  "DualDecode_ENC ctmp pData time inbuf ninbuf outbuf =
    (case GetKey ctmp time of
       Inl e \<Rightarrow> Inl e
     | Inr (_, time, _) \<Rightarrow>
         if pData ! 0 = 0x44 \<and> pData ! 1 = 0x45 then
           let n = unat (pData ! 2)
           in if length outbuf < n then Inl Out_of_bounds
              else Inr (int n, time, write_at outbuf 0 (take n (drop 3 pData)))
         else Inr (-1, time, outbuf))"

section \<open>Hexadecimal input\<close>

definition hex_value :: "u8 \<Rightarrow> u8" where
  "hex_value a =
    (if 0x30 \<le> a \<and> a \<le> 0x39 then a - 0x30
     else if 0x61 \<le> a \<and> a \<le> 0x66 then a - 0x57
     else a - 0x37)"

definition ASCII2HEX :: "u8 list \<Rightarrow> u8" where
  "ASCII2HEX str = push_bit 4 (hex_value (str ! 0)) OR hex_value (str ! 1)"

text \<open>
  \<open>str\<close> is the memory of the string, its terminator included. The string and \<open>hex\<close>
  afterwards: a string of odd length is extended in place.
\<close>

definition STRING2HEX :: "u8 list \<Rightarrow> u8 list \<Rightarrow> c_fault + (u8 list \<times> u8 list)" where
  "STRING2HEX str hex =
    (let len = c_strlen str in
     if len = length str then Inl Out_of_bounds
     else if len mod 2 \<noteq> 0 \<and> length str < len + 2 then Inl Out_of_bounds
     else
       let str = (if len mod 2 \<noteq> 0 then str[len := 0x30, len + 1 := 0] else str);
           len = (if len mod 2 \<noteq> 0 then len + 1 else len)
       in if length hex < len div 2 then Inl Out_of_bounds
          else Inr (str, write_at hex 0 (map (\<lambda>i. ASCII2HEX (take 2 (drop (i * 2) str))) [0..<len div 2])))"

section \<open>The rotations\<close>

lemma nibbles_parts:
  "drop_bit 4 (nibbles a b) = a AND 0xF" "nibbles a b AND 0xF = drop_bit 4 b"
proof -
  have m: "(0xF :: u8) = mask 4" "(0xF0 :: u8) = push_bit 4 (mask 4)"
    by (simp_all add: mask_eq_exp_minus_1)
  have n: "nibbles a b = push_bit 4 (a AND mask 4) OR drop_bit 4 (b AND push_bit 4 (mask 4))"
    unfolding nibbles_def m by (rule disjunctive_add_eq_or) (auto simp: bit_eq_iff bit_simps)
  have h: "bit b (4 + k) \<Longrightarrow> k < 4" for k
    using bit_imp_le_length [of b "4 + k"] by simp
  show "drop_bit 4 (nibbles a b) = a AND 0xF" "nibbles a b AND 0xF = drop_bit 4 b"
    unfolding n m by (auto intro!: bit_word_eqI simp: bit_simps dest: h)
qed

lemma byte_nibbles: "drop_bit 4 a = drop_bit 4 b \<Longrightarrow> a AND 0xF = b AND 0xF \<Longrightarrow> a = (b :: u8)"
proof -
  assume h: "drop_bit 4 a = drop_bit 4 b" "a AND 0xF = b AND 0xF"
  have m: "(0xF :: u8) = mask 4"
    by (simp add: mask_eq_exp_minus_1)
  have "push_bit 4 (drop_bit 4 a) OR (a AND mask 4) = a" for a :: u8
    by (rule bit_word_eqI) (auto simp: bit_simps)
  then show ?thesis
    using h by (metis m)
qed

definition nib_list :: "u8 list \<Rightarrow> u8 list" where
  "nib_list bs = concat (map (\<lambda>b. [drop_bit 4 b, b AND 0xF]) bs)"

lemma nib_list_simps [simp]:
  "nib_list [] = []" "nib_list (b # bs) = drop_bit 4 b # (b AND 0xF) # nib_list bs"
  by (simp_all add: nib_list_def)

lemma length_nib_list [simp]: "length (nib_list bs) = 2 * length bs"
  by (induction bs) simp_all

lemma nth_nib_list:
  "p < length bs \<Longrightarrow> nib_list bs ! (2 * p) = drop_bit 4 (bs ! p)"
  "p < length bs \<Longrightarrow> nib_list bs ! Suc (2 * p) = bs ! p AND 0xF"
  by (induction bs arbitrary: p; case_tac p; simp)+

lemma nib_list_inject: "nib_list xs = nib_list ys \<Longrightarrow> xs = ys"
proof (induction xs arbitrary: ys)
  case (Cons x xs)
  then show ?case
    by (cases ys) (auto intro: byte_nibbles)
qed (metis length_0_conv length_nib_list mult_is_0 zero_neq_numeral)

lemma nib_list_eqI:
  assumes "length ns = 2 * length bs"
    and "\<And>p. p < length bs \<Longrightarrow> ns ! (2 * p) = drop_bit 4 (bs ! p) \<and> ns ! Suc (2 * p) = bs ! p AND 0xF"
  shows "ns = nib_list bs"
proof (rule nth_equalityI)
  fix j
  assume "j < length ns"
  then have "j div 2 < length bs" "j = 2 * (j div 2) \<or> j = Suc (2 * (j div 2))"
    using assms(1) by (auto simp: less_mult_imp_div_less)
  then show "ns ! j = nib_list bs ! j"
    using assms(2) [of "j div 2"] nth_nib_list [of "j div 2" bs] by metis
qed (simp add: assms(1))

lemma fold_update:
  "b \<le> length out \<Longrightarrow> p < length out \<Longrightarrow>
    fold (\<lambda>i out. out[i := f i]) [a..<b] out ! p = (if a \<le> p \<and> p < b then f p else out ! p)"
  "length (fold (\<lambda>i out. out[i := f i]) [a..<b] out) = length out"
proof -
  show l: "length (fold (\<lambda>i out. out[i := f i]) [a..<b] out) = length out" for b
    by (induction b) simp_all
  show "b \<le> length out \<Longrightarrow> p < length out \<Longrightarrow>
    fold (\<lambda>i out. out[i := f i]) [a..<b] out ! p = (if a \<le> p \<and> p < b then f p else out ! p)"
    by (induction b) (auto simp: l nth_list_update)
qed

lemma ShiftRight_nth:
  assumes "0 < n" and "n \<le> length inp" and "n \<le> length out"
  shows "\<exists>r. ShiftRight_4bit inp out (int n) = Inr (1, r) \<and> length r = length out \<and>
    (\<forall>p < n. r ! p = nibbles (inp ! p) (inp ! (Suc p mod n))) \<and> drop n r = drop n out"
proof -
  define m where "m = n - 1"
  have n: "n = Suc m"
    using assms(1) by (simp add: m_def)
  show ?thesis
    using assms by (auto simp: ShiftRight_4bit_def Let_def n fold_update nth_list_update drop_update_cancel
        intro!: nth_equalityI simp del: of_nat_Suc upt_Suc)
qed

lemma ShiftLeft_nth:
  assumes "0 < n" and "n \<le> length inp" and "n \<le> length out"
  shows "\<exists>l. ShiftLeft_4bit inp out (int n) = Inr (1, l) \<and> length l = length out \<and>
    (\<forall>p < n. l ! (Suc p mod n) = nibbles (inp ! p) (inp ! (Suc p mod n))) \<and> drop n l = drop n out"
proof -
  define m where "m = n - 1"
  have n: "n = Suc m"
    using assms(1) by (simp add: m_def)
  have "Suc p mod Suc m = (if p = m then 0 else Suc p)" if "p \<le> m" for p
    using that by (cases "p = m") simp_all
  moreover have "out \<noteq> []"
    using assms by auto
  ultimately show ?thesis
    using assms by (auto simp: ShiftLeft_4bit_def Let_def n fold_update nth_list_update drop_update_cancel
        less_Suc_eq_le intro!: nth_equalityI simp del: of_nat_Suc upt_Suc)
qed

lemma nib_list_right:
  assumes "xs \<noteq> []" and "length r = length xs" and "\<forall>p < length xs. r ! p = nibbles (xs ! p) (xs ! (Suc p mod length xs))"
  shows "nib_list r = rotate1 (nib_list xs)"
proof (rule nib_list_eqI [symmetric])
  fix p
  assume p: "p < length r"
  have "Suc (Suc (2 * p)) mod (2 * length xs) = 2 * (Suc p mod length xs)"
    using mult_mod_right [of 2 "Suc p" "length xs"] by simp
  moreover have "Suc p mod length xs < length xs"
    using assms(1) by simp
  ultimately show "rotate1 (nib_list xs) ! (2 * p) = drop_bit 4 (r ! p) \<and> rotate1 (nib_list xs) ! Suc (2 * p) = r ! p AND 0xF"
    using p assms by (simp add: nth_rotate1 nth_nib_list nibbles_parts)
qed (use assms in simp)

lemma nib_list_left:
  assumes "xs \<noteq> []" and "length l = length xs"
    and "\<forall>p < length xs. l ! (Suc p mod length xs) = nibbles (xs ! p) (xs ! (Suc p mod length xs))"
  shows "rotate1 (nib_list l) = nib_list xs"
proof (rule nib_list_eqI)
  fix p
  assume p: "p < length xs"
  obtain q where q: "q < length xs" "p = Suc q mod length xs"
    using p assms(1) by (cases p) (auto intro: that [of "length xs - 1"] that [of "p - 1"])
  have "l ! p AND 0xF = drop_bit 4 (xs ! p)"
    using assms(3) q by (simp add: nibbles_parts)
  moreover have "drop_bit 4 (l ! (Suc p mod length xs)) = xs ! p AND 0xF"
    using assms(3) p by (simp add: nibbles_parts)
  moreover have "Suc (Suc (2 * p)) mod (2 * length xs) = 2 * (Suc p mod length xs)"
    using mult_mod_right [of 2 "Suc p" "length xs"] by simp
  moreover have "Suc p mod length xs < length xs"
    using assms(1) by simp
  ultimately show "rotate1 (nib_list l) ! (2 * p) = drop_bit 4 (xs ! p) \<and> rotate1 (nib_list l) ! Suc (2 * p) = xs ! p AND 0xF"
    using p assms(2) by (simp add: nth_rotate1 nth_nib_list)
qed (use assms in simp)


lemma nibble_rights:
  assumes "xs \<noteq> []" and "length out = length xs"
  shows "\<exists>r. ShiftRight_4bit xs out (int (length xs)) = Inr (1, r) \<and> length r = length xs \<and> nib_list r = rotate1 (nib_list xs)"
  using ShiftRight_nth [of "length xs" xs out] assms by (metis length_greater_0_conv nib_list_right order_refl)

lemma nibble_lefts:
  assumes "xs \<noteq> []" and "length out = length xs"
  shows "\<exists>l. ShiftLeft_4bit xs out (int (length xs)) = Inr (1, l) \<and> length l = length xs \<and> rotate1 (nib_list l) = nib_list xs"
  using ShiftLeft_nth [of "length xs" xs out] assms by (metis length_greater_0_conv nib_list_left order_refl)

text \<open>
  On a whole array \<open>ShiftRight_4bit\<close> rotates the sequence of four-bit digits one place
  to the left and \<open>ShiftLeft_4bit\<close> one place to the right: the names are exchanged. Each
  undoes the other, whatever the output array held.
\<close>
theorem nibble_rotation:
  assumes "xs \<noteq> []" and "length out = length xs" and "length out' = length xs"
  shows "\<exists>r l. ShiftRight_4bit xs out (int (length xs)) = Inr (1, r) \<and> nib_list r = rotate1 (nib_list xs) \<and>
    ShiftLeft_4bit xs out (int (length xs)) = Inr (1, l) \<and> rotate1 (nib_list l) = nib_list xs \<and>
    ShiftLeft_4bit r out' (int (length xs)) = Inr (1, xs) \<and> ShiftRight_4bit l out' (int (length xs)) = Inr (1, xs)"
proof -
  obtain r where r: "ShiftRight_4bit xs out (int (length xs)) = Inr (1, r)" "length r = length xs"
      "nib_list r = rotate1 (nib_list xs)"
    using nibble_rights [OF assms(1,2)] by blast
  obtain l where l: "ShiftLeft_4bit xs out (int (length xs)) = Inr (1, l)" "length l = length xs"
      "rotate1 (nib_list l) = nib_list xs"
    using nibble_lefts [OF assms(1,2)] by blast
  have ne: "r \<noteq> []" "l \<noteq> []"
    using assms(1) r(2) l(2) by auto
  have inj: "rotate1 a = rotate1 b \<Longrightarrow> a = b" for a b :: "u8 list"
    by (rule injD [OF inj_rotate1])
  have "ShiftLeft_4bit r out' (int (length xs)) = Inr (1, xs)"
    using nibble_lefts [OF ne(1), of out'] assms(3) r by (auto dest!: inj nib_list_inject)
  moreover have "ShiftRight_4bit l out' (int (length xs)) = Inr (1, xs)"
    using nibble_rights [OF ne(2), of out'] assms(3) l by (auto dest!: nib_list_inject)
  ultimately show ?thesis
    using r l by blast
qed

theorem nibble_rotation_witness:
  "\<exists>r. ShiftRight_4bit [0x12, 0x34, 0x56] [9, 9, 9] 3 = Inr (1, r) \<and> nib_list r = [2, 3, 4, 5, 6, 1] \<and>
    ShiftLeft_4bit r [7, 7, 7] 3 = Inr (1, [0x12, 0x34, 0x56])"
  using nibble_rotation [of "[0x12, 0x34, 0x56]" "[9, 9, 9]" "[7, 7, 7]"] by auto


section \<open>The key and the decoder\<close>

lemma length_XOR_bytes [simp, len_simps]: "length (XOR_bytes a b n k) = length k"
proof -
  have "length (fold (\<lambda>i k. k[a + i := k ! (a + i) XOR k ! (b + i)]) is k) = length k" for "is"
    by (induction "is" arbitrary: k) simp_all
  then show ?thesis
    by (simp add: XOR_bytes_def)
qed

text \<open>The shifts in place as functions of the key alone, without the scratch array.\<close>

definition right_list :: "nat \<Rightarrow> u8 list \<Rightarrow> u8 list" where
  "right_list n xs = map (\<lambda>p. nibbles (xs ! p) (xs ! (Suc p mod n))) [0..<n]"

definition left_list :: "nat \<Rightarrow> u8 list \<Rightarrow> u8 list" where
  "left_list n xs = map (\<lambda>p. nibbles (xs ! (if p = 0 then n - 1 else p - 1)) (xs ! p)) [0..<n]"

lemma shift_at_right:
  assumes "0 < n" and "off + n \<le> length k" and "n \<le> length ctmp"
  shows "\<exists>c. shift_at ShiftRight_4bit off n (k, ctmp) = Inr (write_at k off (right_list n (drop off k)), c) \<and>
    length c = length ctmp"
proof -
  have d: "n \<le> length (drop off k)"
    using assms(2) by simp
  obtain r where r: "ShiftRight_4bit (drop off k) ctmp (int n) = Inr (1, r)" "length r = length ctmp"
      "\<forall>p < n. r ! p = nibbles (drop off k ! p) (drop off k ! (Suc p mod n))"
    using ShiftRight_nth [OF assms(1) d assms(3)] by blast
  have "take n r = right_list n (drop off k)"
    using r assms(3) by (intro nth_equalityI) (simp_all add: right_list_def)
  then show ?thesis
    using r by (simp add: shift_at_def)
qed

lemma shift_at_left:
  assumes "0 < n" and "off + n \<le> length k" and "n \<le> length ctmp"
  shows "\<exists>c. shift_at ShiftLeft_4bit off n (k, ctmp) = Inr (write_at k off (left_list n (drop off k)), c) \<and>
    length c = length ctmp"
proof -
  have d: "n \<le> length (drop off k)"
    using assms(2) by simp
  obtain r where r: "ShiftLeft_4bit (drop off k) ctmp (int n) = Inr (1, r)" "length r = length ctmp"
      "\<And>p. p < n \<Longrightarrow> r ! (Suc p mod n) = nibbles (drop off k ! p) (drop off k ! (Suc p mod n))"
    using ShiftLeft_nth [OF assms(1) d assms(3)] by blast
  have "r ! p = nibbles (drop off k ! (if p = 0 then n - 1 else p - 1)) (drop off k ! p)" if "p < n" for p
    using r(3) [of "if p = 0 then n - 1 else p - 1"] that by (cases p) simp_all
  then have "take n r = left_list n (drop off k)"
    using r(2) assms(3) by (intro nth_equalityI) (simp_all add: left_list_def)
  then show ?thesis
    using r by (simp add: shift_at_def)
qed

definition mixed :: "u8 list \<Rightarrow> u8 list" where
  "mixed k =
    (let k = XOR_bytes 3 13 5 k;
         k = write_at k 1 (left_list 10 (drop 1 k));
         k = write_at k 20 (right_list 3 (drop 20 k));
         k = XOR_bytes 11 6 10 k;
         k = write_at k 15 (right_list 8 (drop 15 k));
         k = write_at k 8 (left_list 5 (drop 8 k))
     in k)"

lemma length_lists [simp]: "length (left_list n xs) = n" "length (right_list n xs) = n"
  by (simp_all add: left_list_def right_list_def)

lemma mix_key_mixed:
  assumes "length k = 24" and "length ctmp = 10"
  shows "mix_key ctmp k = Inr (mixed k)" and "length (mixed k) = 24"
proof -
  show "length (mixed k) = 24"
    using assms by (simp add: mixed_def Let_def)
  define k1 where "k1 = XOR_bytes 3 13 5 k"
  define k2 where "k2 = write_at k1 1 (left_list 10 (drop 1 k1))"
  define k3 where "k3 = write_at k2 20 (right_list 3 (drop 20 k2))"
  define k4 where "k4 = XOR_bytes 11 6 10 k3"
  define k5 where "k5 = write_at k4 15 (right_list 8 (drop 15 k4))"
  have l: "length k1 = 24" "length k2 = 24" "length k3 = 24" "length k4 = 24" "length k5 = 24"
    using assms by (simp_all add: k1_def k2_def k3_def k4_def k5_def)
  obtain c1 where c1: "shift_at ShiftLeft_4bit 1 10 (k1, ctmp) = Inr (k2, c1)" "length c1 = 10"
    using shift_at_left [of 10 1 k1 ctmp] l assms by (auto simp: k2_def)
  obtain c2 where c2: "shift_at ShiftRight_4bit 20 3 (k2, c1) = Inr (k3, c2)" "length c2 = 10"
    using shift_at_right [of 3 20 k2 c1] l c1 by (auto simp: k3_def)
  obtain c3 where c3: "shift_at ShiftRight_4bit 15 8 (k4, c2) = Inr (k5, c3)" "length c3 = 10"
    using shift_at_right [of 8 15 k4 c2] l c2 by (auto simp: k5_def)
  obtain c4 where c4: "shift_at ShiftLeft_4bit 8 5 (k5, c3) = Inr (write_at k5 8 (left_list 5 (drop 8 k5)), c4)"
    using shift_at_left [of 5 8 k5 c3] l c3 by auto
  show "mix_key ctmp k = Inr (mixed k)"
    unfolding mix_key_def mixed_def Let_def k1_def [symmetric] k2_def [symmetric] k3_def [symmetric] k4_def [symmetric]
      k5_def [symmetric]
    by (simp add: bind_fault_def c1 c2 c3 c4 del: One_nat_def flip: k4_def)
qed

lemma length_raw_key [simp]: "length (raw_key ct) = 24"
  by (simp add: raw_key_def Let_def)

definition digits :: "u8 list \<Rightarrow> u8 list" where
  "digits ct = map time_digit (take 14 ct) @ drop 14 ct"

lemma GetKey_cases:
  assumes "length ctmp = 10" and "14 \<le> length ct"
  shows "GetKey ctmp ct =
    (if indices_ok (digits ct) then Inr (24, digits ct, mixed (raw_key (digits ct))) else Inl Out_of_bounds)"
  using assms mix_key_mixed by (simp add: GetKey_def Let_def digits_def)

lemma time_digit_table:
  "list_all (\<lambda>c. (time_digit (word_of_nat c) < 16) = (0x30 \<le> c \<or> (0x30 - c) mod 10 = 0)) [0..<256]"
  by code_simp

lemma time_digit_range: "time_digit c < 16 \<longleftrightarrow> 0x30 \<le> unat c \<or> (0x30 - unat c) mod 10 = 0"
  using time_digit_table unat_u8_less [of c] by (auto simp: list_all_iff dest!: bspec [of _ _ "unat c"])

lemma indices_ok_digits:
  "14 \<le> length ct \<Longrightarrow> indices_ok (digits ct) \<longleftrightarrow>
    (\<forall>i < 14. i \<noteq> 7 \<longrightarrow> 0x30 \<le> unat (ct ! i) \<or> (0x30 - unat (ct ! i)) mod 10 = 0)"
proof -
  assume l: "14 \<le> length ct"
  have "{i. i < 14 \<and> i \<noteq> 7} = set [0, 1, 2, 3, 4, 5, 6, 8, 9, 10, 11, 12, 13::nat]"
    by (auto simp: eval_nat_numeral less_Suc_eq)
  then have "(\<forall>i < 14. i \<noteq> 7 \<longrightarrow> P i) \<longleftrightarrow> list_all P [0, 1, 2, 3, 4, 5, 6, 8, 9, 10, 11, 12, 13]" for P :: "nat \<Rightarrow> bool"
    unfolding list_all_iff by blast
  then show ?thesis
    using l by (simp add: indices_ok_def digits_def nth_append time_digit_range)
qed

text \<open>
  C13: \<open>GetKey\<close> stays inside its table exactly if each byte of the time stamp but the
  eighth is at least the character 0 or differs from it by a multiple of ten; then it
  returns 24 and a key of 24 bytes that does not depend on uninitialised memory.
\<close>
theorem GetKey_safe:
  assumes "length ctmp = 10" and "length ctmp' = 10"
  shows "(if 14 \<le> length ct \<and> (\<forall>i < 14. i \<noteq> 7 \<longrightarrow> 0x30 \<le> unat (ct ! i) \<or> (0x30 - unat (ct ! i)) mod 10 = 0)
      then \<exists>ct' k. GetKey ctmp ct = Inr (24, ct', k) \<and> length k = 24 \<and> length ct' = length ct
      else GetKey ctmp ct = Inl Out_of_bounds) \<and> GetKey ctmp' ct = GetKey ctmp ct"
proof (cases "14 \<le> length ct")
  case True
  then show ?thesis
    using assms mix_key_mixed(2) [of "raw_key (digits ct)" ctmp]
    by (simp add: GetKey_cases indices_ok_digits) (auto simp: digits_def)
next
  case False
  then show ?thesis
    by (simp add: GetKey_def)
qed

theorem GetKey_safe_witness:
  "(\<exists>ct' k. GetKey (replicate 10 0) (replicate 14 0x39) = Inr (24, ct', k) \<and> length k = 24) \<and>
    GetKey (replicate 10 0) (replicate 14 0x20) = Inl Out_of_bounds"
  using GetKey_safe [of "replicate 10 0" "replicate 10 0" "replicate 14 0x39"]
    GetKey_safe [of "replicate 10 0" "replicate 10 0" "replicate 14 0x20"] spec [of "\<lambda>i. i < 14 \<longrightarrow> i = (7 :: nat)" 0]
  by (auto split: if_splits)

lemma three_des_decrypts:
  assumes "length junk = 96" and "length junk' = 96" and "length (sk3 ctx) = 96" and "length (sk3 ctx') = 96"
    and "length IV = 8" and "length p = 24" and "24 \<le> length out" and "24 \<le> length out'"
    and "de_3des_cbc junk' ctx' out p key kt IV 24 DES_ENCRYPT = Inr (0, iv, ct)"
  shows "\<exists>iv2. de_3des_cbc junk ctx out' ct key kt IV 24 DES_DECRYPT = Inr (0, iv2, p @ drop 24 out')"
proof -
  have "de_3des_cbc junk ctx out p key kt IV 24 DES_ENCRYPT = Inr (0, iv, ct)"
    using assms(9) by (simp add: de_3des_cbc_crypt assms(1-4))
  then show ?thesis
    using de_3des_cbc_back [OF assms(1,3,5), of 24 p out out' key kt] assms(6-8) by auto
qed

text \<open>
  C12: from a time stamp that gives a key, \<open>DecodeData_POS\<close> decrypts 24 bytes encrypted
  under that key and the IV 0 to 7: it writes bytes 4 to 19 of the plaintext and returns
  16 if the plaintext starts with DE, and returns -1 with the output untouched otherwise.
\<close>
theorem DecodeData_POS_decrypts:
  assumes "length ctmp = 10" and "length pData = 260" and "length junk = 96" and "length junk' = 96"
    and "length (sk3 ctx) = 96" and "length (sk3 ctx') = 96"
    and "GetKey ctmp time = Inr (24, time', key)" and "16 \<le> ninbuf" and "length p = 24" and "24 \<le> length out"
    and "de_3des_cbc junk' ctx' out p key TYPE_3KEY [0, 1, 2, 3, 4, 5, 6, 7] 24 DES_ENCRYPT = Inr (0, iv, inbuf)"
    and "16 \<le> length outbuf"
  shows "DecodeData_POS ctmp pData junk ctx time inbuf ninbuf outbuf =
    (if p ! 0 = 0x44 \<and> p ! 1 = 0x45 then Inr (16, time', take 16 (drop 3 p) @ drop 16 outbuf)
     else Inr (-1, time', outbuf))"
proof -
  obtain iv2 where dec: "de_3des_cbc junk ctx pData inbuf key TYPE_3KEY [0, 1, 2, 3, 4, 5, 6, 7] 24 DES_DECRYPT
      = Inr (0, iv2, p @ drop 24 pData)"
    using three_des_decrypts [OF assms(3,4,5,6) _ assms(9,10) _ assms(11), of pData] assms(2) by auto
  show ?thesis
    unfolding DecodeData_POS_def assms(7) using assms(8,9,12) dec
    by (simp add: Let_def nth_append write_at_def)
qed

text \<open>
  Fewer than 16 bytes announced are refused with -3; with 16 to 23 the guard passes
  but 24 bytes are read, past the end of the input.
\<close>
theorem DecodeData_POS_short:
  assumes "GetKey ctmp time = Inr (24, time', key)" and "length (sk3 ctx) = 96" and "length junk = 96"
    and "length pData = 260" and "int (length inbuf) = ninbuf" and "ninbuf < 24"
  shows "DecodeData_POS ctmp pData junk ctx time inbuf ninbuf outbuf =
    (if ninbuf < 16 then Inr (-3, time', outbuf) else Inl Out_of_bounds)"
  using assms by (simp add: DecodeData_POS_def Let_def de_3des_cbc_crypt crypt_cbc_def)

lemma zero_time: "\<exists>time' key. GetKey (replicate 10 0) (replicate 14 0x30) = Inr (24, time', key)"
  by (simp add: GetKey_cases indices_ok_digits)

theorem DecodeData_POS_short_witness:
  "(\<exists>time'. DecodeData_POS (replicate 10 0) (replicate 260 0) (replicate 96 0) \<lparr>ctx3_mode = 0, sk3 = replicate 96 0\<rparr>
      (replicate 14 0x30) (replicate 8 1) 8 [] = Inr (-3, time', [])) \<and>
    DecodeData_POS (replicate 10 0) (replicate 260 0) (replicate 96 0) \<lparr>ctx3_mode = 0, sk3 = replicate 96 0\<rparr>
      (replicate 14 0x30) (replicate 16 1) 16 [] = Inl Out_of_bounds"
proof -
  obtain time' key where k: "GetKey (replicate 10 0) (replicate 14 0x30) = Inr (24, time', key)"
    using zero_time by blast
  show ?thesis
    using DecodeData_POS_short [OF k, of "\<lparr>ctx3_mode = 0, sk3 = replicate 96 0\<rparr>" "replicate 96 0" "replicate 260 0"
        "replicate 8 1" 8 "[]"]
      DecodeData_POS_short [OF k, of "\<lparr>ctx3_mode = 0, sk3 = replicate 96 0\<rparr>" "replicate 96 0" "replicate 260 0"
        "replicate 16 1" 16 "[]"] by simp
qed

theorem DecodeData_POS_decrypts_witness:
  "\<exists>time' key iv inbuf.
    de_3des_cbc (replicate 96 1) \<lparr>ctx3_mode = 0, sk3 = replicate 96 2\<rparr> (replicate 24 0) ([0x44, 0x45, 16] @ replicate 21 7)
      key TYPE_3KEY [0, 1, 2, 3, 4, 5, 6, 7] 24 DES_ENCRYPT = Inr (0, iv, inbuf) \<and>
    DecodeData_POS (replicate 10 0) (replicate 260 0) (replicate 96 0) \<lparr>ctx3_mode = 0, sk3 = replicate 96 0\<rparr>
      (replicate 14 0x30) inbuf 24 (replicate 16 0) = Inr (16, time', replicate 16 7)"
proof -
  obtain time' key where k: "GetKey (replicate 10 0) (replicate 14 0x30) = Inr (24, time', key)"
    using zero_time by blast
  obtain iv inbuf where e: "de_3des_cbc (replicate 96 1) \<lparr>ctx3_mode = 0, sk3 = replicate 96 2\<rparr> (replicate 24 0)
      ([0x44, 0x45, 16] @ replicate 21 7) key TYPE_3KEY [0, 1, 2, 3, 4, 5, 6, 7] 24 DES_ENCRYPT = Inr (0, iv, inbuf)"
    using de_3des_cbc_back [of "replicate 96 1" "\<lparr>ctx3_mode = 0, sk3 = replicate 96 2\<rparr>" "[0, 1, 2, 3, 4, 5, 6, 7]" 24
        "[0x44, 0x45, 16] @ replicate 21 7" "replicate 24 0" "replicate 24 0" key TYPE_3KEY] by auto
  show ?thesis
    using e DecodeData_POS_decrypts [OF _ _ _ _ _ _ k _ _ _ e, of "replicate 260 0" "replicate 96 0"
        "\<lparr>ctx3_mode = 0, sk3 = replicate 96 0\<rparr>" 24 "replicate 16 0"] by auto
qed

section \<open>Hexadecimal input\<close>

definition hex_char :: "bool \<Rightarrow> u8 \<Rightarrow> u8" where
  "hex_char upper n = (if n < 10 then 0x30 + n else if upper then 0x37 + n else 0x57 + n)"

definition hex_print :: "bool \<Rightarrow> u8 list \<Rightarrow> u8 list" where
  "hex_print upper bs = map (hex_char upper) (nib_list bs)"

lemma hex_digit_table:
  "list_all (\<lambda>n. list_all (\<lambda>u. hex_value (hex_char u (word_of_nat n)) = word_of_nat n \<and>
    hex_char u (word_of_nat n) \<noteq> 0) [True, False]) [0..<16]"
  by code_simp

lemma hex_digit: "n < 16 \<Longrightarrow> hex_value (hex_char u n) = n \<and> hex_char u n \<noteq> 0"
  using hex_digit_table by (cases u) (auto simp: list_all_iff word_less_nat_alt dest!: bspec [of _ _ "unat n"])

lemma nib_less: "drop_bit 4 b < (16 :: u8)" "b AND 0xF < (16 :: u8)"
proof -
  have "b AND 0xF = take_bit 4 b"
    by (simp add: take_bit_eq_mask mask_eq_exp_minus_1)
  then show "b AND 0xF < 16"
    using take_bit_nat_less_exp [of 4 "unat b"] by (simp add: word_less_nat_alt unsigned_take_bit_eq)
  show "drop_bit 4 b < 16"
    using unat_u8_less [of b] by (simp add: word_less_nat_alt drop_bit_eq_div unat_div less_mult_imp_div_less)
qed


lemma nib_list_small: "d \<in> set (nib_list bs) \<Longrightarrow> d < 16"
  by (induction bs) (auto simp: nib_less)

lemma length_hex_print [simp, len_simps]: "length (hex_print u bs) = 2 * length bs"
  by (simp add: hex_print_def)

lemma join_nibbles: "push_bit 4 (drop_bit 4 b) OR (b AND 0xF) = (b :: u8)"
proof -
  have "(0xF :: u8) = mask 4"
    by (simp add: mask_eq_exp_minus_1)
  moreover have "push_bit 4 (drop_bit 4 b) OR (b AND mask 4) = b"
    by (rule bit_word_eqI) (auto simp: bit_simps)
  ultimately show ?thesis
    by simp
qed

lemma hex_pairs:
  assumes "i < length bs"
  shows "ASCII2HEX (take 2 (drop (i * 2) (hex_print u bs @ ys))) = bs ! i"
proof -
  have d: "nib_list bs ! (2 * i) < 16" "nib_list bs ! Suc (2 * i) < 16"
    using assms by (auto intro!: nib_list_small [of _ bs])
  have p: "hex_print u bs ! (2 * i) = hex_char u (nib_list bs ! (2 * i))"
      "hex_print u bs ! Suc (2 * i) = hex_char u (nib_list bs ! Suc (2 * i))"
    using assms by (simp_all add: hex_print_def)
  have "take 2 (drop (i * 2) (hex_print u bs @ ys)) ! 0 = hex_print u bs ! (2 * i)"
      "take 2 (drop (i * 2) (hex_print u bs @ ys)) ! 1 = hex_print u bs ! Suc (2 * i)"
    using assms by (simp_all add: nth_append mult.commute)
  then show ?thesis
    unfolding ASCII2HEX_def p using hex_digit [OF d(1)] hex_digit [OF d(2)] assms
    by (simp only: nth_nib_list join_nibbles)
qed

lemma hex_print_nonzero: "c \<in> set (hex_print u bs) \<Longrightarrow> c \<noteq> 0"
  using hex_digit nib_list_small by (auto simp: hex_print_def)

lemma strlen_hex: "c_strlen (hex_print u bs @ 0 # ys) = 2 * length bs"
  using hex_print_nonzero [of _ u bs] by (simp add: c_strlen_def takeWhile_append2)

lemma hex_print_snoc: "n < 16 \<Longrightarrow> hex_print u (bs @ [push_bit 4 n]) = hex_print u bs @ [hex_char u n, 0x30]"
proof -
  assume "n < 16"
  then have b: "\<not> bit n k" if "4 \<le> k" for k
    using that bit_high_nat [of "unat n" 4 k] by (simp add: word_less_nat_alt bit_unsigned_iff)
  have m: "(0xF :: u8) = mask 4"
    by (simp add: mask_eq_exp_minus_1)
  have "drop_bit 4 (push_bit 4 n) = n" "push_bit 4 n AND 0xF = 0"
    unfolding m using b by (auto intro!: bit_word_eqI simp: bit_simps dest: bit_imp_le_length) (metis add.commute le_add2 not_less)
  then show ?thesis
    by (simp add: hex_print_def nib_list_def hex_char_def)
qed

text \<open>
  \<open>STRING2HEX\<close> reads back what printing bytes in hexadecimal gives, with capital or
  small letters. A string of odd length is changed in place: a digit 0 is put behind it,
  which needs one more byte of memory behind the terminator.
\<close>
theorem STRING2HEX_reads:
  assumes "length bs < length hex" and "n < 16"
  shows "STRING2HEX (hex_print u bs @ 0 # ys) hex = Inr (hex_print u bs @ 0 # ys, bs @ drop (length bs) hex) \<and>
    STRING2HEX (hex_print u bs @ [hex_char u n, 0]) hex = Inl Out_of_bounds \<and>
    STRING2HEX (hex_print u bs @ [hex_char u n, 0, y] @ ys) hex =
      Inr (hex_print u bs @ [hex_char u n, 0x30, 0] @ ys, bs @ [push_bit 4 n] @ drop (Suc (length bs)) hex)"
proof -
  have m: "map (\<lambda>i. ASCII2HEX (take 2 (drop (i * 2) (hex_print u bs @ ys)))) [0..<length bs] = bs" for bs ys
    by (rule trans [OF map_cong [OF refl] map_nth], rule hex_pairs, simp)
  have l: "c_strlen (hex_print u bs @ hex_char u n # 0 # zs) = Suc (2 * length bs)" for zs
    using hex_print_nonzero [of _ u bs] hex_digit [OF assms(2), of u] by (simp add: c_strlen_def takeWhile_append2)
  have "ASCII2HEX (take 2 (drop (i * 2) (hex_print u bs @ hex_char u n # 0x30 # 0 # ys))) = (bs @ [push_bit 4 n]) ! i"
    if "i < Suc (length bs)" for i
    using hex_pairs [of i "bs @ [push_bit 4 n]" u "0 # ys"] that
    by (simp only: hex_print_snoc [OF assms(2)] append_assoc append_Cons append_Nil length_append list.size)
  then have o: "map (\<lambda>i. ASCII2HEX (take 2 (drop (i * 2) (hex_print u bs @ hex_char u n # 0x30 # 0 # ys)))) [0..<Suc (length bs)] =
      bs @ [push_bit 4 n]"
    by (intro nth_equalityI) (simp_all only: length_map length_upt nth_map nth_upt length_append list.size, simp_all del: upt_Suc)
  have "STRING2HEX (hex_print u bs @ 0 # ys) hex = Inr (hex_print u bs @ 0 # ys, bs @ drop (length bs) hex)"
    using assms(1) by (simp add: STRING2HEX_def Let_def strlen_hex m write_at_def del: drop_append take_append)
  moreover have "STRING2HEX (hex_print u bs @ [hex_char u n, 0]) hex = Inl Out_of_bounds"
    by (simp add: STRING2HEX_def Let_def l)
  moreover have "STRING2HEX (hex_print u bs @ [hex_char u n, 0, y] @ ys) hex =
      Inr (hex_print u bs @ [hex_char u n, 0x30, 0] @ ys, bs @ [push_bit 4 n] @ drop (Suc (length bs)) hex)"
    using assms(1) by (simp add: STRING2HEX_def Let_def l list_update_append o write_at_def del: upt_Suc drop_append take_append)
  ultimately show ?thesis
    by blast
qed

theorem STRING2HEX_reads_witness:
  "STRING2HEX (hex_print True [0xCF, 0xFA, 0x62] @ [0]) (replicate 4 9) = Inr (hex_print True [0xCF, 0xFA, 0x62] @ [0], [0xCF, 0xFA, 0x62, 9]) \<and>
    STRING2HEX (hex_print True [0xCF] @ [hex_char True 0xA, 0]) (replicate 4 9) = Inl Out_of_bounds"
  using STRING2HEX_reads [where bs = "[0xCF, 0xFA, 0x62]" and hex = "replicate 4 9" and n = "0xA" and u = True and ys = "[]"]
    STRING2HEX_reads [where bs = "[0xCF]" and hex = "replicate 4 9" and n = "0xA" and u = True and ys = "[]"] by simp

end
