(* ===== verification/Wild_Spec.thy ===== *)
theory Wild_Spec
  imports Prelude
begin

text \<open>
  What the wildcard matchers of \<open>test_wildcard\<close> are to compute: the strings a pattern
  denotes, where \<open>*\<close> stands for any string and \<open>?\<close> for any character, an executable
  matcher for it, and the interface of a matcher with what follows from it.
\<close>

section \<open>The language of a pattern\<close>

abbreviation star :: char where "star \<equiv> CHR ''*''"
abbreviation quest :: char where "quest \<equiv> CHR ''?''"
abbreviation NUL :: char where "NUL \<equiv> CHR 0x00"

definition symbol :: "char \<Rightarrow> string set" where
  "symbol x = (if x = star then UNIV else if x = quest then {[c] |c. True} else {[x]})"

primrec lang :: "string \<Rightarrow> string set" where
  "lang [] = {[]}"
| "lang (x # p) = {u @ v |u v. u \<in> symbol x \<and> v \<in> lang p}"

fun wild :: "string \<Rightarrow> string \<Rightarrow> bool" where
  "wild [] l \<longleftrightarrow> l = []"
| "wild (x # p) [] \<longleftrightarrow> x = star \<and> wild p []"
| "wild (x # p) (c # l) \<longleftrightarrow>
    (if x = star then wild p (c # l) \<or> wild (x # p) l else (x = quest \<or> x = c) \<and> wild p l)"

lemma wild_star: "wild (star # p) l \<longleftrightarrow> (\<exists>u v. l = u @ v \<and> wild p v)"
proof (induction l)
  case Nil
  then show ?case by simp
next
  case (Cons c l)
  have "(\<exists>u v. c # l = u @ v \<and> wild p v) \<longleftrightarrow> wild p (c # l) \<or> (\<exists>u v. l = u @ v \<and> wild p v)"
    by (auto simp: Cons_eq_append_conv)
  then show ?case
    using Cons.IH by simp
qed

lemma lang_symbol:
  assumes "x \<noteq> star"
  shows "lang (x # p) = {c # v |c v. (x = quest \<or> x = c) \<and> v \<in> lang p}"
proof -
  have "symbol x = {[c] |c. x = quest \<or> x = c}"
    using assms by (auto simp: symbol_def)
  then show ?thesis
    by auto (metis append_Cons append_Nil)+
qed

theorem wild_lang: "wild p l \<longleftrightarrow> l \<in> lang p"
proof (induction p arbitrary: l)
  case (Cons x p)
  show ?case
  proof (cases "x = star")
    case True
    then show ?thesis
      using Cons.IH by (simp only: wild_star True) (auto simp: symbol_def)
  next
    case False
    then show ?thesis
      unfolding lang_symbol [OF False] by (cases l) (auto simp: Cons.IH)
  qed
qed simp

section \<open>Laws of matching\<close>

lemma wild_star_suffix: "wild (star # p) l \<Longrightarrow> wild (star # p) (u @ l)"
  unfolding wild_star by (metis append.assoc)

lemma wild_star_drop: "wild (star # p) (drop j l) \<Longrightarrow> i \<le> j \<Longrightarrow> wild (star # p) (drop i l)"
  using wild_star_suffix [of p "drop j l" "take (j - i) (drop i l)"]
  by (metis append_take_drop_id drop_drop le_add_diff_inverse2)

lemma wild_needs: "wild p l \<Longrightarrow> length (filter (\<lambda>x. x \<noteq> star) p) \<le> length l"
  by (induction p l rule: wild.induct) (auto split: if_splits)

definition stars :: "string \<Rightarrow> bool" where
  "stars p \<longleftrightarrow> list_all (\<lambda>x. x = star) p"

lemma wild_Nil: "wild p [] \<longleftrightarrow> stars p"
  by (induction p) (auto simp: stars_def)

text \<open>A segment is a part of a pattern without stars; it matches a string of its own length.\<close>

definition seg :: "string \<Rightarrow> string \<Rightarrow> bool" where
  "seg p l \<longleftrightarrow> list_all2 (\<lambda>x c. x \<noteq> star \<and> (x = quest \<or> x = c)) p l"

lemma seg_simps [simp]:
  "seg [] []" "seg (x # p) (c # l) \<longleftrightarrow> x \<noteq> star \<and> (x = quest \<or> x = c) \<and> seg p l"
  by (simp_all add: seg_def)

lemma seg_snoc: "seg p l \<Longrightarrow> x \<noteq> star \<Longrightarrow> x = quest \<or> x = c \<Longrightarrow> seg (p @ [x]) (l @ [c])"
  by (simp add: seg_def list_all2_appendI)

lemma seg_length: "seg p l \<Longrightarrow> length p = length l"
  by (simp add: seg_def list_all2_lengthD)

lemma seg_no_star: "seg p l \<Longrightarrow> star \<notin> set p"
  unfolding seg_def by (induction rule: list_all2_induct) auto

lemma wild_seg: "seg p l \<Longrightarrow> wild (p @ q) (l @ m) \<longleftrightarrow> wild q m"
  unfolding seg_def by (induction rule: list_all2_induct) auto

lemma wild_no_star: "star \<notin> set p \<Longrightarrow> wild (p @ q) l \<longleftrightarrow> (\<exists>u v. l = u @ v \<and> seg p u \<and> wild q v)"
proof (induction p arbitrary: l)
  case Nil
  then show ?case
    by (auto simp: seg_def)
next
  case (Cons x p)
  show ?case
  proof (cases l)
    case Nil
    then show ?thesis
      using Cons.prems by (auto simp: seg_def)
  next
    case (Cons c m)
    then show ?thesis
      using Cons.IH [of m] \<open>star \<notin> set (x # p)\<close>
      by (auto simp: Cons_eq_append_conv seg_def list_all2_Cons1)
  qed
qed

text \<open>The first place where a segment fits is as good as any later one.\<close>

lemma leftmost_segment:
  assumes "seg s u"
  shows "wild (star # s @ star # q) (u @ m) \<longleftrightarrow> wild (star # q) m"
proof
  assume "wild (star # s @ star # q) (u @ m)"
  then obtain a b v where split: "u @ m = a @ b @ v" "seg s b" "wild (star # q) v"
    unfolding wild_star [of "s @ _"] wild_no_star [OF seg_no_star [OF assms]] by auto
  have "length b = length u"
    using seg_length split(2) assms by metis
  then have "m = drop (length u) (a @ b) @ v"
    using arg_cong [OF split(1), of "drop (length u)"] by simp
  then show "wild (star # q) m"
    using wild_star_suffix split(3) by simp
next
  assume "wild (star # q) m"
  then show "wild (star # s @ star # q) (u @ m)"
    unfolding wild_star [of "s @ _"] using wild_seg [OF assms] by (metis append_Nil)
qed

lemma lang_append: "lang (p @ q) = {u @ v |u v. u \<in> lang p \<and> v \<in> lang q}"
proof (induction p)
  case (Cons x p)
  then show ?case
    by auto (metis append.assoc)+
qed simp

lemma wild_append: "wild p u \<Longrightarrow> wild q v \<Longrightarrow> wild (p @ q) (u @ v)"
  by (auto simp: wild_lang lang_append)

lemma seg_wild: "seg p l \<Longrightarrow> wild p l"
  using wild_seg [of p l "[]" "[]"] by simp

lemma wild_absorbs: "wild (p @ [star]) u \<Longrightarrow> wild (p @ [star]) (u @ v)"
  using wild_append [of "p @ [star]" u "[star]" v]
  by (auto simp: wild_lang lang_append symbol_def)

section \<open>The interface of a matcher\<close>

locale matcher =
  fixes accepts :: "string \<Rightarrow> string \<Rightarrow> bool"
    and scope :: "string \<Rightarrow> string \<Rightarrow> bool"
  assumes accepts_lang: "scope p l \<Longrightarrow> accepts p l \<longleftrightarrow> l \<in> lang p"
begin

lemma accepts_wild: "scope p l \<Longrightarrow> accepts p l \<longleftrightarrow> wild p l"
  by (simp add: accepts_lang wild_lang)

lemma accepts_literal:
  assumes "scope p l" and "star \<notin> set p" and "quest \<notin> set p"
  shows "accepts p l \<longleftrightarrow> p = l"
proof -
  have "seg p u \<longleftrightarrow> p = u" for u
    using assms(2,3) by (induction p arbitrary: u) (auto simp: seg_def list_all2_Cons1)
  then show ?thesis
    using wild_no_star [OF assms(2), of "[]" l] by (auto simp: accepts_wild [OF assms(1)])
qed

lemma accepts_prefix:
  assumes "scope (s @ [star]) l" and "star \<notin> set s" and "quest \<notin> set s"
  shows "accepts (s @ [star]) l \<longleftrightarrow> (\<exists>v. l = s @ v)"
proof -
  have "seg s u \<longleftrightarrow> s = u" for u
    using assms(2,3) by (induction s arbitrary: u) (auto simp: seg_def list_all2_Cons1)
  then show ?thesis
    using wild_no_star [OF assms(2), of "[star]" l]
    by (auto simp: accepts_wild [OF assms(1)] wild_star)
qed

lemma accepts_substring:
  assumes "scope (star # s @ [star]) l" and "star \<notin> set s" and "quest \<notin> set s"
  shows "accepts (star # s @ [star]) l \<longleftrightarrow> (\<exists>u v. l = u @ s @ v)"
proof -
  have "seg s u \<longleftrightarrow> s = u" for u
    using assms(2,3) by (induction s arbitrary: u) (auto simp: seg_def list_all2_Cons1)
  then show ?thesis
    using wild_no_star [OF assms(2), of "[star]"]
    by (auto simp: accepts_wild [OF assms(1)] wild_star [of "s @ _"] wild_star [of "[]"])
qed

end

text \<open>A matcher that is right about what it accepts also outside of its scope.\<close>

locale sound_matcher = matcher accepts scope
  for accepts :: "string \<Rightarrow> string \<Rightarrow> bool" and scope :: "string \<Rightarrow> string \<Rightarrow> bool" +
  fixes sound :: "string \<Rightarrow> string \<Rightarrow> bool"
  assumes accepts_sound: "sound p l \<Longrightarrow> accepts p l \<Longrightarrow> l \<in> lang p"
begin

lemma stays_below: "sound p l \<Longrightarrow> matcher g other \<Longrightarrow> other p l \<Longrightarrow> accepts p l \<Longrightarrow> g p l"
  using accepts_sound matcher.accepts_lang by blast

end

end
