(* ===== verification/WildMemo.thy ===== *)
theory WildMemo
  imports Wild_Spec
begin

text \<open>
  \<open>test_wildcard/memoization/main.c\<close>: the recursive matcher over the global strings \<open>W\<close>
  (the pattern) and \<open>T\<close> (the text) with its table \<open>dp\<close>, and the test cases of its
  \<open>main\<close>. The strings are the contents up to the terminator; the table is passed and
  returned. An index outside the 101 by 101 table is a fault.
\<close>

section \<open>The matcher\<close>

type_synonym table = "int list list"

definition dp_get :: "table \<Rightarrow> nat \<Rightarrow> nat \<Rightarrow> int" where
  "dp_get dp w t = dp ! w ! t"

definition dp_set :: "table \<Rightarrow> nat \<Rightarrow> nat \<Rightarrow> int \<Rightarrow> table" where
  "dp_set dp w t r = dp[w := (dp ! w)[t := r]]"

definition dp_start :: table where
  "dp_start = replicate 101 (replicate 101 (- 1))"

function memoization :: "string \<Rightarrow> string \<Rightarrow> nat \<Rightarrow> nat \<Rightarrow> table \<Rightarrow> c_fault + (int \<times> table)" where
  "memoization W T w t dp =
    (if 101 \<le> w \<or> 101 \<le> t then Inl Out_of_bounds
     else if dp_get dp w t \<noteq> - 1 then Inr (dp_get dp w t, dp)
     else if w < length W \<and> t < length T \<and> (W ! w = T ! t \<or> W ! w = CHR ''?'') then
       (case memoization W T (w + 1) (t + 1) dp of
          Inl e \<Rightarrow> Inl e
        | Inr (r, dp) \<Rightarrow> Inr (r, dp_set dp w t r))
     else if w = length W then
       (let r = (if t = length T then 1 else 0) in Inr (r, dp_set dp w t r))
     else if w < length W \<and> W ! w = CHR ''*'' then
       (case memoization W T (w + 1) t dp of
          Inl e \<Rightarrow> Inl e
        | Inr (r, dp) \<Rightarrow>
            if r \<noteq> 0 then Inr (1, dp_set dp w t 1)
            else if t < length T then
              (case memoization W T w (t + 1) dp of
                 Inl e \<Rightarrow> Inl e
               | Inr (r, dp) \<Rightarrow>
                   if r \<noteq> 0 then Inr (1, dp_set dp w t 1) else Inr (0, dp_set dp w t 0))
            else Inr (0, dp_set dp w t 0))
     else Inr (0, dp_set dp w t 0))"
  by pat_completeness auto
termination
  by (relation "measure (\<lambda>(W, T, w, t, dp). (length W - w) + (length T - t))") auto

declare memoization.simps [simp del]

definition memo_match :: "string \<Rightarrow> string \<Rightarrow> c_fault + int" where
  "memo_match W T = map_sum id fst (memoization W T 0 0 dp_start)"

text \<open>The strings that \<open>main\<close> chooses by \<open>type\<close>; other values leave the globals empty.\<close>

definition main_case :: "int \<Rightarrow> string \<times> string" where
  "main_case type =
    (if type = 0 then (''abcdefg'', ''abcdefg'')
     else if type = 1 then (''aacdefg'', ''abcdefg'')
     else if type = 2 then (''*cde*'', ''abcdefg'')
     else if type = 3 then (''cde*'', ''abcdefg'')
     else if type = 4 then (''*cde'', ''abcdefg'')
     else if type = 5 then (''**cde'', ''abcdfcdefg'')
     else if type = 6 then (''**cde*'', ''abcdfcdefg'')
     else if type = 7 then (''*cdef*cdef'', ''abcdexxxcdefgcc'')
     else if type = 8 then (''*xxx*?g'', ''abcxxdexxxcdefg'')
     else if type = 9 then (''*cdef*cdef*'', ''abcdexxxcdefg'')
     else if type = 10 then (''*cdf*cdef*'', ''abcdefg'')
     else if type = 11 then (''*'', ''abcdefg'')
     else if type = 12 then (''*'', '''')
     else if type = 13 then (''?'', ''d'')
     else if type = 14 then (''*?'', ''ddd'')
     else if type = 15 then (''?*'', ''ddd'')
     else if type = 16 then (''???'', ''ddd'')
     else if type = 17 then (''*?*'', ''ddd'')
     else if type = 18 then (''?'', '''')
     else if type = 19 then (''*?cde*'', ''abcdefg'')
     else if type = 20 then (''??cde??'', ''abcdefg'')
     else if type = 21 then (''??cde?'', ''abcdefg'')
     else if type = 22 then (''ppppp'', ''abcdefg'')
     else if type = 23 then (''??c??'', ''abcdefg'')
     else if type = 24 then (''*cdef*cdef?'', ''abcdefxxxcdefg'')
     else if type = 25 then (''*cdef*cdef*'', ''abcdefxxxcdefg'')
     else if type = 26 then (''*cdef*cdef'', ''abcdefxxxcdefg'')
     else ('''', ''''))"

text \<open>\<open>if (memoization(0, 0))\<close>: which of its two lines \<open>main\<close> prints.\<close>

definition main_says :: "int \<Rightarrow> c_fault + bool" where
  "main_says type = map_sum id (\<lambda>r. r \<noteq> 0) (case main_case type of (W, T) \<Rightarrow> memo_match W T)"

section \<open>The table\<close>

definition wf_dp :: "table \<Rightarrow> bool" where
  "wf_dp dp \<longleftrightarrow> length dp = 101 \<and> (\<forall>w < 101. length (dp ! w) = 101)"

lemma wf_dp_set [simp]: "wf_dp dp \<Longrightarrow> wf_dp (dp_set dp w t r)"
  by (cases "w < 101") (auto simp: wf_dp_def dp_set_def nth_list_update list_update_beyond)

lemma dp_get_set:
  "wf_dp dp \<Longrightarrow> w < 101 \<Longrightarrow> t < 101 \<Longrightarrow>
    dp_get (dp_set dp w t r) w' t' = (if w' = w \<and> t' = t then r else dp_get dp w' t')"
  by (auto simp: wf_dp_def dp_get_def dp_set_def nth_list_update)

lemma wf_dp_start [simp]: "wf_dp dp_start"
  by (simp add: wf_dp_def dp_start_def)

lemma dp_get_start: "w < 101 \<Longrightarrow> t < 101 \<Longrightarrow> dp_get dp_start w t = - 1"
  by (simp add: dp_get_def dp_start_def)

text \<open>
  What a finished entry says of the rest of the pattern and the rest of the text. The
  comparison of characters comes before that with \<open>*\<close>, so a star in the text is matched by
  a star in the pattern as an ordinary character.
\<close>

fun literal_first :: "string \<Rightarrow> string \<Rightarrow> bool" where
  "literal_first [] l \<longleftrightarrow> l = []"
| "literal_first (x # p) [] \<longleftrightarrow> x = star \<and> literal_first p []"
| "literal_first (x # p) (c # l) \<longleftrightarrow>
    (if x = c \<or> x = quest then literal_first p l
     else x = star \<and> (literal_first p (c # l) \<or> literal_first (x # p) l))"

lemma literal_first_wild: "literal_first p l \<Longrightarrow> wild p l"
proof (induction p l rule: literal_first.induct)
  case (3 x p c l)
  show ?case
  proof (cases "x = star")
    case True
    then have "wild p l \<or> wild p (c # l) \<or> wild (star # p) l"
      using 3 by (auto split: if_splits)
    then show ?thesis
      using wild_star [of p l] True by auto
  next
    case False
    then show ?thesis
      using 3 by (auto split: if_splits)
  qed
qed auto

lemma literal_first_eq: "star \<notin> set l \<Longrightarrow> literal_first p l \<longleftrightarrow> wild p l"
  by (induction p l rule: literal_first.induct) auto

definition verdict :: "string \<Rightarrow> string \<Rightarrow> nat \<Rightarrow> nat \<Rightarrow> int" where
  "verdict W T w t = of_bool (literal_first (drop w W) (drop t T))"

definition sound_dp :: "string \<Rightarrow> string \<Rightarrow> table \<Rightarrow> bool" where
  "sound_dp W T dp \<longleftrightarrow> wf_dp dp \<and>
    (\<forall>w t. w \<le> length W \<longrightarrow> t \<le> length T \<longrightarrow> dp_get dp w t = - 1 \<or> dp_get dp w t = verdict W T w t)"

lemma sound_dp_set:
  "sound_dp W T dp \<Longrightarrow> w < 101 \<Longrightarrow> t < 101 \<Longrightarrow> sound_dp W T (dp_set dp w t (verdict W T w t))"
  by (auto simp: sound_dp_def dp_get_set)

lemma sound_dp_start: "length W \<le> 100 \<Longrightarrow> length T \<le> 100 \<Longrightarrow> sound_dp W T dp_start"
  by (simp add: sound_dp_def dp_get_start)

section \<open>The branches of the matcher\<close>

lemma verdict_char:
  assumes "w < length W" and "t < length T" and "W ! w = T ! t \<or> W ! w = quest"
  shows "verdict W T w t = verdict W T (w + 1) (t + 1)"
  using assms by (auto simp: verdict_def Cons_nth_drop_Suc [symmetric])

lemma verdict_end: "verdict W T (length W) t = (if length T \<le> t then 1 else 0)"
  by (simp add: verdict_def)

lemma verdict_star:
  assumes "w < length W" and "W ! w = star" and "\<not> (t < length T \<and> (W ! w = T ! t \<or> W ! w = quest))"
    and "t \<le> length T"
  shows "verdict W T w t =
    (if verdict W T (w + 1) t \<noteq> 0 \<or> t < length T \<and> verdict W T w (t + 1) \<noteq> 0 then 1 else 0)"
proof (cases "t < length T")
  case True
  then show ?thesis
    using assms by (simp add: verdict_def Cons_nth_drop_Suc [symmetric])
next
  case False
  then show ?thesis
    using assms by (simp add: verdict_def Cons_nth_drop_Suc [symmetric])
qed

lemma verdict_stuck:
  assumes "w < length W" and "W ! w \<noteq> star" and "\<not> (t < length T \<and> (W ! w = T ! t \<or> W ! w = quest))"
    and "t \<le> length T"
  shows "verdict W T w t = 0"
proof (cases "t < length T")
  case True
  then show ?thesis
    using assms by (simp add: verdict_def Cons_nth_drop_Suc [symmetric])
next
  case False
  then show ?thesis
    using assms by (simp add: verdict_def Cons_nth_drop_Suc [symmetric])
qed

theorem memoization_sound:
  assumes "length W \<le> 100" and "length T \<le> 100"
    and "w \<le> length W" and "t \<le> length T" and "sound_dp W T dp"
  shows "\<exists>dp'. memoization W T w t dp = Inr (verdict W T w t, dp') \<and> sound_dp W T dp'"
  using assms
proof (induction W T w t dp rule: memoization.induct)
  case (1 W T w t dp)
  have range: "\<not> 101 \<le> w" "\<not> 101 \<le> t"
    using "1.prems" by auto
  have known: "dp_get dp w t \<noteq> - 1 \<Longrightarrow> dp_get dp w t = verdict W T w t"
    using "1.prems" by (auto simp: sound_dp_def)
  note keep = sound_dp_set [of W T _ w t]
  show ?case
  proof (cases "dp_get dp w t \<noteq> - 1")
    case True
    then show ?thesis
      using range known "1.prems" by (subst memoization.simps) simp
  next
    case new: False
    consider (char) "w < length W" "t < length T" "W ! w = T ! t \<or> W ! w = quest"
      | (over) "w = length W"
      | (star) "w < length W" "W ! w = star" "\<not> (t < length T \<and> (W ! w = T ! t \<or> W ! w = quest))"
      | (stuck) "w < length W" "W ! w \<noteq> star" "\<not> (t < length T \<and> (W ! w = T ! t \<or> W ! w = quest))"
      using "1.prems"(3) by linarith
    then show ?thesis
    proof cases
      case char
      then show ?thesis
      proof -
        obtain dp' where r: "memoization W T (w + 1) (t + 1) dp = Inr (verdict W T (w + 1) (t + 1), dp')"
          and ok: "sound_dp W T dp'"
          using "1.IH"(1) range new char "1.prems" by auto
        show ?thesis
          by (subst memoization.simps)
            (use range new char r verdict_char [OF char] keep [OF ok] in simp)
      qed
    next
      case over
      then show ?thesis
        using range new keep [OF "1.prems"(5)] "1.prems"(4) verdict_end [of W T t]
        by (subst memoization.simps) (auto simp: Let_def)
    next
      case star
      then show ?thesis
      proof -
        have v: "verdict W T w t =
            (if verdict W T (w + 1) t \<noteq> 0 \<or> t < length T \<and> verdict W T w (t + 1) \<noteq> 0 then 1 else 0)"
          using verdict_star star "1.prems"(4) by blast
        obtain dp1 where r1: "memoization W T (w + 1) t dp = Inr (verdict W T (w + 1) t, dp1)"
          and ok1: "sound_dp W T dp1"
          using "1.IH"(2) range new star "1.prems" by auto
        show ?thesis
        proof (cases "verdict W T (w + 1) t = 0 \<and> t < length T")
          case True
          then obtain dp2 where r2: "memoization W T w (t + 1) dp1 = Inr (verdict W T w (t + 1), dp2)"
            and ok2: "sound_dp W T dp2"
            using "1.IH"(3) [OF _ _ _ _ _ r1 refl] range new star ok1 "1.prems" by auto
          then show ?thesis
            by (subst memoization.simps) (use range new star r1 True v keep [OF ok2] in \<open>auto split: if_splits\<close>)
        next
          case False
          then show ?thesis
            by (subst memoization.simps) (use range new star r1 v keep [OF ok1] in auto)
        qed
      qed
    next
      case stuck
      then show ?thesis
        using range new keep [OF "1.prems"(5)] "1.prems"(4) verdict_stuck [OF stuck "1.prems"(4)]
        by (subst memoization.simps) auto
    qed
  qed
qed

section \<open>Correctness, bounds and the test cases\<close>

lemma memo_match_literal_first:
  assumes "length W \<le> 100" and "length T \<le> 100"
  shows "memo_match W T = Inr (of_bool (literal_first W T))"
  using memoization_sound [OF assms _ _ sound_dp_start [OF assms], of 0 0]
  by (auto simp: memo_match_def verdict_def)

lemma memoization_overruns:
  assumes "take 101 W = take 101 T" and "100 < length W" and "100 < length T" and "w \<le> 101"
  shows "memoization W T w w dp_start = Inl Out_of_bounds"
  using assms(4)
proof (induction "101 - w" arbitrary: w)
  case 0
  then show ?case
    by (subst memoization.simps) simp
next
  case (Suc n)
  then have "w < 101"
    by simp
  moreover from this have "W ! w = T ! w"
    using arg_cong [OF assms(1), of "\<lambda>s. s ! w"] by simp
  moreover have "memoization W T (w + 1) (w + 1) dp_start = Inl Out_of_bounds"
    using Suc by simp
  ultimately show ?case
    using assms(2,3) by (subst memoization.simps) (simp add: dp_get_start)
qed

text \<open>
  C19: for strings of at most 100 characters, \<open>memoization(0, 0)\<close> on a fresh table returns
  1 exactly if the pattern, read as the strings it denotes, contains the text, provided
  the text has no star of its own; with such stars a result of 1 is still right.
\<close>

theorem memo_match_correct:
  assumes "length W \<le> 100" and "length T \<le> 100"
  shows "(star \<notin> set T \<longrightarrow> memo_match W T = Inr (of_bool (T \<in> lang W))) \<and>
    (memo_match W T = Inr 1 \<longrightarrow> T \<in> lang W) \<and>
    memo_match W T \<in> {Inr 0, Inr 1}"
  using literal_first_eq [of T W] literal_first_wild [of W T]
  by (auto simp: memo_match_literal_first [OF assms] wild_lang)

theorem memo_match_correct_witness:
  "memo_match ''*xxx*?g'' ''abcxxdexxxcdefg'' = Inr 1 \<and> memo_match ''*b'' ''*ab'' = Inr 0 \<and>
    ''*ab'' \<in> lang ''*b''"
proof (intro conjI)
  have "wild ''*xxx*?g'' ''abcxxdexxxcdefg''"
    by simp
  then show "memo_match ''*xxx*?g'' ''abcxxdexxxcdefg'' = Inr 1"
    using memo_match_correct [of "''*xxx*?g''" "''abcxxdexxxcdefg''"] by (simp flip: wild_lang del: lang.simps)
  show "memo_match ''*b'' ''*ab'' = Inr 0"
    by (simp add: memo_match_literal_first)
  have "wild ''*b'' ''*ab''"
    by simp
  then show "''*ab'' \<in> lang ''*b''"
    by (simp only: wild_lang)
qed

text \<open>
  The table has 101 rows and columns while \<open>W\<close> and \<open>T\<close> have room for 1023 characters:
  a text that agrees with the pattern in its first 101 characters takes the recursion
  out of the table.
\<close>

theorem memo_match_overruns:
  assumes "take 101 W = take 101 T" and "100 < length W" and "100 < length T"
  shows "memo_match W T = Inl Out_of_bounds"
  using memoization_overruns [OF assms, of 0] by (simp add: memo_match_def)

theorem memo_match_overruns_witness: "memo_match (replicate 101 CHR ''a'') (replicate 200 CHR ''a'') = Inl Out_of_bounds"
  by (rule memo_match_overruns) simp_all

definition main_comments :: "bool list" where
  "main_comments =
    [True, False, True, False, False, False, True, False, True, False, False, True, True, True,
     True, True, True, True, False, True, True, False, False, False, True, True, False]"

lemma main_case_short: "length (fst (main_case i)) \<le> 100 \<and> length (snd (main_case i)) \<le> 100"
  by (simp add: main_case_def)

lemma main_says_match: "main_says i = Inr (case main_case i of (W, T) \<Rightarrow> literal_first W T)"
  using main_case_short [of i]
  by (cases "main_case i") (simp add: main_says_def memo_match_literal_first)

text \<open>
  For each of the 27 types, \<open>main\<close> prints what the comment at its case says, and an
  unknown type, which leaves both strings empty, counts as a match.
\<close>

theorem main_says_comments:
  "map main_says [0..26] = map Inr main_comments \<and> main_says 27 = Inr True \<and> main_says (- 1) = Inr True"
proof -
  have "map (\<lambda>i. case main_case i of (W, T) \<Rightarrow> literal_first W T) [0..26] = main_comments"
    by code_simp
  then have "map main_says [0..26] = map Inr main_comments"
    by (metis (no_types, lifting) ext comp_apply list.map_comp main_says_match)
  then show ?thesis
    by (simp add: main_says_match main_case_def)
qed

interpretation memo: sound_matcher "\<lambda>p l. memo_match p l = Inr 1" "\<lambda>p l. length p \<le> 100 \<and> length l \<le> 100 \<and> star \<notin> set l"
  "\<lambda>p l. length p \<le> 100 \<and> length l \<le> 100"
  by unfold_locales (auto simp: memo_match_literal_first literal_first_eq wild_lang dest!: literal_first_wild)

lemma memo_match_answers: "length p \<le> 100 \<Longrightarrow> length l \<le> 100 \<Longrightarrow> memo_match p l \<in> {Inr 0, Inr 1}"
  by (simp add: memo_match_literal_first)

end
