(* ===== verification/WildMatch.thy ===== *)
theory WildMatch
  imports Wild_Spec
begin

text \<open>
  \<open>test_wildcard/match2/main.c\<close> and \<open>test_wildcard/match/main.c\<close>: the two versions of
  \<open>is_match\<close>, loops over pointers into the line and the pattern that go back to the last
  star when a segment fails. A pointer is an index into its string, or \<open>None\<close> for the
  null pointer; reading a string at its length gives the terminator, and reading further
  is a fault. The loops are \<open>partial_function\<close>s, so that running for ever would be \<open>None\<close>.
\<close>

section \<open>State\<close>

record match_state =
  line_at :: "nat option"
  pattern_at :: nat
  wildcard :: bool
  last_pattern_start :: "nat option"
  last_line_start :: "nat option"

definition match_start :: match_state where
  "match_start = \<lparr>line_at = Some 0, pattern_at = 0, wildcard = False,
     last_pattern_start = None, last_line_start = None\<rparr>"

definition ch :: "string \<Rightarrow> nat \<Rightarrow> c_fault + char" where
  "ch s i = (if i < length s then Inr (s ! i) else if i = length s then Inr NUL else Inl Out_of_bounds)"

fun deref :: "string \<Rightarrow> nat option \<Rightarrow> c_fault + char" where
  "deref s None = Inl Null_pointer"
| "deref s (Some i) = ch s i"

datatype outcome = Next match_state | Return int | Fault c_fault

definition read_char :: "c_fault + char \<Rightarrow> (char \<Rightarrow> outcome) \<Rightarrow> outcome" where
  "read_char r f = (case r of Inl e \<Rightarrow> Fault e | Inr c \<Rightarrow> f c)"

definition step_line :: "nat option \<Rightarrow> nat option" where
  "step_line p = map_option Suc p"

text \<open>
  The branches the two loop bodies share: a matched character, a character skipped after
  a star, and going back to the last star.
\<close>

definition take_char :: "match_state \<Rightarrow> match_state" where
  "take_char \<sigma> = \<sigma>\<lparr>last_line_start := (if wildcard \<sigma> then step_line (line_at \<sigma>) else last_line_start \<sigma>),
     line_at := step_line (line_at \<sigma>), pattern_at := pattern_at \<sigma> + 1, wildcard := False\<rparr>"

definition take_star :: "match_state \<Rightarrow> match_state" where
  "take_star \<sigma> = \<sigma>\<lparr>last_pattern_start := Some (pattern_at \<sigma>), wildcard := True, pattern_at := pattern_at \<sigma> + 1\<rparr>"

definition skip_char :: "match_state \<Rightarrow> match_state" where
  "skip_char \<sigma> = \<sigma>\<lparr>line_at := step_line (line_at \<sigma>)\<rparr>"

definition go_back :: "nat \<Rightarrow> match_state \<Rightarrow> match_state" where
  "go_back p \<sigma> = \<sigma>\<lparr>pattern_at := p, line_at := last_line_start \<sigma>, last_line_start := None\<rparr>"

section \<open>match2\<close>

definition match2_body :: "string \<Rightarrow> string \<Rightarrow> match_state \<Rightarrow> outcome" where
  "match2_body line pattern \<sigma> =
    read_char (ch pattern (pattern_at \<sigma>)) (\<lambda>p. read_char (deref line (line_at \<sigma>)) (\<lambda>c.
      if p = CHR ''*'' then
        read_char (ch pattern (pattern_at \<sigma> + 1)) (\<lambda>q.
          if q = NUL then Return 1 else Next (take_star \<sigma>))
      else if p = c \<or> p = CHR ''?'' then Next (take_char \<sigma>)
      else if wildcard \<sigma> then Next (skip_char \<sigma>)
      else case last_pattern_start \<sigma> of Some s \<Rightarrow> Next (go_back s \<sigma>) | None \<Rightarrow> Return 0))"

text \<open>After the loop: the pattern is used up, or a single star is left of it.\<close>

definition match2_end :: "string \<Rightarrow> match_state \<Rightarrow> c_fault + int" where
  "match2_end pattern \<sigma> =
    (case ch pattern (pattern_at \<sigma>) of
       Inl e \<Rightarrow> Inl e
     | Inr p \<Rightarrow> if p = NUL then Inr 1
         else if p = CHR ''*'' then Inr (if length pattern - (pattern_at \<sigma> + 1) = 0 then 1 else 0)
         else Inr 0)"

partial_function (option) match2_loop :: "string \<Rightarrow> string \<Rightarrow> match_state \<Rightarrow> (c_fault + int) option" where
  "match2_loop line pattern \<sigma> =
    (case deref line (line_at \<sigma>) of
       Inl e \<Rightarrow> Some (Inl e)
     | Inr c \<Rightarrow>
         if c = NUL then Some (match2_end pattern \<sigma>)
         else (case match2_body line pattern \<sigma> of
             Fault e \<Rightarrow> Some (Inl e)
           | Return r \<Rightarrow> Some (Inr r)
           | Next \<sigma>' \<Rightarrow> match2_loop line pattern \<sigma>'))"

definition is_match2 :: "string \<Rightarrow> string \<Rightarrow> (c_fault + int) option" where
  "is_match2 line pattern = match2_loop line pattern match_start"

section \<open>match\<close>

definition match_body :: "string \<Rightarrow> string \<Rightarrow> match_state \<Rightarrow> outcome" where
  "match_body line pattern \<sigma> =
    read_char (ch pattern (pattern_at \<sigma>)) (\<lambda>p. read_char (deref line (line_at \<sigma>)) (\<lambda>c.
      if p = c then Next (take_char \<sigma>)
      else if p = CHR ''?'' then (if c = NUL then Return 0 else Next (take_char \<sigma>))
      else if p = CHR ''*'' then
        read_char (ch pattern (pattern_at \<sigma> + 1)) (\<lambda>q.
          if q = NUL then Return 1 else Next (take_star \<sigma>))
      else if wildcard \<sigma> then Next (skip_char \<sigma>)
      else if p = NUL \<and> c = NUL then Return 1
      else case last_pattern_start \<sigma> of Some s \<Rightarrow> Next (go_back s \<sigma>) | None \<Rightarrow> Return 0))"

text \<open>
  After the loop \<open>*line\<close> is the terminator, so \<open>strlen(line) == 0\<close> holds: a pattern that
  stands at a star or a question mark counts as used up.
\<close>

definition match_end :: "string \<Rightarrow> match_state \<Rightarrow> c_fault + int" where
  "match_end pattern \<sigma> =
    (case ch pattern (pattern_at \<sigma>) of
       Inl e \<Rightarrow> Inl e
     | Inr p \<Rightarrow> if p = NUL then Inr 1 else if p = CHR ''?'' \<or> p = CHR ''*'' then Inr 1 else Inr 0)"

partial_function (option) match_loop :: "string \<Rightarrow> string \<Rightarrow> match_state \<Rightarrow> (c_fault + int) option" where
  "match_loop line pattern \<sigma> =
    (case match_body line pattern \<sigma> of
       Fault e \<Rightarrow> Some (Inl e)
     | Return r \<Rightarrow> Some (Inr r)
     | Next \<sigma>' \<Rightarrow>
         (case deref line (line_at \<sigma>') of
            Inl e \<Rightarrow> Some (Inl e)
          | Inr c \<Rightarrow> if c = NUL then Some (match_end pattern \<sigma>') else match_loop line pattern \<sigma>'))"

definition is_match :: "string \<Rightarrow> string \<Rightarrow> (c_fault + int) option" where
  "is_match line pattern = match_loop line pattern match_start"

section \<open>The states the loops go through\<close>

text \<open>
  The states of a run over strings without terminators inside: before the first star;
  scanning for the first character after the star at \<open>k\<close>; inside an attempt that began at
  \<open>j\<close>; and just gone back. Each also says what the pattern up to its last star has
  matched.
\<close>

inductive good :: "string \<Rightarrow> string \<Rightarrow> match_state \<Rightarrow> bool" for L P where
  fresh: "\<lbrakk>i \<le> length L; p \<le> length P; wild (take p P) (take i L)\<rbrakk> \<Longrightarrow>
    good L P \<lparr>line_at = Some i, pattern_at = p, wildcard = False, last_pattern_start = None, last_line_start = None\<rparr>"
| scan: "\<lbrakk>i \<le> length L; k + 1 < length P; P ! k = star; wild (take (k + 1) P) (take i L)\<rbrakk> \<Longrightarrow>
    good L P \<lparr>line_at = Some i, pattern_at = k + 1, wildcard = True, last_pattern_start = Some k, last_line_start = m\<rparr>"
| attempt: "\<lbrakk>0 < n; j + n \<le> length L; k + 1 + n \<le> length P; P ! k = star; wild (take (k + 1) P) (take j L);
    seg (take n (drop (k + 1) P)) (take n (drop j L))\<rbrakk> \<Longrightarrow>
    good L P \<lparr>line_at = Some (j + n), pattern_at = k + 1 + n, wildcard = False, last_pattern_start = Some k,
      last_line_start = Some (j + 1)\<rparr>"
| returned: "\<lbrakk>i \<le> length L; k + 1 < length P; P ! k = star; wild (take (k + 1) P) (take i L)\<rbrakk> \<Longrightarrow>
    good L P \<lparr>line_at = Some i, pattern_at = k, wildcard = False, last_pattern_start = Some k, last_line_start = None\<rparr>"

text \<open>Where the current attempt began, the pattern still to be matched from there, and what is expected.\<close>

definition anchor :: "match_state \<Rightarrow> nat" where
  "anchor \<sigma> =
    (if wildcard \<sigma> \<or> last_pattern_start \<sigma> = None \<or> last_pattern_start \<sigma> = Some (pattern_at \<sigma>)
     then the (line_at \<sigma>) else the (last_line_start \<sigma>) - 1)"

definition pattern_from :: "match_state \<Rightarrow> nat" where
  "pattern_from \<sigma> = (case last_pattern_start \<sigma> of None \<Rightarrow> pattern_at \<sigma> | Some k \<Rightarrow> k)"

definition expected :: "string \<Rightarrow> string \<Rightarrow> match_state \<Rightarrow> bool" where
  "expected L P \<sigma> \<longleftrightarrow> wild (drop (pattern_from \<sigma>) P) (drop (anchor \<sigma>) L)"

definition run_order :: "string \<Rightarrow> string \<Rightarrow> (match_state \<times> match_state) set" where
  "run_order L P = measures
    [\<lambda>\<sigma>. length P - pattern_from \<sigma>, \<lambda>\<sigma>. length L - anchor \<sigma>,
     \<lambda>\<sigma>. (length L - the (line_at \<sigma>)) + (length P - pattern_at \<sigma>)]"

lemmas state_defs = anchor_def pattern_from_def expected_def run_order_def

lemma good_start: "good L P match_start"
  unfolding match_start_def by (rule good.fresh) simp_all

lemma expected_start: "expected L P match_start \<longleftrightarrow> L \<in> lang P"
  by (simp add: state_defs match_start_def wild_lang)

definition closed_string :: "string \<Rightarrow> bool" where
  "closed_string s \<longleftrightarrow> NUL \<notin> set s"

lemma ch_closed: "closed_string s \<Longrightarrow> i \<le> length s \<Longrightarrow> \<exists>c. ch s i = Inr c \<and> (c = NUL \<longleftrightarrow> i = length s)"
  by (cases "i < length s") (auto simp: ch_def closed_string_def in_set_conv_nth)

lemma ch_nth: "closed_string s \<Longrightarrow> i \<le> length s \<Longrightarrow> ch s i = Inr c \<Longrightarrow> c \<noteq> NUL \<Longrightarrow> i < length s \<and> s ! i = c"
  by (auto simp: ch_def split: if_splits)

definition advances :: "string \<Rightarrow> string \<Rightarrow> match_state \<Rightarrow> match_state \<Rightarrow> bool" where
  "advances L P \<sigma> \<sigma>' \<longleftrightarrow> good L P \<sigma>' \<and> (expected L P \<sigma>' \<longleftrightarrow> expected L P \<sigma>) \<and> (\<sigma>', \<sigma>) \<in> run_order L P"

lemma expected_fresh:
  "expected L P \<lparr>line_at = Some i, pattern_at = p, wildcard = w, last_pattern_start = None, last_line_start = m\<rparr> \<longleftrightarrow>
    wild (drop p P) (drop i L)"
  by (simp add: state_defs)

lemma expected_scan:
  "k < length P \<Longrightarrow> P ! k = star \<Longrightarrow>
    expected L P \<lparr>line_at = Some i, pattern_at = p, wildcard = True, last_pattern_start = Some k, last_line_start = m\<rparr> \<longleftrightarrow>
    wild (star # drop (k + 1) P) (drop i L)"
  using Cons_nth_drop_Suc [of k P] by (simp add: state_defs)

lemma expected_returned:
  "k < length P \<Longrightarrow> P ! k = star \<Longrightarrow>
    expected L P \<lparr>line_at = Some i, pattern_at = k, wildcard = w, last_pattern_start = Some k, last_line_start = m\<rparr> \<longleftrightarrow>
    wild (star # drop (k + 1) P) (drop i L)"
  using Cons_nth_drop_Suc [of k P] by (simp add: state_defs)

lemma expected_attempt:
  assumes "0 < n" and "k < length P" and "P ! k = star"
  shows "expected L P \<lparr>line_at = Some i, pattern_at = k + 1 + n, wildcard = False, last_pattern_start = Some k,
      last_line_start = Some (j + 1)\<rparr> \<longleftrightarrow>
    wild (star # take n (drop (k + 1) P) @ drop (k + 1 + n) P) (take n (drop j L) @ drop (j + n) L)"
proof -
  have "take n (drop (k + 1) P) @ drop (k + 1 + n) P = drop (k + 1) P"
    "take n (drop j L) @ drop (j + n) L = drop j L"
    by (metis append_take_drop_id drop_drop add.commute)+
  then show ?thesis
    using assms Cons_nth_drop_Suc [of k P] by (simp add: state_defs)
qed

lemma take_star_split:
  "k < length P \<Longrightarrow> P ! k = star \<Longrightarrow> take (k + 1) P = take k P @ [star]"
  by (simp add: take_Suc_conv_app_nth)

lemma prefix_absorbs:
  assumes "k < length P" and "P ! k = star" and "wild (take (k + 1) P) (take i L)" and "i \<le> j"
  shows "wild (take (k + 1) P) (take j L)"
proof -
  have "take j L = take i L @ take (j - i) (drop i L)"
    using assms(4) by (metis le_add_diff_inverse take_add)
  then show ?thesis
    using wild_absorbs [of "take k P" "take i L"] assms(3) take_star_split [OF assms(1,2)] by simp
qed

lemma prefix_grows:
  assumes "wild (take p P) (take i L)" and "seg (take n (drop p P)) (take n (drop i L))"
  shows "wild (take (p + n) P) (take (i + n) L)"
  using wild_append [OF assms(1) seg_wild [OF assms(2)]] by (simp add: take_add)

lemma seg_one:
  "i < length L \<Longrightarrow> p < length P \<Longrightarrow> P ! p \<noteq> star \<Longrightarrow> P ! p = quest \<or> P ! p = L ! i \<Longrightarrow>
    seg (take 1 (drop p P)) (take 1 (drop i L))"
  by (simp add: Cons_nth_drop_Suc [symmetric])

lemma advance_char:
  assumes "good L P \<sigma>" and "line_at \<sigma> = Some i" and "i < length L" and "pattern_at \<sigma> = p" and "p < length P"
    and "P ! p \<noteq> star" and "P ! p = quest \<or> P ! p = L ! i"
  shows "advances L P \<sigma> (take_char \<sigma>)"
  using assms(1)
proof cases
  case (fresh i' p')
  then have [simp]: "i' = i" "p' = p"
    using assms(2,4) by simp_all
  have "wild (take p P) (take i L)"
    using fresh by simp
  from prefix_grows [OF this seg_one [OF assms(3,5-7)]] have "good L P (take_char \<sigma>)"
    using good.fresh [of "i + 1" L "p + 1" P] assms(3,5) by (simp add: fresh take_char_def step_line_def)
  moreover have "wild (drop p P) (drop i L) \<longleftrightarrow> wild (drop (p + 1) P) (drop (i + 1) L)"
    using assms(3,5-7) by (auto simp: Cons_nth_drop_Suc [symmetric])
  ultimately show ?thesis
    using assms(3,5) by (simp add: advances_def fresh take_char_def step_line_def state_defs diff_less_mono2)
next
  case (scan i' k m)
  then have [simp]: "i' = i" "p = k + 1"
    using assms(2,4) by simp_all
  have "good L P (take_char \<sigma>)"
    using good.attempt [of 1 i L k P] seg_one [OF assms(3,5-7)] scan assms(3,5)
    by (simp add: take_char_def step_line_def)
  then show ?thesis
    using assms(3,5) scan by (auto simp: advances_def take_char_def step_line_def state_defs)
next
  case (attempt n j k)
  then have [simp]: "i = j + n" "p = k + 1 + n"
    using assms(2,4) by simp_all
  have "seg (take (n + 1) (drop (k + 1) P)) (take (n + 1) (drop j L))"
    using seg_snoc [OF attempt(7), of "P ! p" "L ! i"] assms(3,5-7) by (simp add: take_Suc_conv_app_nth)
  then have "good L P (take_char \<sigma>)"
    using good.attempt [of "n + 1" j L k P] attempt assms(3,5) by (simp add: take_char_def step_line_def)
  then show ?thesis
    using assms(3,5) attempt by (simp add: advances_def take_char_def step_line_def state_defs)
next
  case (returned i k)
  then show ?thesis
    using assms(4,6) by simp
qed

lemma advance_skip:
  assumes "good L P \<sigma>" and "line_at \<sigma> = Some i" and "i < length L" and "pattern_at \<sigma> = p"
    and "wildcard \<sigma>" and "P ! p \<noteq> star" and "P ! p \<noteq> quest" and "P ! p \<noteq> L ! i"
  shows "advances L P \<sigma> (skip_char \<sigma>)"
  using assms(1)
proof cases
  case (scan i' k m)
  then have [simp]: "i' = i" "p = k + 1"
    using assms(2,4) by simp_all
  have "good L P (skip_char \<sigma>)"
    using good.scan [of "i + 1" L k P m] scan prefix_absorbs [of k P i L "i + 1"] assms(3)
    by (simp add: skip_char_def step_line_def)
  moreover have "expected L P (skip_char \<sigma>) \<longleftrightarrow> expected L P \<sigma>"
    using scan assms(3,6-8) Cons_nth_drop_Suc [of i L] Cons_nth_drop_Suc [of "k + 1" P]
    by (simp add: skip_char_def step_line_def expected_scan) (metis wild.simps(3))
  ultimately show ?thesis
    using scan assms(3) by (simp add: advances_def skip_char_def step_line_def run_order_def anchor_def pattern_from_def diff_less_mono2)
qed (use assms(5) in simp_all)

lemma attempt_fails:
  assumes "seg s u" and "q = [] \<or> hd q \<noteq> star \<and> hd q \<noteq> quest \<and> hd q \<noteq> c"
  shows "\<not> wild (s @ q) (u @ c # l)"
  using assms(2) wild_seg [OF assms(1), of q "c # l"] by (cases q) auto

lemma mismatch_head:
  assumes "p \<le> length P" and "p < length P \<Longrightarrow> P ! p \<noteq> star \<and> P ! p \<noteq> quest \<and> P ! p \<noteq> c"
  shows "drop p P = [] \<or> hd (drop p P) \<noteq> star \<and> hd (drop p P) \<noteq> quest \<and> hd (drop p P) \<noteq> c"
  using assms by (cases "p < length P") (auto simp: hd_drop_conv_nth)

lemma advance_back:
  assumes "good L P \<sigma>" and "line_at \<sigma> = Some i" and "i < length L" and "pattern_at \<sigma> = p"
    and "\<not> wildcard \<sigma>" and "last_pattern_start \<sigma> = Some k"
    and "p < length P \<Longrightarrow> P ! p \<noteq> star \<and> P ! p \<noteq> quest \<and> P ! p \<noteq> L ! i"
  shows "advances L P \<sigma> (go_back k \<sigma>)"
  using assms(1)
proof cases
  case (attempt n j k')
  then have [simp]: "k' = k" "i = j + n" "p = k + 1 + n"
    using assms(2,4,6) by simp_all
  let ?s = "take n (drop (k + 1) P)" and ?q = "drop p P" and ?u = "take n (drop j L)"
  have "good L P (go_back k \<sigma>)"
    using good.returned [of "j + 1" L k P] attempt prefix_absorbs [of k P j L "j + 1"]
    by (simp add: go_back_def)
  moreover have "expected L P (go_back k \<sigma>) \<longleftrightarrow> expected L P \<sigma>"
  proof -
    have "?u @ L ! i # drop (i + 1) L = drop j L"
      using Cons_nth_drop_Suc [OF assms(3)] append_take_drop_id [of n "drop j L"] by (simp add: add.commute)
    moreover have "?s @ ?q = drop (k + 1) P"
      using append_take_drop_id [of n "drop (k + 1) P"] by (simp add: add.commute)
    moreover have "\<not> wild (?s @ ?q) (?u @ L ! i # drop (i + 1) L)"
      using attempt_fails [OF attempt(7)] mismatch_head [OF _ assms(7)] attempt(4) by simp
    ultimately have "\<not> wild (drop (k + 1) P) (drop j L)"
      by simp
    moreover have "drop j L = L ! j # drop (j + 1) L"
      using attempt(2,3) by (simp add: Cons_nth_drop_Suc)
    ultimately have "wild (star # drop (k + 1) P) (drop (j + 1) L) \<longleftrightarrow> wild (star # drop (k + 1) P) (drop j L)"
      by simp
    moreover have "star # drop (k + 1) P = drop k P"
      using attempt(4,5) Cons_nth_drop_Suc [of k P] by simp
    ultimately show ?thesis
      using attempt(1,2) by (simp add: go_back_def state_defs)
  qed
  moreover have "length L - Suc j < length L - j"
    using attempt by simp
  ultimately show ?thesis
    using attempt by (simp add: advances_def go_back_def run_order_def anchor_def pattern_from_def)
next
  case (returned i' k')
  then show ?thesis
    using assms(4,6,7) by simp
qed (use assms(5,6) in simp_all)

lemma advance_star:
  assumes "good L P \<sigma>" and "pattern_at \<sigma> = p" and "p + 1 < length P" and "P ! p = star"
  shows "advances L P \<sigma> (take_star \<sigma>)"
  using assms(1)
proof cases
  case (fresh i p')
  then have [simp]: "p' = p"
    using assms(2) by simp
  have "wild (take (p + 1) P) (take i L)"
    using wild_append [of "take p P" "take i L" "[star]" "[]"] fresh take_star_split [of p P] assms(3,4) by simp
  then have "good L P (take_star \<sigma>)"
    using good.scan [of i L p P] fresh assms(3,4) by (simp add: take_star_def)
  then show ?thesis
    using fresh assms(3,4) by (simp add: advances_def take_star_def state_defs diff_less_mono2)
next
  case (scan i k m)
  then have [simp]: "p = k + 1"
    using assms(2) by simp
  have "wild (take (p + 1) P) (take i L)"
    using wild_append [of "take p P" "take i L" "[star]" "[]"] scan take_star_split [of p P] assms(3,4) by simp
  then have "good L P (take_star \<sigma>)"
    using good.scan [of i L p P m] scan assms(3,4) by (simp add: take_star_def)
  moreover have "wild (drop k P) (drop i L) \<longleftrightarrow> wild (drop (k + 1) P) (drop i L)"
    using scan assms(3,4) Cons_nth_drop_Suc [of k P] Cons_nth_drop_Suc [of "k + 1" P]
      leftmost_segment [of "[]" "[]" "drop (k + 2) P" "drop i L"] by simp
  ultimately show ?thesis
    using scan assms(3,4) by (simp add: advances_def take_star_def state_defs diff_less_mono2)
next
  case (attempt n j k)
  then have [simp]: "p = k + 1 + n"
    using assms(2) by simp
  have "wild (take p P) (take (j + n) L)"
    using prefix_grows [of "k + 1" P j L n] attempt by simp
  then have "wild (take (p + 1) P) (take (j + n) L)"
    using wild_append [of "take p P" "take (j + n) L" "[star]" "[]"] take_star_split [of p P] assms(3,4) by simp
  then have "good L P (take_star \<sigma>)"
    using good.scan [of "j + n" L p P] attempt assms(3,4) by (simp add: take_star_def)
  moreover have "expected L P \<sigma> \<longleftrightarrow> wild (drop p P) (drop (j + n) L)"
    using expected_attempt [of n k P L] attempt leftmost_segment [OF attempt(7), of "drop (p + 1) P" "drop (j + n) L"]
      Cons_nth_drop_Suc [of p P] assms(3,4) by simp
  ultimately show ?thesis
    using attempt assms(3,4) by (simp add: advances_def take_star_def state_defs diff_less_mono2)
next
  case (returned i k)
  then have [simp]: "p = k"
    using assms(2) by simp
  have "good L P (take_star \<sigma>)"
    using good.scan [of i L p P] returned by (simp add: take_star_def)
  then show ?thesis
    using returned assms(3,4) by (simp add: advances_def take_star_def state_defs diff_less_mono2)
qed

lemma no_star_fails:
  assumes "good L P \<sigma>" and "line_at \<sigma> = Some i" and "i < length L" and "pattern_at \<sigma> = p"
    and "\<not> wildcard \<sigma>" and "last_pattern_start \<sigma> = None"
    and "p < length P \<Longrightarrow> P ! p \<noteq> star \<and> P ! p \<noteq> quest \<and> P ! p \<noteq> L ! i"
  shows "\<not> expected L P \<sigma>"
  using assms(1)
proof cases
  case (fresh i' p')
  then show ?thesis
    using attempt_fails [of "[]" "[]" "drop p P" "L ! i" "drop (i + 1) L"] mismatch_head [OF _ assms(7)] assms(2-4)
    by (simp add: expected_fresh Cons_nth_drop_Suc)
qed (use assms(5,6) in simp_all)

lemma star_last:
  assumes "good L P \<sigma>" and "pattern_at \<sigma> = p" and "p + 1 = length P" and "P ! p = star"
  shows "expected L P \<sigma>"
proof -
  have last: "drop p P = [star]"
    using assms(3,4) Cons_nth_drop_Suc [of p P] by simp
  have all: "wild [star] l" for l
    using wild_star [of "[]" l] by simp
  from assms(1) show ?thesis
  proof cases
    case (scan i k m)
    have "P = take p P @ [star]"
      using last by (metis append_take_drop_id)
    then show ?thesis
      using scan assms(2) last all wild_star [of "drop (k + 1) P" "drop i L"]
      by (simp add: expected_scan) (metis append_Nil)
  next
    case (attempt n j k)
    then show ?thesis
      using expected_attempt [of n k P L "j + n" j] assms(2,3) last all
        leftmost_segment [OF attempt(7), of "[]" "drop (j + n) L"] by simp
  qed (use assms(2,3) last all in \<open>simp_all add: state_defs\<close>)
qed

lemma good_range:
  assumes "good L P \<sigma>"
  shows "\<exists>i. line_at \<sigma> = Some i \<and> i \<le> length L" and "pattern_at \<sigma> \<le> length P"
    and "wildcard \<sigma> \<Longrightarrow> pattern_at \<sigma> < length P"
    and "wildcard \<sigma> \<Longrightarrow> last_pattern_start \<sigma> \<noteq> None"
  using assms by (cases; simp)+

lemma match2_body_good:
  assumes "closed_string L" and "closed_string P" and "good L P \<sigma>" and "line_at \<sigma> = Some i" and "i < length L"
  shows "(\<exists>\<sigma>'. match2_body L P \<sigma> = Next \<sigma>' \<and> advances L P \<sigma> \<sigma>') \<or>
    match2_body L P \<sigma> = Return (of_bool (expected L P \<sigma>))"
proof -
  define p where "p = pattern_at \<sigma>"
  note at = assms(4,5) p_def [symmetric]
  have le: "p \<le> length P"
    using good_range(2) [OF assms(3)] by (simp add: p_def)
  have c: "deref L (line_at \<sigma>) = Inr (L ! i)"
    using assms(4,5) by (simp add: ch_def)
  have cn: "L ! i \<noteq> NUL"
    using assms(1,5) by (auto simp: closed_string_def in_set_conv_nth)
  have pn: "q < length P \<Longrightarrow> P ! q \<noteq> NUL" for q
    using assms(2) by (auto simp: closed_string_def in_set_conv_nth)
  note body = match2_body_def read_char_def c cn p_def [symmetric]
  consider (star) "p < length P" "P ! p = star"
    | (char) "p < length P" "P ! p \<noteq> star" "P ! p = quest \<or> P ! p = L ! i"
    | (other) "p < length P \<Longrightarrow> P ! p \<noteq> star \<and> P ! p \<noteq> quest \<and> P ! p \<noteq> L ! i"
    by blast
  then show ?thesis
  proof cases
    case star
    then show ?thesis
    proof (cases "p + 1 = length P")
      case True
      then show ?thesis
        using star star_last [OF assms(3) at(3) True star(2)] by (simp add: body ch_def)
    next
      case False
      then show ?thesis
        using star pn [of "p + 1"] advance_star [OF assms(3) at(3) _ star(2)] by (auto simp: body ch_def)
    qed
  next
    case char
    then show ?thesis
      using advance_char [OF assms(3) at char] by (auto simp: body ch_def)
  next
    case other
    then show ?thesis
    proof (cases "wildcard \<sigma>")
      case True
      then show ?thesis
        using other good_range(3) [OF assms(3) True] advance_skip [OF assms(3) at True]
        by (auto simp: body ch_def)
    next
      case False
      then show ?thesis
        using other le advance_back [OF assms(3) at False _ other] no_star_fails [OF assms(3) at False _ other] cn cn [symmetric]
        by (auto simp: body ch_def split: option.split)
    qed
  qed
qed

lemma good_end:
  assumes "good L P \<sigma>" and "line_at \<sigma> = Some (length L)"
  shows "expected L P \<sigma> \<longleftrightarrow> stars (drop (pattern_at \<sigma>) P)"
  using assms(1)
proof cases
  case (scan i k m)
  then show ?thesis
    using assms(2) by (simp add: expected_scan wild_Nil stars_def)
next
  case (attempt n j k)
  let ?s = "take n (drop (k + 1) P)" and ?u = "take n (drop j L)"
  have e: "expected L P \<sigma> \<longleftrightarrow> wild (star # ?s @ drop (pattern_at \<sigma>) P) ?u"
    using expected_attempt [of n k P L "j + n" j] attempt assms(2) by simp
  show ?thesis
  proof (cases "drop (pattern_at \<sigma>) P")
    case Nil
    have "wild (star # ?s) ?u"
      using wild_star [of ?s ?u] seg_wild [OF attempt(7)] by (metis append_Nil)
    then show ?thesis
      by (simp add: e Nil stars_def)
  next
    case (Cons x q)
    show ?thesis
    proof (cases "x = star")
      case True
      then show ?thesis
        using leftmost_segment [OF attempt(7), of q "[]"] by (simp add: e Cons wild_Nil stars_def)
    next
      case False
      have "filter (\<lambda>x. x \<noteq> star) ?s = ?s"
        using seg_no_star [OF attempt(7)] by (auto simp: filter_id_conv)
      then have "\<not> wild (star # ?s @ x # q) ?u"
        using False wild_needs [of "star # ?s @ x # q" ?u] seg_length [OF attempt(7)] by auto
      then show ?thesis
        using False by (simp add: e Cons stars_def)
    qed
  qed
qed (use assms(2) in \<open>simp_all add: state_defs wild_Nil\<close>)

lemma good_prefix:
  assumes "good L P \<sigma>" and "line_at \<sigma> = Some (length L)"
  shows "\<exists>n. wild (take n P) L"
  using assms(1)
proof cases
  case (attempt n j k)
  then show ?thesis
    using prefix_grows [of "k + 1" P j L n] assms(2) by auto
qed (use assms(2) in auto)

lemma deref_good:
  assumes "closed_string L" and "good L P \<sigma>"
  shows "line_at \<sigma> = Some (length L) \<and> deref L (line_at \<sigma>) = Inr NUL \<or>
    (\<exists>i c. line_at \<sigma> = Some i \<and> i < length L \<and> deref L (line_at \<sigma>) = Inr c \<and> c = L ! i \<and> c \<noteq> NUL)"
proof -
  obtain i where i: "line_at \<sigma> = Some i" "i \<le> length L"
    using good_range(1) [OF assms(2)] by blast
  then show ?thesis
    using assms(1) by (cases "i < length L") (auto simp: ch_def closed_string_def in_set_conv_nth)
qed

lemma wf_run_order: "wf (run_order L P)"
  by (simp add: run_order_def)

definition two_stars :: "string \<Rightarrow> bool" where
  "two_stars P \<longleftrightarrow> (\<exists>q. P = q @ [star, star])"

lemma stars_end:
  assumes "stars (drop p P)" and "drop p P \<noteq> []" and "drop p P \<noteq> [star]"
  shows "two_stars P"
proof -
  obtain q a b where s: "drop p P = q @ [a, b]"
    using assms(2,3)
    by (cases "drop p P" rule: rev_cases; cases "butlast (drop p P)" rule: rev_cases)
      (use assms(1) in \<open>auto simp: stars_def\<close>)
  then have "P = (take p P @ q) @ [star, star]"
    using assms(1) by (auto simp: stars_def) (metis append_take_drop_id)
  then show ?thesis
    unfolding two_stars_def by blast
qed

lemma match2_end_value:
  assumes "closed_string P" and "pattern_at \<sigma> \<le> length P"
  shows "match2_end P \<sigma> = Inr (of_bool (drop (pattern_at \<sigma>) P = [] \<or> drop (pattern_at \<sigma>) P = [star]))"
proof (cases "pattern_at \<sigma> < length P")
  case True
  then have "P ! pattern_at \<sigma> \<noteq> NUL"
    using assms(1) by (auto simp: closed_string_def in_set_conv_nth)
  then show ?thesis
    using True by (auto simp: match2_end_def ch_def Cons_nth_drop_Suc [symmetric])
next
  case False
  then show ?thesis
    using assms(2) by (simp add: match2_end_def ch_def)
qed

lemma match_end_value:
  assumes "closed_string P" and "pattern_at \<sigma> \<le> length P"
  shows "match_end P \<sigma> =
    Inr (of_bool (drop (pattern_at \<sigma>) P = [] \<or> hd (drop (pattern_at \<sigma>) P) \<in> {quest, star}))"
proof (cases "pattern_at \<sigma> < length P")
  case True
  then have "P ! pattern_at \<sigma> \<noteq> NUL"
    using assms(1) by (auto simp: closed_string_def in_set_conv_nth)
  then show ?thesis
    using True by (auto simp: match_end_def ch_def hd_drop_conv_nth)
next
  case False
  then show ?thesis
    using assms(2) by (simp add: match_end_def ch_def)
qed

lemma match2_loop_good:
  assumes "closed_string L" and "closed_string P" and "good L P \<sigma>"
  shows "\<exists>b. match2_loop L P \<sigma> = Some (Inr (of_bool b)) \<and> (b \<longrightarrow> expected L P \<sigma>) \<and>
    (two_stars P \<or> (b \<longleftrightarrow> expected L P \<sigma>))"
  using assms(3)
proof (induction \<sigma> rule: wf_induct_rule [OF wf_run_order [of L P]])
  case (1 \<sigma>)
  consider (over) "line_at \<sigma> = Some (length L)" "deref L (line_at \<sigma>) = Inr NUL"
    | (char) i c where "line_at \<sigma> = Some i" "i < length L" "deref L (line_at \<sigma>) = Inr c" "c \<noteq> NUL"
    using deref_good [OF assms(1) "1.prems"] by blast
  then show ?case
  proof cases
    case over
    let ?b = "drop (pattern_at \<sigma>) P = [] \<or> drop (pattern_at \<sigma>) P = [star]"
    have "match2_loop L P \<sigma> = Some (Inr (of_bool ?b))"
      using over match2_end_value [OF assms(2) good_range(2) [OF "1.prems"]] by (simp add: match2_loop.simps)
    moreover have "?b \<longrightarrow> expected L P \<sigma>"
      using good_end [OF "1.prems" over(1)] by (auto simp: stars_def)
    moreover have "two_stars P \<or> (?b \<longleftrightarrow> expected L P \<sigma>)"
      using good_end [OF "1.prems" over(1)] stars_end [of "pattern_at \<sigma>" P] by (auto simp: stars_def)
    ultimately show ?thesis
      by blast
  next
    case char
    from match2_body_good [OF assms(1,2) "1.prems" char(1,2)] show ?thesis
    proof
      assume "\<exists>\<sigma>'. match2_body L P \<sigma> = Next \<sigma>' \<and> advances L P \<sigma> \<sigma>'"
      then obtain \<sigma>' where "match2_body L P \<sigma> = Next \<sigma>'" and a: "advances L P \<sigma> \<sigma>'"
        by blast
      then have "match2_loop L P \<sigma> = match2_loop L P \<sigma>'"
        using char by (subst match2_loop.simps) simp
      then show ?thesis
        using "1.IH" [of \<sigma>'] a by (simp add: advances_def)
    next
      assume "match2_body L P \<sigma> = Return (of_bool (expected L P \<sigma>))"
      then show ?thesis
        using char by (subst match2_loop.simps) auto
    qed
  qed
qed

section \<open>match2: results\<close>

text \<open>
  C17: \<open>is_match\<close> of \<open>match2\<close> returns on every line and pattern, without reading outside of
  them or through a null pointer. A result of 1 is right; and unless the pattern ends in
  two stars the result is 1 exactly if the line is one of the strings the pattern
  denotes.
\<close>

theorem is_match2_correct:
  assumes "closed_string L" and "closed_string P"
  shows "\<exists>b. is_match2 L P = Some (Inr (of_bool b)) \<and> (b \<longrightarrow> L \<in> lang P) \<and>
    (\<not> two_stars P \<longrightarrow> (b \<longleftrightarrow> L \<in> lang P))"
  using match2_loop_good [OF assms good_start] unfolding is_match2_def expected_start by blast

lemma not_two_stars: "P = q @ [a, b] \<Longrightarrow> a \<noteq> star \<or> b \<noteq> star \<Longrightarrow> \<not> two_stars P"
  by (auto simp: two_stars_def)

theorem is_match2_correct_witness:
  "is_match2 ''ab*cdefxxxcdef'' ''*cdef*cdef*'' = Some (Inr 1) \<and> is_match2 ''a'' ''a**'' = Some (Inr 0)"
proof
  have "wild ''*cdef*cdef*'' ''ab*cdefxxxcdef''"
    by simp
  moreover have "\<not> two_stars ''*cdef*cdef*''"
    by (rule not_two_stars [of _ "''*cdef*cde''" "CHR ''f''"]) simp_all
  ultimately show "is_match2 ''ab*cdefxxxcdef'' ''*cdef*cdef*'' = Some (Inr 1)"
    using is_match2_correct [of "''ab*cdefxxxcdef''" "''*cdef*cdef*''"]
    by (auto simp: closed_string_def simp flip: wild_lang simp del: lang.simps)
  show "is_match2 ''a'' ''a**'' = Some (Inr 0)"
    by (simp add: is_match2_def match_start_def match2_loop.simps match2_body_def read_char_def ch_def
        take_char_def step_line_def match2_end_def)
qed

text \<open>The states that \<open>match2\<close> reaches from the start.\<close>

inductive reaches :: "string \<Rightarrow> string \<Rightarrow> match_state \<Rightarrow> bool" for L P where
  start: "reaches L P match_start"
| step: "\<lbrakk>reaches L P \<sigma>; deref L (line_at \<sigma>) = Inr c; c \<noteq> NUL; match2_body L P \<sigma> = Next \<sigma>'\<rbrakk> \<Longrightarrow>
    reaches L P \<sigma>'"

lemma reaches_good:
  assumes "closed_string L" and "closed_string P" and "reaches L P \<sigma>"
  shows "good L P \<sigma> \<and> (expected L P \<sigma> \<longleftrightarrow> expected L P match_start)"
  using assms(3)
proof (induction rule: reaches.induct)
  case start
  show ?case
    using good_start by blast
next
  case (step \<sigma> c \<sigma>')
  then obtain i where "line_at \<sigma> = Some i" "i < length L"
    using deref_good [OF assms(1), of P \<sigma>] by auto
  then show ?case
    using match2_body_good [OF assms(1,2), of \<sigma> i] step by (auto simp: advances_def)
qed

text \<open>
  In every state the loop of \<open>match2\<close> reaches, the pointers are inside their strings;
  a segment under way has matched the characters between the saved position and the
  current one, so that going back never takes a null pointer; and the saved star and
  position decide the whole match.
\<close>

theorem match2_invariant:
  assumes "closed_string L" and "closed_string P" and "reaches L P \<sigma>"
  shows "(\<exists>i. line_at \<sigma> = Some i \<and> i \<le> length L) \<and> pattern_at \<sigma> \<le> length P \<and>
    (\<forall>k. last_pattern_start \<sigma> = Some k \<longrightarrow> \<not> wildcard \<sigma> \<longrightarrow> pattern_at \<sigma> \<noteq> k \<longrightarrow>
      (\<exists>j n. last_line_start \<sigma> = Some (j + 1) \<and> line_at \<sigma> = Some (j + n) \<and> pattern_at \<sigma> = k + 1 + n \<and>
        seg (take n (drop (k + 1) P)) (take n (drop j L)))) \<and>
    (expected L P \<sigma> \<longleftrightarrow> L \<in> lang P)"
proof -
  have g: "good L P \<sigma>"
    using reaches_good [OF assms] by blast
  then have "\<forall>k. last_pattern_start \<sigma> = Some k \<longrightarrow> \<not> wildcard \<sigma> \<longrightarrow> pattern_at \<sigma> \<noteq> k \<longrightarrow>
      (\<exists>j n. last_line_start \<sigma> = Some (j + 1) \<and> line_at \<sigma> = Some (j + n) \<and> pattern_at \<sigma> = k + 1 + n \<and>
        seg (take n (drop (k + 1) P)) (take n (drop j L)))"
    by cases (simp; blast)+
  then show ?thesis
    using good_range [OF g] reaches_good [OF assms] expected_start by blast
qed

theorem match2_invariant_witness:
  "line_at (take_star match_start) = Some 0 \<and> expected ''ab'' ''*b'' (take_star match_start)"
proof -
  have "reaches ''ab'' ''*b'' (take_star match_start)"
    by (rule reaches.step [OF reaches.start, where c = "CHR ''a''"])
      (simp_all add: match_start_def ch_def match2_body_def read_char_def)
  moreover have "wild ''*b'' ''ab''"
    by simp
  ultimately show ?thesis
    using match2_invariant [of "''ab''" "''*b''" "take_star match_start"]
    by (auto simp: closed_string_def take_star_def match_start_def simp flip: wild_lang simp del: lang.simps)
qed

interpretation match2: sound_matcher "\<lambda>p l. is_match2 l p = Some (Inr 1)"
  "\<lambda>p l. closed_string l \<and> closed_string p \<and> \<not> two_stars p" "\<lambda>p l. closed_string l \<and> closed_string p"
proof unfold_locales
  fix p l
  assume a: "closed_string l \<and> closed_string p \<and> \<not> two_stars p"
  then show "is_match2 l p = Some (Inr 1) \<longleftrightarrow> l \<in> lang p"
    using match2_loop_good [OF _ _ good_start, of l p] unfolding is_match2_def expected_start by auto
next
  fix p l
  assume "closed_string l \<and> closed_string p" and "is_match2 l p = Some (Inr 1)"
  then show "l \<in> lang p"
    using match2_loop_good [OF _ _ good_start, of l p] unfolding is_match2_def expected_start by auto
qed

lemma is_match2_answers: "closed_string l \<Longrightarrow> closed_string p \<Longrightarrow> is_match2 l p \<in> {Some (Inr 0), Some (Inr 1)}"
  using match2_loop_good [OF _ _ good_start, of l p] unfolding is_match2_def by auto

section \<open>match: results\<close>

text \<open>On a line without stars the two loop bodies do the same.\<close>

lemma match_body_eq:
  assumes "line_at \<sigma> = Some i" and "i < length L" and "L ! i \<noteq> star" and "L ! i \<noteq> NUL"
  shows "match_body L P \<sigma> = match2_body L P \<sigma>"
  using assms by (auto simp: match_body_def match2_body_def read_char_def ch_def split: sum.split)

lemma match_loop_good:
  assumes "closed_string L" and "closed_string P" and "star \<notin> set L"
    and "good L P \<sigma>" and "line_at \<sigma> = Some i" and "i < length L"
  shows "\<exists>b. match_loop L P \<sigma> = Some (Inr (of_bool b)) \<and> (expected L P \<sigma> \<longrightarrow> b) \<and>
    (b \<longrightarrow> expected L P \<sigma> \<or> (\<exists>n. wild (take n P) L))"
  using assms(4-)
proof (induction \<sigma> arbitrary: i rule: wf_induct_rule [OF wf_run_order [of L P]])
  case (1 \<sigma>)
  have "L ! i \<noteq> star" "L ! i \<noteq> NUL"
    using assms(1,3) nth_mem [OF "1.prems"(3)] unfolding closed_string_def by metis+
  then have same: "match_body L P \<sigma> = match2_body L P \<sigma>"
    by (rule match_body_eq [OF "1.prems"(2,3)])
  from match2_body_good [OF assms(1,2) "1.prems"] show ?case
  proof
    assume "\<exists>\<sigma>'. match2_body L P \<sigma> = Next \<sigma>' \<and> advances L P \<sigma> \<sigma>'"
    then obtain \<sigma>' where more: "match2_body L P \<sigma> = Next \<sigma>'" and a: "good L P \<sigma>'"
      "expected L P \<sigma>' \<longleftrightarrow> expected L P \<sigma>" "(\<sigma>', \<sigma>) \<in> run_order L P"
      by (auto simp: advances_def)
    from deref_good [OF assms(1) a(1)] show ?thesis
    proof
      assume e: "line_at \<sigma>' = Some (length L) \<and> deref L (line_at \<sigma>') = Inr NUL"
      let ?q = "drop (pattern_at \<sigma>') P"
      define b where "b \<longleftrightarrow> ?q = [] \<or> hd ?q \<in> {quest, star}"
      have "match_end P \<sigma>' = Inr (of_bool b)"
        unfolding b_def by (rule match_end_value [OF assms(2) good_range(2) [OF a(1)]])
      then have "match_loop L P \<sigma> = Some (Inr (of_bool b))"
        by (subst match_loop.simps) (simp only: same more outcome.case sum.case conjunct2 [OF e] if_True simp_thms)
      moreover have "expected L P \<sigma> \<longrightarrow> b"
        using good_end [OF a(1)] e a(2) by (cases ?q) (auto simp: stars_def b_def)
      moreover have "\<exists>n. wild (take n P) L"
        using good_prefix [OF a(1)] e by blast
      ultimately show ?thesis
        by blast
    next
      assume "\<exists>i c. line_at \<sigma>' = Some i \<and> i < length L \<and> deref L (line_at \<sigma>') = Inr c \<and> c = L ! i \<and> c \<noteq> NUL"
      then obtain j c where j: "line_at \<sigma>' = Some j" "j < length L" "deref L (line_at \<sigma>') = Inr c" "c \<noteq> NUL"
        by blast
      then have "match_loop L P \<sigma> = match_loop L P \<sigma>'"
        using same more by (subst match_loop.simps) simp
      then show ?thesis
        using "1.IH" [OF a(3,1) j(1,2)] a(2) by simp
    qed
  next
    assume "match2_body L P \<sigma> = Return (of_bool (expected L P \<sigma>))"
    then show ?thesis
      using same by (subst match_loop.simps) auto
  qed
qed

text \<open>
  On a line that is not empty and has no star in it, the first version of
  \<open>is_match\<close> returns, and accepts every line the pattern denotes. What else it accepts are
  lines that a part of the pattern up to some place denotes, since at the end of the line
  a pattern that stands at a star or a question mark counts as used up.
\<close>

theorem is_match_accepts:
  assumes "closed_string L" and "closed_string P" and "L \<noteq> []" and "star \<notin> set L"
  shows "\<exists>b. is_match L P = Some (Inr (of_bool b)) \<and> (L \<in> lang P \<longrightarrow> b) \<and>
    (b \<longrightarrow> (\<exists>n. L \<in> lang (take n P)))"
proof -
  have "0 < length L" and "line_at match_start = Some 0"
    using assms(3) by (simp_all add: match_start_def)
  from match_loop_good [OF assms(1,2,4) good_start this(2,1)] obtain b where
    b: "is_match L P = Some (Inr (of_bool b))" "L \<in> lang P \<longrightarrow> b" "b \<longrightarrow> L \<in> lang P \<or> (\<exists>n. L \<in> lang (take n P))"
    unfolding is_match_def expected_start wild_lang by blast
  moreover have "take (length P) P = P"
    by simp
  ultimately show ?thesis
    by metis
qed

theorem is_match_accepts_witness:
  "is_match ''babbbc'' ''*bb*'' = Some (Inr 1)"
proof -
  have "wild ''*bb*'' ''babbbc''"
    by simp
  then show ?thesis
    using is_match_accepts [of "''babbbc''" "''*bb*''"]
    by (auto simp: closed_string_def simp flip: wild_lang simp del: lang.simps)
qed

lemmas match_steps = is_match_def match_start_def match_body_def read_char_def ch_def
  take_char_def take_star_def go_back_def step_line_def match_end_def

text \<open>
  C18: what the second version repaired. A star in the line that meets a star of the
  pattern is taken for an equal character and leaves no position to go back to, so that
  the next failure reads through a null pointer; an empty line with an empty pattern is
  read past its terminator; and a line is accepted although a question mark or more of
  the pattern is left.
\<close>

theorem is_match_faults:
  assumes "a \<notin> {star, quest, NUL}" and "b \<notin> {star, quest, NUL}" and "c \<noteq> a" and "c \<noteq> NUL"
  shows "is_match (a # star # c # l) (star # a # b # q) = Some (Inl Null_pointer) \<and>
    is_match [] [] = Some (Inl Out_of_bounds) \<and>
    is_match [a] (a # quest # q) = Some (Inr 1) \<and> is_match [a] (a # star # b # q) = Some (Inr 1)"
proof (intro conjI)
  have ne [simp]: "a \<noteq> star" "a \<noteq> quest" "a \<noteq> NUL" "star \<noteq> a" "b \<noteq> star" "b \<noteq> quest" "b \<noteq> NUL"
    "c \<noteq> a" "a \<noteq> c" "c \<noteq> NUL"
    using assms by auto
  show "is_match (a # star # c # l) (star # a # b # q) = Some (Inl Null_pointer)"
    unfolding is_match_def by (subst match_loop.simps, simp add: match_steps)+
  show "is_match [] [] = Some (Inl Out_of_bounds)"
    by (simp add: match_steps match_loop.simps)
  show "is_match [a] (a # quest # q) = Some (Inr 1)"
    using assms by (simp add: match_steps match_loop.simps)
  show "is_match [a] (a # star # b # q) = Some (Inr 1)"
    using assms by (simp add: match_steps match_loop.simps)
qed

theorem is_match_faults_witness:
  "is_match ''a*xyz'' ''*ab*'' = Some (Inl Null_pointer) \<and> ''a'' \<notin> lang ''a?''"
proof -
  have "\<not> wild ''a?'' ''a''"
    by simp
  then show ?thesis
    using is_match_faults [of "CHR ''a''" "CHR ''b''" "CHR ''x''" "''yz''" "''*''"]
    by (simp flip: wild_lang del: lang.simps)
qed

end
