(* ===== verification/Ipv6.thy ===== *)
theory Ipv6
  imports Prelude
begin

text \<open>
  The conversions of \<open>test_ipv6/ipv6_util/ipv6_util.c\<close> between the full, the shortened and
  the compressed text of IPv6 addresses. A C string is the list of its characters, a
  \<open>char *\<close> that the code tests against null an option; a result is the return value
  with what \<open>out\<close> holds, or a fault where the C code would leave an array or follow a null pointer.
\<close>

section \<open>Addresses and their texts\<close>

text \<open>The eight groups of an address are numbers; a group is written with one to four digits.\<close>

abbreviation colon :: char where "colon \<equiv> CHR '':''"

definition hex_code :: "char \<Rightarrow> bool" where
  "hex_code c \<longleftrightarrow> 0x30 \<le> (of_char c :: nat) \<and> (of_char c :: nat) \<le> 0x39
    \<or> 0x41 \<le> (of_char c :: nat) \<and> (of_char c :: nat) \<le> 0x46
    \<or> 0x61 \<le> (of_char c :: nat) \<and> (of_char c :: nat) \<le> 0x66"

definition digit_of :: "char \<Rightarrow> nat" where
  "digit_of c = (if (of_char c :: nat) \<le> 0x39 then of_char c - 0x30
    else if (of_char c :: nat) \<le> 0x46 then of_char c - 0x41 + 10 else of_char c - 0x61 + 10)"

definition group_value :: "string \<Rightarrow> nat" where
  "group_value g = foldl (\<lambda>v c. 16 * v + digit_of c) 0 g"

definition group :: "string \<Rightarrow> bool" where
  "group g \<longleftrightarrow> g \<noteq> [] \<and> length g \<le> 4 \<and> list_all hex_code g"

fun join :: "string list \<Rightarrow> string" where
  "join [] = []"
| "join [g] = g"
| "join (g # gs) = g @ [colon] @ join gs"

inductive denotes :: "string \<Rightarrow> nat list \<Rightarrow> bool" where
  eight_groups: "\<lbrakk>length gs = 8; list_all group gs\<rbrakk> \<Longrightarrow> denotes (join gs) (map group_value gs)"
| gap: "\<lbrakk>length ls + length rs \<le> 7; list_all group ls; list_all group rs\<rbrakk> \<Longrightarrow>
    denotes (join ls @ ''::'' @ join rs)
      (map group_value ls @ replicate (8 - length ls - length rs) 0 @ map group_value rs)"

definition hex_digit :: "nat \<Rightarrow> char" where
  "hex_digit d = ''0123456789abcdef'' ! d"

definition full_group :: "nat \<Rightarrow> string" where
  "full_group n = map (\<lambda>k. hex_digit (n div 16 ^ k mod 16)) [3, 2, 1, 0]"

definition full_text :: "nat list \<Rightarrow> string" where
  "full_text ws = join (map full_group ws)"

section \<open>The string functions the code calls\<close>

fun strchr :: "string \<Rightarrow> char \<Rightarrow> nat option" where
  "strchr [] c = None"
| "strchr (x # xs) c = (if x = c then Some 0 else map_option Suc (strchr xs c))"

fun strstr :: "string \<Rightarrow> string \<Rightarrow> nat option" where
  "strstr [] t = (if t = [] then Some 0 else None)"
| "strstr (x # xs) t = (if take (length t) (x # xs) = t then Some 0 else map_option Suc (strstr xs t))"

definition tolower :: "char \<Rightarrow> char" where
  "tolower c = (if 0x41 \<le> (of_char c :: nat) \<and> (of_char c :: nat) \<le> 0x5A then char_of ((of_char c :: nat) + 0x20) else c)"

fun TO_LOWER_CASE :: "string \<Rightarrow> string" where
  "TO_LOWER_CASE [] = []"
| "TO_LOWER_CASE (c # cs) = tolower c # TO_LOWER_CASE cs"

text \<open>\<open>snprintf(out, n, "%s", text)\<close>\<close>

definition string_copy :: "nat \<Rightarrow> string \<Rightarrow> string" where
  "string_copy n text = take (n - 1) text"

section \<open>Checking the form\<close>

record verify_state =
  v_len :: nat
  total_colon_count :: nat
  field_count :: nat
  field_length :: nat
  colon_flag :: nat
  compress_flag :: nat
  v_compress_type :: nat

definition verify_start :: verify_state where
  "verify_start = \<lparr>v_len = 0, total_colon_count = 0, field_count = 0, field_length = 0, colon_flag = 0,
    compress_flag = 0, v_compress_type = 0\<rparr>"

text \<open>A colon: \<open>Inl\<close> the error that is returned.\<close>

definition verify_colon :: "nat \<Rightarrow> verify_state \<Rightarrow> int + verify_state" where
  "verify_colon ip_len s =
    (if colon_flag s = 0 then Inr (s\<lparr>colon_flag := 1, field_length := 0, total_colon_count := total_colon_count s + 1\<rparr>)
     else if colon_flag s = 1 then
       (let s = s\<lparr>colon_flag := 2, v_compress_type :=
          (if v_len s + 1 = 2 then 1 else if int ip_len - 1 = int (v_len s) then 3 else 2)\<rparr>
        in if compress_flag s \<noteq> 1 then
             Inr (s\<lparr>compress_flag := 1, field_length := 0, total_colon_count := total_colon_count s + 1\<rparr>)
           else Inl (-2))
     else Inl (-2))"

definition verify_digit :: "verify_state \<Rightarrow> int + verify_state" where
  "verify_digit s =
    (let s = (if field_length s = 0 then s\<lparr>field_count := field_count s + 1\<rparr> else s);
         s = s\<lparr>field_length := field_length s + 1\<rparr>;
         s = (if colon_flag s \<noteq> 0 then s\<lparr>colon_flag := 0\<rparr> else s)
     in if field_length s > 4 then Inl (-2) else Inr s)"

fun verify_loop :: "nat \<Rightarrow> string \<Rightarrow> verify_state \<Rightarrow> int + verify_state" where
  "verify_loop ip_len [] s = Inr s"
| "verify_loop ip_len (c # cs) s =
    (if c = colon \<or> hex_code c then
       (case (if c = colon then verify_colon ip_len s else verify_digit s) of
          Inl e \<Rightarrow> Inl e
        | Inr s \<Rightarrow> verify_loop ip_len cs (s\<lparr>v_len := v_len s + 1\<rparr>))
     else Inr s)"

definition verify_end :: "nat \<Rightarrow> verify_state \<Rightarrow> int" where
  "verify_end ip_len s =
    (if ip_len \<noteq> v_len s then -2
     else
       (let max_colon_count = (if compress_flag s = 1 \<and> v_compress_type s \<noteq> 2 then 8 else 7)
        in if total_colon_count s > max_colon_count then -6
           else if compress_flag s = 1 \<and> field_count s > 7 then -8
           else 0))"

definition verify_ipv6_address_format :: "string option \<Rightarrow> int" where
  "verify_ipv6_address_format ip =
    (case ip of
       None \<Rightarrow> -1
     | Some ip \<Rightarrow>
       if length ip > 39 \<or> length ip < 2 then -3
       else (case verify_loop (length ip) ip verify_start of Inl e \<Rightarrow> e | Inr s \<Rightarrow> verify_end (length ip) s))"

fun colon_count :: "string \<Rightarrow> nat" where
  "colon_count [] = 0"
| "colon_count (c # cs) = (if c = colon then 1 else 0) + colon_count cs"

definition get_ipv6_address_colon_count :: "string option \<Rightarrow> int" where
  "get_ipv6_address_colon_count ip = (case ip of None \<Rightarrow> -1 | Some ip \<Rightarrow> int (colon_count ip))"

definition get_ipv6_address_type :: "string option \<Rightarrow> int" where
  "get_ipv6_address_type ip =
    (case ip of
       None \<Rightarrow> -1
     | Some ip \<Rightarrow>
       if strstr ip ''::'' \<noteq> None then 4
       else if length ip = 39 then 1
       else if length ip < 39 then 2
       else -4)"

definition get_ipv6_address_compress_type :: "string option \<Rightarrow> int" where
  "get_ipv6_address_compress_type ip =
    (case ip of
       None \<Rightarrow> -1
     | Some ip \<Rightarrow>
       (case strstr ip ''::'' of
          None \<Rightarrow> -5
        | Some k \<Rightarrow> if k = 0 then 1 else if int k = int (length ip) - 2 then 3 else 2))"

definition get_ip_address_version_type :: "string option \<Rightarrow> int" where
  "get_ip_address_version_type ip =
    (case ip of
       None \<Rightarrow> -1
     | Some ip \<Rightarrow> if strchr ip CHR ''.'' = None then 3 else if strchr ip colon = None then 1 else 2)"

section \<open>Writing an address in full\<close>

record v6addr_field =
  f_compress_type :: int
  f_data :: string

definition no_fields :: "v6addr_field list" where
  "no_fields = replicate 8 \<lparr>f_compress_type = 0, f_data = []\<rparr>"

text \<open>Writing \<open>address.fields[i].data\<close>.\<close>

definition set_data :: "nat \<Rightarrow> string \<Rightarrow> v6addr_field list \<Rightarrow> c_fault + v6addr_field list" where
  "set_data i s flds =
    (if i < length flds then Inr (flds[i := (flds ! i)\<lparr>f_data := s\<rparr>]) else Inl Out_of_bounds)"

text \<open>
  The field is the rest of the text behind enough zeros, cut to the four characters that fit;
  \<open>None\<close> for the error of the default case.
\<close>

definition set_uncompress_ipv6_address_field_value :: "string \<Rightarrow> nat \<Rightarrow> string option" where
  "set_uncompress_ipv6_address_field_value inp type =
    (if type = 1 then Some (string_copy 5 (''000'' @ inp))
     else if type = 2 then Some (string_copy 5 (''00'' @ inp))
     else if type = 3 then Some (string_copy 5 (''0'' @ inp))
     else if type = 4 then Some (string_copy 5 inp)
     else None)"

text \<open>\<open>strchr(temp, ':')\<close>, \<open>field_len\<close>, and \<open>split + 1\<close>, which is no address when there is no colon.\<close>

definition split_field :: "string \<Rightarrow> nat \<times> string option" where
  "split_field temp =
    (case strchr temp colon of None \<Rightarrow> (length temp, None) | Some k \<Rightarrow> (k, Some (drop (k + 1) temp)))"

text \<open>
  The loop that fills the fields from \<open>i\<close> on: the index it stops at, with the fields. \<open>stop\<close>
  is its bound; without a colon only the field with index 7 is filled when \<open>only7\<close> holds.
\<close>

function fields_loop :: "bool \<Rightarrow> nat \<Rightarrow> nat \<Rightarrow> string option \<Rightarrow> v6addr_field list \<Rightarrow>
    c_fault + (nat \<times> v6addr_field list)" where
  "fields_loop only7 stop i temp flds =
    (if i < stop then
       (case temp of
          None \<Rightarrow> Inl Null_pointer
        | Some temp \<Rightarrow>
          (case split_field temp of (field_len, next_temp) \<Rightarrow>
            if next_temp = None \<and> only7 \<and> i \<noteq> 7 then Inr (i, flds)
            else
              (case set_uncompress_ipv6_address_field_value temp field_len of
                 None \<Rightarrow> Inr (i, flds)
               | Some s \<Rightarrow> bind_fault (set_data i s flds) (fields_loop only7 stop (i + 1) next_temp))))
     else Inr (i, flds))"
  by pat_completeness auto
termination
  by (relation "measure (\<lambda>(only7, stop, i, temp, flds). stop - i)") auto

declare fields_loop.simps [simp del]

text \<open>\<open>strncpy(field->data, "0000", 4)\<close> for the fields from \<open>i\<close> on.\<close>

function zero_fields :: "nat \<Rightarrow> nat \<Rightarrow> v6addr_field list \<Rightarrow> c_fault + (nat \<times> v6addr_field list)" where
  "zero_fields stop i flds =
    (if i < stop then bind_fault (set_data i ''0000'' flds) (zero_fields stop (i + 1)) else Inr (i, flds))"
  by pat_completeness auto
termination
  by (relation "measure (\<lambda>(stop, i, flds). stop - i)") auto

declare zero_fields.simps [simp del]

text \<open>The eight fields are printed, the length is checked and the text put in lower case.\<close>

definition print_fields :: "nat \<times> v6addr_field list \<Rightarrow> string option \<Rightarrow> int \<times> string option" where
  "print_fields r out =
    (case r of (i, flds) \<Rightarrow>
      if i \<noteq> 8 then (-2, out)
      else
        (case out of
           None \<Rightarrow> (0, None)
         | Some _ \<Rightarrow>
           (let text = join (map f_data flds)
            in if length text \<noteq> 39 then (-3, Some (string_copy 40 text))
               else (0, Some (TO_LOWER_CASE (string_copy 40 text))))))"

definition uncompress_ipv6_address_omit_leading_zeros ::
    "string option \<Rightarrow> string option \<Rightarrow> int \<Rightarrow> c_fault + (int \<times> string option)" where
  "uncompress_ipv6_address_omit_leading_zeros inp out max_len =
    (if inp = None then Inr (-1, out)
     else if max_len \<le> 39 then Inr (-3, out)
     else bind_fault (fields_loop True 8 0 inp no_fields) (\<lambda>r. Inr (print_fields r out)))"

definition uncompress_ipv6_address_compress_begin ::
    "string option \<Rightarrow> string option \<Rightarrow> int \<Rightarrow> c_fault + (int \<times> string option)" where
  "uncompress_ipv6_address_compress_begin inp out max_len =
    (case inp of
       None \<Rightarrow> Inr (-1, out)
     | Some text \<Rightarrow>
       if max_len \<le> 39 then Inr (-3, out)
       else if length text \<noteq> 2 \<and> colon_count text = 0 then Inr (-2, out)
       else
         (let compress_colon_count = (if length text = 2 then 8 else 7 - int (colon_count text) + 2)
          in if length text < 2 then Inl Out_of_bounds
             else
               bind_fault (zero_fields (nat compress_colon_count) 0 no_fields) (\<lambda>(i, flds).
               bind_fault (fields_loop True 8 i (Some (drop 2 text)) flds) (\<lambda>r.
               Inr (print_fields r out)))))"

definition uncompress_ipv6_address_compress_middle ::
    "string option \<Rightarrow> string option \<Rightarrow> int \<Rightarrow> c_fault + (int \<times> string option)" where
  "uncompress_ipv6_address_compress_middle inp out max_len =
    (case inp of
       None \<Rightarrow> Inr (-1, out)
     | Some text \<Rightarrow>
       if max_len \<le> 39 then Inr (-3, out)
       else
         (case strstr text ''::'' of
            None \<Rightarrow> Inr (-2, out)
          | Some k \<Rightarrow>
            if 40 < k + 1 then Inl Out_of_bounds
            else
              (let begin_text = string_copy (k + 1) text;
                   end_text = string_copy 40 (drop (k + 2) text);
                   being_colon_count = colon_count begin_text + 1;
                   end_colon_count = colon_count end_text + 1
               in bind_fault (fields_loop False being_colon_count 0 (Some begin_text) no_fields) (\<lambda>(i, flds).
                  bind_fault (zero_fields (8 - end_colon_count) i flds) (\<lambda>(i, flds).
                  bind_fault (fields_loop True 8 i (Some end_text) flds) (\<lambda>r.
                  Inr (print_fields r out)))))))"

text \<open>The loop of the function for a gap at the end returns when it finds no colon (\<open>None\<close>).\<close>

function end_loop :: "nat \<Rightarrow> nat \<Rightarrow> string \<Rightarrow> v6addr_field list \<Rightarrow>
    c_fault + (nat \<times> v6addr_field list) option" where
  "end_loop stop i temp flds =
    (if i < stop then
       (case split_field temp of
          (field_len, None) \<Rightarrow> Inr None
        | (field_len, Some next_temp) \<Rightarrow>
          (case set_uncompress_ipv6_address_field_value temp field_len of
             None \<Rightarrow> Inr (Some (i, flds))
           | Some s \<Rightarrow> bind_fault (set_data i s flds) (end_loop stop (i + 1) next_temp)))
     else Inr (Some (i, flds)))"
  by pat_completeness auto
termination
  by (relation "measure (\<lambda>(stop, i, temp, flds). stop - i)") auto

declare end_loop.simps [simp del]

definition uncompress_ipv6_address_compress_end ::
    "string option \<Rightarrow> string option \<Rightarrow> int \<Rightarrow> c_fault + (int \<times> string option)" where
  "uncompress_ipv6_address_compress_end inp out max_len =
    (case inp of
       None \<Rightarrow> Inr (-1, out)
     | Some text \<Rightarrow>
       if max_len \<le> 39 then Inr (-3, out)
       else if colon_count text = 0 then Inr (-2, out)
       else
         (let compress_colon_count = 7 - int (colon_count text) + 2
          in bind_fault (end_loop (nat (8 - compress_colon_count)) 0 text no_fields) (\<lambda>r.
             case r of
               None \<Rightarrow> Inr (-2, out)
             | Some (i, flds) \<Rightarrow>
               bind_fault (zero_fields 8 i flds) (\<lambda>r. Inr (print_fields r out)))))"

definition uncompress_ipv6_address_compress ::
    "string option \<Rightarrow> string option \<Rightarrow> int \<Rightarrow> c_fault + (int \<times> string option)" where
  "uncompress_ipv6_address_compress inp out max_len =
    (if inp = None then Inr (-1, out)
     else
       (let ret = get_ipv6_address_compress_type inp
        in if ret < 0 then Inr (ret, out)
           else if ret = 1 then uncompress_ipv6_address_compress_begin inp out max_len
           else if ret = 2 then uncompress_ipv6_address_compress_middle inp out max_len
           else if ret = 3 then uncompress_ipv6_address_compress_end inp out max_len
           else Inr (-5, out)))"

text \<open>
  \<open>ipv6_util_string_copy(out, max_len, "%s", in)\<close>, if \<open>out\<close> is not null: with the size \<open>0\<close> nothing is written, and a negative
  \<open>max_len\<close> is no limit, as it becomes a large \<open>size_t\<close>. How long the array is that \<open>out\<close> points to is not modelled.
\<close>

definition copy_out :: "string option \<Rightarrow> int \<Rightarrow> string \<Rightarrow> string option" where
  "copy_out out max_len text =
    (if max_len = 0 then out else map_option (\<lambda>_. if max_len < 0 then text else string_copy (nat max_len) text) out)"

definition get_uncompress_ipv6_address ::
    "string option \<Rightarrow> string option \<Rightarrow> int \<Rightarrow> c_fault + (int \<times> string option)" where
  "get_uncompress_ipv6_address inp out max_len =
    (let ret = verify_ipv6_address_format inp; type = get_ipv6_address_type inp
     in if ret < 0 then Inr (ret, out)
        else if type < 0 then Inr (ret, out)
        else if type = 2 then uncompress_ipv6_address_omit_leading_zeros inp out max_len
        else if type = 4 then uncompress_ipv6_address_compress inp out max_len
        else Inr (1, copy_out out max_len (the inp)))"

section \<open>Compressing\<close>

text \<open>
  The characters of one field: leading zeros are dropped. The fifth character that is kept fills \<open>data\<close>
  without a terminator, so that printing it reads behind the array.
\<close>

fun scan_field :: "string \<Rightarrow> bool \<Rightarrow> v6addr_field \<Rightarrow> c_fault + (v6addr_field \<times> string)" where
  "scan_field [] omit f = Inr (f, [])"
| "scan_field (c # cs) omit f =
    (if c = colon then Inr (f, c # cs)
     else if c \<noteq> CHR ''0'' \<or> \<not> omit then
       (if 4 \<le> length (f_data f) then Inl Out_of_bounds
        else scan_field cs False (f\<lparr>f_data := f_data f @ [c]\<rparr>))
     else scan_field cs omit (if f_data f = [] then f\<lparr>f_compress_type := 2\<rparr> else f))"

text \<open>The first loop; \<open>temp\<close> is \<open>None\<close> behind the terminator.\<close>

fun scan_fields :: "nat \<Rightarrow> string option \<Rightarrow> c_fault + v6addr_field list" where
  "scan_fields 0 temp = Inr []"
| "scan_fields (Suc n) temp =
    (case temp of
       None \<Rightarrow> Inl Out_of_bounds
     | Some temp \<Rightarrow>
       bind_fault (scan_field temp True \<lparr>f_compress_type = 0, f_data = []\<rparr>) (\<lambda>(f, rest).
         let f = (if f_data f = [] then f\<lparr>f_compress_type := 3, f_data := ''0''\<rparr> else f)
         in bind_fault (scan_fields n (case rest of [] \<Rightarrow> None | _ # rest \<Rightarrow> Some rest)) (\<lambda>fs. Inr (f # fs))))"

text \<open>The second loop, from the last field to the first: the fields of the first run of zeros it meets.\<close>

fun mark_run :: "nat \<Rightarrow> nat \<Rightarrow> v6addr_field list \<Rightarrow> v6addr_field list" where
  "mark_run flag count [] = []"
| "mark_run flag count (f # fs) =
    (if f_compress_type f = 3 then f\<lparr>f_compress_type := 4\<rparr> # mark_run 1 (count + 1) fs
     else if flag = 1 \<and> count > 0 then f # fs
     else f # mark_run flag count fs)"

text \<open>The third loop; \<open>i\<close> is the index of the next field, \<open>text\<close> what has been printed.\<close>

fun print_compressed :: "nat \<Rightarrow> nat \<Rightarrow> string \<Rightarrow> v6addr_field list \<Rightarrow> string" where
  "print_compressed i flag text [] = text"
| "print_compressed i flag text (f # fs) =
    (if f_compress_type f \<noteq> 4 then
       (if flag = 1 then
          print_compressed (i + 1) 2 (text @ (if i = 7 then [colon] @ f_data f else [colon] @ f_data f @ [colon])) fs
        else
          print_compressed (i + 1) flag (text @ (if i = 7 then f_data f else f_data f @ [colon])) fs)
     else
       print_compressed (i + 1) (if flag = 0 then 1 else flag)
         (if i = 7 \<or> text = [] then text @ [colon] else text) fs)"

definition compress_ipv6_address ::
    "string option \<Rightarrow> string option \<Rightarrow> int \<Rightarrow> c_fault + (int \<times> string option)" where
  "compress_ipv6_address inp out max_len =
    (if inp = None then Inr (-1, out)
     else if max_len \<le> 39 then Inr (-3, out)
     else
       bind_fault (scan_fields 8 inp) (\<lambda>flds.
         case out of
           None \<Rightarrow> Inl Null_pointer
         | Some _ \<Rightarrow>
           Inr (0, Some (string_copy (nat max_len) (print_compressed 0 0 [] (rev (mark_run 0 0 (rev flds))))))))"

definition get_compress_ipv6_address ::
    "string option \<Rightarrow> string option \<Rightarrow> int \<Rightarrow> c_fault + (int \<times> string option)" where
  "get_compress_ipv6_address inp out max_len =
    (let ret = verify_ipv6_address_format inp; type = get_ipv6_address_type inp
     in if ret < 0 then Inr (ret, out)
        else if type < 0 then Inr (ret, out)
        else if type = 1 then compress_ipv6_address inp out max_len
        else Inr (type, copy_out out max_len (the inp)))"

end
