(* ===== verification/Ipv6Conv.thy ===== *)
theory Ipv6Conv
  imports Ipv6
begin

text \<open>
  The conversions of \<open>Ipv6\<close> are those of the addresses: every text of an address is expanded to its full text, a
  full text is compressed to a text of the same address, and no input leaves the arrays. The locale
  \<open>address_converter\<close> is what the object of \<open>Ipv6Util\<close> relies on.
\<close>

section \<open>Characters and groups\<close>

lemma hex_characters:
  "map char_of [48..<58 :: nat] = ''0123456789''" "map char_of [65..<71 :: nat] = ''ABCDEF''"
  "map char_of [97..<103 :: nat] = ''abcdef''"
  by (simp_all add: upt_rec_numeral char_of_def bit_iff_odd)

lemma hex_code_cases: "hex_code c \<Longrightarrow> c \<in> set ''0123456789ABCDEFabcdef''"
proof -
  assume "hex_code c"
  then have "(of_char c :: nat) \<in> set ([48..<58] @ [65..<71] @ [97..<103])"
    by (simp only: hex_code_def set_append set_upt Un_iff atLeastLessThan_iff) arith
  then have "char_of (of_char c :: nat) \<in> set (map char_of ([48..<58] @ [65..<71] @ [97..<103 :: nat]))"
    unfolding set_map by blast
  then show ?thesis
    by (simp only: char_of_char map_append hex_characters) simp
qed

lemma hex_char:
  assumes "hex_code c"
  shows "digit_of c < 16" and "hex_digit (digit_of c) = tolower c" and "c \<noteq> colon"
proof -
  have "digit_of c < 16 \<and> hex_digit (digit_of c) = tolower c \<and> c \<noteq> colon"
    using hex_code_cases [OF assms]
    by (auto simp: digit_of_def hex_digit_def tolower_def char_of_def bit_iff_odd)
  then show "digit_of c < 16" and "hex_digit (digit_of c) = tolower c" and "c \<noteq> colon"
    by simp_all
qed

lemma colon_not_hex [simp]: "\<not> hex_code colon"
  by (simp add: hex_code_def)

lemma group_no_colon: "group g \<Longrightarrow> colon \<notin> set g"
  by (auto simp: group_def list_all_iff dest: hex_char(3))

definition pad4 :: "string \<Rightarrow> string" where
  "pad4 g = replicate (4 - length g) CHR ''0'' @ g"

lemma group_cases:
  assumes "group g"
  obtains a where "g = [a]" "hex_code a" | a b where "g = [a, b]" "hex_code a" "hex_code b"
    | a b c where "g = [a, b, c]" "hex_code a" "hex_code b" "hex_code c"
    | a b c d where "g = [a, b, c, d]" "hex_code a" "hex_code b" "hex_code c" "hex_code d"
proof -
  have "length g \<in> {1, 2, 3, 4}"
    using assms by (auto simp: group_def le_Suc_eq numeral_eq_Suc)
  then show thesis
    using assms that by (auto simp: group_def numeral_eq_Suc length_Suc_conv)
qed

lemma to_lower_map: "TO_LOWER_CASE s = map tolower s"
  by (induction s) simp_all

lemma tolower_zero: "tolower CHR ''0'' = CHR ''0''" "tolower colon = colon" "hex_digit 0 = CHR ''0''"
  by (simp_all add: tolower_def hex_digit_def)

lemma hex_step: "d < 16 \<Longrightarrow> (16 * v + d) div 16 ^ Suc k = (v :: nat) div 16 ^ k" "d < 16 \<Longrightarrow> (16 * v + d) mod 16 = d"
  by (simp_all add: div_mult2_eq)

lemma full_group_digits:
  assumes "a < 16" and "b < 16" and "c < 16" and "d < 16"
  shows "full_group (16 * (16 * (16 * a + b) + c) + d) = map hex_digit [a, b, c, d]"
  using assms
  by (simp only: full_group_def list.map numeral_3_eq_3 numeral_2_eq_2 One_nat_def hex_step power_0 div_by_Suc_0
      mod_less)

lemma full_group_value:
  assumes "group g"
  shows "full_group (group_value g) = TO_LOWER_CASE (pad4 g)"
proof (rule group_cases [OF assms])
  fix a
  assume "g = [a]" "hex_code a"
  then show ?thesis
    using full_group_digits [of 0 0 0 "digit_of a"]
    by (simp add: group_value_def pad4_def hex_char tolower_zero numeral_3_eq_3)
next
  fix a b
  assume "g = [a, b]" "hex_code a" "hex_code b"
  then show ?thesis
    using full_group_digits [of 0 0 "digit_of a" "digit_of b"]
    by (simp add: group_value_def pad4_def hex_char tolower_zero numeral_2_eq_2)
next
  fix a b c
  assume "g = [a, b, c]" "hex_code a" "hex_code b" "hex_code c"
  then show ?thesis
    using full_group_digits [of 0 "digit_of a" "digit_of b" "digit_of c"]
    by (simp add: group_value_def pad4_def hex_char tolower_zero)
next
  fix a b c d
  assume "g = [a, b, c, d]" "hex_code a" "hex_code b" "hex_code c" "hex_code d"
  then show ?thesis
    using full_group_digits [of "digit_of a" "digit_of b" "digit_of c" "digit_of d"]
    by (simp add: group_value_def pad4_def hex_char)
qed

section \<open>Splitting at colons\<close>

lemma strchr_none: "c \<notin> set s \<Longrightarrow> strchr s c = None"
  by (induction s) auto

lemma strchr_append: "c \<notin> set s \<Longrightarrow> strchr (s @ c # t) c = Some (length s)"
  by (induction s) auto

lemma split_group:
  "group g \<Longrightarrow> split_field (g @ colon # rest) = (length g, Some rest)"
  "group g \<Longrightarrow> split_field g = (length g, None)"
  by (simp_all add: split_field_def strchr_append strchr_none group_no_colon)

lemma set_value_group:
  "group g \<Longrightarrow> set_uncompress_ipv6_address_field_value (g @ rest) (length g) = Some (pad4 g)"
  by (erule group_cases)
    (simp_all add: set_uncompress_ipv6_address_field_value_def string_copy_def pad4_def numeral_3_eq_3 numeral_2_eq_2)

lemma set_value_group_end:
  "group g \<Longrightarrow> set_uncompress_ipv6_address_field_value g (length g) = Some (pad4 g)"
  using set_value_group [of g "[]"] by simp

lemma join_Cons: "gs \<noteq> [] \<Longrightarrow> join (g # gs) = g @ colon # join gs"
  by (cases gs) simp_all

text \<open>The fields from \<open>i\<close> on are set to the texts \<open>ss\<close>.\<close>

fun write_fields :: "nat \<Rightarrow> string list \<Rightarrow> v6addr_field list \<Rightarrow> v6addr_field list" where
  "write_fields i [] flds = flds"
| "write_fields i (s # ss) flds = write_fields (i + 1) ss (flds[i := (flds ! i)\<lparr>f_data := s\<rparr>])"

lemma length_write_fields [simp]: "length (write_fields i ss flds) = length flds"
  by (induction i ss flds rule: write_fields.induct) simp_all

lemma write_fields_append: "write_fields i (ss @ ts) flds = write_fields (i + length ss) ts (write_fields i ss flds)"
  by (induction i ss flds rule: write_fields.induct) simp_all

lemma data_write_fields:
  "i + length ss \<le> length flds \<Longrightarrow>
    map f_data (write_fields i ss flds) = take i (map f_data flds) @ ss @ drop (i + length ss) (map f_data flds)"
proof (induction i ss flds rule: write_fields.induct)
  case (2 i s ss flds)
  then have "map f_data (write_fields (i + 1) ss (flds[i := (flds ! i)\<lparr>f_data := s\<rparr>])) =
      take (i + 1) ((map f_data flds)[i := s]) @ ss @ drop (i + 1 + length ss) ((map f_data flds)[i := s])"
    by (simp add: map_update)
  also have "take (i + 1) ((map f_data flds)[i := s]) = take i (map f_data flds) @ [s]"
    using "2.prems" by (simp add: take_Suc_conv_app_nth)
  finally show ?case
    by simp
qed simp

lemma fields_loop_groups:
  assumes "gs \<noteq> []" and "list_all group gs" and "i + length gs = stop" and "stop \<le> length flds" and "only7 \<longrightarrow> stop = 8"
  shows "fields_loop only7 stop i (Some (join gs)) flds = Inr (stop, write_fields i (map pad4 gs) flds)"
  using assms
proof (induction gs arbitrary: i flds)
  case (Cons g gs)
  show ?case
  proof (cases gs)
    case Nil
    then show ?thesis
      using Cons.prems
      by (subst fields_loop.simps)
        (auto simp: split_group set_value_group_end set_data_def bind_fault_Inr fields_loop.simps)
  next
    case (Cons h hs)
    then show ?thesis
      using Cons.prems Cons.IH [of "i + 1" "flds[i := (flds ! i)\<lparr>f_data := pad4 g\<rparr>]"]
      by (subst fields_loop.simps)
        (auto simp: split_group set_value_group set_data_def bind_fault_Inr)
  qed
qed simp

lemma zero_fields_write:
  "stop \<le> length flds \<Longrightarrow> i \<le> stop \<Longrightarrow>
    zero_fields stop i flds = Inr (stop, write_fields i (replicate (stop - i) ''0000'') flds)"
proof (induction stop i flds rule: zero_fields.induct)
  case (1 stop i flds)
  show ?case
  proof (cases "i < stop")
    case True
    then have "stop - i = Suc (stop - (i + 1))"
      by simp
    then show ?thesis
      using 1 True by (subst zero_fields.simps) (simp add: set_data_def bind_fault_Inr)
  next
    case False
    then show ?thesis
      using 1 by (subst zero_fields.simps) simp
  qed
qed

lemma end_loop_groups:
  assumes "list_all group ls" and "i + length ls = stop" and "stop \<le> length flds" and "ls \<noteq> []"
  shows "end_loop stop i (join ls @ colon # rest) flds = Inr (Some (stop, write_fields i (map pad4 ls) flds))"
  using assms
proof (induction ls arbitrary: i flds)
  case (Cons g gs)
  show ?case
  proof (cases gs)
    case Nil
    then show ?thesis
      using Cons.prems
      by (subst end_loop.simps) (auto simp: split_group set_value_group set_data_def bind_fault_Inr end_loop.simps)
  next
    case (Cons h hs)
    then show ?thesis
      using Cons.prems Cons.IH [of "i + 1" "flds[i := (flds ! i)\<lparr>f_data := pad4 g\<rparr>]"]
      by (subst end_loop.simps) (auto simp: split_group set_value_group set_data_def bind_fault_Inr)
  qed
qed simp

section \<open>Colons\<close>

lemma colon_count_append [simp]: "colon_count (s @ t) = colon_count s + colon_count t"
  by (induction s) simp_all

lemma colon_count_group: "group g \<Longrightarrow> colon_count g = 0"
proof -
  have "colon \<notin> set s \<Longrightarrow> colon_count s = 0" for s
    by (induction s) auto
  then show "group g \<Longrightarrow> colon_count g = 0"
    using group_no_colon by blast
qed

lemma colon_count_join: "list_all group gs \<Longrightarrow> colon_count (join gs) = length gs - 1"
  by (induction gs rule: join.induct) (simp_all add: colon_count_group)

lemma length_join: "list_all group gs \<Longrightarrow> length (join gs) \<le> 5 * length gs - 1"
  "list_all group gs \<Longrightarrow> 2 * length gs - 1 \<le> length (join gs)"
proof (induction gs rule: join.induct)
  case (3 g h hs)
  have "1 \<le> length g" "length g \<le> 4" if "group g" for g
    using that by (auto simp: group_def Suc_le_eq)
  then show "list_all group (g # h # hs) \<Longrightarrow> length (join (g # h # hs)) \<le> 5 * length (g # h # hs) - 1"
    and "list_all group (g # h # hs) \<Longrightarrow> 2 * length (g # h # hs) - 1 \<le> length (join (g # h # hs))"
    using 3 by fastforce+
qed (auto simp: group_def Suc_le_eq)

lemma strstr_group: "colon \<notin> set g \<Longrightarrow> strstr (g @ rest) ''::'' = map_option ((+) (length g)) (strstr rest ''::'')"
proof (induction g)
  case (Cons c g)
  then show ?case
    by (cases "strstr rest ''::''") auto
qed (cases "strstr rest ''::''"; simp)

lemma group_starts: "group g \<Longrightarrow> \<exists>c cs. g = c # cs \<and> c \<noteq> colon"
  by (cases g) (auto simp: group_def dest: hex_char(3))

lemma join_starts: "list_all group gs \<Longrightarrow> gs \<noteq> [] \<Longrightarrow> \<exists>c cs. join gs = c # cs \<and> c \<noteq> colon"
  by (cases gs rule: join.cases) (auto dest!: group_starts)

lemma strstr_single: "s = c # cs \<Longrightarrow> c \<noteq> colon \<Longrightarrow> strstr (colon # s) ''::'' = map_option Suc (strstr s ''::'')"
  by simp

lemma strstr_gap: "list_all group ls \<Longrightarrow> strstr (join ls @ ''::'' @ rest) ''::'' = Some (length (join ls))"
proof (induction ls rule: join.induct)
  case (2 g)
  then show ?case
    using strstr_group [of g "''::'' @ rest"] by (simp add: group_no_colon)
next
  case (3 g h hs)
  obtain c cs where c: "join (h # hs) @ ''::'' @ rest = c # cs" "c \<noteq> colon"
    using join_starts [of "h # hs"] 3 by fastforce
  have "strstr (colon # join (h # hs) @ ''::'' @ rest) ''::'' = Some (Suc (length (join (h # hs))))"
    using strstr_single [OF c] 3 by simp
  then show ?case
    using strstr_group [of g "colon # join (h # hs) @ ''::'' @ rest"] 3 by (simp add: group_no_colon)
qed simp

lemma strstr_none: "list_all group gs \<Longrightarrow> strstr (join gs) ''::'' = None"
proof (induction gs rule: join.induct)
  case (2 g)
  then show ?case
    using strstr_group [of g "[]"] by (simp add: group_no_colon)
next
  case (3 g h hs)
  obtain c cs where c: "join (h # hs) = c # cs" "c \<noteq> colon"
    using join_starts [of "h # hs"] 3 by fastforce
  have "strstr (colon # join (h # hs)) ''::'' = None"
    using strstr_single [OF c] 3 by simp
  then show ?case
    using strstr_group [of g "colon # join (h # hs)"] 3 by (simp add: group_no_colon)
qed simp

section \<open>The check accepts every text of an address\<close>

definition after_groups :: "verify_state \<Rightarrow> string list \<Rightarrow> verify_state" where
  "after_groups s gs = s\<lparr>v_len := v_len s + length (join gs), total_colon_count := total_colon_count s + (length gs - 1),
    field_count := field_count s + length gs, field_length := length (last gs), colon_flag := 0\<rparr>"

lemma verify_group:
  assumes "list_all hex_code g" and "field_length s + length g \<le> 4" and "g \<noteq> []"
  shows "verify_loop n (g @ rest) s = verify_loop n rest
    (s\<lparr>v_len := v_len s + length g, field_count := field_count s + (if field_length s = 0 then 1 else 0),
      field_length := field_length s + length g, colon_flag := 0\<rparr>)"
  using assms
proof (induction g arbitrary: s)
  case (Cons c cs)
  let ?s = "s\<lparr>v_len := v_len s + 1, field_count := field_count s + (if field_length s = 0 then 1 else 0),
      field_length := field_length s + 1, colon_flag := 0\<rparr>"
  have "verify_loop n ((c # cs) @ rest) s = verify_loop n (cs @ rest) ?s"
    using Cons.prems hex_char(3) [of c] by (cases s) (auto simp: verify_digit_def Let_def)
  then show ?case
    using Cons by (cases "cs = []") auto
qed simp

lemma verify_join:
  "list_all group gs \<Longrightarrow> gs \<noteq> [] \<Longrightarrow> field_length s = 0 \<Longrightarrow>
    verify_loop n (join gs @ rest) s = verify_loop n rest (after_groups s gs)"
proof (induction gs arbitrary: s rule: join.induct)
  case (2 g)
  then show ?case
    by (simp add: verify_group group_def after_groups_def)
next
  case (3 g h hs)
  let ?s = "s\<lparr>v_len := v_len s + length g + 1, field_count := field_count s + 1,
      total_colon_count := total_colon_count s + 1, field_length := 0, colon_flag := 1\<rparr>"
  have "verify_loop n (join (g # h # hs) @ rest) s = verify_loop n (join (h # hs) @ rest) ?s"
    using "3.prems" by (cases s) (simp add: verify_group group_def verify_colon_def)
  also have "\<dots> = verify_loop n rest (after_groups ?s (h # hs))"
    using 3 by simp
  also have "after_groups ?s (h # hs) = after_groups s (g # h # hs)"
    by (simp add: after_groups_def)
  finally show ?case .
qed simp

lemma verify_gap:
  assumes "colon_flag s = 0" and "compress_flag s = 0"
  shows "verify_loop n (''::'' @ rest) s = verify_loop n rest
    (s\<lparr>v_len := v_len s + 2, total_colon_count := total_colon_count s + 2, field_length := 0, colon_flag := 2,
      compress_flag := 1,
      v_compress_type := if v_len s = 0 then 1 else if n = v_len s + 2 then 3 else 2\<rparr>)"
  using assms by (cases s) (auto simp: verify_colon_def Let_def)

lemma verify_eight_groups:
  assumes "list_all group gs" and "length gs = 8"
  shows "verify_ipv6_address_format (Some (join gs)) = 0"
proof -
  have "gs \<noteq> []"
    using assms(2) by auto
  then have "verify_loop n (join gs) verify_start = Inr (after_groups verify_start gs)" for n
    using verify_join [OF assms(1), of verify_start n "[]"] by (simp add: verify_start_def)
  then show ?thesis
    using length_join [OF assms(1)] assms(2)
    by (simp add: verify_ipv6_address_format_def verify_end_def after_groups_def verify_start_def)
qed

lemma verify_gap_text:
  assumes "list_all group ls" and "list_all group rs" and "length ls + length rs \<le> 7"
  shows "verify_ipv6_address_format (Some (join ls @ ''::'' @ join rs)) = 0"
proof -
  let ?text = "join ls @ ''::'' @ join rs" and ?n = "length (join ls @ ''::'' @ join rs)"
  let ?s = "if ls = [] then verify_start else after_groups verify_start ls"
  have "verify_loop ?n ?text verify_start = verify_loop ?n (''::'' @ join rs) ?s"
  proof (cases "ls = []")
    case False
    have "field_length verify_start = 0"
      by (simp add: verify_start_def)
    then show ?thesis
      using verify_join [OF assms(1) False] by (simp only: False if_False)
  qed simp
  also have "\<dots> = verify_loop ?n (join rs) (?s\<lparr>v_len := v_len ?s + 2, total_colon_count := total_colon_count ?s + 2,
      field_length := 0, colon_flag := 2, compress_flag := 1,
      v_compress_type := if v_len ?s = 0 then 1 else if ?n = v_len ?s + 2 then 3 else 2\<rparr>)"
    by (rule verify_gap) (simp_all add: verify_start_def after_groups_def)
  finally show ?thesis
    using verify_join [OF assms(2), of _ ?n "[]"] length_join [OF assms(1)] length_join [OF assms(2)] assms(3)
    by (cases "ls = []"; cases "rs = []")
      (auto simp: verify_ipv6_address_format_def verify_end_def after_groups_def verify_start_def)
qed

section \<open>Expanding gives the address in full\<close>

lemma map_join: "map f (join gs) = join (map (map f) gs)" if "f colon = colon"
  using that by (induction gs rule: join.induct) simp_all

lemma length_pad4 [simp]: "group g \<Longrightarrow> length (pad4 g) = 4"
  by (simp add: pad4_def group_def)

lemma length_join_pad4: "list_all group gs \<Longrightarrow> gs \<noteq> [] \<Longrightarrow> length (join (map pad4 gs)) = 5 * length gs - 1"
  by (induction gs rule: join.induct) simp_all

lemma full_text_groups: "list_all group gs \<Longrightarrow> full_text (map group_value gs) = TO_LOWER_CASE (join (map pad4 gs))"
  unfolding full_text_def to_lower_map map_join [of tolower, OF tolower_zero(2)] list.map_comp
  by (rule arg_cong [where f = join])
    (auto simp: list_all_iff full_group_value to_lower_map)

lemma print_full:
  assumes "list_all group gs" and "length gs = 8" and "map f_data flds = map pad4 gs"
  shows "print_fields (8, flds) (Some b) = (0, Some (full_text (map group_value gs)))"
proof -
  have "length (join (map pad4 gs)) = 39"
    using length_join_pad4 [OF assms(1)] assms(2) by fastforce
  then show ?thesis
    by (simp add: print_fields_def assms full_text_groups string_copy_def)
qed

text \<open>A field of zeros is the group \<open>0\<close>.\<close>

lemma group_zero: "group ''0''" "pad4 ''0'' = ''0000''" "group_value ''0'' = 0"
  by (simp_all add: group_def hex_code_def pad4_def group_value_def digit_of_def numeral_3_eq_3)

lemma length_no_fields [simp]: "length no_fields = 8"
  by (simp add: no_fields_def)

lemma write_all:
  assumes "length ss = 8"
  shows "map f_data (write_fields 0 ss no_fields) = ss"
  using data_write_fields [of 0 ss no_fields] assms by simp

lemma fields_end: "fields_loop only7 stop stop temp flds = Inr (stop, flds)"
  by (simp add: fields_loop.simps)

definition gap_groups :: "string list \<Rightarrow> string list \<Rightarrow> string list" where
  "gap_groups ls rs = ls @ replicate (8 - length ls - length rs) ''0'' @ rs"

lemma gap_groups:
  assumes "list_all group ls" and "list_all group rs" and "length ls + length rs \<le> 7"
  shows "list_all group (gap_groups ls rs)" and "length (gap_groups ls rs) = 8"
    and "map pad4 (gap_groups ls rs) = map pad4 ls @ replicate (8 - length ls - length rs) ''0000'' @ map pad4 rs"
    and "map group_value (gap_groups ls rs) =
      map group_value ls @ replicate (8 - length ls - length rs) 0 @ map group_value rs"
  using assms by (simp_all add: gap_groups_def group_zero list_all_iff ball_Un)

lemma print_gap:
  assumes "list_all group ls" and "list_all group rs" and "length ls + length rs \<le> 7"
    and "flds = write_fields 0 (map pad4 ls @ replicate (8 - length ls - length rs) ''0000'' @ map pad4 rs) no_fields"
  shows "print_fields (8, flds) (Some b) =
    (0, Some (full_text (map group_value ls @ replicate (8 - length ls - length rs) 0 @ map group_value rs)))"
proof -
  note g = gap_groups [OF assms(1-3)]
  have "map f_data flds = map pad4 (gap_groups ls rs)"
    unfolding assms(4) g(3) [symmetric] by (rule write_all) (simp add: g(2))
  then show ?thesis
    using print_full [OF g(1, 2)] by (simp only: g(4))
qed

lemma uncompress_begin_text:
  assumes "list_all group rs" and "length rs \<le> 7"
  shows "uncompress_ipv6_address_compress_begin (Some (''::'' @ join rs)) (Some b) 40 =
    Inr (0, Some (full_text (replicate (8 - length rs) 0 @ map group_value rs)))"
proof -
  have count: "nat (if length (''::'' @ join rs) = 2 then 8 else 7 - int (colon_count (''::'' @ join rs)) + 2) = 8 - length rs"
    using assms length_join(2) [OF assms(1)] by (cases rs) (auto simp: colon_count_join)
  have "fields_loop True 8 (8 - length rs) (Some (join rs)) flds =
      Inr (8, write_fields (8 - length rs) (map pad4 rs) flds)" if "length flds = 8" for flds
    using fields_loop_groups [of rs "8 - length rs" 8 flds True] assms that by (cases "rs = []") (simp_all add: fields_end)
  then show ?thesis
    using zero_fields_write [of "8 - length rs" no_fields 0] print_gap [of "[]" rs _ b] assms
    unfolding uncompress_ipv6_address_compress_begin_def option.case Let_def count
    by (simp add: bind_fault_Inr write_fields_append)
qed

lemma uncompress_end_text:
  assumes "list_all group ls" and "length ls \<le> 7" and "ls \<noteq> []"
  shows "uncompress_ipv6_address_compress_end (Some (join ls @ ''::'')) (Some b) 40 =
    Inr (0, Some (full_text (map group_value ls @ replicate (8 - length ls) 0)))"
proof -
  have count: "nat (8 - (7 - int (colon_count (join ls @ ''::'')) + 2)) = length ls"
    using assms by (cases ls) (simp_all add: colon_count_join)
  show ?thesis
    using end_loop_groups [OF assms(1), of 0 "length ls" no_fields "'':''"]
      zero_fields_write [of 8 "write_fields 0 (map pad4 ls) no_fields" "length ls"]
      print_gap [of ls "[]" _ b] assms
    unfolding uncompress_ipv6_address_compress_end_def option.case Let_def count
    by (simp add: bind_fault_Inr write_fields_append)
qed

lemma uncompress_middle_text:
  assumes "list_all group ls" and "list_all group rs" and "length ls + length rs \<le> 7" and "ls \<noteq> []" and "rs \<noteq> []"
  shows "uncompress_ipv6_address_compress_middle (Some (join ls @ ''::'' @ join rs)) (Some b) 40 =
    Inr (0, Some (full_text (map group_value ls @ replicate (8 - length ls - length rs) 0 @ map group_value rs)))"
proof -
  have len: "length (join ls) \<le> 29" "length (join rs) \<le> 29" "1 \<le> length ls" "1 \<le> length rs"
    using length_join(1) [OF assms(1)] length_join(1) [OF assms(2)] assms(3-5)
    by (simp_all add: Suc_le_eq flip: length_greater_0_conv)
  have cut: "string_copy (Suc (length (join ls))) (join ls @ s) = join ls" "string_copy 40 (join rs) = join rs" for s
    using len by (simp_all add: string_copy_def)
  have count: "Suc (colon_count (join ls)) = length ls" "7 - colon_count (join rs) = 8 - length rs"
    using assms len by (simp_all add: colon_count_join)
  have "fields_loop False (length ls) 0 (Some (join ls)) no_fields = Inr (length ls, write_fields 0 (map pad4 ls) no_fields)"
    using fields_loop_groups [OF assms(4, 1), of 0 "length ls" no_fields False] assms(3) by simp
  moreover have "zero_fields (8 - length rs) (length ls) flds =
      Inr (8 - length rs, write_fields (length ls) (replicate (8 - length ls - length rs) ''0000'') flds)"
    if "length flds = 8" for flds
    using zero_fields_write [of "8 - length rs" flds "length ls"] assms(3) that by (simp add: diff_commute add.commute)
  moreover have "fields_loop True 8 (8 - length rs) (Some (join rs)) flds =
      Inr (8, write_fields (8 - length rs) (map pad4 rs) flds)" if "length flds = 8" for flds
    using fields_loop_groups [OF assms(5, 2), of "8 - length rs" 8 flds True] assms(3) that by simp
  moreover have "length ls + (8 - length ls - length rs) = 8 - length rs"
    using assms(3) by simp
  ultimately show ?thesis
    using print_gap [OF assms(1-3), of _ b] strstr_gap [OF assms(1), of "join rs"] len(1)
    unfolding uncompress_ipv6_address_compress_middle_def
    by (simp add: cut count bind_fault_Inr write_fields_append Let_def)
qed

lemma uncompress_text:
  assumes "denotes text ws"
  shows "get_uncompress_ipv6_address (Some text) (Some b) 40 =
    (if length text = 39 then Inr (1, Some text) else Inr (0, Some (full_text ws)))"
  using assms
proof (cases rule: denotes.cases)
  case (eight_groups gs)
  then have ne: "gs \<noteq> []"
    by auto
  have "length text \<le> 39"
    using length_join(1) [of gs] eight_groups by simp
  then show ?thesis
    using eight_groups ne verify_eight_groups [of gs] strstr_none [of gs] print_full [of gs _ b]
      fields_loop_groups [of gs 0 8 no_fields True] write_all [of "map pad4 gs"]
    by (auto simp: get_uncompress_ipv6_address_def get_ipv6_address_type_def Let_def copy_out_def
        uncompress_ipv6_address_omit_leading_zeros_def bind_fault_Inr string_copy_def)
next
  case (gap ls rs)
  have len: "length text \<noteq> 39"
    using length_join(1) [of ls] length_join(1) [of rs] gap by simp
  have find: "strstr text ''::'' = Some (length (join ls))"
    using strstr_gap [of ls "join rs"] gap by simp
  have "get_uncompress_ipv6_address (Some text) (Some b) 40 = uncompress_ipv6_address_compress (Some text) (Some b) 40"
    using verify_gap_text [of ls rs] gap find
    by (simp add: get_uncompress_ipv6_address_def get_ipv6_address_type_def)
  also have "\<dots> = Inr (0, Some (full_text ws))"
  proof (cases "ls = []")
    case True
    then show ?thesis
      using find gap uncompress_begin_text [of rs b]
      by (simp add: uncompress_ipv6_address_compress_def get_ipv6_address_compress_type_def)
  next
    case False
    then have pos: "0 < length (join ls)"
      using length_join(2) [of ls] gap by (cases ls) auto
    show ?thesis
    proof (cases "rs = []")
      case True
      then show ?thesis
        using find gap pos False uncompress_end_text [of ls b]
        by (simp add: uncompress_ipv6_address_compress_def get_ipv6_address_compress_type_def)
    next
      case rs: False
      then have "0 < length (join rs)"
        using length_join(2) [of rs] gap by (cases rs) auto
      then show ?thesis
        using find gap pos False rs uncompress_middle_text [of ls rs b]
        by (simp add: uncompress_ipv6_address_compress_def get_ipv6_address_compress_type_def)
    qed
  qed
  finally show ?thesis
    using len by simp
qed

section \<open>Compressing\<close>

text \<open>A group without its leading zeros, and the field that is made of it.\<close>

definition short :: "string \<Rightarrow> string" where
  "short g = (let s = dropWhile (\<lambda>c. c = CHR ''0'') g in if s = [] then ''0'' else s)"

definition field_of :: "string \<Rightarrow> v6addr_field" where
  "field_of g = \<lparr>f_compress_type = (if dropWhile (\<lambda>c. c = CHR ''0'') g = [] then 3 else if hd g = CHR ''0'' then 2 else 0),
    f_data = short g\<rparr>"

definition at_field_end :: "string \<Rightarrow> bool" where
  "at_field_end rest \<longleftrightarrow> rest = [] \<or> hd rest = colon"

lemma scan_end: "at_field_end rest \<Longrightarrow> scan_field rest omit f = Inr (f, rest)"
  by (cases rest) (auto simp: at_field_end_def)

lemma scan_kept:
  "\<lbrakk>colon \<notin> set s; length (f_data f) + length s \<le> 4; at_field_end rest\<rbrakk> \<Longrightarrow>
    scan_field (s @ rest) False f = Inr (f\<lparr>f_data := f_data f @ s\<rparr>, rest)"
  by (induction s arbitrary: f) (auto simp: scan_end)

lemma scan_group:
  "\<lbrakk>colon \<notin> set g; length g \<le> 4; at_field_end rest; f_data f = []\<rbrakk> \<Longrightarrow>
    scan_field (g @ rest) True f =
      Inr (f\<lparr>f_compress_type := (if g \<noteq> [] \<and> hd g = CHR ''0'' then 2 else f_compress_type f),
        f_data := dropWhile (\<lambda>c. c = CHR ''0'') g\<rparr>, rest)"
proof (induction g arbitrary: f)
  case (Cons c g)
  show ?case
  proof (cases "c = CHR ''0''")
    case True
    then show ?thesis
      using Cons by (cases f) (auto split: if_splits)
  next
    case False
    then show ?thesis
      using Cons.prems scan_kept [of g "f\<lparr>f_data := [c]\<rparr>" rest] by (cases f) auto
  qed
qed (cases f; simp add: scan_end)

lemma scan_fields_groups:
  "list_all group gs \<Longrightarrow> gs \<noteq> [] \<Longrightarrow> scan_fields (length gs) (Some (join gs)) = Inr (map field_of gs)"
proof (induction gs rule: join.induct)
  case (2 g)
  then show ?case
    using scan_group [of g "[]" "\<lparr>f_compress_type = 0, f_data = []\<rparr>"] group_no_colon [of g]
    by (auto simp: group_def at_field_end_def bind_fault_Inr field_of_def short_def Let_def)
next
  case (3 g h hs)
  then show ?case
    using scan_group [of g "colon # join (h # hs)" "\<lparr>f_compress_type = 0, f_data = []\<rparr>"] group_no_colon [of g]
    by (auto simp: group_def at_field_end_def bind_fault_Inr field_of_def short_def Let_def)
qed simp

text \<open>The groups that are zero are the fields of type 3.\<close>

lemma group_value_zero: "dropWhile (\<lambda>c. c = CHR ''0'') g = [] \<Longrightarrow> group_value g = 0"
proof -
  have "(\<forall>c \<in> set g. c = CHR ''0'') \<Longrightarrow> foldl (\<lambda>v c. 16 * v + digit_of c) 0 g = 0"
    by (induction g) (simp_all add: digit_of_def)
  then show "dropWhile (\<lambda>c. c = CHR ''0'') g = [] \<Longrightarrow> group_value g = 0"
    by (simp add: group_value_def)
qed

lemma digit_zero: "hex_code c \<Longrightarrow> digit_of c = 0 \<longleftrightarrow> c = CHR ''0''"
  using hex_code_cases [of c] by (auto simp: digit_of_def)

lemma foldl_value: "foldl (\<lambda>v c. 16 * v + digit_of c) n g = 0 \<longleftrightarrow> n = 0 \<and> foldl (\<lambda>v c. 16 * v + digit_of c) 0 g = 0"
proof (induction g arbitrary: n)
  case (Cons c g)
  show ?case
    using Cons.IH [of "16 * n + digit_of c"] Cons.IH [of "digit_of c"] by simp
qed simp

lemma group_value_pos: "group g \<Longrightarrow> dropWhile (\<lambda>c. c = CHR ''0'') g \<noteq> [] \<Longrightarrow> group_value g \<noteq> 0"
proof -
  have "list_all hex_code g \<Longrightarrow> foldl (\<lambda>v c. 16 * v + digit_of c) 0 g = 0 \<Longrightarrow> dropWhile (\<lambda>c. c = CHR ''0'') g = []"
  proof (induction g)
    case (Cons c g)
    then show ?case
      using foldl_value [of "digit_of c" g] digit_zero [of c] by simp
  qed simp
  then show "group g \<Longrightarrow> dropWhile (\<lambda>c. c = CHR ''0'') g \<noteq> [] \<Longrightarrow> group_value g \<noteq> 0"
    by (auto simp: group_def group_value_def)
qed

lemma field_type_zero: "group g \<Longrightarrow> f_compress_type (field_of g) = 3 \<longleftrightarrow> group_value g = 0"
  using group_value_zero [of g] group_value_pos [of g] by (auto simp: field_of_def)

lemma short_group: "group g \<Longrightarrow> group (short g)"
proof -
  assume g: "group g"
  have "list_all hex_code (dropWhile (\<lambda>c. c = CHR ''0'') g)" "length (dropWhile (\<lambda>c. c = CHR ''0'') g) \<le> 4"
    using g length_dropWhile_le [of "\<lambda>c. c = CHR ''0''" g] set_dropWhileD
    by (fastforce simp: group_def list_all_iff)+
  then show ?thesis
    by (simp add: group_def short_def Let_def hex_code_def)
qed

lemma short_value: "group_value (short g) = group_value g"
proof -
  have "foldl (\<lambda>v c. 16 * v + digit_of c) 0 (dropWhile (\<lambda>c. c = CHR ''0'') g) = foldl (\<lambda>v c. 16 * v + digit_of c) 0 g"
    by (induction g) (simp_all add: digit_of_def)
  then show ?thesis
    using group_value_zero [of g] by (simp add: short_def Let_def group_value_def digit_of_def)
qed

text \<open>The rightmost run of zero fields is marked.\<close>

definition marked :: "v6addr_field \<Rightarrow> v6addr_field" where
  "marked f = f\<lparr>f_compress_type := 4\<rparr>"

lemma mark_none: "\<forall>f \<in> set fs. f_compress_type f \<noteq> 3 \<Longrightarrow> mark_run 0 count (fs @ gs) = fs @ mark_run 0 count gs"
  by (induction fs) simp_all

lemma mark_zeros:
  "\<lbrakk>\<forall>f \<in> set zs. f_compress_type f = 3; 0 < count; fs = [] \<or> f_compress_type (hd fs) \<noteq> 3\<rbrakk> \<Longrightarrow>
    mark_run 1 count (zs @ fs) = map marked zs @ fs"
  by (induction zs arbitrary: count) (cases fs; simp add: marked_def)+

lemma mark_rightmost:
  assumes "\<forall>f \<in> set rs. f_compress_type f \<noteq> 3" and "\<forall>f \<in> set zs. f_compress_type f = 3" and "zs \<noteq> []"
    and "ls = [] \<or> f_compress_type (last ls) \<noteq> 3"
  shows "rev (mark_run 0 0 (rev (ls @ zs @ rs))) = ls @ map marked zs @ rs"
proof -
  obtain z ys where zs: "rev zs = z # ys"
    using assms(3) by (cases "rev zs") simp_all
  have t: "\<forall>f \<in> set (z # ys). f_compress_type f = 3"
    using assms(2) unfolding zs [symmetric] by simp
  have "mark_run 0 0 (rev zs @ rev ls) = map marked (rev zs) @ rev ls"
    using mark_zeros [of ys 1 "rev ls"] assms(4) t by (auto simp: zs marked_def hd_rev)
  then show ?thesis
    using mark_none [of "rev rs" 0 "rev zs @ rev ls"] assms(1) by (simp add: rev_map)
qed

lemma unmarked: "\<forall>f \<in> set fs. f_compress_type f \<noteq> 3 \<Longrightarrow> rev (mark_run 0 0 (rev fs)) = fs"
  using mark_none [of "rev fs" 0 "[]"] by simp

text \<open>Printing fields that are not marked, before and after the run.\<close>

definition before_gap :: "string list \<Rightarrow> string" where
  "before_gap ds = concat (map (\<lambda>d. d @ [colon]) ds)"

lemma before_gap_join: "ds \<noteq> [] \<Longrightarrow> before_gap ds = join ds @ [colon]"
  by (induction ds rule: join.induct) (simp_all add: before_gap_def)

lemma print_plain:
  "\<lbrakk>\<forall>f \<in> set fs. f_compress_type f \<noteq> 4; flag \<noteq> 1; i + length fs \<le> 7\<rbrakk> \<Longrightarrow>
    print_compressed i flag text (fs @ gs) =
      print_compressed (i + length fs) flag (text @ before_gap (map f_data fs)) gs"
  by (induction fs arbitrary: i "text") (simp_all add: before_gap_def)

lemma print_plain_end:
  "\<lbrakk>\<forall>f \<in> set fs. f_compress_type f \<noteq> 4; flag \<noteq> 1; i + length fs = 8\<rbrakk> \<Longrightarrow>
    print_compressed i flag text fs = text @ join (map f_data fs)"
proof (induction fs arbitrary: i "text")
  case (Cons f fs)
  show ?case
    using Cons.IH [of "i + 1" "text @ f_data f @ [colon]"] Cons.prems
    by (cases "fs = []") (auto simp: join_Cons)
qed simp

lemma print_run:
  "\<lbrakk>\<forall>f \<in> set fs. f_compress_type f = 4; text \<noteq> []; flag \<le> 1; i + length fs \<le> 8; fs \<noteq> []\<rbrakk> \<Longrightarrow>
    print_compressed i flag text (fs @ gs) =
      print_compressed (i + length fs) 1 (text @ (if i + length fs = 8 then [colon] else [])) gs"
proof (induction fs arbitrary: i flag "text")
  case (Cons f fs)
  have flag: "(if flag = 0 then 1 else flag) = 1"
    using Cons.prems(3) by simp
  show ?case
  proof (cases "fs = []")
    case True
    then show ?thesis
      using flag Cons.prems by auto
  next
    case False
    then have "i \<noteq> 7"
      using Cons.prems(4) by (cases fs) auto
    then show ?thesis
      using Cons.IH [of "text" 1 "i + 1"] Cons.prems False flag by auto
  qed
qed simp

lemma print_after:
  "\<lbrakk>\<forall>f \<in> set fs. f_compress_type f \<noteq> 4; i + length fs = 8; fs \<noteq> []\<rbrakk> \<Longrightarrow>
    print_compressed i 1 text fs = text @ [colon] @ join (map f_data fs)"
proof (cases fs)
  case (Cons f gs)
  assume "\<forall>f \<in> set fs. f_compress_type f \<noteq> 4" "i + length fs = 8"
  then show ?thesis
    using Cons print_plain_end [of gs 2 "i + 1" "text @ [colon] @ f_data f @ [colon]"]
    by (cases gs) auto
qed simp

lemma print_gap_run:
  assumes "\<forall>f \<in> set ls \<union> set rs. f_compress_type f \<noteq> 4" and "\<forall>f \<in> set zs. f_compress_type f = 4" and "zs \<noteq> []"
    and "length ls + length zs + length rs = 8"
  shows "print_compressed 0 0 [] (ls @ zs @ rs) = join (map f_data ls) @ ''::'' @ join (map f_data rs)"
proof -
  let ?i = "length ls + length zs" and ?tail = "if rs = [] then [colon] else []"
  have run: "print_compressed 0 0 [] (ls @ zs @ rs) =
      print_compressed ?i 1 (join (map f_data ls) @ [colon] @ ?tail) rs"
  proof (cases ls)
    case Nil
    obtain z ys where zs: "zs = z # ys"
      using assms(3) by (cases zs) simp_all
    show ?thesis
    proof (cases "ys = []")
      case True
      then show ?thesis
        using Nil assms zs by auto
    next
      case False
      then show ?thesis
        using Nil assms zs print_run [of ys "[colon]" 1 1 rs] by auto
    qed
  next
    case (Cons l ls')
    then have "before_gap (map f_data ls) = join (map f_data ls) @ [colon]"
      by (intro before_gap_join) simp
    moreover have "length ls \<le> 7"
      using assms(3, 4) by (cases zs) auto
    ultimately show ?thesis
      using print_plain [of ls 0 0 "[]" "zs @ rs"] print_run [of zs "join (map f_data ls) @ [colon]" 0 "length ls" rs] assms
      by auto
  qed
  show ?thesis
  proof (cases "rs = []")
    case True
    then show ?thesis
      using run by simp
  next
    case False
    then show ?thesis
      using run print_after [of rs ?i "join (map f_data ls) @ [colon]"] assms by auto
  qed
qed

section \<open>The compressed text denotes the same address\<close>

lemma split_zeros:
  assumes "0 \<in> set (map v gs)"
  obtains ls zs rs where "gs = ls @ zs @ rs" and "zs \<noteq> []" and "\<forall>g \<in> set zs. v g = (0 :: nat)"
    and "\<forall>g \<in> set rs. v g \<noteq> 0" and "ls = [] \<or> v (last ls) \<noteq> 0"
proof -
  define rs where "rs = rev (takeWhile (\<lambda>g. v g \<noteq> 0) (rev gs))"
  define front where "front = dropWhile (\<lambda>g. v g \<noteq> 0) (rev gs)"
  define zs where "zs = rev (takeWhile (\<lambda>g. v g = 0) front)"
  define ls where "ls = rev (dropWhile (\<lambda>g. v g = 0) front)"
  have "rev gs = rev rs @ rev zs @ rev ls"
    by (simp add: rs_def zs_def ls_def front_def)
  then have "gs = ls @ zs @ rs"
    by (metis append.assoc rev_append rev_rev_ident)
  moreover have front: "front \<noteq> []"
    using assms by (auto simp: front_def dropWhile_eq_Nil_conv)
  moreover have "v (hd front) = 0"
    using hd_dropWhile [OF front [unfolded front_def]] by (simp add: front_def)
  moreover from this have "zs \<noteq> []"
    using front by (cases front) (simp_all add: zs_def)
  moreover have "\<forall>g \<in> set zs. v g = 0" "\<forall>g \<in> set rs. v g \<noteq> 0"
    by (auto simp: zs_def rs_def dest: set_takeWhileD)
  moreover have "ls = [] \<or> v (last ls) \<noteq> 0"
    using hd_dropWhile [of "\<lambda>g. v g = 0" front]
    by (cases "dropWhile (\<lambda>g. v g = 0) front = []")
      (simp_all add: ls_def last_rev del: dropWhile_eq_Nil_conv set_dropWhileD)
  ultimately show thesis
    using that by blast
qed

text \<open>What is written: the groups without leading zeros, the last run of zero groups as a gap.\<close>

lemma compress_text:
  assumes "list_all group gs" and "length gs = 8"
  shows "compress_ipv6_address (Some (join gs)) (Some b) 40 =
    Inr (0, Some (string_copy 40 (print_compressed 0 0 [] (rev (mark_run 0 0 (rev (map field_of gs)))))))"
proof -
  have "scan_fields 8 (Some (join gs)) = Inr (map field_of gs)"
    using scan_fields_groups [OF assms(1)] assms(2) by (cases "gs = []") simp_all
  then show ?thesis
    by (simp add: compress_ipv6_address_def bind_fault_Inr)
qed

lemma data_field_of: "map f_data (map field_of gs) = map short gs"
  by (simp add: field_of_def)

lemma compress_no_gap:
  assumes "list_all group gs" and "length gs = 8" and "0 \<notin> set (map group_value gs)"
  shows "compress_ipv6_address (Some (join gs)) (Some b) 40 = Inr (0, Some (join (map short gs)))"
proof -
  have t: "\<forall>f \<in> set (map field_of gs). f_compress_type f \<noteq> 3" "\<forall>f \<in> set (map field_of gs). f_compress_type f \<noteq> 4"
    using assms field_type_zero by (auto simp: list_all_iff) (simp add: field_of_def split: if_splits)
  have "length (join (map short gs)) \<le> 39"
    using length_join(1) [of "map short gs"] assms by (simp add: list_all_iff short_group)
  then show ?thesis
    using compress_text [OF assms(1, 2), of b] unmarked [OF t(1)] print_plain_end [OF t(2), of 0 0 "[]"] assms(2)
    by (simp only: data_field_of length_map) (simp add: string_copy_def)
qed

lemma compress_gap:
  assumes "list_all group (ls @ zs @ rs)" and "length (ls @ zs @ rs) = 8" and "zs \<noteq> []"
    and "\<forall>g \<in> set zs. group_value g = 0" and "\<forall>g \<in> set rs. group_value g \<noteq> 0"
    and "ls = [] \<or> group_value (last ls) \<noteq> 0"
  shows "compress_ipv6_address (Some (join (ls @ zs @ rs))) (Some b) 40 =
    Inr (0, Some (join (map short ls) @ ''::'' @ join (map short rs)))"
proof -
  have groups: "\<forall>g \<in> set (ls @ zs @ rs). group g"
    using assms(1) by (simp add: list_all_iff)
  then have "rev (mark_run 0 0 (rev (map field_of ls @ map field_of zs @ map field_of rs))) =
      map field_of ls @ map marked (map field_of zs) @ map field_of rs"
    using assms(3-6) by (intro mark_rightmost) (auto simp: field_type_zero last_map)
  moreover have "print_compressed 0 0 [] (map field_of ls @ map marked (map field_of zs) @ map field_of rs) =
      join (map f_data (map field_of ls)) @ ''::'' @ join (map f_data (map field_of rs))"
    using assms(2, 3) by (intro print_gap_run) (auto simp: field_of_def marked_def split: if_splits)
  moreover have "length (join (map short ls) @ ''::'' @ join (map short rs)) \<le> 39"
  proof -
    have "length (join (map short ls)) \<le> 5 * length ls - 1" "length (join (map short rs)) \<le> 5 * length rs - 1"
      using length_join(1) [of "map short ls"] length_join(1) [of "map short rs"] groups
      by (simp_all add: list_all_iff short_group)
    moreover have "length ls + length rs \<le> 7"
      using assms(2, 3) by (cases zs) auto
    ultimately show ?thesis
      by simp
  qed
  ultimately show ?thesis
    using compress_text [OF assms(1, 2), of b]
    by (simp only: map_append data_field_of) (simp add: string_copy_def)
qed

lemma gap_denotes:
  assumes "list_all group (ls @ zs @ rs)" and "length (ls @ zs @ rs) = 8" and "zs \<noteq> []"
    and "\<forall>g \<in> set zs. group_value g = 0"
  shows "denotes (join (map short ls) @ ''::'' @ join (map short rs)) (map group_value (ls @ zs @ rs))"
proof -
  have "map group_value zs = replicate (length zs) 0"
    using assms(4) by (induction zs) simp_all
  moreover have "length zs = 8 - length ls - length rs"
    using assms(2) by simp
  moreover have "length ls + length rs \<le> 7"
    using assms(2, 3) by (cases zs) auto
  moreover have "map group_value (map short gs) = map group_value gs" for gs
    by (simp add: short_value)
  ultimately show ?thesis
    using denotes.gap [of "map short ls" "map short rs"] assms(1)
    by (simp add: list_all_iff short_group comp_def short_value)
qed

text \<open>The text is one of the same address; the gap, if there is one, is the last run of zero groups.\<close>

lemma compress_denotes:
  assumes "list_all group gs" and "length gs = 8"
  obtains t where "compress_ipv6_address (Some (join gs)) (Some b) 40 = Inr (0, Some t)"
    and "denotes t (map group_value gs)"
proof (cases "0 \<in> set (map group_value gs)")
  case True
  then obtain ls zs rs where s: "gs = ls @ zs @ rs" "zs \<noteq> []" "\<forall>g \<in> set zs. group_value g = 0"
    "\<forall>g \<in> set rs. group_value g \<noteq> 0" "ls = [] \<or> group_value (last ls) \<noteq> 0"
    by (rule split_zeros)
  show thesis
    using that compress_gap [of ls zs rs b] gap_denotes [of ls zs rs] assms s by simp
next
  case False
  have "denotes (join (map short gs)) (map group_value (map short gs))"
    using assms by (intro denotes.eight_groups) (simp_all add: list_all_iff short_group)
  then show thesis
    using that compress_no_gap [OF assms False, of b] by (simp add: short_value comp_def)
qed

section \<open>No input leaves the arrays\<close>

text \<open>The pieces of a text between its colons, and what the check says of them.\<close>

fun pieces :: "string \<Rightarrow> string list" where
  "pieces [] = [[]]"
| "pieces (c # cs) = (if c = colon then [] # pieces cs else (c # hd (pieces cs)) # tl (pieces cs))"

lemma pieces_nonempty [simp]: "pieces s \<noteq> []"
  by (cases s) simp_all

lemma join_pieces: "join (pieces s) = s"
proof (induction s)
  case (Cons c s)
  have "join ((c # hd (pieces s)) # tl (pieces s)) = c # join (pieces s)"
    by (cases "pieces s" rule: join.cases) (use pieces_nonempty [of s] in simp_all)
  then show ?case
    using Cons by (simp add: join_Cons)
qed simp

lemma length_pieces: "length (pieces s) = colon_count s + 1"
  by (induction s) simp_all

lemma length_pieces_sum: "length s = sum_list (map length (pieces s)) + colon_count s"
proof (induction s)
  case (Cons c s)
  then show ?case
    by (cases "pieces s") simp_all
qed simp

lemma verify_digit_cases:
  assumes "verify_digit s = Inr s'"
  shows "v_len s' = v_len s" "total_colon_count s' = total_colon_count s" "field_length s' = field_length s + 1"
    "field_length s < 4"
  using assms by (cases s; auto simp: verify_digit_def Let_def split: if_splits)+

lemma verify_colon_cases:
  assumes "verify_colon n s = Inr s'"
  shows "v_len s' = v_len s" "total_colon_count s' = total_colon_count s + 1" "field_length s' = 0"
  using assms by (cases s; auto simp: verify_colon_def Let_def split: if_splits)+

lemma verify_len: "verify_loop n t s = Inr s' \<Longrightarrow> v_len s' \<le> v_len s + length t"
proof (induction t arbitrary: s)
  case (Cons c t)
  show ?case
  proof (cases "c = colon \<or> hex_code c")
    case True
    then obtain s1 where s1: "(if c = colon then verify_colon n s else verify_digit s) = Inr s1"
      "verify_loop n t (s1\<lparr>v_len := v_len s1 + 1\<rparr>) = Inr s'"
      using Cons.prems by (auto split: sum.splits)
    then have "v_len s1 = v_len s"
      using verify_digit_cases(1) [of s s1] verify_colon_cases(1) [of n s s1] by (auto split: if_splits)
    then show ?thesis
      using Cons.IH [OF s1(2)] by simp
  qed (use Cons.prems in simp)
qed simp

lemma verify_pieces:
  assumes "verify_loop n t s = Inr s'" and "v_len s' = v_len s + length t" and "field_length s \<le> 4"
  shows "total_colon_count s' = total_colon_count s + colon_count t
    \<and> list_all hex_code (concat (pieces t))
    \<and> field_length s + length (hd (pieces t)) \<le> 4 \<and> (\<forall>p \<in> set (tl (pieces t)). length p \<le> 4)"
  using assms
proof (induction t arbitrary: s)
  case (Cons c t)
  have valid: "c = colon \<or> hex_code c"
    using Cons.prems by (auto split: if_splits)
  then obtain s1 where s1: "(if c = colon then verify_colon n s else verify_digit s) = Inr s1"
    "verify_loop n t (s1\<lparr>v_len := v_len s1 + 1\<rparr>) = Inr s'"
    using Cons.prems(1) by (auto split: sum.splits)
  show ?case
  proof (cases "c = colon")
    case True
    then show ?thesis
      using s1 verify_colon_cases [of n s s1] Cons.prems(2, 3) Cons.IH [OF s1(2)]
      by (cases "pieces t") auto
  next
    case False
    then show ?thesis
      using s1 verify_digit_cases [of s s1] Cons.prems(2) Cons.IH [OF s1(2)] valid
      by (cases "pieces t") auto
  qed
qed simp

lemma verify_error: "verify_loop n t s = Inl e \<Longrightarrow> e = -2"
proof (induction t arbitrary: s)
  case (Cons c t)
  have "verify_colon n s = Inl e \<Longrightarrow> e = -2" "verify_digit s = Inl e \<Longrightarrow> e = -2"
    by (cases s; auto simp: verify_colon_def verify_digit_def Let_def split: if_splits)+
  then show ?case
    using Cons by (auto split: if_splits sum.splits)
qed simp

lemma verify_no_gap:
  assumes "verify_loop n t s = Inr s'" and "compress_flag s = 0" and "colon_flag s \<le> 1"
    and "strstr (if colon_flag s = 1 then colon # t else t) ''::'' = None"
  shows "compress_flag s' = 0"
  using assms
proof (induction t arbitrary: s)
  case (Cons c t)
  show ?case
  proof (cases "c = colon")
    case True
    then have "colon_flag s = 0"
      using Cons.prems(3, 4) by (auto split: if_splits)
    then show ?thesis
      using Cons.prems True Cons.IH [of "s\<lparr>colon_flag := 1, field_length := 0,
          total_colon_count := total_colon_count s + 1, v_len := v_len s + 1\<rparr>"]
      by (simp add: verify_colon_def)
  next
    case False
    show ?thesis
    proof (cases "hex_code c")
      case True
      then obtain s1 where s1: "verify_digit s = Inr s1" "verify_loop n t (s1\<lparr>v_len := v_len s1 + 1\<rparr>) = Inr s'"
        using Cons.prems(1) False by (auto split: sum.splits)
      then have "compress_flag s1 = 0" "colon_flag s1 = 0"
        using Cons.prems(2) by (cases s; auto simp: verify_digit_def Let_def split: if_splits)+
      then show ?thesis
        using Cons.IH [OF s1(2)] Cons.prems(4) False by (auto split: if_splits)
    qed (use Cons.prems False in simp)
  qed
qed simp

lemma verify_accepts:
  assumes "verify_ipv6_address_format (Some t) = 0"
  shows "colon_count t \<le> 8" and "strstr t ''::'' = None \<Longrightarrow> colon_count t \<le> 7"
    and "2 \<le> length t" and "length t \<le> 39" and "list_all hex_code (concat (pieces t))"
    and "\<forall>p \<in> set (pieces t). length p \<le> 4"
proof -
  show len: "2 \<le> length t" "length t \<le> 39"
    using assms by (auto simp: verify_ipv6_address_format_def split: if_splits)
  obtain s where s: "verify_loop (length t) t verify_start = Inr s" "verify_end (length t) s = 0"
    using assms len verify_error [of "length t" t verify_start]
    by (cases "verify_loop (length t) t verify_start") (auto simp: verify_ipv6_address_format_def)
  then have "v_len s = v_len verify_start + length t"
    by (auto simp: verify_end_def verify_start_def split: if_splits)
  note p = verify_pieces [OF s(1) this]
  have "total_colon_count s = colon_count t"
    using p by (simp add: verify_start_def)
  then show "colon_count t \<le> 8" "strstr t ''::'' = None \<Longrightarrow> colon_count t \<le> 7"
    using s(2) verify_no_gap [OF s(1)]
    by (auto simp: verify_end_def verify_start_def Let_def split: if_splits)
  show "list_all hex_code (concat (pieces t))" "\<forall>p \<in> set (pieces t). length p \<le> 4"
    using p by (cases "pieces t"; simp add: verify_start_def)+
qed

lemma sum_bound: "\<forall>x \<in> set xs. x \<le> (4 :: nat) \<Longrightarrow> sum_list xs \<le> 4 * length xs"
  "\<forall>x \<in> set xs. x \<le> (4 :: nat) \<Longrightarrow> sum_list xs = 4 * length xs \<Longrightarrow> \<forall>x \<in> set xs. x = 4"
proof -
  have b: "\<forall>x \<in> set xs. x \<le> (4 :: nat) \<Longrightarrow> sum_list xs \<le> 4 * length xs" for xs
    by (induction xs) auto
  then show "\<forall>x \<in> set xs. x \<le> (4 :: nat) \<Longrightarrow> sum_list xs \<le> 4 * length xs" .
  show "\<forall>x \<in> set xs. x \<le> (4 :: nat) \<Longrightarrow> sum_list xs = 4 * length xs \<Longrightarrow> \<forall>x \<in> set xs. x = 4"
  proof (induction xs)
    case (Cons x xs)
    then show ?case
      using b [of xs] by auto
  qed simp
qed

text \<open>What the check accepts with 39 characters and no gap is eight groups of four digits.\<close>

lemma verify_normal:
  assumes "verify_ipv6_address_format (Some t) = 0" and "strstr t ''::'' = None" and "length t = 39"
  obtains gs where "t = join gs" and "length gs = 8" and "\<forall>g \<in> set gs. group g \<and> length g = 4"
proof -
  note a = verify_accepts [OF assms(1)]
  have "sum_list (map length (pieces t)) = 39 - colon_count t" "length (pieces t) = colon_count t + 1"
    using length_pieces_sum [of t] length_pieces [of t] assms(3) by simp_all
  moreover have "sum_list (map length (pieces t)) \<le> 4 * length (pieces t)"
    using sum_bound(1) [of "map length (pieces t)"] a(6) by simp
  ultimately have n: "length (pieces t) = 8" "sum_list (map length (pieces t)) = 4 * length (pieces t)"
    using a(2) [OF assms(2)] by simp_all
  have "\<forall>g \<in> set (pieces t). length g = 4"
    using sum_bound(2) [of "map length (pieces t)"] a(6) n(2) by simp
  then have "\<forall>g \<in> set (pieces t). group g \<and> length g = 4"
    using a(5) by (auto simp: group_def list_all_iff)
  then show thesis
    using that [of "pieces t"] n(1) by (simp add: join_pieces)
qed

lemma set_data_ok: "i < length flds \<Longrightarrow> set_data i s flds = Inr (flds[i := (flds ! i)\<lparr>f_data := s\<rparr>])"
  by (simp add: set_data_def)

lemma fields_loop_safe:
  assumes "length flds = 8" and "i \<le> 8"
  shows "\<exists>k flds'. fields_loop True 8 i (if i < 8 then Some temp else t) flds = Inr (k, flds') \<and> length flds' = 8"
  using assms
proof (induction "8 - i" arbitrary: i temp t flds)
  case 0
  then show ?case
    by (simp add: fields_loop.simps)
next
  case (Suc n)
  show ?case
  proof (cases "set_uncompress_ipv6_address_field_value temp (fst (split_field temp))")
    case None
    then show ?thesis
      using Suc by (subst fields_loop.simps) (auto split: prod.splits)
  next
    case (Some s)
    let ?flds = "flds[i := (flds ! i)\<lparr>f_data := s\<rparr>]"
    have i: "i < 8" "i < length flds"
      using Suc by auto
    have n: "n = 8 - (i + 1)" "length ?flds = 8" "i + 1 \<le> 8"
      using Suc by auto
    show ?thesis
    proof (cases "snd (split_field temp)")
      case (Some rest)
      then show ?thesis
        using Suc(1) [OF n, of rest "Some rest"] i \<open>set_uncompress_ipv6_address_field_value temp (fst (split_field temp)) = Some s\<close>
        by (subst fields_loop.simps) (auto simp: set_data_ok bind_fault_Inr split: prod.splits)
    next
      case None
      then show ?thesis
        using Suc(1) [OF n, of temp None] i Suc.prems(1) \<open>set_uncompress_ipv6_address_field_value temp (fst (split_field temp)) = Some s\<close>
        by (subst fields_loop.simps) (auto simp: set_data_ok bind_fault_Inr split: prod.splits)
    qed
  qed
qed

lemma split_colons:
  "snd (split_field temp) = Some rest \<Longrightarrow> colon_count temp = colon_count rest + 1"
  "snd (split_field temp) = None \<Longrightarrow> colon_count temp = 0"
proof -
  have "strchr s colon = Some k \<Longrightarrow> colon_count s = colon_count (drop (k + 1) s) + 1" for s k
    by (induction s arbitrary: k) (auto split: if_splits)
  moreover have "strchr s colon = None \<Longrightarrow> colon_count s = 0" for s
    by (induction s) (auto split: if_splits)
  ultimately show "snd (split_field temp) = Some rest \<Longrightarrow> colon_count temp = colon_count rest + 1"
    "snd (split_field temp) = None \<Longrightarrow> colon_count temp = 0"
    by (auto simp: split_field_def split: option.splits)
qed

lemma begin_loop_safe:
  assumes "length flds = 8" and "i + colon_count temp + 1 = stop" and "stop \<le> 8"
  shows "\<exists>k flds'. fields_loop False stop i (Some temp) flds = Inr (k, flds') \<and> length flds' = 8 \<and> k \<le> 8"
  using assms
proof (induction "stop - i" arbitrary: i temp flds)
  case (Suc n)
  show ?case
  proof (cases "set_uncompress_ipv6_address_field_value temp (fst (split_field temp))")
    case None
    then show ?thesis
      using Suc by (subst fields_loop.simps) (auto split: prod.splits)
  next
    case s: (Some s)
    let ?flds = "flds[i := (flds ! i)\<lparr>f_data := s\<rparr>]"
    have i: "i < stop" "i < length flds"
      using Suc by auto
    show ?thesis
    proof (cases "snd (split_field temp)")
      case (Some rest)
      then have "\<exists>k flds'. fields_loop False stop (i + 1) (Some rest) ?flds = Inr (k, flds') \<and> length flds' = 8 \<and> k \<le> 8"
        using Suc split_colons(1) [OF Some] by (intro Suc(1)) auto
      then show ?thesis
        using Some i s by (subst fields_loop.simps) (auto simp: set_data_ok bind_fault_Inr split: prod.splits)
    next
      case None
      then have "i + 1 = stop"
        using Suc.prems(2) split_colons(2) by simp
      then show ?thesis
        using None i s Suc.prems
        by (subst fields_loop.simps) (auto simp: set_data_ok bind_fault_Inr fields_loop.simps split: prod.splits)
    qed
  qed
qed simp

lemma end_loop_safe:
  assumes "length flds = 8" and "stop \<le> 8" and "i \<le> 8"
  shows "end_loop stop i temp flds = Inr None \<or>
    (\<exists>k flds'. end_loop stop i temp flds = Inr (Some (k, flds')) \<and> length flds' = 8 \<and> k \<le> 8)"
  using assms
proof (induction "stop - i" arbitrary: i temp flds)
  case 0
  then show ?case
    by (simp add: end_loop.simps)
next
  case (Suc n)
  show ?case
  proof (cases "snd (split_field temp)")
    case None
    then show ?thesis
      using Suc by (subst end_loop.simps) (auto split: prod.splits option.splits)
  next
    case (Some rest)
    show ?thesis
    proof (cases "set_uncompress_ipv6_address_field_value temp (fst (split_field temp))")
      case None
      then show ?thesis
        using Suc Some by (subst end_loop.simps) (auto split: prod.splits option.splits)
    next
      case s: (Some s)
      let ?flds = "flds[i := (flds ! i)\<lparr>f_data := s\<rparr>]"
      have "end_loop stop (i + 1) rest ?flds = Inr None \<or>
          (\<exists>k flds'. end_loop stop (i + 1) rest ?flds = Inr (Some (k, flds')) \<and> length flds' = 8 \<and> k \<le> 8)"
        using Suc by (intro Suc(1)) auto
      moreover have "end_loop stop i temp flds = end_loop stop (i + 1) rest ?flds"
        using Suc Some s by (subst end_loop.simps) (auto simp: set_data_ok bind_fault_Inr split: prod.splits)
      ultimately show ?thesis
        by simp
    qed
  qed
qed

lemma zero_fields_safe:
  assumes "length flds = 8" and "stop \<le> 8" and "i \<le> 8"
  obtains k flds' where "zero_fields stop i flds = Inr (k, flds')" and "length flds' = 8" and "k \<le> 8"
proof (cases "i \<le> stop")
  case True
  then show thesis
    using that zero_fields_write [of stop flds i] assms by simp
next
  case False
  then show thesis
    using that assms by (simp add: zero_fields.simps)
qed

lemma print_fields_total: "\<exists>r. Inr (print_fields p out) = (Inr r :: c_fault + (int \<times> string option))"
  by simp

lemma loop8_safe:
  assumes "length flds = 8" and "i \<le> 8"
  obtains p where "fields_loop True 8 i (Some temp) flds = Inr p"
proof -
  have "\<exists>k flds'. fields_loop True 8 i (if i < 8 then Some temp else Some temp) flds = Inr (k, flds') \<and> length flds' = 8"
    by (rule fields_loop_safe [OF assms])
  then show thesis
    using that by auto
qed

lemma begin_safe:
  assumes "2 \<le> length t"
  shows "\<exists>r. uncompress_ipv6_address_compress_begin (Some t) out m = Inr r"
proof -
  let ?c = "if length t = 2 then 8 else 7 - int (colon_count t) + 2"
  show ?thesis
  proof (cases "length t \<noteq> 2 \<and> colon_count t = 0")
    case False
    then have "nat ?c \<le> 8"
      by auto
    then obtain k flds where z: "zero_fields (nat ?c) 0 no_fields = Inr (k, flds)" "length flds = 8" "k \<le> 8"
      by (rule zero_fields_safe [OF length_no_fields, of _ 0]) simp
    obtain p where "fields_loop True 8 k (Some (drop 2 t)) flds = Inr p"
      by (rule loop8_safe [OF z(2, 3)])
    then show ?thesis
      using assms False z(1) unfolding uncompress_ipv6_address_compress_begin_def option.case Let_def
      by (simp only: z(1) bind_fault_Inr prod.case) auto
  qed (simp add: uncompress_ipv6_address_compress_begin_def)
qed

lemma end_safe:
  assumes "colon_count t \<le> 8"
  shows "\<exists>r. uncompress_ipv6_address_compress_end (Some t) out m = Inr r"
proof -
  let ?s = "nat (8 - (7 - int (colon_count t) + 2))"
  have "?s \<le> 8"
    using assms by simp
  then consider "end_loop ?s 0 t no_fields = Inr None"
    | k flds where "end_loop ?s 0 t no_fields = Inr (Some (k, flds))" "length flds = 8" "k \<le> 8"
    using end_loop_safe [OF length_no_fields, of ?s 0 t] by blast
  then show ?thesis
  proof cases
    case 1
    then show ?thesis
      by (simp add: uncompress_ipv6_address_compress_end_def bind_fault_Inr)
  next
    case (2 k flds)
    obtain k' flds' where "zero_fields 8 k flds = Inr (k', flds')" "length flds' = 8" "k' \<le> 8"
      by (rule zero_fields_safe [OF 2(2) order_refl 2(3)])
    then show ?thesis
      using 2(1) by (simp add: uncompress_ipv6_address_compress_end_def bind_fault_Inr)
  qed
qed

lemma strstr_split: "strstr t ''::'' = Some k \<Longrightarrow> t = take k t @ ''::'' @ drop (k + 2) t"
proof (induction t arbitrary: k)
  case (Cons c t)
  then show ?case
    by (cases t) (auto split: if_splits)
qed simp

lemma middle_safe:
  assumes "colon_count t \<le> 8" and "length t \<le> 39"
  shows "\<exists>r. uncompress_ipv6_address_compress_middle (Some t) out m = Inr r"
proof (cases "m \<le> 39 \<or> strstr t ''::'' = None")
  case False
  then obtain k where k: "strstr t ''::'' = Some k"
    by auto
  note t = strstr_split [OF k]
  let ?front = "string_copy (k + 1) t" and ?tail = "string_copy 40 (drop (k + 2) t)"
  have len: "k + 2 \<le> length t"
    using arg_cong [OF t, of length] by (simp add: min_def split: if_splits)
  have "colon_count ?front + 2 \<le> colon_count t"
    using arg_cong [OF t, of colon_count] by (simp add: string_copy_def)
  then obtain i flds where b: "fields_loop False (colon_count ?front + 1) 0 (Some ?front) no_fields = Inr (i, flds)"
    "length flds = 8" "i \<le> 8"
    using begin_loop_safe [OF length_no_fields, of 0 ?front "colon_count ?front + 1"] assms(1) by auto
  obtain j flds' where z: "zero_fields (8 - (colon_count ?tail + 1)) i flds = Inr (j, flds')" "length flds' = 8" "j \<le> 8"
    by (rule zero_fields_safe [OF b(2) _ b(3), of "8 - (colon_count ?tail + 1)"]) simp
  obtain p where "fields_loop True 8 j (Some ?tail) flds' = Inr p"
    by (rule loop8_safe [OF z(2, 3)])
  then show ?thesis
    using False k len assms(2) b(1) z(1)
    by (simp add: uncompress_ipv6_address_compress_middle_def Let_def bind_fault_Inr)
qed (auto simp: uncompress_ipv6_address_compress_middle_def)

lemma omit_safe: "\<exists>r. uncompress_ipv6_address_omit_leading_zeros (Some t) out m = Inr r"
proof -
  obtain p where "fields_loop True 8 0 (Some t) no_fields = Inr p"
    by (rule loop8_safe [of no_fields 0]) simp_all
  then show ?thesis
    by (simp add: uncompress_ipv6_address_omit_leading_zeros_def bind_fault_Inr)
qed

lemma verify_nonneg: "0 \<le> verify_ipv6_address_format t \<Longrightarrow> verify_ipv6_address_format t = 0 \<and> (\<exists>s. t = Some s)"
proof (cases t)
  case (Some s)
  assume "0 \<le> verify_ipv6_address_format t"
  moreover have "0 \<le> verify_end n v \<Longrightarrow> verify_end n v = 0" for n v
    by (simp add: verify_end_def Let_def split: if_splits)
  ultimately show ?thesis
    using Some verify_error [of "length s" s verify_start]
    by (cases "verify_loop (length s) s verify_start") (auto simp: verify_ipv6_address_format_def split: if_splits)
qed (simp add: verify_ipv6_address_format_def)

lemma uncompress_safe: "\<exists>r. get_uncompress_ipv6_address inp out m = Inr r"
proof (cases "verify_ipv6_address_format inp < 0 \<or> get_ipv6_address_type inp < 0")
  case False
  then obtain t where t: "inp = Some t" "verify_ipv6_address_format (Some t) = 0"
    using verify_nonneg [of inp] by auto
  note a = verify_accepts [OF t(2)]
  show ?thesis
    using False a(1, 3, 4) omit_safe [of t out m] begin_safe [of t out m] middle_safe [of t out m] end_safe [of t out m]
    by (auto simp: get_uncompress_ipv6_address_def t(1) Let_def uncompress_ipv6_address_compress_def)
qed (auto simp: get_uncompress_ipv6_address_def Let_def)

lemma compress_safe: "\<exists>r. get_compress_ipv6_address inp (Some b) 40 = Inr r"
proof (cases "verify_ipv6_address_format inp < 0 \<or> get_ipv6_address_type inp \<noteq> 1")
  case False
  then obtain t where t: "inp = Some t" "verify_ipv6_address_format (Some t) = 0"
    using verify_nonneg [of inp] by auto
  have "strstr t ''::'' = None" "length t = 39"
    using False by (auto simp: t(1) get_ipv6_address_type_def split: if_splits)
  then obtain gs where gs: "t = join gs" "length gs = 8" "\<forall>g \<in> set gs. group g \<and> length g = 4"
    by (rule verify_normal [OF t(2)])
  then show ?thesis
    using compress_text [of gs b] False t by (simp add: get_compress_ipv6_address_def list_all_iff)
qed (auto simp: get_compress_ipv6_address_def Let_def)

lemma length_join_sum: "gs \<noteq> [] \<Longrightarrow> length (join gs) + 1 = sum_list (map length gs) + length gs"
  by (induction gs rule: join.induct) simp_all

lemma length_full: "\<forall>g \<in> set gs. length g = 4 \<Longrightarrow> length gs = 8 \<Longrightarrow> length (join gs) = 39"
proof -
  assume g: "\<forall>g \<in> set gs. length g = 4" "length gs = 8"
  have "map length gs = replicate 8 4"
    using g by (intro replicate_eqI) auto
  then show ?thesis
    using length_join_sum [of gs] g(2) by (cases "gs = []") (simp_all add: sum_list_replicate)
qed

lemma compress_full:
  assumes "list_all group gs" and "\<forall>g \<in> set gs. length g = 4" and "length gs = 8"
  shows "get_compress_ipv6_address (Some (join gs)) (Some b) 40 = compress_ipv6_address (Some (join gs)) (Some b) 40"
  using length_full [OF assms(2, 3)] verify_eight_groups [OF assms(1, 3)] strstr_none [OF assms(1)]
  by (simp add: get_compress_ipv6_address_def get_ipv6_address_type_def)

lemma tolower_twice [simp]: "tolower (tolower c) = tolower c"
  by (auto simp: tolower_def)

lemma lower_full_text:
  assumes "list_all group gs" and "\<forall>g \<in> set gs. length g = 4"
  shows "TO_LOWER_CASE (full_text (map group_value gs)) = TO_LOWER_CASE (join gs)"
proof -
  have "map pad4 gs = gs"
    using assms(2) by (intro map_idI) (simp add: pad4_def)
  then show ?thesis
    using full_text_groups [OF assms(1)] by (simp add: to_lower_map comp_def)
qed

lemma short_same:
  assumes "length (short g) = 4" and "length g = 4"
  shows "short g = g"
proof -
  let ?d = "dropWhile (\<lambda>c. c = CHR ''0'') g" and ?t = "takeWhile (\<lambda>c. c = CHR ''0'') g"
  have d: "short g = ?d"
    using assms(1) by (cases "?d = []") (simp_all add: short_def Let_def del: dropWhile_eq_Nil_conv)
  have "length ?t + length ?d = length g"
    by (simp flip: length_append)
  then have "?t = []"
    using assms d by simp
  moreover have "g = ?t @ ?d"
    by simp
  ultimately show ?thesis
    using d by simp
qed

text \<open>A compressed text that still has 39 characters is the full text.\<close>

lemma compress_39:
  assumes "list_all group gs" and "\<forall>g \<in> set gs. length g = 4" and "length gs = 8"
    and "compress_ipv6_address (Some (join gs)) (Some b) 40 = Inr (0, Some t)" and "length t = 39"
  shows "t = join gs"
proof (cases "0 \<in> set (map group_value gs)")
  case True
  then obtain ls zs rs where s: "gs = ls @ zs @ rs" "zs \<noteq> []" "\<forall>g \<in> set zs. group_value g = 0"
    "\<forall>g \<in> set rs. group_value g \<noteq> 0" "ls = [] \<or> group_value (last ls) \<noteq> 0"
    by (rule split_zeros)
  then have t: "t = join (map short ls) @ ''::'' @ join (map short rs)"
    using compress_gap [of ls zs rs b] assms by simp
  have "length (join (map short ls)) \<le> 5 * length ls - 1" "length (join (map short rs)) \<le> 5 * length rs - 1"
    using length_join(1) [of "map short ls"] length_join(1) [of "map short rs"] assms(1) s(1)
    by (simp_all add: list_all_iff short_group)
  moreover have "length ls + length rs \<le> 7"
    using assms(3) s(1, 2) by (cases zs) auto
  ultimately show ?thesis
    using assms(5) t by simp
next
  case False
  then have t: "t = join (map short gs)"
    using compress_no_gap [OF assms(1, 3), of b] assms(4) by simp
  have "sum_list (map length (map short gs)) = 4 * length (map length (map short gs))"
    using length_join_sum [of "map short gs"] t assms(3, 5) by (cases gs) simp_all
  moreover have "\<forall>n \<in> set (map length (map short gs)). n \<le> 4"
    using assms(1) short_group by (auto simp: list_all_iff group_def)
  ultimately have "\<forall>n \<in> set (map length (map short gs)). n = 4"
    by (intro sum_bound(2)) simp_all
  then have "map short gs = gs"
    using assms(2) by (intro map_idI short_same) auto
  then show ?thesis
    using t by simp
qed

lemma leading_colon:
  assumes "list_all group ls" and "list_all group rs" and "ls \<noteq> []" and "rs \<noteq> []" and "length ls + length rs \<le> 6"
  shows "get_uncompress_ipv6_address (Some (colon # join ls @ ''::'' @ join rs)) (Some b) 40 =
    Inr (0, Some (full_text (replicate (8 - length rs) 0 @ map group_value rs)))"
proof -
  let ?t = "colon # join ls @ ''::'' @ join rs"
  let ?s = "verify_start\<lparr>v_len := 1, total_colon_count := 1, colon_flag := 1\<rparr>"
  let ?s2 = "(after_groups ?s ls)\<lparr>v_len := v_len (after_groups ?s ls) + 2,
      total_colon_count := total_colon_count (after_groups ?s ls) + 2, field_length := 0, colon_flag := 2,
      compress_flag := 1, v_compress_type := 2\<rparr>"
  have one: "1 \<le> length ls" "1 \<le> length rs"
    using assms(3, 4) by (simp_all add: Suc_le_eq)
  have len: "length (join ls) \<le> 24" "length (join rs) \<le> 24" "0 < length (join ls)" "0 < length (join rs)"
    "length (join ls) + length (join rs) \<le> 28" "1 \<le> length ls" "1 \<le> length rs"
    using length_join [OF assms(1)] length_join [OF assms(2)] one assms(5) by arith+
  have "verify_loop (length ?t) ?t verify_start = verify_loop (length ?t) (join ls @ ''::'' @ join rs) ?s"
    by (simp add: verify_start_def verify_colon_def)
  also have "\<dots> = verify_loop (length ?t) (''::'' @ join rs) (after_groups ?s ls)"
    using assms by (intro verify_join) (simp_all add: verify_start_def)
  also have "\<dots> = verify_loop (length ?t) (join rs) ?s2"
    using len by (subst verify_gap) (simp_all add: after_groups_def verify_start_def)
  also have "\<dots> = Inr (after_groups ?s2 rs)"
    using verify_join [OF assms(2, 4), of ?s2 "length ?t" "[]"] by simp
  finally have v: "verify_ipv6_address_format (Some ?t) = 0"
    using len assms(5) by (simp add: verify_ipv6_address_format_def verify_end_def after_groups_def verify_start_def)
  obtain c cs where c: "join ls @ ''::'' @ join rs = c # cs" "c \<noteq> colon"
    using join_starts [OF assms(1, 3)] by auto
  have find: "strstr ?t ''::'' = Some (Suc (length (join ls)))"
    using strstr_single [OF c] strstr_gap [OF assms(1), of "join rs"] by simp
  have "get_uncompress_ipv6_address (Some ?t) (Some b) 40 = uncompress_ipv6_address_compress_middle (Some ?t) (Some b) 40"
    using v find len
    by (simp add: get_uncompress_ipv6_address_def get_ipv6_address_type_def uncompress_ipv6_address_compress_def
        get_ipv6_address_compress_type_def del: strstr.simps)
  also have "\<dots> = Inr (0, Some (full_text (replicate (8 - length rs) 0 @ map group_value rs)))"
  proof -
    have cut: "string_copy (Suc (Suc (length (join ls)))) (colon # join ls @ s) = colon # join ls"
      "string_copy 40 (join rs) = join rs" for s
      using len by (simp_all add: string_copy_def)
    have count: "7 - colon_count (join rs) = 8 - length rs"
      using assms len by (simp add: colon_count_join)
    have stop: "fields_loop False n 0 (Some (colon # s)) no_fields = Inr (0, no_fields)" if "0 < n" for n s
      using that
      by (subst fields_loop.simps) (simp add: split_field_def set_uncompress_ipv6_address_field_value_def)
    have "fields_loop True 8 (8 - length rs) (Some (join rs)) flds =
        Inr (8, write_fields (8 - length rs) (map pad4 rs) flds)" if "length flds = 8" for flds
      using fields_loop_groups [OF assms(4, 2), of "8 - length rs" 8 flds True] assms(5) that by simp
    then show ?thesis
      using print_gap [of "[]" rs _ b] zero_fields_write [of "8 - length rs" no_fields 0] find len(1) assms
      unfolding uncompress_ipv6_address_compress_middle_def
      by (simp add: cut count stop bind_fault_Inr write_fields_append Let_def del: strstr.simps)
  qed
  finally show ?thesis .
qed

section \<open>What the object relies on\<close>

locale address_converter =
  fixes expand compress :: "string option \<Rightarrow> string option \<Rightarrow> int \<Rightarrow> c_fault + (int \<times> string option)"
  assumes expands: "denotes text ws \<Longrightarrow> length text < 39 \<Longrightarrow>
      expand (Some text) (Some b) 40 = Inr (0, Some (full_text ws))"
    and compresses: "list_all group gs \<Longrightarrow> \<forall>g \<in> set gs. length g = 4 \<Longrightarrow> length gs = 8 \<Longrightarrow>
      \<exists>text. compress (Some (join gs)) (Some b) 40 = Inr (0, Some text) \<and> denotes text (map group_value gs)"
begin

lemma expand_compressed:
  assumes "list_all group gs" and "\<forall>g \<in> set gs. length g = 4" and "length gs = 8"
    and "compress (Some (join gs)) (Some b) 40 = Inr (0, Some text)" and "length text < 39"
  shows "expand (Some text) (Some b') 40 = Inr (0, Some (full_text (map group_value gs)))"
  using compresses [OF assms(1-3), of b] expands assms(4, 5) by auto

end

interpretation conv: address_converter get_uncompress_ipv6_address get_compress_ipv6_address
proof
  fix "text" ws b
  assume "denotes text ws" "length text < 39"
  then show "get_uncompress_ipv6_address (Some text) (Some b) 40 = Inr (0, Some (full_text ws))"
    by (simp add: uncompress_text)
next
  fix gs b
  assume g: "list_all group gs" "\<forall>g \<in> set gs. length g = 4" "length gs = 8"
  then show "\<exists>text. get_compress_ipv6_address (Some (join gs)) (Some b) 40 = Inr (0, Some text)
      \<and> denotes text (map group_value gs)"
    using compress_denotes [OF g(1, 3), of b] compress_full [OF g, of b] by metis
qed

section \<open>Properties\<close>

text \<open>C21: \<open>get_uncompress_ipv6_address\<close> writes every text of an address in full, in lower case, with four digits
  for every group. Only a text that has 39 characters already is copied as it is, and reported as 1.\<close>

theorem uncompress_expands:
  assumes "denotes text ws"
  shows "get_uncompress_ipv6_address (Some text) (Some buf) 40 =
    (if length text = 39 then Inr (1, Some text) else Inr (0, Some (full_text ws)))"
  by (rule uncompress_text [OF assms])

lemma replicate_six: "replicate 6 x = [x, x, x, x, x, x]"
  by (simp add: numeral_eq_Suc)

theorem uncompress_expands_witness:
  "get_uncompress_ipv6_address (Some ''fe80::1'') (Some []) 40 =
    Inr (0, Some ''fe80:0000:0000:0000:0000:0000:0000:0001'')"
proof -
  have "denotes (join [''fe80''] @ ''::'' @ join [''1'']) (map group_value [''fe80''] @
      replicate (8 - length [''fe80''] - length [''1'']) 0 @ map group_value [''1''])"
    by (rule denotes.gap) (simp_all add: group_def hex_code_def)
  moreover have "join [''fe80''] @ ''::'' @ join [''1''] = ''fe80::1''"
    by simp
  moreover have "map group_value [''fe80''] @ replicate (8 - length [''fe80''] - length [''1'']) 0 @
      map group_value [''1''] = [65152, 0, 0, 0, 0, 0, 0, 1]"
    by (simp add: group_value_def digit_of_def replicate_six)
  moreover have "full_text [65152, 0, 0, 0, 0, 0, 0, 1] = ''fe80:0000:0000:0000:0000:0000:0000:0001''"
    by (simp add: full_text_def full_group_def hex_digit_def)
  ultimately show ?thesis
    using uncompress_expands [of "''fe80::1''" "[65152, 0, 0, 0, 0, 0, 0, 1]" "[]"] by simp
qed

text \<open>C22: \<open>get_compress_ipv6_address\<close> drops the leading zeros of every group of a full text and replaces the last
  run of zero groups, also one of a single group, by a gap.\<close>

theorem compress_last_run:
  assumes "list_all group (ls @ zs @ rs)" and "\<forall>g \<in> set (ls @ zs @ rs). length g = 4" and "length (ls @ zs @ rs) = 8"
    and "zs \<noteq> []" and "\<forall>g \<in> set zs. group_value g = 0" and "\<forall>g \<in> set rs. group_value g \<noteq> 0"
    and "ls = [] \<or> group_value (last ls) \<noteq> 0"
  shows "get_compress_ipv6_address (Some (join (ls @ zs @ rs))) (Some buf) 40 =
    Inr (0, Some (join (map short ls) @ ''::'' @ join (map short rs)))"
  using compress_full [OF assms(1-3), of buf] compress_gap [OF assms(1, 3-7), of buf] by simp

theorem compress_last_run_witness:
  "get_compress_ipv6_address (Some ''0000:0000:00a0:0001:0001:0000:0000:0001'') (Some []) 40 =
    Inr (0, Some ''0:0:a0:1:1::1'')"
  using compress_last_run [of "[''0000'', ''0000'', ''00a0'', ''0001'', ''0001'']" "[''0000'', ''0000'']" "[''0001'']" "[]"]
  by (simp add: group_def hex_code_def group_value_def digit_of_def short_def)

text \<open>C23: Expanding what compressing wrote gives the address back: the same text, in lower case.\<close>

theorem compress_round_trip:
  assumes "list_all group gs" and "\<forall>g \<in> set gs. length g = 4" and "length gs = 8"
  shows "\<exists>text ret full. get_compress_ipv6_address (Some (join gs)) (Some buf) 40 = Inr (0, Some text)
    \<and> get_uncompress_ipv6_address (Some text) (Some buf') 40 = Inr (ret, Some full)
    \<and> TO_LOWER_CASE full = TO_LOWER_CASE (join gs)"
proof -
  obtain t where t: "compress_ipv6_address (Some (join gs)) (Some buf) 40 = Inr (0, Some t)"
    "denotes t (map group_value gs)"
    by (rule compress_denotes [OF assms(1, 3)])
  show ?thesis
  proof (cases "length t = 39")
    case True
    then have "TO_LOWER_CASE t = TO_LOWER_CASE (join gs)"
      using compress_39 [OF assms t(1)] by simp
    then show ?thesis
      using True t compress_full [OF assms, of buf] uncompress_text [OF t(2), of buf'] by simp
  next
    case False
    then show ?thesis
      using t compress_full [OF assms, of buf] uncompress_text [OF t(2), of buf'] lower_full_text [OF assms(1, 2)]
      by simp
  qed
qed

theorem compress_round_trip_witness:
  "\<exists>text ret full. get_compress_ipv6_address (Some ''2001:0DB8:0000:0000:0000:0000:0000:0001'') (Some []) 40 = Inr (0, Some text)
    \<and> get_uncompress_ipv6_address (Some text) (Some []) 40 = Inr (ret, Some full)
    \<and> TO_LOWER_CASE full = ''2001:0db8:0000:0000:0000:0000:0000:0001''"
  using compress_round_trip [of "[''2001'', ''0DB8'', ''0000'', ''0000'', ''0000'', ''0000'', ''0000'', ''0001'']" "[]" "[]"]
  by (simp add: group_def hex_code_def tolower_def char_of_def bit_iff_odd)

text \<open>C24: Whatever string it is given, a null pointer included, neither conversion leaves an array or
  follows a pointer that is no address.\<close>

theorem conversions_safe:
  "(\<exists>r. get_uncompress_ipv6_address inp out max_len = Inr r) \<and> (\<exists>r. get_compress_ipv6_address inp (Some buf) 40 = Inr r)"
  using uncompress_safe compress_safe by blast

text \<open>The check accepts texts that are none of an address: with a single colon in front, the groups before
  the gap are lost without an error.\<close>

theorem leading_colon_lost:
  assumes "list_all group ls" and "list_all group rs" and "ls \<noteq> []" and "rs \<noteq> []" and "length ls + length rs \<le> 6"
  shows "get_uncompress_ipv6_address (Some (colon # join ls @ ''::'' @ join rs)) (Some buf) 40 =
    Inr (0, Some (full_text (replicate (8 - length rs) 0 @ map group_value rs)))"
  by (rule leading_colon [OF assms])

theorem leading_colon_lost_witness:
  "get_uncompress_ipv6_address (Some '':1::2'') (Some []) 40 = Inr (0, Some (full_text (replicate 7 0 @ [2])))"
  using leading_colon_lost [of "[''1'']" "[''2'']" "[]"]
  by (simp add: group_def hex_code_def group_value_def digit_of_def)

end
