(* ===== verification/Ipv6Util.thy ===== *)
theory Ipv6Util
  imports Ipv6Conv
begin

text \<open>
  The object \<open>IPV6_UTIL_ST\<close> of \<open>ipv6_util.c\<close>: its text buffers and its function pointers, the operations
  that set an address, convert it and return what came out. The function pointers are kept
  because \<open>set_ipv6_util_ip_address\<close> overwrites some of them.
\<close>

section \<open>The object\<close>

datatype handler =
    set_ipv6_util_ip_address_fn | get_ip_address_version_type_fn | get_ipv6_address_type_fn
  | get_ipv6_util_convert_ip_fn | get_ipv6_util_ipv4_address_fn | get_ipv6_util_ipv4_mapped_address_fn
  | get_ipv6_util_ipv6_compress_address_fn | get_ipv6_util_ipv6_uncompress_address_fn
  | convert_ipv6_address_fn | verify_ipv6_address_format_fn

record ipv6_util_st =
  version_type :: int
  compress_type :: int
  src_ip :: string
  compress_ip :: string
  uncompress_ip :: string
  convert_ipv4 :: string
  ipv4_mapped_ipv6 :: string
  handlers :: "handler option list"

text \<open>\<open>init_ipv6_util\<close>\<close>

definition init_ipv6_util :: ipv6_util_st where
  "init_ipv6_util = \<lparr>version_type = 0, compress_type = 0, src_ip = [], compress_ip = [], uncompress_ip = [],
    convert_ipv4 = [], ipv4_mapped_ipv6 = [],
    handlers = map Some [set_ipv6_util_ip_address_fn, get_ip_address_version_type_fn, get_ipv6_address_type_fn,
      get_ipv6_util_convert_ip_fn, get_ipv6_util_ipv4_address_fn, get_ipv6_util_ipv4_mapped_address_fn,
      get_ipv6_util_ipv6_compress_address_fn, get_ipv6_util_ipv6_uncompress_address_fn,
      convert_ipv6_address_fn, verify_ipv6_address_format_fn]\<rparr>"

text \<open>
  The addresses of the members with the usual layout of a 64-bit machine: two integers of four
  bytes, buffers of 46, 40, 40, 16 and 16 bytes, and pointers of eight bytes at the next multiple of
  eight. A pointer of a process has zeros in its two highest bytes, so that clearing the other
  six makes it null.
\<close>

definition convert_ipv4_at :: nat where "convert_ipv4_at = 4 + 4 + 46 + 40 + 40"
definition ipv4_mapped_ipv6_at :: nat where "ipv4_mapped_ipv6_at = convert_ipv4_at + 16"
definition handler_at :: "nat \<Rightarrow> nat" where
  "handler_at k = (ipv4_mapped_ipv6_at + 16 + 7) div 8 * 8 + 8 * k"

text \<open>\<open>memset(p, 0x00, n)\<close> on the pointers.\<close>

definition clear_handlers :: "nat \<Rightarrow> nat \<Rightarrow> handler option list \<Rightarrow> handler option list" where
  "clear_handlers p n hs =
    map (\<lambda>k. if p \<le> handler_at k \<and> handler_at k + 6 \<le> p + n then None else hs ! k) [0..<length hs]"

definition set_ipv6_util_ip_address :: "ipv6_util_st \<Rightarrow> string \<Rightarrow> ipv6_util_st" where
  "set_ipv6_util_ip_address inst ip =
    inst\<lparr>version_type := 0, compress_type := 0, compress_ip := [], uncompress_ip := [], convert_ipv4 := [],
      ipv4_mapped_ipv6 := [],
      handlers := clear_handlers ipv4_mapped_ipv6_at 40 (clear_handlers convert_ipv4_at 40 (handlers inst)),
      src_ip := string_copy 46 ip\<rparr>"

text \<open>\<open>inst.set_ip_address(&inst, ip)\<close> and \<open>inst.get_ip_address_version(ip)\<close>\<close>

definition call_set_ip_address :: "ipv6_util_st \<Rightarrow> string \<Rightarrow> c_fault + ipv6_util_st" where
  "call_set_ip_address inst ip =
    (case handlers inst ! 0 of None \<Rightarrow> Inl Null_pointer | Some _ \<Rightarrow> Inr (set_ipv6_util_ip_address inst ip))"

definition call_get_ip_address_version :: "ipv6_util_st \<Rightarrow> string \<Rightarrow> c_fault + int" where
  "call_get_ip_address_version inst ip =
    (case handlers inst ! 1 of None \<Rightarrow> Inl Null_pointer | Some _ \<Rightarrow> Inr (get_ip_address_version_type (Some ip)))"

section \<open>Converting\<close>

text \<open>The text behind the prefix, the return value, and the input, which is put in lower case.\<close>

definition convert_ipv4_mapped_ipv6_to_ipv4 :: "string \<Rightarrow> string \<Rightarrow> nat \<Rightarrow> int \<times> string \<times> string" where
  "convert_ipv4_mapped_ipv6_to_ipv4 inp out max_len =
    (let inp = TO_LOWER_CASE inp;
         found = (case strstr inp ''::ffff:'' of
             Some k \<Rightarrow> Some (k + 7)
           | None \<Rightarrow>
             (case strstr inp ''0:0:0:0:0:ffff:'' of
                Some k \<Rightarrow> Some (k + 15)
              | None \<Rightarrow> map_option (\<lambda>k. k + 30) (strstr inp ''0000:0000:0000:0000:0000:ffff:'')))
     in case found of
          None \<Rightarrow> (-7, inp, out)
        | Some k \<Rightarrow> (0, inp, if 0 < max_len then string_copy max_len (drop k inp) else out))"

definition convert_ipv6_address :: "ipv6_util_st \<Rightarrow> c_fault + (int \<times> ipv6_util_st)" where
  "convert_ipv6_address inst =
    (let ret = get_ip_address_version_type (Some (src_ip inst));
         inst = inst\<lparr>version_type := ret\<rparr>
     in if ret \<noteq> 3 then
          (if ret = 2 then
             (let inst = inst\<lparr>ipv4_mapped_ipv6 := string_copy 16 (src_ip inst)\<rparr>;
                  (ret, src, out) = convert_ipv4_mapped_ipv6_to_ipv4 (src_ip inst) (convert_ipv4 inst) 16
              in Inr (ret, inst\<lparr>src_ip := src, convert_ipv4 := out\<rparr>))
           else Inr (ret, inst\<lparr>convert_ipv4 := string_copy 16 (src_ip inst)\<rparr>))
        else
          (let type = get_ipv6_address_type (Some (src_ip inst))
           in if type < 0 then Inr (type, inst)
              else
                (let inst = inst\<lparr>compress_type := type\<rparr>
                 in if type = 1 then
                      (let inst = inst\<lparr>uncompress_ip := string_copy 40 (src_ip inst)\<rparr>
                       in bind_fault (get_compress_ipv6_address (Some (src_ip inst)) (Some (compress_ip inst)) 40)
                            (\<lambda>(ret, out). Inr (ret, inst\<lparr>compress_ip := the out\<rparr>)))
                    else
                      (let inst = inst\<lparr>compress_ip := string_copy 40 (src_ip inst)\<rparr>
                       in bind_fault (get_uncompress_ipv6_address (Some (src_ip inst)) (Some (uncompress_ip inst)) 40)
                            (\<lambda>(ret, out). Inr (ret, inst\<lparr>uncompress_ip := the out\<rparr>))))))"

section \<open>What came out\<close>

definition text_or_null :: "string \<Rightarrow> string option" where
  "text_or_null s = (if 0 < length s then Some s else None)"

definition get_ipv6_util_ipv4_address :: "ipv6_util_st \<Rightarrow> string option" where
  "get_ipv6_util_ipv4_address inst = text_or_null (convert_ipv4 inst)"

definition get_ipv6_util_ipv4_mapped_address :: "ipv6_util_st \<Rightarrow> string option" where
  "get_ipv6_util_ipv4_mapped_address inst = text_or_null (ipv4_mapped_ipv6 inst)"

definition get_ipv6_util_ipv6_compress_address :: "ipv6_util_st \<Rightarrow> string option" where
  "get_ipv6_util_ipv6_compress_address inst = text_or_null (compress_ip inst)"

definition get_ipv6_util_ipv6_uncompress_address :: "ipv6_util_st \<Rightarrow> string option" where
  "get_ipv6_util_ipv6_uncompress_address inst = text_or_null (uncompress_ip inst)"

definition get_ipv6_util_convert_ip :: "ipv6_util_st \<Rightarrow> string option" where
  "get_ipv6_util_convert_ip inst =
    (if version_type inst = 0 then None
     else if version_type inst \<noteq> 3 then
       (if version_type inst = 2 then Some (convert_ipv4 inst) else Some (src_ip inst))
     else if compress_type inst = 1 then Some (compress_ip inst)
     else Some (uncompress_ip inst))"

text \<open>\<open>main\<close>: one object, one address.\<close>

definition convert_once :: "string \<Rightarrow> c_fault + (int \<times> ipv6_util_st)" where
  "convert_once ip = bind_fault (call_set_ip_address init_ipv6_util ip) convert_ipv6_address"

section \<open>Properties\<close>

lemma first_handler: "handlers init_ipv6_util ! 0 = Some set_ipv6_util_ip_address_fn"
  by (simp add: init_ipv6_util_def)

lemma convert_once_steps: "convert_once ip = convert_ipv6_address (set_ipv6_util_ip_address init_ipv6_util ip)"
  by (simp add: convert_once_def call_set_ip_address_def first_handler bind_fault_Inr)

lemma strchr_some: "c \<in> set s \<Longrightarrow> strchr s c \<noteq> None"
  by (induction s) auto

text \<open>A text of an address has no period, and is longer than its gap.\<close>

lemma no_period: "denotes text ws \<Longrightarrow> get_ip_address_version_type (Some text) = 3"
proof -
  have g: "list_all group gs \<Longrightarrow> CHR ''.'' \<notin> set (join gs)" for gs
    by (induction gs rule: join.induct) (auto simp: group_def list_all_iff hex_code_def)
  assume "denotes text ws"
  then have "CHR ''.'' \<notin> set text"
    by (cases rule: denotes.cases) (auto dest: g)
  then show ?thesis
    by (simp add: get_ip_address_version_type_def strchr_none)
qed

lemma denotes_length: "denotes text ws \<Longrightarrow> length text \<le> 39 \<and> text \<noteq> []"
proof (erule denotes.cases)
  fix gs
  assume "text = join gs" "length gs = 8" "list_all group gs"
  then show ?thesis
    using length_join [of gs] by auto
next
  fix ls rs
  assume "text = join ls @ ''::'' @ join rs" "length ls + length rs \<le> 7" "list_all group ls" "list_all group rs"
  then show ?thesis
    using length_join(1) [of ls] length_join(1) [of rs] by auto
qed

text \<open>For a shortened or compressed text the object gives the address in full, and the text itself as the
  compressed address.\<close>

theorem convert_shortened:
  assumes "denotes text ws" and "length text < 39"
  shows "\<exists>inst. convert_once text = Inr (0, inst) \<and> get_ipv6_util_convert_ip inst = Some (full_text ws)
    \<and> get_ipv6_util_ipv6_compress_address inst = Some text \<and> get_ipv6_util_ipv4_address inst = None"
proof -
  let ?start = "set_ipv6_util_ip_address init_ipv6_util text"
  let ?inst = "?start\<lparr>version_type := 3, compress_type := get_ipv6_address_type (Some text), compress_ip := text,
    uncompress_ip := full_text ws\<rparr>"
  have start: "src_ip ?start = text" "uncompress_ip ?start = []"
    using assms(2) by (simp_all add: set_ipv6_util_ip_address_def string_copy_def)
  have type: "get_ipv6_address_type (Some text) \<noteq> 1" "\<not> get_ipv6_address_type (Some text) < 0"
    using assms(2) by (auto simp: get_ipv6_address_type_def)
  have "convert_once text = Inr (0, ?inst)"
    using conv.expands [OF assms, of "[]"] no_period [OF assms(1)] assms(2) type
    by (simp add: convert_once_steps convert_ipv6_address_def start bind_fault_Inr string_copy_def)
  then show ?thesis
    using denotes_length [OF assms(1)] type
    by (simp add: get_ipv6_util_convert_ip_def get_ipv6_util_ipv6_compress_address_def get_ipv6_util_ipv4_address_def
        text_or_null_def set_ipv6_util_ip_address_def)
qed

theorem convert_shortened_witness:
  "\<exists>inst. convert_once ''::1'' = Inr (0, inst) \<and> get_ipv6_util_convert_ip inst = Some (full_text [0, 0, 0, 0, 0, 0, 0, 1])
    \<and> get_ipv6_util_ipv6_compress_address inst = Some ''::1'' \<and> get_ipv6_util_ipv4_address inst = None"
proof -
  have "denotes (join [] @ ''::'' @ join [''1'']) (map group_value [] @
      replicate (8 - length ([] :: string list) - length [''1'']) 0 @ map group_value [''1''])"
    by (rule denotes.gap) (simp_all add: group_def hex_code_def)
  then have "denotes ''::1'' [0, 0, 0, 0, 0, 0, 0, 1]"
    by (simp add: group_value_def digit_of_def numeral_eq_Suc)
  from convert_shortened [OF this] show ?thesis
    by simp
qed

text \<open>For a full text the object gives a compressed text of the same address.\<close>

theorem convert_full:
  assumes "list_all group gs" and "\<forall>g \<in> set gs. length g = 4" and "length gs = 8"
  shows "\<exists>inst text. convert_once (join gs) = Inr (0, inst) \<and> get_ipv6_util_convert_ip inst = Some text
    \<and> denotes text (map group_value gs) \<and> get_ipv6_util_ipv6_uncompress_address inst = Some (join gs)"
proof -
  have len: "length (join gs) = 39"
    by (rule length_full [OF assms(2, 3)])
  have "get_ipv6_address_type (Some (join gs)) = 1"
    using len strstr_none [OF assms(1)] by (simp add: get_ipv6_address_type_def)
  moreover have "get_ip_address_version_type (Some (join gs)) = 3"
    by (rule no_period [OF denotes.eight_groups [OF assms(3, 1)]])
  moreover obtain t where "get_compress_ipv6_address (Some (join gs)) (Some []) 40 = Inr (0, Some t)"
    "denotes t (map group_value gs)"
    using conv.compresses [OF assms, of "[]"] by blast
  moreover define start where "start = set_ipv6_util_ip_address init_ipv6_util (join gs)"
  moreover have "src_ip start = join gs" "compress_ip start = []"
    using len by (simp_all add: start_def set_ipv6_util_ip_address_def string_copy_def)
  ultimately have "convert_once (join gs) = Inr (0, start\<lparr>version_type := 3, compress_type := 1,
      uncompress_ip := join gs, compress_ip := t\<rparr>)"
    using len by (simp add: convert_once_steps convert_ipv6_address_def bind_fault_Inr string_copy_def)
  then show ?thesis
    using \<open>denotes t (map group_value gs)\<close> len
    by (auto simp: get_ipv6_util_convert_ip_def get_ipv6_util_ipv6_uncompress_address_def text_or_null_def)
qed

theorem convert_full_witness:
  "\<exists>inst text. convert_once ''2001:0DB8:0000:0000:0000:0000:0000:0001'' = Inr (0, inst)
    \<and> get_ipv6_util_convert_ip inst = Some text \<and> denotes text [0x2001, 0xDB8, 0, 0, 0, 0, 0, 1]
    \<and> get_ipv6_util_ipv6_uncompress_address inst = Some ''2001:0DB8:0000:0000:0000:0000:0000:0001''"
  using convert_full [of "[''2001'', ''0DB8'', ''0000'', ''0000'', ''0000'', ''0000'', ''0000'', ''0001'']"]
  by (simp add: group_def hex_code_def group_value_def digit_of_def)

text \<open>An IPv4 address in a mapped one is found; the mapped address itself is cut to 15 characters.\<close>

theorem convert_mapped:
  assumes "\<forall>c \<in> set ip. c \<in> set ''.0123456789''" and "CHR ''.'' \<in> set ip" and "length ip \<le> 15"
  shows "\<exists>inst. convert_once (''::FFFF:'' @ ip) = Inr (0, inst) \<and> get_ipv6_util_convert_ip inst = Some ip
    \<and> get_ipv6_util_ipv4_mapped_address inst = Some (take 15 (''::FFFF:'' @ ip))"
proof -
  have "\<forall>c \<in> set ''.0123456789''. tolower c = c"
    by (simp add: tolower_def)
  then have "tolower c = c" if "c \<in> set ip" for c
    using assms(1) that by blast
  then have lower: "TO_LOWER_CASE (''::FFFF:'' @ ip) = ''::ffff:'' @ ip"
    by (simp add: to_lower_map map_idI tolower_def char_of_def bit_iff_odd)
  have "strchr (''::FFFF:'' @ ip) CHR ''.'' \<noteq> None"
    using strchr_some assms(2) by auto
  moreover have "strchr (''::FFFF:'' @ ip) colon = Some 0" "strstr (''::ffff:'' @ ip) ''::ffff:'' = Some 0"
    by simp_all
  ultimately have version: "get_ip_address_version_type (Some (''::FFFF:'' @ ip)) = 2"
    by (simp add: get_ip_address_version_type_def del: strchr.simps)
  have found: "convert_ipv4_mapped_ipv6_to_ipv4 (''::FFFF:'' @ ip) out 16 = (0, ''::ffff:'' @ ip, ip)" for out
    unfolding convert_ipv4_mapped_ipv6_to_ipv4_def lower Let_def
    using assms(3) by (simp add: string_copy_def)
  define start where "start = set_ipv6_util_ip_address init_ipv6_util (''::FFFF:'' @ ip)"
  have "src_ip start = ''::FFFF:'' @ ip"
    using assms(3) by (simp add: start_def set_ipv6_util_ip_address_def string_copy_def)
  then have "convert_once (''::FFFF:'' @ ip) = Inr (0, start\<lparr>version_type := 2,
      ipv4_mapped_ipv6 := string_copy 16 (''::FFFF:'' @ ip), src_ip := ''::ffff:'' @ ip, convert_ipv4 := ip\<rparr>)"
    using version found
    by (simp add: convert_once_steps convert_ipv6_address_def start_def [symmetric] Let_def del: append.simps)
  then show ?thesis
    by (simp add: get_ipv6_util_convert_ip_def get_ipv6_util_ipv4_mapped_address_def text_or_null_def string_copy_def)
qed

theorem convert_mapped_witness:
  "\<exists>inst. convert_once ''::FFFF:192.168.0.1'' = Inr (0, inst) \<and> get_ipv6_util_convert_ip inst = Some ''192.168.0.1''
    \<and> get_ipv6_util_ipv4_mapped_address inst = Some ''::FFFF:192.168.''"
  using convert_mapped [of "''192.168.0.1''"] by simp

text \<open>Setting an address clears the pointers to three operations, so that a second call through the object, or the
  call of \<open>get_ip_address_version\<close>, jumps to a null pointer.\<close>

theorem second_address_faults:
  "bind_fault (call_set_ip_address init_ipv6_util ip) (\<lambda>inst. call_set_ip_address inst ip') = Inl Null_pointer
    \<and> bind_fault (call_set_ip_address init_ipv6_util ip) (\<lambda>inst. call_get_ip_address_version inst ip') = Inl Null_pointer"
  by (simp add: call_set_ip_address_def call_get_ip_address_version_def first_handler bind_fault_Inr
      set_ipv6_util_ip_address_def clear_handlers_def handler_at_def ipv4_mapped_ipv6_at_def convert_ipv4_at_def
      init_ipv6_util_def)

end
