(* ===== verification/Base64.thy ===== *)
theory Base64
  imports Prelude
begin

text \<open>
  The two Base64 coders of the repository: \<open>encodeBASE64\<close> and \<open>decodeBASE64\<close> of
  \<open>test_base64/type1\<close>, which collect bytes in a signed \<open>char\<close> array, and \<open>base64e\<close> and
  \<open>base64d\<close> of \<open>test_base64/type2\<close> (also \<open>test_seed_base64/base64.c\<close>), which go through a
  union of three bytes and four six-bit fields. Output buffers are passed and returned;
  a write or read outside of an array is a fault.
\<close>

section \<open>Base64 itself\<close>

text \<open>
  The code of a byte string: three bytes are four digits of the alphabet; a rest of one or
  two bytes is filled up with \<open>t\<close>, of which at most four bits are seen, and with \<open>=\<close>.
\<close>

abbreviation eq_sign :: u8 where "eq_sign \<equiv> 0x3D"

definition alphabet :: "u8 list" where
  "alphabet = map of_char
    ''ABCDEFGHIJKLMNOPQRSTUVWXYZabcdefghijklmnopqrstuvwxyz0123456789+/''"

definition sextets :: "u8 \<Rightarrow> u8 \<Rightarrow> u8 \<Rightarrow> u8 list" where
  "sextets a b c =
    [drop_bit 2 a, push_bit 4 (a AND 3) OR drop_bit 4 b, push_bit 2 (b AND 0xF) OR drop_bit 6 c, c AND 0x3F]"

definition digits_of :: "u8 list \<Rightarrow> u8 list" where
  "digits_of vs = map (\<lambda>v. alphabet ! unat v) vs"

fun base64_fill :: "u8 \<Rightarrow> u8 list \<Rightarrow> u8 list" where
  "base64_fill t [] = []"
| "base64_fill t [a] = digits_of (take 2 (sextets a t 0)) @ [eq_sign, eq_sign]"
| "base64_fill t [a, b] = digits_of (take 3 (sextets a b t)) @ [eq_sign]"
| "base64_fill t (a # b # c # xs) = digits_of (sextets a b c) @ base64_fill t xs"

abbreviation base64 :: "u8 list \<Rightarrow> u8 list" where
  "base64 \<equiv> base64_fill 0"

section \<open>Writing to a buffer\<close>

definition put :: "nat \<Rightarrow> u8 list \<Rightarrow> u8 list \<Rightarrow> c_fault + u8 list" where
  "put j bs out =
    (if length out < j + length bs then Inl Out_of_bounds
     else Inr (take j out @ bs @ drop (j + length bs) out))"

section \<open>type1\<close>

text \<open>\<open>vec[k]\<close>, where the 64 characters are followed by a terminator.\<close>

definition vec :: "u8 list" where
  "vec = map of_char ''ABCDEFGHIJKLMNOPQRSTUVWXYZabcdefghijklmnopqrstuvwxyz0123456789+/'' @ [0]"

definition vec_all :: "int list \<Rightarrow> c_fault + u8 list" where
  "vec_all ks =
    (if list_all (\<lambda>k. 0 \<le> k \<and> k < int (length vec)) ks then Inr (map (\<lambda>k. vec ! nat k) ks)
     else Inl Out_of_bounds)"

text \<open>The four indices for \<open>buf\<close>, whose elements are signed.\<close>

definition group_indices :: "u8 list \<Rightarrow> int list" where
  "group_indices buf =
    [drop_bit 2 (sint (buf ! 0) AND 0xFC),
     push_bit 4 (sint (buf ! 0) AND 0x03) OR drop_bit 4 (sint (buf ! 1)),
     push_bit 2 (sint (buf ! 1) AND 0x0F) OR drop_bit 6 (sint (buf ! 2)),
     sint (buf ! 2) AND 0x3F]"

fun encode_loop :: "nat \<Rightarrow> u8 list \<Rightarrow> u8 list \<times> nat \<times> u8 list \<Rightarrow> c_fault + (u8 list \<times> nat \<times> u8 list)" where
  "encode_loop i [] s = Inr s"
| "encode_loop i (x # xs) (buf, j, out) =
    bind_fault
      (if 0 < i div 3 \<and> i mod 3 = 0 then
         bind_fault (vec_all (group_indices buf)) (\<lambda>cs.
         bind_fault (put j cs out) (\<lambda>out. Inr (j + 4, out)))
       else Inr (j, out))
      (\<lambda>(j, out). encode_loop (i + 1) xs (buf[i mod 3 := x], j, out))"

definition encode_end :: "nat \<Rightarrow> u8 list \<times> nat \<times> u8 list \<Rightarrow> c_fault + u8 list" where
  "encode_end i s =
    (case s of (buf, j, out) \<Rightarrow>
      if i mod 3 = 1 then
        bind_fault (vec_all (take 2 (group_indices (buf[1 := 0])))) (\<lambda>cs. put j (cs @ [eq_sign, eq_sign, 0]) out)
      else if i mod 3 = 2 then
        bind_fault (vec_all (take 3 (group_indices (buf[2 := 0])))) (\<lambda>cs. put j (cs @ [eq_sign, 0]) out)
      else bind_fault (vec_all (group_indices buf)) (\<lambda>cs. put j (cs @ [0]) out))"

text \<open>The \<open>nLen\<close> bytes at \<open>pInput\<close>, the buffer at \<open>pOutput\<close>; the result is \<open>*nOutLen\<close> and the buffer.\<close>

definition encodeBASE64 :: "u8 list \<Rightarrow> u8 list \<Rightarrow> c_fault + (nat \<times> u8 list)" where
  "encodeBASE64 pInput pOutput =
    bind_fault (encode_loop 0 pInput ([0, 0, 0, 0], 0, pOutput)) (\<lambda>s.
    bind_fault (encode_end (length pInput) s) (\<lambda>out. Inr (c_strlen out, out)))"

text \<open>The value of a digit; \<open>None\<close> for the characters that make \<open>decodeBASE64\<close> return -1.\<close>

definition digit_value :: "u8 \<Rightarrow> u8 option" where
  "digit_value c =
    (if of_char CHR ''A'' \<le> c \<and> c \<le> of_char CHR ''Z'' then Some (c - of_char CHR ''A'')
     else if of_char CHR ''a'' \<le> c \<and> c \<le> of_char CHR ''z'' then Some (c - of_char CHR ''a'' + 26)
     else if of_char CHR ''0'' \<le> c \<and> c \<le> of_char CHR ''9'' then Some (c - of_char CHR ''0'' + 52)
     else if c = of_char CHR ''+'' then Some 62
     else if c = of_char CHR ''/'' then Some 63
     else None)"

definition group_bytes :: "u8 list \<Rightarrow> u8 list" where
  "group_bytes buf =
    [push_bit 2 (buf ! 0) OR drop_bit 4 (buf ! 1), push_bit 4 (buf ! 1) OR drop_bit 2 (buf ! 2),
     push_bit 6 (buf ! 2) OR buf ! 3]"

text \<open>
  The loop ends at the end of the string or at the first \<open>=\<close>, with the index it stopped at,
  or returns -1 (\<open>Inl\<close>, with the buffer as it is then).
\<close>

fun decode_loop :: "nat \<Rightarrow> u8 list \<Rightarrow> u8 list \<times> nat \<times> u8 list \<Rightarrow>
    c_fault + (u8 list + (nat \<times> u8 list \<times> nat \<times> u8 list))" where
  "decode_loop i [] s = Inr (Inr (i, s))"
| "decode_loop i (c # cs) (buf, j, out) =
    bind_fault
      (if 0 < i div 4 \<and> i mod 4 = 0 then
         bind_fault (put j (group_bytes buf) out) (\<lambda>out. Inr (j + 3, out))
       else Inr (j, out))
      (\<lambda>(j, out).
        case digit_value c of
          Some v \<Rightarrow> decode_loop (i + 1) cs (buf[i mod 4 := v], j, out)
        | None \<Rightarrow> if c = eq_sign then Inr (Inr (i, buf[i mod 4 := 0], j, out)) else Inr (Inl out))"

definition decode_end :: "nat \<times> u8 list \<times> nat \<times> u8 list \<Rightarrow> c_fault + (nat \<times> u8 list)" where
  "decode_end s =
    (case s of (i, buf, j, out) \<Rightarrow>
      if i mod 4 = 3 then bind_fault (put j (take 2 (group_bytes buf) @ [0]) out) (\<lambda>out. Inr (j + 2, out))
      else if i mod 4 = 2 then bind_fault (put j (take 1 (group_bytes buf) @ [0]) out) (\<lambda>out. Inr (j + 1, out))
      else if i mod 4 = 1 then bind_fault (put (j + 1) [0] out) (\<lambda>out. Inr (j, out))
      else bind_fault (put j (group_bytes buf @ [0]) out) (\<lambda>out. Inr (j + 3, out)))"

text \<open>The return value, \<open>*nOutLen\<close> if it was set, and the buffer; \<open>pInput\<close> is the memory of the string.\<close>

definition decodeBASE64 :: "u8 list \<Rightarrow> u8 list \<Rightarrow> c_fault + (int \<times> nat option \<times> u8 list)" where
  "decodeBASE64 pInput pOutput =
    (if c_strlen pInput = length pInput then Inl Out_of_bounds
     else
       bind_fault (decode_loop 0 (take (c_strlen pInput) pInput) ([0, 0, 0, 0, 0], 0, pOutput)) (\<lambda>r.
         case r of
           Inl out \<Rightarrow> Inr (-1, None, out)
         | Inr s \<Rightarrow> bind_fault (decode_end s) (\<lambda>(n, out). Inr (0, Some n, out))))"

section \<open>type2\<close>

text \<open>
  The union \<open>BF\<close> as the machine word it occupies: on a little-endian machine \<open>c1\<close> is the
  lowest byte and \<open>e1\<close> the lowest six bits.
\<close>

definition get_c :: "nat \<Rightarrow> u32 \<Rightarrow> u8" where
  "get_c k v = ucast (drop_bit (8 * (k - 1)) v)"

definition set_c :: "nat \<Rightarrow> u8 \<Rightarrow> u32 \<Rightarrow> u32" where
  "set_c k x v = (v AND NOT (push_bit (8 * (k - 1)) 0xFF)) OR push_bit (8 * (k - 1)) (ucast x)"

definition get_e :: "nat \<Rightarrow> u32 \<Rightarrow> nat" where
  "get_e k v = unat (drop_bit (6 * (k - 1)) v AND 0x3F)"

definition set_e :: "nat \<Rightarrow> int \<Rightarrow> u32 \<Rightarrow> u32" where
  "set_e k x v = (v AND NOT (push_bit (6 * (k - 1)) 0x3F)) OR push_bit (6 * (k - 1)) (word_of_int x AND 0x3F)"

definition MimeBase64 :: "u8 list" where
  "MimeBase64 = map of_char
    (''ABCDEFGH'' @
     ''IJKLMNOP'' @
     ''QRSTUVWX'' @
     ''YZabcdef'' @
     ''ghijklmn'' @
     ''opqrstuv'' @
     ''wxyz0123'' @
     ''456789+/'')"

definition DecodeMimeBase64 :: "int list" where
  "DecodeMimeBase64 =
    [-1,-1,-1,-1,-1,-1,-1,-1,-1,-1,-1,-1,-1,-1,-1,-1,
     -1,-1,-1,-1,-1,-1,-1,-1,-1,-1,-1,-1,-1,-1,-1,-1,
     -1,-1,-1,-1,-1,-1,-1,-1,-1,-1,-1,62,-1,-1,-1,63,
     52,53,54,55,56,57,58,59,60,61,-1,-1,-1,-1,-1,-1,
     -1, 0, 1, 2, 3, 4, 5, 6, 7, 8, 9,10,11,12,13,14,
     15,16,17,18,19,20,21,22,23,24,25,-1,-1,-1,-1,-1,
     -1,26,27,28,29,30,31,32,33,34,35,36,37,38,39,40,
     41,42,43,44,45,46,47,48,49,50,51,-1,-1,-1,-1,-1,
     -1,-1,-1,-1,-1,-1,-1,-1,-1,-1,-1,-1,-1,-1,-1,-1,
     -1,-1,-1,-1,-1,-1,-1,-1,-1,-1,-1,-1,-1,-1,-1,-1,
     -1,-1,-1,-1,-1,-1,-1,-1,-1,-1,-1,-1,-1,-1,-1,-1,
     -1,-1,-1,-1,-1,-1,-1,-1,-1,-1,-1,-1,-1,-1,-1,-1,
     -1,-1,-1,-1,-1,-1,-1,-1,-1,-1,-1,-1,-1,-1,-1,-1,
     -1,-1,-1,-1,-1,-1,-1,-1,-1,-1,-1,-1,-1,-1,-1,-1,
     -1,-1,-1,-1,-1,-1,-1,-1,-1,-1,-1,-1,-1,-1,-1,-1,
     -1,-1,-1,-1,-1,-1,-1,-1,-1,-1,-1,-1,-1,-1,-1,-1]"

text \<open>\<open>src[i]\<close> in the memory at \<open>src\<close>.\<close>

definition byte_at :: "u8 list \<Rightarrow> nat \<Rightarrow> c_fault + u8" where
  "byte_at src i = (if i < length src then Inr (src ! i) else Inl Out_of_bounds)"

text \<open>The loop of \<open>base64e\<close>; \<open>temp\<close> is what the union holds.\<close>

function base64e_loop :: "u8 list \<Rightarrow> nat \<Rightarrow> nat \<Rightarrow> nat \<Rightarrow> u32 \<Rightarrow> u8 list \<Rightarrow> c_fault + u8 list" where
  "base64e_loop src len i j temp result =
    (if i < len then
       bind_fault (byte_at src i) (\<lambda>x.
       bind_fault (if i + 1 > len then Inr 0 else byte_at src (i + 1)) (\<lambda>y.
       bind_fault (if i + 2 > len then Inr 0 else byte_at src (i + 2)) (\<lambda>z.
         let temp = set_c 1 z (set_c 2 y (set_c 3 x temp));
             cs = [MimeBase64 ! get_e 4 temp, MimeBase64 ! get_e 3 temp, MimeBase64 ! get_e 2 temp,
                   MimeBase64 ! get_e 1 temp];
             cs = (if i + 2 > len then cs[2 := eq_sign] else cs);
             cs = (if i + 3 > len then cs[3 := eq_sign] else cs)
         in bind_fault (put j cs result) (\<lambda>result.
            base64e_loop src len (i + 3) (j + 4) temp result))))
     else Inr result)"
  by pat_completeness auto
termination
  by (relation "measure (\<lambda>(src, len, i, j, temp, result). len - i)") auto

declare base64e_loop.simps [simp del]

definition base64e :: "u32 \<Rightarrow> u8 list \<Rightarrow> u8 list \<Rightarrow> nat \<Rightarrow> c_fault + u8 list" where
  "base64e temp src result len = base64e_loop src len 0 0 temp result"

text \<open>\<open>DecodeMimeBase64[c]\<close>, where the index is a signed \<open>char\<close>.\<close>

definition decode_at :: "u8 \<Rightarrow> c_fault + int" where
  "decode_at c = (if sint c < 0 then Inl Out_of_bounds else Inr (DecodeMimeBase64 ! nat (sint c)))"

function base64d_loop :: "u8 list \<Rightarrow> nat \<Rightarrow> nat \<Rightarrow> nat \<Rightarrow> nat \<Rightarrow> u32 \<Rightarrow> u8 list \<Rightarrow> c_fault + (nat \<times> u8 list)" where
  "base64d_loop src len i j blank temp result =
    (if i < len then
       bind_fault (bind_fault (byte_at src i) decode_at) (\<lambda>e4.
       bind_fault (bind_fault (byte_at src (i + 1)) decode_at) (\<lambda>e3.
       bind_fault (byte_at src (i + 2)) (\<lambda>c2.
       bind_fault (if c2 = eq_sign then Inr 0 else decode_at c2) (\<lambda>e2.
       bind_fault (byte_at src (i + 3)) (\<lambda>c1.
       bind_fault (if c1 = eq_sign then Inr 0 else decode_at c1) (\<lambda>e1.
         let blank = (if c2 = eq_sign then blank + 1 else blank);
             blank = (if c1 = eq_sign then blank + 1 else blank);
             temp = set_e 1 e1 (set_e 2 e2 (set_e 3 e3 (set_e 4 e4 temp)))
         in bind_fault (put j [get_c 3 temp, get_c 2 temp, get_c 1 temp] result) (\<lambda>result.
            base64d_loop src len (i + 4) (j + 3) blank temp result)))))))
     else Inr (j - blank, result))"
  by pat_completeness auto
termination
  by (relation "measure (\<lambda>(src, len, i, j, blank, temp, result). len - i)") auto

declare base64d_loop.simps [simp del]

text \<open>\<open>*length\<close> and the buffer.\<close>

definition base64d :: "u32 \<Rightarrow> u8 list \<Rightarrow> u8 list \<Rightarrow> c_fault + (nat \<times> u8 list)" where
  "base64d temp src result =
    (if c_strlen src = length src then Inl Out_of_bounds
     else base64d_loop src (c_strlen src) 0 0 0 temp result)"

section \<open>Digits\<close>

lemma byte_all: "list_all P (map word_of_nat [0..<256]) \<Longrightarrow> P (a :: u8)"
proof -
  assume all: "list_all P (map word_of_nat [0..<256])"
  have "\<forall>n < 256. P (word_of_nat n)"
    using all by (simp add: list_all_iff)
  then have "P (word_of_nat (unat a))"
    using unat_u8_less by blast
  then show ?thesis
    by simp
qed

lemma u8_eqI:
  "\<lbrakk>bit x 0 = bit y 0; bit x 1 = bit y 1; bit x 2 = bit y 2; bit x 3 = bit y 3; bit x 4 = bit y 4;
    bit x 5 = bit y 5; bit x 6 = bit y 6; bit x 7 = bit y 7\<rbrakk> \<Longrightarrow> x = (y :: u8)"
  by (rule bit_word_eqI) (auto simp: less_Suc_eq eval_nat_numeral)

lemma length_alphabet [simp, len_simps]: "length alphabet = 64"
  by (simp add: alphabet_def)

lemma vec_alphabet: "vec = alphabet @ [0]"
  by (simp add: vec_def alphabet_def)

lemma MimeBase64_alphabet: "MimeBase64 = alphabet"
  by (simp add: MimeBase64_def alphabet_def)

lemma alphabet_codes: "alphabet =
  [0x41, 0x42, 0x43, 0x44, 0x45, 0x46, 0x47, 0x48, 0x49, 0x4A, 0x4B, 0x4C, 0x4D, 0x4E, 0x4F, 0x50, 0x51, 0x52,
   0x53, 0x54, 0x55, 0x56, 0x57, 0x58, 0x59, 0x5A, 0x61, 0x62, 0x63, 0x64, 0x65, 0x66, 0x67, 0x68, 0x69, 0x6A,
   0x6B, 0x6C, 0x6D, 0x6E, 0x6F, 0x70, 0x71, 0x72, 0x73, 0x74, 0x75, 0x76, 0x77, 0x78, 0x79, 0x7A, 0x30, 0x31,
   0x32, 0x33, 0x34, 0x35, 0x36, 0x37, 0x38, 0x39, 0x2B, 0x2F]"
  by (simp add: alphabet_def)

lemma digit_value_codes:
  "digit_value c =
    (if 0x41 \<le> c \<and> c \<le> 0x5A then Some (c - 0x41)
     else if 0x61 \<le> c \<and> c \<le> 0x7A then Some (c - 0x61 + 26)
     else if 0x30 \<le> c \<and> c \<le> 0x39 then Some (c - 0x30 + 52)
     else if c = 0x2B then Some 62 else if c = 0x2F then Some 63 else None)"
  by (simp add: digit_value_def)

lemma digit_table:
  "map digit_value alphabet = map (Some \<circ> word_of_nat) [0..<64]"
  "map decode_at alphabet = map (Inr \<circ> int) [0..<64]"
  "list_all (\<lambda>c. c \<noteq> 0 \<and> c \<noteq> eq_sign) alphabet"
  unfolding alphabet_codes digit_value_codes by code_simp+

lemma digit_back:
  assumes "unat v < 64"
  shows "digit_value (alphabet ! unat v) = Some v" and "alphabet ! unat v \<noteq> 0"
    and "alphabet ! unat v \<noteq> eq_sign" and "decode_at (alphabet ! unat v) = Inr (int (unat v))"
proof -
  have "digit_value (alphabet ! unat v) = Some (word_of_nat (unat v))"
    and "decode_at (alphabet ! unat v) = Inr (int (unat v))"
    using digit_table(1,2) assms by (simp_all add: list_eq_iff_nth_eq)
  moreover have "alphabet ! unat v \<in> set alphabet"
    using assms by simp
  ultimately show "digit_value (alphabet ! unat v) = Some v" and "alphabet ! unat v \<noteq> 0"
    and "alphabet ! unat v \<noteq> eq_sign" and "decode_at (alphabet ! unat v) = Inr (int (unat v))"
    using digit_table(3) by (simp_all add: list_all_iff)
qed

lemma eq_sign_digit: "digit_value eq_sign = None"
  by (simp add: digit_value_codes)

lemma bit_u8_high: "8 \<le> n \<Longrightarrow> \<not> bit (a :: u8) n"
  by (auto dest: bit_imp_le_length)

lemma small_mask: "(v :: u8) AND 0x3F = v \<Longrightarrow> unat v < 64"
proof -
  assume v: "v AND 0x3F = v"
  have "(0x3F :: u8) = mask 6"
    by (simp add: mask_eq_exp_minus_1)
  then have "unat v = unat (take_bit 6 v)"
    using v by (simp add: take_bit_eq_mask and.commute)
  then show ?thesis
    using take_bit_nat_less_exp [of 6 "unat v"] by (simp add: unsigned_take_bit_eq)
qed

lemma mask_numerals: "(0x3F :: 'a::len word) = mask 6" "(0xF :: 'a word) = mask 4" "(3 :: 'a word) = mask 2"
  "(0xFF :: 'a word) = mask 8"
  by (simp_all add: mask_eq_exp_minus_1)

lemma sextets_small: "v \<in> set (sextets a b c) \<Longrightarrow> unat v < 64"
proof (rule small_mask)
  assume "v \<in> set (sextets a b c)"
  then show "v AND 0x3F = v"
    unfolding mask_numerals sextets_def
    by (auto intro!: u8_eqI simp: bit_simps bit_u8_high)
qed

lemma sextets_bytes:
  "sextets a b c = [v0, v1, v2, v3] \<Longrightarrow> group_bytes [v0, v1, v2, v3, d] = [a, b, c]"
  "sextets a b 0 = [v0, v1, v2, v3] \<Longrightarrow> take 2 (group_bytes [v0, v1, v2, 0, d]) = [a, b]"
  "sextets a b 0 = [v0, v1, v2, v3] \<Longrightarrow> take 2 (group_bytes [v0, v1, v2, e, d]) = [a, b]"
  "sextets a 0 0 = [v0, v1, v2, v3] \<Longrightarrow> take 1 (group_bytes [v0, v1, f, e, d]) = [a]"
  unfolding mask_numerals sextets_def group_bytes_def
  by (auto intro!: u8_eqI simp: bit_simps)

lemma length_base64: "length (base64_fill t xs) = 4 * ((length xs + 2) div 3)"
proof (induction t xs rule: base64_fill.induct)
  case (4 t a b c xs)
  have "(length (a # b # c # xs) + 2) div 3 = (length xs + 2) div 3 + 1"
    by simp
  then show ?case
    using "4.IH" by (simp add: digits_of_def sextets_def)
qed (simp_all add: digits_of_def sextets_def)

lemma base64_nonzero: "0 \<notin> set (base64_fill t xs)"
proof (induction t xs rule: base64_fill.induct)
  case (4 t a b c xs)
  then show ?case
    using digit_back(2) [OF sextets_small [of _ a b c]] by (auto simp: digits_of_def)
next
  case (3 t a b)
  then show ?case
    using digit_back(2) [OF sextets_small [of _ a b t]] set_take_subset [of 3 "sextets a b t"]
    by (auto simp: digits_of_def)
next
  case (2 t a)
  then show ?case
    using digit_back(2) [OF sextets_small [of _ a t 0]] set_take_subset [of 2 "sextets a t 0"]
    by (auto simp: digits_of_def)
qed simp

section \<open>Buffers\<close>

lemma put_ok: "j + length bs \<le> length out \<Longrightarrow> put j bs out = Inr (take j out @ bs @ drop (j + length bs) out)"
  by (simp add: put_def)

lemma put_append:
  "j + length as + length bs \<le> length out \<Longrightarrow>
    put j (as @ bs) out = bind_fault (put j as out) (put (j + length as) bs)"
  by (simp add: put_ok bind_fault_def ac_simps)

lemma put_nil: "j \<le> length out \<Longrightarrow> put j [] out = Inr out"
  by (simp add: put_ok)

section \<open>type1: encoding\<close>

text \<open>Signed bytes: the masked parts are unsigned, and so are the bytes below \<open>0x80\<close>.\<close>

lemma sint_low: "(a :: u8) < 0x80 \<Longrightarrow> sint a = uint a"
proof -
  assume "a < 0x80"
  then have "uint a < 128"
    by (simp add: word_less_def)
  moreover have "- 128 \<le> uint a"
    by (rule order_trans [OF _ unsigned_greater_eq]) simp
  ultimately show ?thesis
    by (simp add: sint_uint signed_take_bit_int_eq_self_iff)
qed

lemma sint_mask: "k \<le> 8 \<Longrightarrow> sint (a :: u8) AND mask k = uint (a AND mask k)"
  by (simp add: sint_uint take_bit_signed_take_bit unsigned_take_bit_eq flip: take_bit_eq_mask)

lemma sint_masks:
  "sint (a :: u8) AND 3 = uint (a AND 3)" "sint a AND 0xF = uint (a AND 0xF)" "sint a AND 0x3F = uint (a AND 0x3F)"
  using sint_mask [of 2 a] sint_mask [of 4 a] sint_mask [of 6 a] by (simp_all add: mask_eq_exp_minus_1)

lemma sint_FC: "drop_bit 2 (sint (a :: u8) AND 0xFC) = uint (drop_bit 2 a)"
proof -
  have "drop_bit 2 (sint a AND 0xFC) = take_bit 6 (drop_bit 2 (sint a))"
    by (simp add: drop_bit_and take_bit_eq_mask mask_eq_exp_minus_1)
  also have "\<dots> = drop_bit 2 (take_bit 8 (sint a))"
    by (simp add: take_bit_drop_bit)
  also have "\<dots> = uint (drop_bit 2 a)"
    by (simp add: sint_uint take_bit_signed_take_bit unsigned_drop_bit_eq)
  finally show ?thesis .
qed

lemma uint_push:
  "push_bit 4 (uint (a AND 3)) = uint (push_bit 4 (a AND 3 :: u8))"
  "push_bit 2 (uint (a AND 0xF)) = uint (push_bit 2 (a AND 0xF :: u8))"
  unfolding mask_numerals
  by (simp_all add: unsigned_push_bit_eq unsigned_take_bit_eq take_bit_push_bit flip: take_bit_eq_mask)

lemma uint_drop: "drop_bit k (uint (a :: u8)) = uint (drop_bit k a)"
proof -
  have "take_bit 8 (uint a) = uint a"
    by (rule bintr_uint) simp
  then show ?thesis
    by (simp add: unsigned_drop_bit_eq)
qed

lemma sint_drop: "(a :: u8) < 0x80 \<Longrightarrow> drop_bit k (sint a) = uint (drop_bit k a)"
  by (simp only: sint_low uint_drop)

lemma nth4: "[a, b, c, d] ! 0 = a" "[a, b, c, d] ! 1 = b" "[a, b, c, d] ! 2 = c" "[a, b, c, d] ! 3 = d"
  by simp_all

lemma group_indices_sextets:
  "b < 0x80 \<Longrightarrow> c < 0x80 \<Longrightarrow> group_indices [a, b, c, d] = map uint (sextets a b c)"
  by (simp only: group_indices_def sextets_def nth4 list.map sint_masks sint_drop sint_FC uint_push uint_or)

lemma vec_all_digits: "(\<And>v. v \<in> set vs \<Longrightarrow> unat v < 64) \<Longrightarrow> vec_all (map uint vs) = Inr (digits_of vs)"
proof -
  assume small: "\<And>v. v \<in> set vs \<Longrightarrow> unat v < 64"
  have "0 \<le> uint v \<and> uint v < int (length vec) \<and> vec ! nat (uint v) = alphabet ! unat v" if "v \<in> set vs" for v
  proof -
    have "uint v < 64"
      using small [OF that] nat_less_eq_zless [of "uint v" 64] by simp
    then show ?thesis
      using small [OF that] by (simp add: vec_alphabet nth_append)
  qed
  then show ?thesis
    unfolding vec_all_def digits_of_def list_all_iff by (auto simp: comp_def)
qed

lemma vec_all_take:
  assumes "b < 0x80" and "c < 0x80"
  shows "vec_all (take n (group_indices [a, b, c, d])) = Inr (digits_of (take n (sextets a b c)))"
proof -
  have "unat v < 64" if "v \<in> set (take n (sextets a b c))" for v
    using sextets_small that by (meson in_set_takeD)
  then show ?thesis
    using vec_all_digits [of "take n (sextets a b c)"]
    by (simp add: group_indices_sextets [OF assms] take_map)
qed

lemma vec_all_group:
  "b < 0x80 \<Longrightarrow> c < 0x80 \<Longrightarrow> vec_all (group_indices [a, b, c, d]) = Inr (digits_of (sextets a b c))"
  using vec_all_take [of b c 4 a d] by (simp add: group_indices_def sextets_def)

lemma length_sextets [simp]: "length (sextets a b c) = 4"
  by (simp add: sextets_def)

lemma take_2_sextets: "take 2 (sextets a b c) = take 2 (sextets a b 0)"
  by (simp add: sextets_def)

lemma length_digits_of [simp]: "length (digits_of vs) = length vs"
  by (simp add: digits_of_def)

lemma bind_fault_assoc: "bind_fault (bind_fault r f) g = bind_fault r (\<lambda>x. bind_fault (f x) g)"
  by (simp add: bind_fault_def split: sum.split)

text \<open>The second and third byte of every group of three are below \<open>0x80\<close>.\<close>

fun low_bytes :: "u8 list \<Rightarrow> bool" where
  "low_bytes (a # b # c # xs) \<longleftrightarrow> b < 0x80 \<and> c < 0x80 \<and> low_bytes xs"
| "low_bytes [a, b] \<longleftrightarrow> b < 0x80"
| "low_bytes [a] \<longleftrightarrow> True"
| "low_bytes [] \<longleftrightarrow> True"

lemma mod3: "3 * m mod 3 = (0 :: nat)" "Suc (3 * m) mod 3 = 1" "Suc (Suc (3 * m)) mod 3 = 2"
  by (presburger)+

lemma encode_groups:
  assumes "0 < m" and "low_bytes (a # b # c # xs)" and "j + length (base64 (a # b # c # xs)) + 1 \<le> length out"
  shows "bind_fault (encode_loop (3 * m) xs ([a, b, c, d], j, out)) (encode_end (3 * m + length xs)) =
    put j (base64 (a # b # c # xs) @ [0]) out"
  using assms
proof (induction xs arbitrary: m a b c j out rule: low_bytes.induct)
  case (1 x y z xs)
  let ?g = "digits_of (sextets a b c)"
  have g: "vec_all (group_indices [a, b, c, d]) = Inr ?g"
    using 1 by (simp add: vec_all_group)
  have room: "j + 4 + length (base64 (x # y # z # xs)) + 1 \<le> length out"
    using "1.prems"(3) by simp
  obtain out' where out': "put j ?g out = Inr out'" "length out' = length out"
    using room by (simp add: put_ok)
  have e: "3 * (m + 1) = Suc (Suc (Suc (3 * m)))"
    by simp
  have "bind_fault (encode_loop (3 * m) (x # y # z # xs) ([a, b, c, d], j, out))
      (encode_end (3 * m + length (x # y # z # xs))) =
    bind_fault (encode_loop (3 * (m + 1)) xs ([x, y, z, d], j + 4, out')) (encode_end (3 * (m + 1) + length xs))"
    unfolding e using \<open>0 < m\<close> by (simp add: g out' bind_fault_Inr mod3 numeral_2_eq_2)
  also have "\<dots> = put (j + 4) (base64 (x # y # z # xs) @ [0]) out'"
    using "1.IH" [of "m + 1" x y z "j + 4" out'] "1.prems" room out'(2) by simp
  also have "\<dots> = put j (?g @ base64 (x # y # z # xs) @ [0]) out"
    using put_append [of j ?g "base64 (x # y # z # xs) @ [0]" out] room out'(1)
    by (simp add: bind_fault_Inr)
  finally show ?case
    by simp
next
  case (2 x y)
  let ?g = "digits_of (sextets a b c)"
  have g: "vec_all (group_indices [a, b, c, d]) = Inr ?g"
    using 2 by (simp add: vec_all_group)
  obtain out' where out': "put j ?g out = Inr out'" "length out' = length out"
    using 2 by (simp add: put_ok)
  have "vec_all (take 3 (group_indices [x, y, 0, d])) = Inr (digits_of (take 3 (sextets x y 0)))"
    using vec_all_take [of y 0 3 x d] 2 by simp
  then show ?case
    using put_append [of j ?g "base64 [x, y] @ [0]" out] 2
    by (simp add: g out' bind_fault_Inr mod3 numeral_2_eq_2 encode_end_def)
next
  case (3 x)
  let ?g = "digits_of (sextets a b c)"
  have g: "vec_all (group_indices [a, b, c, d]) = Inr ?g"
    using 3 by (simp add: vec_all_group)
  obtain out' where out': "put j ?g out = Inr out'" "length out' = length out"
    using 3 by (simp add: put_ok)
  have "vec_all (take 2 (group_indices [x, 0, c, d])) = Inr (digits_of (take 2 (sextets x 0 0)))"
    using vec_all_take [of 0 c 2 x d] take_2_sextets [of x 0 c] 3 by simp
  then show ?case
    using put_append [of j ?g "base64 [x] @ [0]" out] 3
    by (simp add: g out' bind_fault_Inr mod3 encode_end_def)
next
  case 4
  then show ?case
    by (simp add: bind_fault_Inr mod3 encode_end_def vec_all_group)
qed

lemma encodeBASE64_text:
  assumes "low_bytes xs" and "xs \<noteq> []" and "length (base64 xs) < length out"
  shows "encodeBASE64 xs out = Inr (length (base64 xs), base64 xs @ 0 # drop (length (base64 xs) + 1) out)"
proof -
  have "bind_fault (encode_loop 0 xs ([0, 0, 0, 0], 0, out)) (encode_end (length xs)) = put 0 (base64 xs @ [0]) out"
  proof (cases xs rule: low_bytes.cases)
    case (1 a b c ys)
    have e: "3 * 1 = Suc (Suc (Suc 0))"
      by simp
    show ?thesis
      using encode_groups [of 1 a b c ys 0 out 0, unfolded e] 1 assms by (simp add: bind_fault_Inr)
  next
    case (2 a b)
    then show ?thesis
      using vec_all_take [of b 0 3 a 0] assms by (simp add: bind_fault_Inr encode_end_def)
  next
    case (3 a)
    then show ?thesis
      using vec_all_take [of 0 0 2 a 0] by (simp add: bind_fault_Inr encode_end_def)
  qed (use assms in simp)
  then show ?thesis
    unfolding encodeBASE64_def bind_fault_assoc [symmetric]
    using assms(3) base64_nonzero [of 0 xs] by (simp add: put_ok bind_fault_Inr c_strlen_append)
qed

section \<open>type1: decoding\<close>

lemma decode_step:
  "\<not> (0 < i div 4 \<and> i mod 4 = 0) \<Longrightarrow> decode_loop i (c # cs) (buf, j, out) =
    (case digit_value c of
       Some v \<Rightarrow> decode_loop (i + 1) cs (buf[i mod 4 := v], j, out)
     | None \<Rightarrow> if c = eq_sign then Inr (Inr (i, buf[i mod 4 := 0], j, out)) else Inr (Inl out))"
  by (simp only: decode_loop.simps(2) if_False bind_fault_Inr prod.case)

lemma decode_flush:
  "0 < i div 4 \<and> i mod 4 = 0 \<Longrightarrow> decode_loop i (c # cs) (buf, j, out) =
    bind_fault (put j (group_bytes buf) out) (\<lambda>out.
      case digit_value c of
        Some v \<Rightarrow> decode_loop (i + 1) cs (buf[i mod 4 := v], j + 3, out)
      | None \<Rightarrow> if c = eq_sign then Inr (Inr (i, buf[i mod 4 := 0], j + 3, out)) else Inr (Inl out))"
  by (simp only: decode_loop.simps(2) if_True bind_fault_assoc bind_fault_Inr prod.case simp_thms)

lemma digit_loop:
  assumes "unat v < 64" and "\<not> (0 < i div 4 \<and> i mod 4 = 0)"
  shows "decode_loop i (alphabet ! unat v # cs) (buf, j, out) = decode_loop (i + 1) cs (buf[i mod 4 := v], j, out)"
  by (simp only: decode_step [OF assms(2)] digit_back(1) [OF assms(1)] option.case)

lemma digit_flush:
  assumes "unat v < 64" and "0 < i div 4 \<and> i mod 4 = 0"
  shows "decode_loop i (alphabet ! unat v # cs) (buf, j, out) =
    bind_fault (put j (group_bytes buf) out) (\<lambda>out. decode_loop (i + 1) cs (buf[i mod 4 := v], j + 3, out))"
  by (simp only: decode_flush [OF assms(2)] digit_back(1) [OF assms(1)] option.case)

lemma equals_loop:
  "\<not> (0 < i div 4 \<and> i mod 4 = 0) \<Longrightarrow>
    decode_loop i (eq_sign # cs) (buf, j, out) = Inr (Inr (i, buf[i mod 4 := 0], j, out))"
  by (simp only: decode_step eq_sign_digit option.case if_True refl simp_thms)

declare decode_loop.simps(2) [simp del]

lemma mod4: "4 * m mod 4 = (0 :: nat)" "Suc (4 * m) mod 4 = 1" "Suc (Suc (4 * m)) mod 4 = 2"
  "Suc (Suc (Suc (4 * m))) mod 4 = 3"
  by (presburger)+

lemma flush_two:
  assumes "0 < m" and "unat v0 < 64" and "unat v1 < 64"
  shows "decode_loop (4 * m) (digits_of [v0, v1] @ cs) ([b0, b1, b2, b3, b4], j, out) =
    bind_fault (put j (group_bytes [b0, b1, b2, b3, b4]) out) (\<lambda>out.
      decode_loop (Suc (Suc (4 * m))) cs ([v0, v1, b2, b3, b4], j + 3, out))"
  using assms by (simp add: digits_of_def digit_flush digit_loop mod4)

lemma digit_at_two:
  "unat v2 < 64 \<Longrightarrow> decode_loop (Suc (Suc (4 * m))) (digits_of [v2] @ cs) ([b0, b1, b2, b3, b4], j, out) =
    decode_loop (Suc (Suc (Suc (4 * m)))) cs ([b0, b1, v2, b3, b4], j, out)"
  by (simp add: digits_of_def digit_loop mod4)

lemma digit_at_three:
  "unat v3 < 64 \<Longrightarrow> decode_loop (Suc (Suc (Suc (4 * m)))) (digits_of [v3] @ cs) ([b0, b1, b2, b3, b4], j, out) =
    decode_loop (4 * Suc m) cs ([b0, b1, b2, v3, b4], j, out)"
proof -
  assume v3: "unat v3 < 64"
  have e: "4 * Suc m = Suc (Suc (Suc (Suc (4 * m))))"
    by simp
  show ?thesis
    unfolding e using v3 by (simp add: digits_of_def digit_loop mod4)
qed

lemma first_two:
  "unat v0 < 64 \<Longrightarrow> unat v1 < 64 \<Longrightarrow>
    decode_loop 0 (digits_of [v0, v1] @ cs) ([b0, b1, b2, b3, b4], j, out) =
      decode_loop (Suc (Suc (4 * 0))) cs ([v0, v1, b2, b3, b4], j, out)"
  by (simp add: digits_of_def digit_loop)

lemma sextets4: obtains v0 v1 v2 v3 where "sextets a b c = [v0, v1, v2, v3]"
    and "unat v0 < 64" "unat v1 < 64" "unat v2 < 64" "unat v3 < 64"
  using sextets_small [of _ a b c] by (simp add: sextets_def)

lemma digits_split:
  "digits_of [v0, v1, v2, v3] @ cs = digits_of [v0, v1] @ digits_of [v2] @ digits_of [v3] @ cs"
  "digits_of [v0, v1, v2] @ cs = digits_of [v0, v1] @ digits_of [v2] @ cs"
  by (simp_all add: digits_of_def)

definition decode_result :: "u8 list + (nat \<times> u8 list \<times> nat \<times> u8 list) \<Rightarrow> c_fault + (int \<times> nat option \<times> u8 list)" where
  "decode_result r =
    (case r of
       Inl out \<Rightarrow> Inr (-1, None, out)
     | Inr s \<Rightarrow> bind_fault (decode_end s) (\<lambda>(n, out). Inr (0, Some n, out)))"

lemma length_group_bytes [simp]: "length (group_bytes buf) = 3"
  by (simp add: group_bytes_def)

lemma put_prefix:
  assumes "put j as out = Inr out'" and "k = length as" and "j + k + length bs \<le> length out"
  shows "put j (as @ bs) out = put (j + k) bs out'"
  using put_append [of j as bs out] assms by (simp only: bind_fault_Inr)

lemma put_three: "put j [a, b, c] out = Inr out' \<Longrightarrow> j + 3 + length bs \<le> length out \<Longrightarrow>
    put j (a # b # c # bs) out = put (j + 3) bs out'"
  using put_prefix [of j "[a, b, c]" out out' 3 bs] by simp

lemma decode_groups:
  assumes "0 < m" and "group_bytes [b0, b1, b2, b3, b4] = [a, b, c]"
    and "j + length xs + 4 \<le> length out"
  shows "bind_fault (decode_loop (4 * m) (base64 xs) ([b0, b1, b2, b3, b4], j, out)) decode_result =
    bind_fault (put j (a # b # c # xs @ [0]) out) (\<lambda>out. Inr (0, Some (j + 3 + length xs), out))"
  using assms
proof (induction xs arbitrary: m a b c b0 b1 b2 b3 j out rule: low_bytes.induct)
  case (1 x y z xs)
  obtain v0 v1 v2 v3 where v: "sextets x y z = [v0, v1, v2, v3]"
    "unat v0 < 64" "unat v1 < 64" "unat v2 < 64" "unat v3 < 64"
    by (rule sextets4)
  obtain out' where out': "put j [a, b, c] out = Inr out'" "length out' = length out"
    using "1.prems" by (simp add: put_ok)
  have "bind_fault (decode_loop (4 * m) (base64 (x # y # z # xs)) ([b0, b1, b2, b3, b4], j, out)) decode_result =
      bind_fault (decode_loop (4 * Suc m) (base64 xs) ([v0, v1, v2, v3, b4], j + 3, out')) decode_result"
    by (simp only: base64_fill.simps v(1) digits_split flush_two [OF \<open>0 < m\<close> v(2, 3)] "1.prems"(2) out'(1)
        bind_fault_Inr digit_at_two [OF v(4)] digit_at_three [OF v(5)])
  also have "\<dots> = bind_fault (put (j + 3) (x # y # z # xs @ [0]) out')
      (\<lambda>out. Inr (0, Some (j + 3 + 3 + length xs), out))"
    using "1.IH" [of "Suc m" v0 v1 v2 v3 x y z "j + 3" out'] sextets_bytes(1) [OF v(1)] "1.prems"(3) out'(2)
    by simp
  also have "\<dots> = bind_fault (put j ([a, b, c] @ x # y # z # xs @ [0]) out)
      (\<lambda>out. Inr (0, Some (j + 3 + 3 + length xs), out))"
    using put_three [OF out'(1), of "x # y # z # xs @ [0]"] "1.prems"(3) by simp
  finally show ?case
    by (simp add: ac_simps)
next
  case (2 x y)
  obtain v0 v1 v2 v3 where v: "sextets x y 0 = [v0, v1, v2, v3]"
    "unat v0 < 64" "unat v1 < 64" "unat v2 < 64" "unat v3 < 64"
    by (rule sextets4)
  obtain out' where out': "put j [a, b, c] out = Inr out'" "length out' = length out"
    using "2.prems" by (simp add: put_ok)
  have t: "take 3 (sextets x y 0) = [v0, v1, v2]"
    by (simp add: v(1))
  have "bind_fault (decode_loop (4 * m) (base64 [x, y]) ([b0, b1, b2, b3, b4], j, out)) decode_result =
      bind_fault (put (j + 3) ([x, y] @ [0]) out') (\<lambda>out. Inr (0, Some (j + 3 + 2), out))"
    by (simp add: base64_fill.simps t digits_split flush_two [OF \<open>0 < m\<close> v(2, 3)] "2.prems"(2) out'(1)
        bind_fault_Inr digit_at_two [OF v(4)] equals_loop mod4 decode_result_def decode_end_def
        sextets_bytes(2, 3) [OF v(1)] bind_fault_assoc)
  also have "\<dots> = bind_fault (put j ([a, b, c] @ [x, y, 0]) out)
      (\<lambda>out. Inr (0, Some (j + 3 + 2), out))"
    using put_three [OF out'(1), of "[x, y, 0]"] "2.prems"(3) by simp
  finally show ?case
    by simp
next
  case (3 x)
  obtain v0 v1 v2 v3 where v: "sextets x 0 0 = [v0, v1, v2, v3]"
    "unat v0 < 64" "unat v1 < 64" "unat v2 < 64" "unat v3 < 64"
    by (rule sextets4)
  obtain out' where out': "put j [a, b, c] out = Inr out'" "length out' = length out"
    using "3.prems" by (simp add: put_ok)
  have t: "take 2 (sextets x 0 0) = [v0, v1]"
    by (simp add: v(1))
  have "bind_fault (decode_loop (4 * m) (base64 [x]) ([b0, b1, b2, b3, b4], j, out)) decode_result =
      bind_fault (put (j + 3) ([x] @ [0]) out') (\<lambda>out. Inr (0, Some (j + 3 + 1), out))"
    by (simp add: base64_fill.simps t flush_two [OF \<open>0 < m\<close> v(2, 3)] "3.prems"(2) out'(1)
        bind_fault_Inr equals_loop mod4 decode_result_def decode_end_def
        sextets_bytes(4) [OF v(1), unfolded One_nat_def] bind_fault_assoc)
  also have "\<dots> = bind_fault (put j ([a, b, c] @ [x, 0]) out)
      (\<lambda>out. Inr (0, Some (j + 3 + 1), out))"
    using put_three [OF out'(1), of "[x, 0]"] "3.prems"(3) by simp
  finally show ?case
    by simp
next
  case 4
  then show ?case
    using put_append [of j "[a, b, c]" "[0]" out]
    by (simp add: bind_fault_Inr decode_result_def decode_end_def mod4 bind_fault_assoc)
qed
lemma decodeBASE64_text:
  assumes "xs \<noteq> []" and "length xs < length out"
  shows "decodeBASE64 (base64 xs @ 0 # rest) out =
    Inr (0, Some (length xs), xs @ 0 # drop (length xs + 1) out)"
proof -
  have "bind_fault (decode_loop 0 (base64 xs) ([0, 0, 0, 0, 0], 0, out)) decode_result =
      bind_fault (put 0 (xs @ [0]) out) (\<lambda>out. Inr (0, Some (length xs), out))"
  proof (cases xs rule: low_bytes.cases)
    case (1 x y z ys)
    obtain v0 v1 v2 v3 where v: "sextets x y z = [v0, v1, v2, v3]"
      "unat v0 < 64" "unat v1 < 64" "unat v2 < 64" "unat v3 < 64"
      by (rule sextets4)
    have "decode_loop 0 (base64 xs) ([0, 0, 0, 0, 0], 0, out) =
        decode_loop (4 * Suc 0) (base64 ys) ([v0, v1, v2, v3, 0], 0, out)"
      by (simp only: 1 base64_fill.simps v(1) digits_split first_two [OF v(2, 3)]
          digit_at_two [OF v(4)] digit_at_three [OF v(5)])
    then show ?thesis
      using decode_groups [of "Suc 0" v0 v1 v2 v3 0 x y z 0 ys out] sextets_bytes(1) [OF v(1)] assms 1
      by (simp add: numeral_3_eq_3)
  next
    case (2 x y)
    obtain v0 v1 v2 v3 where v: "sextets x y 0 = [v0, v1, v2, v3]"
      "unat v0 < 64" "unat v1 < 64" "unat v2 < 64" "unat v3 < 64"
      by (rule sextets4)
    then show ?thesis
      using digit_at_two [OF v(4), of 0]
      by (simp add: 2 v(1) digits_split first_two equals_loop decode_result_def decode_end_def
          sextets_bytes(2, 3) [OF v(1)] bind_fault_Inr bind_fault_assoc)
  next
    case (3 x)
    obtain v0 v1 v2 v3 where v: "sextets x 0 0 = [v0, v1, v2, v3]"
      "unat v0 < 64" "unat v1 < 64" "unat v2 < 64" "unat v3 < 64"
      by (rule sextets4)
    then show ?thesis
      by (simp add: 3 v(1) first_two equals_loop decode_result_def decode_end_def
          sextets_bytes(4) [OF v(1), unfolded One_nat_def] bind_fault_Inr bind_fault_assoc)
  qed (use assms in simp)
  then show ?thesis
    using assms(2) base64_nonzero [of 0 xs]
    by (simp add: decodeBASE64_def c_strlen_append put_ok bind_fault_Inr decode_result_def [abs_def])
qed

section \<open>type2: encoding\<close>

text \<open>The bit fields of the word see the bytes, and the bytes the bit fields.\<close>

definition bytes_word :: "u8 \<Rightarrow> u8 \<Rightarrow> u8 \<Rightarrow> u32 \<Rightarrow> u32" where
  "bytes_word x y z temp = set_c 1 z (set_c 2 y (set_c 3 x temp))"

lemma bit_u8_less: "bit (a :: u8) n \<Longrightarrow> n < 8"
  using bit_u8_high [of n a] by linarith

lemma word_field:
  "drop_bit 18 (bytes_word x y z temp) AND mask 6 = ucast (drop_bit 2 x)"
  "drop_bit 12 (bytes_word x y z temp) AND mask 6 = ucast (push_bit 4 (x AND mask 2) OR drop_bit 4 y)"
  "drop_bit 6 (bytes_word x y z temp) AND mask 6 = ucast (push_bit 2 (y AND mask 4) OR drop_bit 6 z)"
  "drop_bit 0 (bytes_word x y z temp) AND mask 6 = ucast (z AND mask 6)"
  unfolding bytes_word_def set_c_def mask_numerals
  by (rule bit_word_eqI; auto simp: bit_simps bit_u8_high dest: bit_u8_less)+

lemma get_e_bytes: "map (\<lambda>k. get_e k (bytes_word x y z temp)) [4, 3, 2, 1] = map unat (sextets x y z)"
proof -
  have "unat (s :: u8) < 2 ^ 32" for s
    by (rule order_less_le_trans [OF unsigned_less]) simp
  then have "unat (ucast (s :: u8) :: u32) = unat s" for s
    by (simp add: unsigned_ucast_eq take_bit_nat_eq_self)
  then show ?thesis
    using word_field [of x y z temp] by (simp add: get_e_def sextets_def mask_numerals)
qed

lemma digits_of_bytes:
  "[MimeBase64 ! get_e 4 (bytes_word x y z temp), MimeBase64 ! get_e 3 (bytes_word x y z temp),
    MimeBase64 ! get_e 2 (bytes_word x y z temp), MimeBase64 ! get_e 1 (bytes_word x y z temp)] =
    digits_of (sextets x y z)"
proof -
  have "map (\<lambda>e. MimeBase64 ! e) (map (\<lambda>k. get_e k (bytes_word x y z temp)) [4, 3, 2, 1]) = digits_of (sextets x y z)"
    by (simp only: get_e_bytes) (simp add: digits_of_def MimeBase64_alphabet comp_def)
  then show ?thesis
    by simp
qed

lemma byte_at_drop: "byte_at src (i + k) = byte_at (drop i src) k"
  by (auto simp: byte_at_def)

lemma base64e_step:
  assumes "i < len" and "byte_at (drop i src) 0 = Inr x" and "byte_at (drop i src) 1 = Inr y"
    and "(if len < i + 2 then Inr 0 else byte_at (drop i src) 2) = Inr z"
    and "digits_of (sextets x y z) = [d0, d1, d2, d3]"
  shows "base64e_loop src len i j temp out =
    bind_fault (put j [d0, d1, if len < i + 2 then eq_sign else d2, if len < i + 3 then eq_sign else d3] out)
      (base64e_loop src len (i + 3) (j + 4) (bytes_word x y z temp))"
proof -
  have x: "byte_at src i = Inr x"
    using assms(2) byte_at_drop [of src i 0] by simp
  have d: "[MimeBase64 ! get_e 4 (bytes_word x y z temp), MimeBase64 ! get_e 3 (bytes_word x y z temp),
    MimeBase64 ! get_e 2 (bytes_word x y z temp), MimeBase64 ! get_e 1 (bytes_word x y z temp)] = [d0, d1, d2, d3]"
    by (simp only: digits_of_bytes assms(5))
  have len: "\<not> len < i + 1"
    using assms(1) by simp
  show ?thesis
    by (subst base64e_loop.simps)
      (simp only: if_P [OF assms(1)] x bind_fault_Inr byte_at_drop assms(3, 4) if_not_P [OF len] Let_def
        bytes_word_def [symmetric] d, simp add: numeral_2_eq_2 numeral_3_eq_3)
qed

lemma digits4: obtains d0 d1 d2 d3 where "digits_of (sextets a b c) = [d0, d1, d2, d3]"
  by (simp add: sextets_def digits_of_def)

lemma base64e_text_at:
  assumes "i + length xs = len" and "drop i src = xs @ t # rest" and "j + length (base64 xs) \<le> length out"
  shows "base64e_loop src len i j temp out = put j (base64_fill t xs) out"
  using assms
proof (induction xs arbitrary: i j temp out rule: low_bytes.induct)
  case (1 x y z xs)
  obtain d0 d1 d2 d3 where d: "digits_of (sextets x y z) = [d0, d1, d2, d3]"
    by (rule digits4)
  obtain out' where out': "put j [d0, d1, d2, d3] out = Inr out'" "length out' = length out"
    using "1.prems" by (simp add: put_ok)
  have next_group: "drop (i + 3) src = xs @ t # rest"
    using arg_cong [OF "1.prems"(2), of "drop 3"] by (simp add: add.commute)
  have "base64e_loop src len i j temp out = base64e_loop src len (i + 3) (j + 4) (bytes_word x y z temp) out'"
    using "1.prems"(1) out'(1) by (subst base64e_step [OF _ _ _ _ d])
      (auto simp: "1.prems"(2) byte_at_def bind_fault_Inr)
  also have "\<dots> = put (j + 4) (base64_fill t xs) out'"
    using "1.IH" [of "i + 3" "j + 4" out'] next_group "1.prems" out'(2) by simp
  finally show ?case
    using put_prefix [OF out'(1), of 4 "base64_fill t xs"] "1.prems"(3)
    by (simp add: d length_base64)
next
  case (2 x y)
  obtain d0 d1 d2 d3 where d: "digits_of (sextets x y t) = [d0, d1, d2, d3]"
    by (rule digits4)
  have fill: "base64_fill t [x, y] = [d0, d1, d2, eq_sign]"
    using arg_cong [OF d, of "take 3"] by (simp add: digits_of_def flip: take_map)
  have stop: "base64e_loop src len (i + 3) k temp' out' = Inr out'" for k temp' out'
    using 2 by (subst base64e_loop.simps) simp
  show ?case
    using 2 by (subst base64e_step [OF _ _ _ _ d])
      (auto simp: byte_at_def fill stop bind_fault_def put_ok length_base64 simp del: base64_fill.simps)
next
  case (3 x)
  obtain d0 d1 d2 d3 where d: "digits_of (sextets x t 0) = [d0, d1, d2, d3]"
    by (rule digits4)
  have fill: "base64_fill t [x] = [d0, d1, eq_sign, eq_sign]"
    using arg_cong [OF d, of "take 2"] by (simp add: digits_of_def flip: take_map)
  have stop: "base64e_loop src len (i + 3) k temp' out' = Inr out'" for k temp' out'
    using 3 by (subst base64e_loop.simps) simp
  show ?case
    using 3 by (subst base64e_step [OF _ _ _ _ d])
      (auto simp: byte_at_def fill stop bind_fault_def put_ok length_base64 simp del: base64_fill.simps)
next
  case 4
  then show ?case
    by (simp add: base64e_loop.simps put_nil)
qed

lemma base64e_text:
  "length (base64 xs) \<le> length out \<Longrightarrow>
    base64e temp (xs @ t # rest) out (length xs) = Inr (base64_fill t xs @ drop (length (base64 xs)) out)"
  using base64e_text_at [of 0 xs "length xs" "xs @ t # rest" t rest 0 out temp]
  by (simp add: base64e_def put_ok length_base64)

section \<open>type2: decoding\<close>

definition fields_word :: "int \<Rightarrow> int \<Rightarrow> int \<Rightarrow> int \<Rightarrow> u32 \<Rightarrow> u32" where
  "fields_word e1 e2 e3 e4 temp = set_e 1 e1 (set_e 2 e2 (set_e 3 e3 (set_e 4 e4 temp)))"

lemma bit_set_e:
  "n < 32 \<Longrightarrow> bit (set_e k x v) n =
    (if 6 * (k - 1) \<le> n \<and> n < 6 * (k - 1) + 6 then bit x (n - 6 * (k - 1)) else bit v n)"
  unfolding set_e_def mask_numerals by (auto simp: bit_simps)

lemma bit_get_c: "bit (get_c k v) n \<longleftrightarrow> n < 8 \<and> bit v (8 * (k - 1) + n)"
  by (simp add: get_c_def bit_simps)

lemma fields_group_masked:
  "get_c 3 (fields_word (uint v3) (uint v2) (uint v1) (uint v0) temp) =
    push_bit 2 (take_bit 6 v0) OR drop_bit 4 (take_bit 6 v1)"
  "get_c 2 (fields_word (uint v3) (uint v2) (uint v1) (uint v0) temp) =
    push_bit 4 (take_bit 6 v1) OR drop_bit 2 (take_bit 6 v2)"
  "get_c (Suc 0) (fields_word (uint v3) (uint v2) (uint v1) (uint v0) temp) =
    push_bit 6 (take_bit 6 v2) OR take_bit 6 (v3 :: u8)"
  by (rule u8_eqI; simp add: fields_word_def bit_get_c bit_set_e bit_simps numeral_2_eq_2 [symmetric])+

lemma take_bit_sextet: "unat (v :: u8) < 64 \<Longrightarrow> take_bit 6 v = v"
proof -
  assume v: "unat v < 64"
  have "unat (take_bit 6 v) = unat v"
    using v by (simp add: unsigned_take_bit_eq take_bit_nat_eq_self)
  then show ?thesis
    by (simp only: word_unat_eq_iff)
qed

lemma fields_group:
  assumes "unat v0 < 64" and "unat v1 < 64" and "unat v2 < 64" and "unat v3 < 64"
    and "w = fields_word (int (unat v3)) (int (unat v2)) (int (unat v1)) (int (unat v0)) temp"
  shows "[get_c 3 w, get_c 2 w, get_c 1 w] = group_bytes [v0, v1, v2, v3, d]"
  using assms(1-4) by (simp add: assms(5) fields_group_masked take_bit_sextet group_bytes_def)

lemma group_zero_bytes:
  "sextets x y 0 = [v0, v1, v2, v3] \<Longrightarrow> group_bytes [v0, v1, v2, 0, d] = [x, y, 0]"
  "sextets x 0 0 = [v0, v1, v2, v3] \<Longrightarrow> group_bytes [v0, v1, 0, 0, d] = [x, 0, 0]"
  unfolding mask_numerals sextets_def group_bytes_def
  by (auto intro!: u8_eqI simp: bit_simps)

lemma base64d_step:
  assumes "i < len" and "byte_at (drop i src) 0 = Inr (alphabet ! unat v0)" and "unat v0 < 64"
    and "byte_at (drop i src) 1 = Inr (alphabet ! unat v1)" and "unat v1 < 64"
    and "byte_at (drop i src) 2 = Inr c2" and "c2 = (if q2 then eq_sign else alphabet ! unat v2)"
    and "unat v2 < 64" and "q2 \<longrightarrow> v2 = 0"
    and "byte_at (drop i src) 3 = Inr c1" and "c1 = (if q1 then eq_sign else alphabet ! unat v3)"
    and "unat v3 < 64" and "q1 \<longrightarrow> v3 = 0"
  shows "base64d_loop src len i j blank temp out =
    bind_fault (put j (group_bytes [v0, v1, v2, v3, 0]) out)
      (base64d_loop src len (i + 4) (j + 3) (blank + (if q2 then 1 else 0) + (if q1 then 1 else 0))
        (fields_word (int (unat v3)) (int (unat v2)) (int (unat v1)) (int (unat v0)) temp))"
proof -
  have x: "byte_at src i = Inr (alphabet ! unat v0)"
    using assms(2) byte_at_drop [of src i 0] by simp
  have e: "(if c2 = eq_sign then Inr 0 else decode_at c2) = Inr (int (unat v2))"
    "(if c1 = eq_sign then Inr 0 else decode_at c1) = Inr (int (unat v3))"
    "(if c2 = eq_sign then blank + 1 else blank) = blank + (if q2 then 1 else 0)"
    "(if c1 = eq_sign then k + 1 else k) = k + (if q1 then 1 else 0)" for k :: nat
    using assms by (simp_all add: digit_back)
  show ?thesis
    by (subst base64d_loop.simps)
      (simp only: if_P [OF assms(1)] x byte_at_drop assms(4, 6, 10) bind_fault_Inr digit_back [OF assms(3)]
        digit_back [OF assms(5)] e Let_def fields_word_def [symmetric]
        fields_group [OF assms(3, 5, 8, 12) refl, of _ 0])
qed

lemma base64d_text_at:
  assumes "drop i src = base64 xs @ 0 # rest" and "len = i + length (base64 xs)"
    and "j + 3 * ((length xs + 2) div 3) \<le> length out"
  shows "base64d_loop src len i j 0 temp out =
    bind_fault (put j (xs @ replicate (3 * ((length xs + 2) div 3) - length xs) 0) out)
      (\<lambda>out. Inr (j + length xs, out))"
  using assms
proof (induction xs arbitrary: i j temp out rule: low_bytes.induct)
  case (1 x y z xs)
  obtain v0 v1 v2 v3 where v: "sextets x y z = [v0, v1, v2, v3]"
    "unat v0 < 64" "unat v1 < 64" "unat v2 < 64" "unat v3 < 64"
    by (rule sextets4)
  have len: "(length (x # y # z # xs) + 2) div 3 = (length xs + 2) div 3 + 1"
    by simp
  let ?pad = "3 * ((length xs + 2) div 3) - length xs"
  have pad: "3 * ((length (x # y # z # xs) + 2) div 3) - length (x # y # z # xs) = ?pad"
    unfolding len by simp
  have l: "j + length (x # y # z # xs) = j + 3 + length xs"
    by simp
  obtain out' where out': "put j [x, y, z] out = Inr out'" "length out' = length out"
    using "1.prems" by (simp add: put_ok)
  have d: "drop i src = map (\<lambda>v. alphabet ! unat v) [v0, v1, v2, v3] @ base64 xs @ 0 # rest"
    using "1.prems"(1) by (simp add: v(1) digits_of_def)
  have next_group: "drop (i + 4) src = base64 xs @ 0 # rest"
    using arg_cong [OF d, of "drop 4"] by (simp add: add.commute)
  have "base64d_loop src len i j 0 temp out = base64d_loop src len (i + 4) (j + 3) 0
      (fields_word (int (unat v3)) (int (unat v2)) (int (unat v1)) (int (unat v0)) temp) out'"
    using "1.prems"(2) v out'(1)
    by (subst base64d_step [where ?q1.0 = False and ?q2.0 = False and ?v0.0 = v0 and ?v1.0 = v1
        and ?v2.0 = v2 and ?v3.0 = v3])
      (auto simp: d byte_at_def bind_fault_Inr sextets_bytes(1) [OF v(1)])
  also have "\<dots> = bind_fault (put (j + 3) (xs @ replicate ?pad 0) out') (\<lambda>out. Inr (j + 3 + length xs, out))"
    using "1.IH" [of "i + 4" "j + 3" out'] next_group "1.prems" len out'(2) v(1) by simp
  also have "\<dots> = bind_fault (put j ([x, y, z] @ xs @ replicate ?pad 0) out) (\<lambda>out. Inr (j + 3 + length xs, out))"
    using put_three [OF out'(1), of "xs @ replicate ?pad 0"] "1.prems"(3) len by simp
  finally show ?case
    unfolding pad l by (simp only: append.simps)
next
  case (2 x y)
  obtain v0 v1 v2 v3 where v: "sextets x y 0 = [v0, v1, v2, v3]"
    "unat v0 < 64" "unat v1 < 64" "unat v2 < 64" "unat v3 < 64"
    by (rule sextets4)
  have d: "drop i src = map (\<lambda>v. alphabet ! unat v) [v0, v1, v2] @ eq_sign # 0 # rest"
    using "2.prems"(1) by (simp add: v(1) digits_of_def)
  have len: "len = i + 4"
    using "2.prems"(2) v(1) by simp
  have stop: "base64d_loop src (i + 4) (i + 4) k b temp' = (\<lambda>out'. Inr (k - b, out'))" for k b temp'
    by (rule ext) (subst base64d_loop.simps, simp)
  show ?case
    unfolding len using v
    by (subst base64d_step [where ?q1.0 = True and ?q2.0 = False and ?v0.0 = v0 and ?v1.0 = v1
        and ?v2.0 = v2 and ?v3.0 = 0])
      (auto simp: d byte_at_def stop group_zero_bytes(1) [OF v(1)])
next
  case (3 x)
  obtain v0 v1 v2 v3 where v: "sextets x 0 0 = [v0, v1, v2, v3]"
    "unat v0 < 64" "unat v1 < 64" "unat v2 < 64" "unat v3 < 64"
    by (rule sextets4)
  have d: "drop i src = map (\<lambda>v. alphabet ! unat v) [v0, v1] @ eq_sign # eq_sign # 0 # rest"
    using "3.prems"(1) by (simp add: v(1) digits_of_def)
  have len: "len = i + 4"
    using "3.prems"(2) v(1) by simp
  have stop: "base64d_loop src (i + 4) (i + 4) k b temp' = (\<lambda>out'. Inr (k - b, out'))" for k b temp'
    by (rule ext) (subst base64d_loop.simps, simp)
  show ?case
    unfolding len using v
    by (subst base64d_step [where ?q1.0 = True and ?q2.0 = True and ?v0.0 = v0 and ?v1.0 = v1
        and ?v2.0 = 0 and ?v3.0 = 0])
      (auto simp: d byte_at_def stop group_zero_bytes(2) [OF v(1)] numeral_2_eq_2)
next
  case 4
  then show ?case
    by (simp add: base64d_loop.simps put_nil bind_fault_Inr)
qed

lemma base64d_text:
  "3 * ((length xs + 2) div 3) \<le> length out \<Longrightarrow>
    base64d temp (base64 xs @ 0 # rest) out =
      Inr (length xs, xs @ replicate (3 * ((length xs + 2) div 3) - length xs) 0 @
        drop (3 * ((length xs + 2) div 3)) out)"
  using base64d_text_at [of 0 "base64 xs @ 0 # rest" xs rest "length (base64 xs)" 0 out temp]
    base64_nonzero [of 0 xs]
  by (simp add: base64d_def put_ok c_strlen_append bind_fault_Inr)

section \<open>The contract of the two coders\<close>

text \<open>
  In buffers that were cleared, as both \<open>main\<close> functions clear theirs, a coder leaves the
  terminated text, and the terminated bytes with their number.
\<close>

locale base64_coder =
  fixes encode :: "u8 list \<Rightarrow> u8 list \<Rightarrow> c_fault + u8 list"
    and decode :: "u8 list \<Rightarrow> u8 list \<Rightarrow> c_fault + (nat \<times> u8 list)"
    and accepts :: "u8 list \<Rightarrow> bool"
  assumes encodes: "accepts xs \<Longrightarrow> length (base64 xs) < n \<Longrightarrow>
      encode xs (replicate n 0) = Inr (base64 xs @ replicate (n - length (base64 xs)) 0)"
    and decodes: "accepts xs \<Longrightarrow> length (base64 xs) \<le> n \<Longrightarrow>
      decode (base64 xs @ 0 # rest) (replicate n 0) = Inr (length xs, xs @ replicate (n - length xs) 0)"
begin

lemma text_ends: "k < n \<Longrightarrow> replicate (n - k) (0 :: u8) = 0 # replicate (n - k - 1) 0"
  by (cases "n - k") simp_all

lemma round_trip:
  "accepts xs \<Longrightarrow> length (base64 xs) < n \<Longrightarrow> length (base64 xs) \<le> m \<Longrightarrow>
    bind_fault (encode xs (replicate n 0)) (\<lambda>text. decode text (replicate m 0)) =
      Inr (length xs, xs @ replicate (m - length xs) 0)"
  by (simp add: encodes decodes bind_fault_Inr text_ends)

lemma encode_inject:
  assumes "accepts xs" and "accepts ys" and "length (base64 xs) < n" and "length (base64 ys) < n"
    and "encode xs (replicate n 0) = encode ys (replicate n 0)"
  shows "xs = ys"
proof -
  note x = round_trip [OF assms(1, 3) less_imp_le [OF assms(3)]]
    and y = round_trip [OF assms(2, 4) less_imp_le [OF assms(4)]]
  show ?thesis
    using trans [OF x [unfolded assms(5), symmetric] y] by auto
qed

end

text \<open>The output and the length are what the callers use of the two coders.\<close>

definition encode_type1 :: "u8 list \<Rightarrow> u8 list \<Rightarrow> c_fault + u8 list" where
  "encode_type1 xs out = bind_fault (encodeBASE64 xs out) (\<lambda>(n, out). Inr out)"

definition decode_type1 :: "u8 list \<Rightarrow> u8 list \<Rightarrow> c_fault + (nat \<times> u8 list)" where
  "decode_type1 text out = bind_fault (decodeBASE64 text out) (\<lambda>(r, n, out). Inr (case n of Some n \<Rightarrow> n | None \<Rightarrow> 0, out))"

text \<open>\<open>base64e\<close> and \<open>base64d\<close> on a terminated string; \<open>temp\<close> starts as any word.\<close>

definition encode_type2 :: "u32 \<Rightarrow> u8 list \<Rightarrow> u8 list \<Rightarrow> c_fault + u8 list" where
  "encode_type2 temp xs out = base64e temp (xs @ [0]) out (length xs)"

lemma div3_bounds: "(l :: nat) \<le> 3 * ((l + 2) div 3)" "3 * ((l + 2) div 3) \<le> 4 * ((l + 2) div 3)"
  "0 < l \<Longrightarrow> l < 4 * ((l + 2) div 3)"
  by presburger+

interpretation type1: base64_coder encode_type1 decode_type1 "\<lambda>xs. xs \<noteq> [] \<and> low_bytes xs"
proof
  fix xs :: "u8 list" and n
  assume "xs \<noteq> [] \<and> low_bytes xs" and n: "length (base64 xs) < n"
  then have "encode_type1 xs (replicate n 0) = Inr (base64 xs @ 0 # replicate (n - length (base64 xs) - 1) 0)"
    by (simp add: encode_type1_def encodeBASE64_text bind_fault_Inr)
  also have "0 # replicate (n - length (base64 xs) - 1) 0 = replicate (n - length (base64 xs)) (0 :: u8)"
    using n by (cases "n - length (base64 xs)") simp_all
  finally show "encode_type1 xs (replicate n 0) = Inr (base64 xs @ replicate (n - length (base64 xs)) 0)" .
next
  fix xs rest :: "u8 list" and n
  assume xs: "xs \<noteq> [] \<and> low_bytes xs" and n: "length (base64 xs) \<le> n"
  then have l: "length xs < n"
    using div3_bounds(3) [of "length xs"] by (simp add: length_base64)
  then have "decode_type1 (base64 xs @ 0 # rest) (replicate n 0) =
      Inr (length xs, xs @ 0 # replicate (n - length xs - 1) 0)"
    using xs by (simp add: decode_type1_def decodeBASE64_text bind_fault_Inr)
  also have "0 # replicate (n - length xs - 1) 0 = replicate (n - length xs) (0 :: u8)"
    using l by (cases "n - length xs") simp_all
  finally show "decode_type1 (base64 xs @ 0 # rest) (replicate n 0) =
    Inr (length xs, xs @ replicate (n - length xs) 0)" .
qed

interpretation type2: base64_coder "encode_type2 temp" "base64d temp'" "\<lambda>xs. True" for temp temp'
proof
  fix xs :: "u8 list" and n
  assume "length (base64 xs) < n"
  then show "encode_type2 temp xs (replicate n 0) = Inr (base64 xs @ replicate (n - length (base64 xs)) 0)"
    using base64e_text [of xs "replicate n 0" temp 0 "[]"] by (simp add: encode_type2_def)
next
  fix xs rest :: "u8 list" and n
  assume n: "length (base64 xs) \<le> n"
  let ?l = "3 * ((length xs + 2) div 3)"
  have l: "length xs \<le> ?l" "?l \<le> n"
    using n div3_bounds(1, 2) [of "length xs"] by (simp_all only: length_base64)
  then have "replicate (?l - length xs) 0 @ replicate (n - ?l) 0 = replicate (n - length xs) (0 :: u8)"
    by (simp flip: replicate_add)
  then show "base64d temp' (base64 xs @ 0 # rest) (replicate n 0) =
    Inr (length xs, xs @ replicate (n - length xs) 0)"
    using base64d_text [of xs "replicate n 0" temp' rest] l(2) by simp
qed

section \<open>Bytes that are not ASCII\<close>

text \<open>
  A second or third byte of \<open>0x80\<close> or more is negative in \<open>buf\<close>, and so is the index made of it.
\<close>

lemma bytes_signed: "list_all (\<lambda>a :: u8. a < 0x80 \<or> sint a < 0) (map word_of_nat [0..<256])"
  by code_simp

lemma sint_high: "\<not> (a :: u8) < 0x80 \<Longrightarrow> sint a < 0"
  using byte_all [of "\<lambda>a. a < 0x80 \<or> sint a < 0" a] by (auto simp: bytes_signed)

lemma vec_all_negative: "k < 0 \<Longrightarrow> vec_all (ks @ k # ks') = Inl Out_of_bounds"
  by (simp add: vec_all_def)

lemma negative_index:
  "\<not> b < 0x80 \<Longrightarrow> vec_all (take (Suc (Suc k)) (group_indices [a, b, c, d])) = Inl Out_of_bounds"
  "\<not> c < 0x80 \<Longrightarrow> vec_all (take (Suc (Suc (Suc k))) (group_indices [a, b, c, d])) = Inl Out_of_bounds"
proof -
  assume "\<not> b < 0x80"
  then show "vec_all (take (Suc (Suc k)) (group_indices [a, b, c, d])) = Inl Out_of_bounds"
    using sint_high [of b] by (simp add: vec_all_def group_indices_def)
next
  assume "\<not> c < 0x80"
  then show "vec_all (take (Suc (Suc (Suc k))) (group_indices [a, b, c, d])) = Inl Out_of_bounds"
    using sint_high [of c] by (simp add: vec_all_def group_indices_def)
qed

lemma group_fault: "\<not> (b < 0x80 \<and> c < 0x80) \<Longrightarrow> vec_all (group_indices [a, b, c, d]) = Inl Out_of_bounds"
  using negative_index [of b 2 a c d] negative_index [of c 1 a b d] by (auto simp: group_indices_def)

lemma bind_fault_Inl: "bind_fault (Inl e) f = Inl e"
  by (simp add: bind_fault_def)

lemma encode_groups_fault:
  assumes "0 < m" and "\<not> low_bytes (a # b # c # xs)" and "j + length (base64 (a # b # c # xs)) + 1 \<le> length out"
  shows "bind_fault (encode_loop (3 * m) xs ([a, b, c, d], j, out)) (encode_end (3 * m + length xs)) = Inl Out_of_bounds"
  using assms
proof (induction xs arbitrary: m a b c j out rule: low_bytes.induct)
  case (1 x y z xs)
  have e: "3 * (m + 1) = Suc (Suc (Suc (3 * m)))"
    by simp
  show ?case
  proof (cases "b < 0x80 \<and> c < 0x80")
    case True
    let ?g = "digits_of (sextets a b c)"
    obtain out' where out': "put j ?g out = Inr out'" "length out' = length out"
      using "1.prems"(3) by (simp add: put_ok)
    have "bind_fault (encode_loop (3 * m) (x # y # z # xs) ([a, b, c, d], j, out))
        (encode_end (3 * m + length (x # y # z # xs))) =
      bind_fault (encode_loop (3 * (m + 1)) xs ([x, y, z, d], j + 4, out')) (encode_end (3 * (m + 1) + length xs))"
      unfolding e using \<open>0 < m\<close> True
      by (simp add: vec_all_group out' bind_fault_Inr mod3 numeral_2_eq_2)
    also have "\<dots> = Inl Out_of_bounds"
      using "1.IH" [of "m + 1" x y z "j + 4" out'] "1.prems" True out'(2) by simp
    finally show ?thesis .
  qed (use \<open>0 < m\<close> in \<open>simp add: group_fault bind_fault_Inl mod3\<close>)
next
  case (2 x y)
  show ?case
  proof (cases "b < 0x80 \<and> c < 0x80")
    case True
    then have "vec_all (take 3 (group_indices [x, y, 0, d])) = Inl Out_of_bounds"
      using negative_index(1) [of y 1 x 0 d] 2 by (simp add: numeral_3_eq_3)
    then show ?thesis
      using 2 True by (simp add: vec_all_group put_ok bind_fault_Inr bind_fault_Inl mod3 numeral_2_eq_2 encode_end_def)
  qed (use 2 in \<open>simp add: group_fault bind_fault_Inl mod3\<close>)
next
  case (3 x)
  then show ?case
    by (simp add: group_fault bind_fault_Inl mod3)
next
  case 4
  then show ?case
    by (simp add: group_fault bind_fault_Inl bind_fault_Inr mod3 encode_end_def)
qed

lemma encodeBASE64_fault:
  assumes "\<not> low_bytes xs" and "length (base64 xs) < length out"
  shows "encodeBASE64 xs out = Inl Out_of_bounds"
proof -
  have "bind_fault (encode_loop 0 xs ([0, 0, 0, 0], 0, out)) (encode_end (length xs)) = Inl Out_of_bounds"
  proof (cases xs rule: low_bytes.cases)
    case (1 a b c ys)
    have e: "3 * 1 = Suc (Suc (Suc 0))"
      by simp
    show ?thesis
      using encode_groups_fault [of 1 a b c ys 0 out 0, unfolded e] 1 assms by (simp add: bind_fault_Inr)
  next
    case (2 a b)
    have "vec_all (take 3 (group_indices [a, b, 0, 0])) = Inl Out_of_bounds"
      using negative_index(1) [of b 1 a 0 0] 2 assms by (simp add: numeral_3_eq_3)
    then show ?thesis
      using 2 by (simp add: bind_fault_Inr bind_fault_Inl encode_end_def)
  qed (use assms in simp_all)
  then show ?thesis
    by (simp add: encodeBASE64_def bind_fault_Inl flip: bind_fault_assoc)
qed

section \<open>Properties\<close>

text \<open>C25: What \<open>decodeBASE64\<close> reads from the text of \<open>encodeBASE64\<close> are the bytes that were
  encoded, terminated, and their number, for a non-empty string with no byte of \<open>0x80\<close> or more
  in the second or third place of a group of three, in cleared buffers with room for the
  text and its terminator.\<close>

theorem type1_round_trip:
  assumes "xs \<noteq> []" and "low_bytes xs" and "length (base64 xs) < n" and "length (base64 xs) \<le> m"
  shows "bind_fault (encode_type1 xs (replicate n 0)) (\<lambda>text. decode_type1 text (replicate m 0)) =
    Inr (length xs, xs @ replicate (m - length xs) 0)"
  using assms by (intro type1.round_trip) simp_all

theorem type1_round_trip_witness:
  "bind_fault (encode_type1 [0x4D] (replicate 6 0)) (\<lambda>text. decode_type1 text (replicate 6 0)) =
    Inr (1, [0x4D] @ replicate 5 0)"
  using type1_round_trip [of "[0x4D]" 6 6] by (simp add: length_base64)

text \<open>C26: \<open>base64d\<close> inverts \<open>base64e\<close> on every terminated string, whatever its bytes are and
  whatever the two unions hold at the start: the bytes, zeros behind them and \<open>*length\<close>.\<close>

theorem type2_round_trip:
  assumes "length (base64 xs) < n" and "length (base64 xs) \<le> m"
  shows "bind_fault (encode_type2 temp xs (replicate n 0)) (\<lambda>text. base64d temp' text (replicate m 0)) =
    Inr (length xs, xs @ replicate (m - length xs) 0)"
  using assms by (intro type2.round_trip) simp_all

theorem type2_round_trip_witness:
  "bind_fault (encode_type2 7 [0xFF, 0x80] (replicate 6 0)) (\<lambda>text. base64d 9 text (replicate 6 0)) =
    Inr (2, [0xFF, 0x80] @ replicate 4 0)"
  using type2_round_trip [of "[0xFF, 0x80]" 6 6 7 9] by (simp add: length_base64 numeral_2_eq_2)

text \<open>The loop over single characters of \<open>encodeBASE64\<close> and the bit fields of \<open>base64e\<close>
  write the same text.\<close>

theorem encoders_agree:
  assumes "xs \<noteq> []" and "low_bytes xs" and "length (base64 xs) < n"
  shows "encode_type1 xs (replicate n 0) = encode_type2 temp xs (replicate n 0)"
  using assms by (simp add: type1.encodes type2.encodes)

theorem encoders_agree_witness:
  "encode_type1 [0x4D] (replicate 6 0) = encode_type2 5 [0x4D] (replicate 6 0)"
  using encoders_agree [of "[0x4D]" 6 5] by (simp add: length_base64)

text \<open>\<open>encodeBASE64\<close> reads \<open>vec\<close> below its start exactly when a second or third byte of a group
  is \<open>0x80\<close> or more: the elements of \<open>buf\<close> are signed and their shift is negative.\<close>

theorem encodeBASE64_faults:
  assumes "xs \<noteq> []" and "length (base64 xs) < length out"
  shows "encodeBASE64 xs out = Inl Out_of_bounds \<longleftrightarrow> \<not> low_bytes xs"
proof (cases "low_bytes xs")
  case True
  then show ?thesis
    by (simp only: encodeBASE64_text [OF _ assms]) simp
next
  case False
  then show ?thesis
    using encodeBASE64_fault [OF _ assms(2)] by simp
qed

theorem encodeBASE64_faults_witness: "encodeBASE64 [0x4D, 0x80] [0, 0, 0, 0, 0] = Inl Out_of_bounds"
  using encodeBASE64_faults [of "[0x4D, 0x80]" "[0, 0, 0, 0, 0]"] by (simp add: length_base64)

end
