(* ===== verification/Arrays.thy ===== *)
theory Arrays
  imports Prelude "HOL-Library.Multiset"
begin

text \<open>
  Arrays whose elements are read and written by index, with a fault outside of them, and what
  the sorting programs of \<open>test_sort\<close> have in common: the contract of a sorting routine that works in place.
  The elements are the values of the C elements: a \<open>char\<close> is only compared, as the integer it is
  promoted to, and moved.
\<close>

section \<open>Reading and writing by index\<close>

definition load :: "'a list \<Rightarrow> int \<Rightarrow> c_fault + 'a" where
  "load ar i = (if 0 \<le> i \<and> i < int (length ar) then Inr (ar ! nat i) else Inl Out_of_bounds)"

definition store :: "'a list \<Rightarrow> int \<Rightarrow> 'a \<Rightarrow> c_fault + 'a list" where
  "store ar i x = (if 0 \<le> i \<and> i < int (length ar) then Inr (ar[nat i := x]) else Inl Out_of_bounds)"

text \<open>The macro \<open>swap(a, b)\<close> on two elements: \<open>t = a; a = b; b = t\<close>.\<close>

definition swap_at :: "'a list \<Rightarrow> int \<Rightarrow> int \<Rightarrow> c_fault + 'a list" where
  "swap_at ar i j =
    bind_fault (load ar i) (\<lambda>t. bind_fault (load ar j) (\<lambda>b.
    bind_fault (store ar i b) (\<lambda>ar. store ar j t)))"

lemma load_nat: "i < length ar \<Longrightarrow> load ar (int i) = Inr (ar ! i)"
  by (simp add: load_def)

lemma store_nat: "i < length ar \<Longrightarrow> store ar (int i) x = Inr (ar[i := x])"
  by (simp add: store_def)

lemma swap_nat: "i < length ar \<Longrightarrow> j < length ar \<Longrightarrow> swap_at ar (int i) (int j) = Inr (ar[i := ar ! j, j := ar ! i])"
  by (simp add: swap_at_def load_nat store_nat bind_fault_Inr)

lemma mset_swap: "i < length ar \<Longrightarrow> j < length ar \<Longrightarrow> mset (ar[i := ar ! j, j := ar ! i]) = mset ar"
  by (cases "i = j") (simp_all add: mset_swap)

text \<open>The elements before an index are a permutation when all are and those behind are unchanged.\<close>

lemma mset_take_eq:
  assumes "mset ar' = mset ar" and "drop n ar' = drop n ar"
  shows "mset (take n ar') = mset (take n ar)"
proof -
  have "mset (take n ar') + mset (drop n ar') = mset (take n ar) + mset (drop n ar)"
    using assms(1) by (simp flip: mset_append)
  then show ?thesis
    using assms(2) by simp
qed

lemma drop_swap: "i < n \<Longrightarrow> j < n \<Longrightarrow> drop n (ar[i := x, j := y]) = drop n ar"
  by simp

section \<open>Sorting in place\<close>

text \<open>A routine sorts the first \<open>num\<close> elements and leaves the others.\<close>

locale in_place_sort =
  fixes sorter :: "int list \<Rightarrow> int \<Rightarrow> c_fault + int list"
  assumes sorts: "0 \<le> num \<Longrightarrow> nat num \<le> length ar \<Longrightarrow>
      sorter ar num = Inr (sort (take (nat num) ar) @ drop (nat num) ar)"
begin

lemma sorts_all: "sorter ar (int (length ar)) = Inr (sort ar)"
  using sorts [of "int (length ar)" ar] by simp

lemma sort_again: "bind_fault (sorter ar (int (length ar))) (\<lambda>ar. sorter ar (int (length ar))) = Inr (sort ar)"
  using sorts_all [of "sort ar"] by (simp add: sorts_all bind_fault_Inr sorted_sort_id)

lemma permuted: "mset ar = mset ar' \<Longrightarrow> sorter ar (int (length ar)) = sorter ar' (int (length ar'))"
  by (simp add: sorts_all properties_for_sort [of "sort ar" ar'])

end

text \<open>What a proof shows of a routine, and the contract.\<close>

lemma sorted_result:
  assumes "sorted (take n ar')" and "mset (take n ar') = mset (take n ar)" and "drop n ar' = drop n ar"
  shows "ar' = sort (take n ar) @ drop n ar"
proof -
  have "sort (take n ar) = take n ar'"
    using assms(1, 2) by (intro properties_for_sort) simp_all
  then show ?thesis
    using assms(3) by (metis append_take_drop_id)
qed

end
