(* ===== verification/Sorts.thy ===== *)
theory Sorts
  imports Arrays
begin

text \<open>
  The three quadratic sorting programs of \<open>test_sort\<close>: \<open>bubbleSort\<close>, \<open>selectionSort\<close> and \<open>insertionSort\<close>.
  Their loops are recursions over the loop counters; a counter is never negative, so that the counters are
  natural numbers and a negative \<open>num\<close> is \<open>0\<close>, for which no loop runs.
\<close>

section \<open>Bubble sort\<close>

function bubble_inner :: "nat \<Rightarrow> nat \<Rightarrow> int list \<Rightarrow> c_fault + int list" where
  "bubble_inner m j ar =
    (if j < m then
       bind_fault (load ar (int j - 1)) (\<lambda>a. bind_fault (load ar (int j)) (\<lambda>b.
       bind_fault (if a > b then swap_at ar (int j - 1) (int j) else Inr ar) (bubble_inner m (j + 1))))
     else Inr ar)"
  by pat_completeness auto
termination
  by (relation "measure (\<lambda>(m, j, ar). m - j)") auto

function bubble_outer :: "nat \<Rightarrow> nat \<Rightarrow> int list \<Rightarrow> c_fault + int list" where
  "bubble_outer num i ar =
    (if i < num - 1 then bind_fault (bubble_inner (num - i) 1 ar) (bubble_outer num (i + 1)) else Inr ar)"
  by pat_completeness auto
termination
  by (relation "measure (\<lambda>(num, i, ar). num - i)") auto

definition bubbleSort :: "int list \<Rightarrow> int \<Rightarrow> c_fault + int list" where
  "bubbleSort ar num = bubble_outer (nat num) 0 ar"

declare bubble_inner.simps [simp del] bubble_outer.simps [simp del]

lemma bubble_inner_max:
  assumes "1 \<le> j" and "j \<le> m" and "m \<le> length ar" and "\<forall>k < j. ar ! k \<le> ar ! (j - 1)"
  shows "\<exists>ar'. bubble_inner m j ar = Inr ar' \<and> mset ar' = mset ar \<and> drop m ar' = drop m ar
    \<and> (\<forall>k < m. ar' ! k \<le> ar' ! (m - 1))"
  using assms
proof (induction m j ar rule: bubble_inner.induct)
  case (1 m j ar)
  show ?case
  proof (cases "j < m")
    case True
    define ar1 where "ar1 = (if ar ! (j - 1) > ar ! j then ar[j - 1 := ar ! j, j := ar ! (j - 1)] else ar)"
    have loads: "load ar (int j - 1) = Inr (ar ! (j - 1))" "load ar (int j) = Inr (ar ! j)"
      using 1 True load_nat [of "j - 1" ar] load_nat [of j ar] by (simp_all add: of_nat_diff)
    have swaps: "swap_at ar (int j - 1) (int j) = Inr (ar[j - 1 := ar ! j, j := ar ! (j - 1)])"
      using 1 True swap_nat [of "j - 1" ar j] by (simp add: of_nat_diff)
    have step: "bubble_inner m j ar = bubble_inner m (j + 1) ar1"
      using True by (subst bubble_inner.simps) (simp add: loads swaps bind_fault_Inr ar1_def)
    have ar1: "mset ar1 = mset ar" "drop m ar1 = drop m ar" "length ar1 = length ar"
      using 1 True mset_swap [of "j - 1" ar j] by (simp_all add: ar1_def)
    have "\<forall>k < j + 1. ar1 ! k \<le> ar1 ! j"
      using "1.prems" True by (auto simp: ar1_def nth_list_update less_Suc_eq)
    then show ?thesis
      using "1.IH" [OF True, of ar1] "1.prems" True step ar1 by simp
  qed (use 1 in \<open>auto simp: bubble_inner.simps\<close>)
qed

text \<open>The elements from \<open>m\<close> to \<open>num\<close> are in their places.\<close>

definition placed :: "nat \<Rightarrow> nat \<Rightarrow> int list \<Rightarrow> bool" where
  "placed m num ar \<longleftrightarrow> sorted (drop m (take num ar)) \<and> (\<forall>x \<in> set (take m ar). \<forall>y \<in> set (drop m (take num ar)). x \<le> y)"

lemma placed_all: "m \<le> 1 \<Longrightarrow> num \<le> length ar \<Longrightarrow> placed m num ar \<Longrightarrow> sorted (take num ar)"
proof -
  assume m: "m \<le> 1" "num \<le> length ar" "placed m num ar"
  have "take num ar = take m (take num ar) @ drop m (take num ar)"
    by (rule append_take_drop_id [symmetric])
  moreover have "sorted (take m (take num ar))"
    using m(1) by (intro sorted01) simp
  moreover have "\<forall>x \<in> set (take m (take num ar)). \<forall>y \<in> set (drop m (take num ar)). x \<le> y"
    using m(3) by (auto simp: placed_def min_def dest: in_set_takeD)
  ultimately show ?thesis
    using m(3) unfolding placed_def by (metis sorted_append)
qed

lemma placed_step:
  assumes "placed m num ar" and "1 \<le> m" and "m \<le> num" and "num \<le> length ar"
    and "mset ar' = mset ar" and "drop m ar' = drop m ar" and "\<forall>k < m. ar' ! k \<le> ar' ! (m - 1)"
  shows "placed (m - 1) num ar'"
proof -
  have len: "length ar' = length ar"
    using assms(5) by (metis size_mset)
  have rest: "drop m (take num ar') = drop m (take num ar)"
    using assms(6) by (simp add: drop_take)
  have front: "set (take m ar') = set (take m ar)"
    using mset_take_eq [OF assms(5, 6)] by (metis set_mset_mset)
  have "drop (m - 1) (take num ar') = ar' ! (m - 1) # drop m (take num ar')"
    using assms(2-4) len Cons_nth_drop_Suc [of "m - 1" "take num ar'"] by simp
  moreover have "ar' ! (m - 1) \<in> set (take m ar')"
    using assms(2-4) len by (auto simp: set_conv_nth intro!: exI [of _ "m - 1"])
  moreover have "\<forall>x \<in> set (take (m - 1) ar'). x \<le> ar' ! (m - 1)"
    using assms(7) len assms(3, 4) by (auto simp: set_conv_nth)
  moreover have "set (take (m - 1) ar') \<subseteq> set (take m ar')"
    by (rule set_take_subset_set_take) simp
  ultimately show ?thesis
    using assms(1) unfolding placed_def rest front by auto
qed

lemma bubble_outer_sorts:
  assumes "num \<le> length ar" and "placed (num - i) num ar"
  shows "\<exists>ar'. bubble_outer num i ar = Inr ar' \<and> mset ar' = mset ar \<and> drop num ar' = drop num ar \<and> sorted (take num ar')"
  using assms
proof (induction num i ar rule: bubble_outer.induct)
  case (1 num i ar)
  show ?case
  proof (cases "i < num - 1")
    case True
    have "\<exists>ar1. bubble_inner (num - i) 1 ar = Inr ar1 \<and> mset ar1 = mset ar \<and> drop (num - i) ar1 = drop (num - i) ar
        \<and> (\<forall>k < num - i. ar1 ! k \<le> ar1 ! (num - i - 1))"
      using 1 True by (intro bubble_inner_max) auto
    then obtain ar1 where ar1: "bubble_inner (num - i) 1 ar = Inr ar1" "mset ar1 = mset ar"
      "drop (num - i) ar1 = drop (num - i) ar" "\<forall>k < num - i. ar1 ! k \<le> ar1 ! (num - i - 1)"
      by blast
    have "length ar1 = length ar"
      using ar1(2) by (metis size_mset)
    moreover have "placed (num - (i + 1)) num ar1"
      using placed_step [OF "1.prems"(2) _ _ "1.prems"(1) ar1(2-4)] True by simp
    moreover have "drop num ar1 = drop num ar"
      using arg_cong [OF ar1(3), of "drop i"] True by simp
    ultimately show ?thesis
      using "1.IH" [OF True, of ar1] "1.prems"(1) ar1(1, 2) True
      by (subst bubble_outer.simps) (simp add: bind_fault_Inr)
  next
    case False
    then show ?thesis
      using 1 placed_all [of "num - i" num ar] by (subst bubble_outer.simps) simp
  qed
qed

lemma bubbleSort_sorts:
  assumes "nat num \<le> length ar"
  shows "bubbleSort ar num = Inr (sort (take (nat num) ar) @ drop (nat num) ar)"
proof -
  have "placed (nat num - 0) (nat num) ar"
    by (simp add: placed_def)
  then obtain ar' where r: "bubble_outer (nat num) 0 ar = Inr ar'" "mset ar' = mset ar"
    "drop (nat num) ar' = drop (nat num) ar" "sorted (take (nat num) ar')"
    using bubble_outer_sorts [OF assms] by blast
  then show ?thesis
    using sorted_result [OF r(4) mset_take_eq [OF r(2, 3)] r(3)] by (simp add: bubbleSort_def)
qed

interpretation bubble: in_place_sort bubbleSort
  by unfold_locales (rule bubbleSort_sorts)

section \<open>Selection sort\<close>

function min_index :: "nat \<Rightarrow> nat \<Rightarrow> nat \<Rightarrow> int list \<Rightarrow> c_fault + nat" where
  "min_index num minIdx j ar =
    (if j < num then
       bind_fault (load ar (int minIdx)) (\<lambda>a. bind_fault (load ar (int j)) (\<lambda>b.
       min_index num (if a > b then j else minIdx) (j + 1) ar))
     else Inr minIdx)"
  by pat_completeness auto
termination
  by (relation "measure (\<lambda>(num, minIdx, j, ar). num - j)") auto

function selection_outer :: "nat \<Rightarrow> nat \<Rightarrow> int list \<Rightarrow> c_fault + int list" where
  "selection_outer num i ar =
    (if i < num - 1 then
       bind_fault (min_index num i (i + 1) ar) (\<lambda>minIdx.
       bind_fault (if minIdx \<noteq> i then swap_at ar (int minIdx) (int i) else Inr ar) (selection_outer num (i + 1)))
     else Inr ar)"
  by pat_completeness auto
termination
  by (relation "measure (\<lambda>(num, i, ar). num - i)") auto

definition selectionSort :: "int list \<Rightarrow> int \<Rightarrow> c_fault + int list" where
  "selectionSort ar num = selection_outer (nat num) 0 ar"

declare min_index.simps [simp del] selection_outer.simps [simp del]

lemma min_index_min:
  assumes "i \<le> minIdx" and "minIdx < j" and "j \<le> num" and "num \<le> length ar" and "\<forall>k. i \<le> k \<and> k < j \<longrightarrow> ar ! minIdx \<le> ar ! k"
  shows "\<exists>m. min_index num minIdx j ar = Inr m \<and> i \<le> m \<and> m < num \<and> (\<forall>k. i \<le> k \<and> k < num \<longrightarrow> ar ! m \<le> ar ! k)"
  using assms
proof (induction num minIdx j ar rule: min_index.induct)
  case (1 num minIdx j ar)
  show ?case
  proof (cases "j < num")
    case True
    let ?m = "if ar ! minIdx > ar ! j then j else minIdx"
    have "min_index num minIdx j ar = min_index num ?m (j + 1) ar"
      using True "1.prems" by (subst min_index.simps) (simp add: load_nat bind_fault_Inr)
    moreover have "\<forall>k. i \<le> k \<and> k < j + 1 \<longrightarrow> ar ! ?m \<le> ar ! k"
      using "1.prems"(5) by (auto simp: less_Suc_eq)
    ultimately show ?thesis
      using "1.IH" [OF True, of "ar ! j" "ar ! minIdx"] "1.prems" True by (auto split: if_splits)
  qed (use 1 in \<open>auto simp: min_index.simps\<close>)
qed

text \<open>The first \<open>i\<close> elements are in their places.\<close>

definition chosen :: "nat \<Rightarrow> nat \<Rightarrow> int list \<Rightarrow> bool" where
  "chosen i num ar \<longleftrightarrow> sorted (take i ar) \<and> (\<forall>k < i. \<forall>l. i \<le> l \<and> l < num \<longrightarrow> ar ! k \<le> ar ! l)"

lemma chosen_step:
  assumes "chosen i num ar" and "i \<le> m" and "m < num" and "num \<le> length ar"
    and "\<forall>k. i \<le> k \<and> k < num \<longrightarrow> ar ! m \<le> ar ! k"
  shows "chosen (i + 1) num (ar[m := ar ! i, i := ar ! m])"
proof -
  let ?r = "ar[m := ar ! i, i := ar ! m]"
  have "take (i + 1) ?r = take i ar @ [ar ! m]"
    using assms(2-4) by (simp add: take_Suc_conv_app_nth)
  moreover have "\<forall>x \<in> set (take i ar). x \<le> ar ! m"
    using assms(1-4) by (auto simp: chosen_def set_conv_nth)
  moreover have "\<forall>k < i + 1. \<forall>l. i + 1 \<le> l \<and> l < num \<longrightarrow> ?r ! k \<le> ?r ! l"
    using assms by (auto simp: chosen_def nth_list_update less_Suc_eq)
  ultimately show ?thesis
    using assms(1) by (simp add: chosen_def sorted_append)
qed

lemma selection_outer_sorts:
  assumes "num \<le> length ar" and "chosen i num ar" and "i \<le> num"
  shows "\<exists>ar'. selection_outer num i ar = Inr ar' \<and> mset ar' = mset ar \<and> drop num ar' = drop num ar \<and> sorted (take num ar')"
  using assms
proof (induction num i ar rule: selection_outer.induct)
  case (1 num i ar)
  show ?case
  proof (cases "i < num - 1")
    case True
    have "\<exists>m. min_index num i (i + 1) ar = Inr m \<and> i \<le> m \<and> m < num \<and> (\<forall>k. i \<le> k \<and> k < num \<longrightarrow> ar ! m \<le> ar ! k)"
      using "1.prems" True by (intro min_index_min) (auto simp: less_Suc_eq)
    then obtain m where m: "min_index num i (i + 1) ar = Inr m" "i \<le> m" "m < num"
      "\<forall>k. i \<le> k \<and> k < num \<longrightarrow> ar ! m \<le> ar ! k"
      by blast
    let ?r = "ar[m := ar ! i, i := ar ! m]"
    have swap: "(if m \<noteq> i then swap_at ar (int m) (int i) else Inr ar) = Inr ?r"
      using m(2, 3) "1.prems"(1) by (auto simp: swap_nat)
    have "mset ?r = mset ar"
      using m(2, 3) "1.prems"(1) by (intro mset_swap) simp_all
    moreover have "drop num ?r = drop num ar"
      using m(2, 3) by simp
    ultimately show ?thesis
      using "1.IH" [OF True, of ?r] chosen_step [OF "1.prems"(2) m(2, 3) "1.prems"(1) m(4)] "1.prems"(1) True m(1)
      by (subst selection_outer.simps) (simp add: swap bind_fault_Inr)
  next
    case False
    have "sorted (take num ar)"
    proof (cases "i = num")
      case True
      then show ?thesis
        using "1.prems"(2) by (simp add: chosen_def)
    next
      case i: False
      then have "num = i + 1"
        using False "1.prems"(3) by simp
      then show ?thesis
        using "1.prems"(1, 2) by (auto simp: chosen_def take_Suc_conv_app_nth sorted_append set_conv_nth)
    qed
    then show ?thesis
      using False by (subst selection_outer.simps) simp
  qed
qed

lemma selectionSort_sorts:
  assumes "nat num \<le> length ar"
  shows "selectionSort ar num = Inr (sort (take (nat num) ar) @ drop (nat num) ar)"
proof -
  have "chosen 0 (nat num) ar"
    by (simp add: chosen_def)
  then obtain ar' where r: "selection_outer (nat num) 0 ar = Inr ar'" "mset ar' = mset ar"
    "drop (nat num) ar' = drop (nat num) ar" "sorted (take (nat num) ar')"
    using selection_outer_sorts [OF assms] by blast
  then show ?thesis
    using sorted_result [OF r(4) mset_take_eq [OF r(2, 3)] r(3)] by (simp add: selectionSort_def)
qed

interpretation selection: in_place_sort selectionSort
  by unfold_locales (rule selectionSort_sorts)

section \<open>Insertion sort\<close>

text \<open>The inner loop, down from \<open>j\<close>: where the hole ends up, and the array.\<close>

fun insertion_shift :: "int \<Rightarrow> nat \<Rightarrow> int list \<Rightarrow> c_fault + (nat \<times> int list)" where
  "insertion_shift temp 0 ar = Inr (0, ar)"
| "insertion_shift temp (Suc j) ar =
    bind_fault (load ar (int j)) (\<lambda>a.
      if a > temp then bind_fault (store ar (int (Suc j)) a) (insertion_shift temp j)
      else Inr (Suc j, ar))"

function insertion_outer :: "nat \<Rightarrow> nat \<Rightarrow> int list \<Rightarrow> c_fault + int list" where
  "insertion_outer num i ar =
    (if i < num then
       bind_fault (load ar (int i)) (\<lambda>temp.
       bind_fault (insertion_shift temp i ar) (\<lambda>(j, ar).
       bind_fault (store ar (int j) temp) (insertion_outer num (i + 1))))
     else Inr ar)"
  by pat_completeness auto
termination
  by (relation "measure (\<lambda>(num, i, ar). num - i)") auto

definition insertionSort :: "int list \<Rightarrow> int \<Rightarrow> c_fault + int list" where
  "insertionSort ar num = insertion_outer (nat num) 0 ar"

declare insertion_outer.simps [simp del]

lemma insertion_shift_inserts:
  assumes "j < length ar" and "sorted (take j ar)"
  shows "\<exists>k ar'. insertion_shift temp j ar = Inr (k, ar') \<and> k \<le> j \<and> length ar' = length ar
    \<and> sorted (take (j + 1) (ar'[k := temp])) \<and> mset (take (j + 1) (ar'[k := temp])) = add_mset temp (mset (take j ar))
    \<and> drop (j + 1) ar' = drop (j + 1) ar"
  using assms
proof (induction j arbitrary: ar)
  case 0
  then show ?case
    by (cases ar) simp_all
next
  case (Suc j)
  have take: "take (Suc j) ar = take j ar @ [ar ! j]"
    using Suc.prems(1) by (simp add: take_Suc_conv_app_nth)
  show ?case
  proof (cases "ar ! j > temp")
    case True
    let ?ar = "ar[Suc j := ar ! j]"
    have "sorted (take j ?ar)" "j < length ?ar"
      using Suc.prems take by (simp_all add: sorted_append)
    from Suc.IH [OF this(2, 1)] obtain k ar' where r: "insertion_shift temp j ?ar = Inr (k, ar')" "k \<le> j"
      "length ar' = length ar" "sorted (take (j + 1) (ar'[k := temp]))"
      "mset (take (j + 1) (ar'[k := temp])) = add_mset temp (mset (take j ar))" "drop (j + 1) ar' = drop (j + 1) ?ar"
      by auto
    have "drop (j + 1) ar' = ar ! j # drop (j + 2) ar"
      using r(6) Suc.prems(1) Cons_nth_drop_Suc [of "j + 1" ?ar] by simp
    then have last: "ar' ! (j + 1) = ar ! j" "drop (j + 2) ar' = drop (j + 2) ar"
      using r(3) Suc.prems(1) Cons_nth_drop_Suc [of "j + 1" ar'] by simp_all
    have whole: "take (Suc j + 1) (ar'[k := temp]) = take (j + 1) (ar'[k := temp]) @ [ar ! j]"
      using r(2, 3) last(1) Suc.prems(1) by (simp add: take_Suc_conv_app_nth nth_list_update)
    have "\<forall>x \<in> set (take (j + 1) (ar'[k := temp])). x \<le> ar ! j"
      using arg_cong [OF r(5), of set_mset] True Suc.prems(2) take by (simp add: sorted_append)
    then show ?thesis
      using True Suc.prems(1) r whole last(2) take store_nat [of "Suc j" ar]
      by (intro exI [of _ k] exI [of _ ar']) (simp add: load_nat store_nat bind_fault_Inr sorted_append)
  next
    case False
    have "take (Suc j + 1) (ar[Suc j := temp]) = take (Suc j) ar @ [temp]"
      using Suc.prems(1) by (simp add: take_Suc_conv_app_nth)
    moreover have "\<forall>x \<in> set (take (Suc j) ar). x \<le> temp"
      using Suc.prems(2) take False by (auto simp: sorted_append)
    ultimately show ?thesis
      using False Suc.prems by (simp add: load_nat bind_fault_Inr sorted_append)
  qed
qed

lemma insertion_outer_sorts:
  assumes "num \<le> length ar" and "sorted (take i ar)" and "i \<le> num"
  shows "\<exists>ar'. insertion_outer num i ar = Inr ar' \<and> mset ar' = mset ar \<and> drop num ar' = drop num ar \<and> sorted (take num ar')"
  using assms
proof (induction num i ar rule: insertion_outer.induct)
  case (1 num i ar)
  show ?case
  proof (cases "i < num")
    case True
    have i: "i < length ar"
      using True "1.prems"(1) by simp
    obtain k ar' where r: "insertion_shift (ar ! i) i ar = Inr (k, ar')" "k \<le> i" "length ar' = length ar"
      "sorted (take (i + 1) (ar'[k := ar ! i]))"
      "mset (take (i + 1) (ar'[k := ar ! i])) = add_mset (ar ! i) (mset (take i ar))" "drop (i + 1) ar' = drop (i + 1) ar"
      using insertion_shift_inserts [OF i "1.prems"(2)] by blast
    let ?r = "ar'[k := ar ! i]"
    have "mset (take (i + 1) ?r) = mset (take (i + 1) ar)"
      using r(5) i by (simp add: take_Suc_conv_app_nth)
    moreover have d: "drop (i + 1) ?r = drop (i + 1) ar"
      using r(2, 6) by simp
    ultimately have "mset ?r = mset ar"
      by (metis append_take_drop_id mset_append)
    moreover have "drop num ?r = drop num ar"
      using arg_cong [OF d, of "drop (num - (i + 1))"] True by simp
    ultimately show ?thesis
      using "1.IH" [OF True, of ?r] r "1.prems"(1) True i
      by (subst insertion_outer.simps) (simp add: load_nat store_nat bind_fault_Inr)
  qed (use 1 in \<open>simp add: insertion_outer.simps\<close>)
qed

lemma insertionSort_sorts:
  assumes "nat num \<le> length ar"
  shows "insertionSort ar num = Inr (sort (take (nat num) ar) @ drop (nat num) ar)"
proof -
  obtain ar' where r: "insertion_outer (nat num) 0 ar = Inr ar'" "mset ar' = mset ar"
    "drop (nat num) ar' = drop (nat num) ar" "sorted (take (nat num) ar')"
    using insertion_outer_sorts [OF assms, of 0] by auto
  then show ?thesis
    using sorted_result [OF r(4) mset_take_eq [OF r(2, 3)] r(3)] by (simp add: insertionSort_def)
qed

interpretation insertion: in_place_sort insertionSort
  by unfold_locales (rule insertionSort_sorts)

section \<open>Properties\<close>

text \<open>C27: The three sorting routines end without leaving the array, sort its first \<open>num\<close> elements and
  leave the others: they return the same array.\<close>

theorem sorters_sort:
  assumes "0 \<le> num" and "nat num \<le> length ar"
  shows "bubbleSort ar num = Inr (sort (take (nat num) ar) @ drop (nat num) ar)
    \<and> selectionSort ar num = Inr (sort (take (nat num) ar) @ drop (nat num) ar)
    \<and> insertionSort ar num = Inr (sort (take (nat num) ar) @ drop (nat num) ar)"
  using assms by (simp add: bubble.sorts selection.sorts insertion.sorts)

theorem sorters_sort_witness: "bubbleSort [3, 1, 2, 0] 3 = Inr [1, 2, 3, 0] \<and> insertionSort [3, 1, 2, 0] 3 = Inr [1, 2, 3, 0]"
  using sorters_sort [of 3 "[3, 1, 2, 0]"] by (simp add: numeral_3_eq_3)

end
