(* ===== verification/QuickSort.thy ===== *)
theory QuickSort
  imports Arrays
begin

text \<open>
  \<open>quickSort\<close> of \<open>test_sort/quick_sort\<close>. The recursive calls get pointers into the array, so that the model
  keeps the whole array and the index \<open>p\<close> that \<open>ar\<close> points to: \<open>ar[i]\<close> is the element \<open>p + i\<close>. The
  scan from the right has no bound, and \<open>ar[-1]\<close> is an element when \<open>ar\<close> points behind the start.
\<close>

section \<open>The program\<close>

function scan_left :: "int list \<Rightarrow> int \<Rightarrow> int \<Rightarrow> int \<Rightarrow> c_fault + int" where
  "scan_left ar p left key =
    (case load ar (p + left) of
       Inl e \<Rightarrow> Inl e
     | Inr x \<Rightarrow> if x < key then scan_left ar p (left + 1) key else Inr left)"
  by pat_completeness auto
termination
  by (relation "measure (\<lambda>(ar, p, left, key). nat (int (length ar) - (p + left)))")
    (auto simp: load_def split: if_splits)

function scan_right :: "int list \<Rightarrow> int \<Rightarrow> int \<Rightarrow> int \<Rightarrow> c_fault + int" where
  "scan_right ar p right key =
    (case load ar (p + right) of
       Inl e \<Rightarrow> Inl e
     | Inr x \<Rightarrow> if x > key then scan_right ar p (right - 1) key else Inr right)"
  by pat_completeness auto
termination
  by (relation "measure (\<lambda>(ar, p, right, key). nat (p + right + 1))")
    (auto simp: load_def split: if_splits)

declare scan_left.simps [simp del] scan_right.simps [simp del]

lemma scan_left_ge: "scan_left ar p left key = Inr l \<Longrightarrow> left \<le> l"
proof (induction ar p left key rule: scan_left.induct)
  case (1 ar p left key)
  then show ?case
    by (subst (asm) scan_left.simps) (fastforce split: sum.splits if_splits)
qed

lemma scan_right_le: "scan_right ar p right key = Inr r \<Longrightarrow> r \<le> right"
proof (induction ar p right key rule: scan_right.induct)
  case (1 ar p right key)
  then show ?case
    by (subst (asm) scan_right.simps) (fastforce split: sum.splits if_splits)
qed

function quick_partition :: "int list \<Rightarrow> int \<Rightarrow> int \<Rightarrow> int \<Rightarrow> int \<Rightarrow> c_fault + (int \<times> int list)" where
  "quick_partition ar p left right key =
    (case scan_left ar p left key of
       Inl e \<Rightarrow> Inl e
     | Inr left \<Rightarrow>
       (case scan_right ar p right key of
          Inl e \<Rightarrow> Inl e
        | Inr right \<Rightarrow>
          if left \<ge> right then Inr (left, ar)
          else
            (case swap_at ar (p + left) (p + right) of
               Inl e \<Rightarrow> Inl e
             | Inr ar \<Rightarrow> quick_partition ar p (left + 1) (right - 1) key)))"
  by pat_completeness auto
termination
proof (relation "measure (\<lambda>(ar, p, left, right, key). nat (right - left))", goal_cases)
  case (2 ar p left right key l r ar')
  then show ?case
    using scan_left_ge [of ar p left key l] scan_right_le [of ar p right key r] by simp
qed simp

declare quick_partition.simps [simp del]

lemma load_swap_other:
  "swap_at ar i j = Inr ar' \<Longrightarrow> k \<noteq> i \<Longrightarrow> k \<noteq> j \<Longrightarrow> load ar' k = load ar k"
  by (auto simp: swap_at_def bind_fault_def load_def store_def nth_list_update split: sum.splits if_splits)

lemma scan_left_stops:
  "scan_left ar p left key = Inr l \<Longrightarrow> left \<le> n \<Longrightarrow> load ar (p + n) = Inr x \<Longrightarrow> key \<le> x \<Longrightarrow> l \<le> n"
proof (induction ar p left key rule: scan_left.induct)
  case (1 ar p left key)
  then show ?case
    by (subst (asm) (2) scan_left.simps) (cases "left = n"; fastforce split: sum.splits if_splits)
qed

lemma partition_index:
  "quick_partition ar p left right key = Inr (l, ar') \<Longrightarrow> load ar (p + n) = Inr key \<Longrightarrow> left \<le> n \<Longrightarrow> right < n \<Longrightarrow>
    left \<le> l \<and> l \<le> n"
proof (induction ar p left right key arbitrary: rule: quick_partition.induct)
  case (1 ar p left right key)
  obtain l1 r1 where s: "scan_left ar p left key = Inr l1" "scan_right ar p right key = Inr r1"
    using "1.prems"(1) by (subst (asm) quick_partition.simps) (auto split: sum.splits)
  have b: "left \<le> l1" "l1 \<le> n" "r1 \<le> right"
    using scan_left_ge [OF s(1)] scan_left_stops [OF s(1) "1.prems"(3, 2)] scan_right_le [OF s(2)] by simp_all
  show ?case
  proof (cases "l1 \<ge> r1")
    case True
    then show ?thesis
      using "1.prems"(1) s b by (subst (asm) quick_partition.simps) simp
  next
    case False
    obtain ar1 where ar1: "swap_at ar (p + l1) (p + r1) = Inr ar1"
      "quick_partition ar1 p (l1 + 1) (r1 - 1) key = Inr (l, ar')"
      using "1.prems"(1) s False by (subst (asm) quick_partition.simps) (auto split: sum.splits)
    have "load ar1 (p + n) = Inr key"
      using load_swap_other [OF ar1(1), of "p + n"] "1.prems"(2, 4) b False by simp
    then show ?thesis
      using "1.IH" [OF s False ar1] b "1.prems"(4) False by simp
  qed
qed

function quickSort :: "int list \<Rightarrow> int \<Rightarrow> int \<Rightarrow> c_fault + int list" where
  "quickSort ar p num =
    (if num \<le> 1 then Inr ar
     else
       (case load ar (p + (num - 1)) of
          Inl e \<Rightarrow> Inl e
        | Inr key \<Rightarrow>
          (case quick_partition ar p 0 (num - 2) key of
             Inl e \<Rightarrow> Inl e
           | Inr (left, ar) \<Rightarrow>
             (case swap_at ar (p + left) (p + (num - 1)) of
                Inl e \<Rightarrow> Inl e
              | Inr ar \<Rightarrow>
                (case quickSort ar p left of
                   Inl e \<Rightarrow> Inl e
                 | Inr ar \<Rightarrow> quickSort ar (p + left + 1) (num - left - 1))))))"
  by pat_completeness auto
termination
proof (relation "measure (\<lambda>(ar, p, num). nat num)", goal_cases)
  case (2 ar p num key la left ar1 ar2)
  then show ?case
    using partition_index [of ar p 0 "num - 2" key left ar1 "num - 1"] by simp
next
  case (3 ar p num key la left ar1 ar2 ar3)
  then show ?case
    using partition_index [of ar p 0 "num - 2" key left ar1 "num - 1"] by simp
qed simp

declare quickSort.simps [simp del]

section \<open>Partition\<close>

text \<open>The element at \<open>ar + k\<close>, for indices inside.\<close>

definition elem :: "int list \<Rightarrow> int \<Rightarrow> int \<Rightarrow> int" where
  "elem ar p k = ar ! nat (p + k)"

definition inside :: "int list \<Rightarrow> int \<Rightarrow> int \<Rightarrow> bool" where
  "inside ar p k \<longleftrightarrow> 0 \<le> p + k \<and> p + k < int (length ar)"

lemma load_elem: "inside ar p k \<Longrightarrow> load ar (p + k) = Inr (elem ar p k)"
  by (simp add: load_def inside_def elem_def)

lemma swap_elem:
  assumes "inside ar p i" and "inside ar p j"
  shows "\<exists>ar'. swap_at ar (p + i) (p + j) = Inr ar' \<and> mset ar' = mset ar \<and> length ar' = length ar
    \<and> (\<forall>k. inside ar p k \<longrightarrow> elem ar' p k = (if k = i then elem ar p j else if k = j then elem ar p i else elem ar p k))
    \<and> (\<forall>n. int n \<le> p + i \<and> int n \<le> p + j \<longrightarrow> take n ar' = take n ar)
    \<and> (\<forall>n. p + i < int n \<and> p + j < int n \<longrightarrow> drop n ar' = drop n ar)"
proof -
  let ?i = "nat (p + i)" and ?j = "nat (p + j)"
  let ?r = "ar[?i := ar ! ?j, ?j := ar ! ?i]"
  have ij: "?i < length ar" "?j < length ar" "int ?i = p + i" "int ?j = p + j"
    using assms by (simp_all add: inside_def nat_less_iff)
  have "swap_at ar (p + i) (p + j) = Inr ?r"
    using swap_nat [OF ij(1, 2)] ij(3, 4) by simp
  moreover have "mset ?r = mset ar"
    by (rule mset_swap [OF ij(1, 2)])
  moreover have "length ?r = length ar"
    by simp
  moreover have "\<forall>k. inside ar p k \<longrightarrow>
      elem ?r p k = (if k = i then elem ar p j else if k = j then elem ar p i else elem ar p k)"
    using assms by (auto simp: elem_def inside_def nth_list_update nat_less_iff nat_eq_iff2)
  moreover have take: "take n ?r = take n ar" if "int n \<le> p + i" "int n \<le> p + j" for n
    using that by simp
  moreover have drop: "drop n ?r = drop n ar" if "p + i < int n" "p + j < int n" for n
    using that assms by (simp add: inside_def nat_less_iff)
  ultimately show ?thesis
    using take drop by blast
qed

lemma scan_left_finds:
  assumes "left \<le> n" and "\<forall>k. left \<le> k \<and> k \<le> n \<longrightarrow> inside ar p k" and "key \<le> elem ar p n"
  shows "\<exists>l. scan_left ar p left key = Inr l \<and> left \<le> l \<and> l \<le> n \<and> key \<le> elem ar p l
    \<and> (\<forall>k. left \<le> k \<and> k < l \<longrightarrow> elem ar p k < key)"
  using assms
proof (induction ar p left key rule: scan_left.induct)
  case (1 ar p left key)
  have "load ar (p + left) = Inr (elem ar p left)"
    using "1.prems"(1, 2) by (intro load_elem) simp
  show ?case
  proof (cases "elem ar p left < key")
    case True
    then have "left + 1 \<le> n"
      using "1.prems"(1, 3) by (cases "left = n") auto
    then obtain l where l: "scan_left ar p (left + 1) key = Inr l" "left + 1 \<le> l" "l \<le> n" "key \<le> elem ar p l"
      "\<forall>k. left + 1 \<le> k \<and> k < l \<longrightarrow> elem ar p k < key"
      using "1.IH" [OF \<open>load ar (p + left) = _\<close> True] "1.prems"(2, 3) by auto
    have "\<forall>k. left \<le> k \<and> k < l \<longrightarrow> elem ar p k < key"
    proof (intro allI impI)
      fix k
      assume "left \<le> k \<and> k < l"
      then show "elem ar p k < key"
        using True l(5) by (cases "k = left") auto
    qed
    then show ?thesis
      using l True \<open>load ar (p + left) = _\<close> by (subst scan_left.simps) auto
  next
    case False
    then show ?thesis
      using "1.prems"(1) \<open>load ar (p + left) = _\<close> by (subst scan_left.simps) auto
  qed
qed

lemma scan_right_finds:
  assumes "n \<le> right" and "\<forall>k. n \<le> k \<and> k \<le> right \<longrightarrow> inside ar p k" and "elem ar p n \<le> key"
  shows "\<exists>r. scan_right ar p right key = Inr r \<and> n \<le> r \<and> r \<le> right \<and> elem ar p r \<le> key
    \<and> (\<forall>k. r < k \<and> k \<le> right \<longrightarrow> key < elem ar p k)"
  using assms
proof (induction ar p right key rule: scan_right.induct)
  case (1 ar p right key)
  have "load ar (p + right) = Inr (elem ar p right)"
    using "1.prems"(1, 2) by (intro load_elem) simp
  show ?case
  proof (cases "elem ar p right > key")
    case True
    then have "n \<le> right - 1"
      using "1.prems"(1, 3) by (cases "right = n") auto
    then obtain r where r: "scan_right ar p (right - 1) key = Inr r" "n \<le> r" "r \<le> right - 1" "elem ar p r \<le> key"
      "\<forall>k. r < k \<and> k \<le> right - 1 \<longrightarrow> key < elem ar p k"
      using "1.IH" [OF \<open>load ar (p + right) = _\<close> True] "1.prems"(2, 3) by auto
    have "\<forall>k. r < k \<and> k \<le> right \<longrightarrow> key < elem ar p k"
    proof (intro allI impI)
      fix k
      assume "r < k \<and> k \<le> right"
      then show "key < elem ar p k"
        using True r(5) by (cases "k = right") auto
    qed
    then show ?thesis
      using r True \<open>load ar (p + right) = _\<close> by (subst scan_right.simps) auto
  next
    case False
    then show ?thesis
      using "1.prems"(1) \<open>load ar (p + right) = _\<close> by (subst scan_right.simps) auto
  qed
qed

text \<open>
  The partition ends at an index with smaller or equal elements before it and greater or equal ones from it on.
  The scan from the right needs an element that is not greater than the key somewhere at \<open>s\<close>, maybe at \<open>-1\<close>.
\<close>

lemma quick_partition_splits:
  assumes "0 \<le> left" and "left \<le> n" and "s \<le> right" and "right < n" and "-1 \<le> s"
    and "\<forall>k. s \<le> k \<and> k \<le> n \<longrightarrow> inside ar p k" and "0 \<le> p" and "elem ar p s \<le> key" and "elem ar p n = key"
    and "\<forall>k. 0 \<le> k \<and> k < left \<longrightarrow> elem ar p k \<le> key" and "\<forall>k. right < k \<and> k \<le> n \<longrightarrow> key \<le> elem ar p k"
  shows "\<exists>l ar'. quick_partition ar p left right key = Inr (l, ar') \<and> 0 \<le> l \<and> l \<le> n
    \<and> mset ar' = mset ar \<and> take (nat p) ar' = take (nat p) ar \<and> drop (nat (p + n)) ar' = drop (nat (p + n)) ar
    \<and> (\<forall>k. 0 \<le> k \<and> k < l \<longrightarrow> elem ar' p k \<le> key) \<and> (\<forall>k. l \<le> k \<and> k \<le> n \<longrightarrow> key \<le> elem ar' p k)"
  using assms
proof (induction ar p left right key arbitrary: s rule: quick_partition.induct)
  case (1 ar p left right key)
  have ins: "inside ar p k" if "0 \<le> k" "k \<le> n" for k
  proof -
    have "inside ar p n"
      using "1.prems" by simp
    then show ?thesis
      using that \<open>0 \<le> p\<close> by (simp add: inside_def)
  qed
  obtain l where l: "scan_left ar p left key = Inr l" "left \<le> l" "l \<le> n" "key \<le> elem ar p l"
    "\<forall>k. left \<le> k \<and> k < l \<longrightarrow> elem ar p k < key"
    using scan_left_finds [of left n ar p key] "1.prems"(1, 2, 9) ins by auto
  obtain r where r: "scan_right ar p right key = Inr r" "s \<le> r" "r \<le> right" "elem ar p r \<le> key"
    "\<forall>k. r < k \<and> k \<le> right \<longrightarrow> key < elem ar p k"
    using scan_right_finds [of s right ar p key] "1.prems"(3, 4, 6, 8) by auto
  have below: "elem ar p k \<le> key" if "0 \<le> k" "k < l" for k
    using "1.prems"(10) l(5) that by (cases "k < left") (auto intro: less_imp_le)
  have above: "key \<le> elem ar p k" if "r < k" "k \<le> n" for k
    using "1.prems"(11) r(5) that by (cases "right < k") (auto intro: less_imp_le)
  show ?case
  proof (cases "r \<le> l")
    case True
    have "key \<le> elem ar p k" if "l \<le> k" "k \<le> n" for k
      using above l(4) that True by (cases "k = l") auto
    then show ?thesis
      using l r True below "1.prems"(1) by (subst quick_partition.simps) auto
  next
    case False
    have "inside ar p l" "inside ar p r"
      using ins "1.prems"(1, 4) l(2, 3) r(3) False by auto
    then obtain ar1 where ar1: "swap_at ar (p + l) (p + r) = Inr ar1" "mset ar1 = mset ar" "length ar1 = length ar"
      "\<forall>k. inside ar p k \<longrightarrow> elem ar1 p k = (if k = l then elem ar p r else if k = r then elem ar p l else elem ar p k)"
      "\<forall>n. int n \<le> p + l \<and> int n \<le> p + r \<longrightarrow> take n ar1 = take n ar"
      "\<forall>n. p + l < int n \<and> p + r < int n \<longrightarrow> drop n ar1 = drop n ar"
      using swap_elem [of ar p l r] by blast
    have e: "elem ar1 p k = (if k = l then elem ar p r else if k = r then elem ar p l else elem ar p k)" if "0 \<le> k" "k \<le> n" for k
      using ar1(4) ins that by blast
    have bnd: "0 \<le> l" "l < r" "r < n"
      using l(2) r(3) "1.prems"(1, 4) False by auto
    have "\<exists>l' ar'. quick_partition ar1 p (l + 1) (r - 1) key = Inr (l', ar') \<and> 0 \<le> l' \<and> l' \<le> n
      \<and> mset ar' = mset ar1 \<and> take (nat p) ar' = take (nat p) ar1 \<and> drop (nat (p + n)) ar' = drop (nat (p + n)) ar1
      \<and> (\<forall>k. 0 \<le> k \<and> k < l' \<longrightarrow> elem ar' p k \<le> key) \<and> (\<forall>k. l' \<le> k \<and> k \<le> n \<longrightarrow> key \<le> elem ar' p k)"
    proof (rule "1.IH" [of l r ar1 l])
      show "\<forall>k. 0 \<le> k \<and> k < l + 1 \<longrightarrow> elem ar1 p k \<le> key"
        using e below r(4) bnd by auto
      show "\<forall>k. r - 1 < k \<and> k \<le> n \<longrightarrow> key \<le> elem ar1 p k"
        using e above l(4) bnd by auto
      show "\<forall>k. l \<le> k \<and> k \<le> n \<longrightarrow> inside ar1 p k"
        using ins ar1(3) bnd by (simp add: inside_def)
    qed (use l r ar1(1) False bnd e "1.prems"(7, 9) in auto)
    moreover have "quick_partition ar p left right key = quick_partition ar1 p (l + 1) (r - 1) key"
      using l(1) r(1) ar1(1) False by (subst quick_partition.simps) simp
    moreover have "take (nat p) ar1 = take (nat p) ar"
      using ar1(5) \<open>0 \<le> p\<close> bnd by simp
    moreover have "drop (nat (p + n)) ar1 = drop (nat (p + n)) ar"
      using ar1(6) \<open>0 \<le> p\<close> bnd by simp
    ultimately show ?thesis
      using ar1(2) by simp
  qed
qed

section \<open>Sorting a part of an array behind an element that is not greater\<close>

definition part :: "int list \<Rightarrow> nat \<Rightarrow> nat \<Rightarrow> int list" where
  "part ar p n = take n (drop p ar)"

lemma length_part: "p + n \<le> length ar \<Longrightarrow> length (part ar p n) = n"
  by (simp add: part_def)

lemma part_split: "i \<le> n \<Longrightarrow> part ar p n = part ar p i @ part ar (p + i) (n - i)"
  unfolding part_def by (metis add.commute drop_drop le_add_diff_inverse take_add)

lemma part_elem: "p + n \<le> length ar \<Longrightarrow> x \<in> set (part ar p n) \<longleftrightarrow> (\<exists>k. 0 \<le> k \<and> k < int n \<and> elem ar (int p) k = x)"
proof
  assume "p + n \<le> length ar" "x \<in> set (part ar p n)"
  then obtain i where "i < n" "x = ar ! (p + i)"
    by (auto simp: part_def set_conv_nth)
  then show "\<exists>k. 0 \<le> k \<and> k < int n \<and> elem ar (int p) k = x"
    by (intro exI [of _ "int i"]) (simp add: elem_def nat_int_add)
next
  assume "p + n \<le> length ar" "\<exists>k. 0 \<le> k \<and> k < int n \<and> elem ar (int p) k = x"
  then obtain k where "0 \<le> k" "k < int n" "elem ar (int p) k = x"
    by blast
  then show "x \<in> set (part ar p n)"
    using \<open>p + n \<le> length ar\<close>
    by (auto simp: part_def set_conv_nth elem_def nat_add_distrib intro!: exI [of _ "nat k"])
qed

lemma array_parts: "p + n \<le> length ar \<Longrightarrow> ar = take p ar @ part ar p n @ drop (p + n) ar"
  unfolding part_def by (metis add.commute append_take_drop_id drop_drop)

lemma mset_part:
  assumes "mset ar' = mset ar" and "take p ar' = take p ar" and "drop (p + n) ar' = drop (p + n) ar" and "p + n \<le> length ar"
  shows "mset (part ar' p n) = mset (part ar p n)"
proof -
  have "length ar' = length ar"
    using assms(1) by (metis size_mset)
  then have "mset (take p ar') + mset (part ar' p n) + mset (drop (p + n) ar') =
      mset (take p ar) + mset (part ar p n) + mset (drop (p + n) ar)"
    using array_parts [of p n ar] array_parts [of p n ar'] assms(1, 4) by (metis mset_append add.assoc)
  then show ?thesis
    using assms(2, 3) by simp
qed

lemma part_unchanged:
  "drop k ar' = drop k ar \<Longrightarrow> k \<le> p \<Longrightarrow> part ar' p n = part ar p n"
  unfolding part_def by (metis drop_drop le_add_diff_inverse2)

lemma part_take:
  "take k ar' = take k ar \<Longrightarrow> p + n \<le> k \<Longrightarrow> part ar' p n = part ar p n"
  unfolding part_def by (metis add.commute add_le_imp_le_diff drop_take min.absorb1 take_take)

lemma nth_drop_eq: "drop k ar' = drop k ar \<Longrightarrow> k \<le> i \<Longrightarrow> i < length ar \<Longrightarrow> length ar' = length ar \<Longrightarrow> ar' ! i = ar ! i"
  using nth_drop [of k ar "i - k"] nth_drop [of k ar' "i - k"] by simp

lemma nth_take_eq: "take k ar' = take k ar \<Longrightarrow> i < k \<Longrightarrow> ar' ! i = ar ! i"
  using nth_take [of i k ar] nth_take [of i k ar'] by simp

lemma part_Cons: "p < length ar \<Longrightarrow> part ar p (Suc n) = ar ! p # part ar (Suc p) n"
  by (simp add: part_def Cons_nth_drop_Suc [symmetric])

text \<open>One partition, with the pivot put in its place at \<open>p + i\<close>.\<close>

lemma partition_step:
  assumes "p + n \<le> length ar" and "1 \<le> p" and "\<forall>x \<in> set (part ar p n). ar ! (p - 1) \<le> x" and "2 \<le> n"
  shows "\<exists>i ar1 ar2. load ar (int p + (int n - 1)) = Inr (ar ! (p + n - 1))
    \<and> quick_partition ar (int p) 0 (int n - 2) (ar ! (p + n - 1)) = Inr (int i, ar1)
    \<and> swap_at ar1 (int p + int i) (int p + (int n - 1)) = Inr ar2 \<and> i < n
    \<and> mset ar2 = mset ar \<and> take p ar2 = take p ar \<and> drop (p + n) ar2 = drop (p + n) ar
    \<and> (\<forall>x \<in> set (part ar2 p i). x \<le> ar2 ! (p + i)) \<and> (\<forall>x \<in> set (part ar2 (p + i + 1) (n - i - 1)). ar2 ! (p + i) \<le> x)"
proof -
  let ?p = "int p" and ?m = "int n - 1"
  define key where "key = ar ! (p + n - 1)"
  have pm: "nat (?p + ?m) = p + n - 1"
    using assms(4) by simp
  have key: "elem ar ?p ?m = key"
    unfolding elem_def pm key_def ..
  have load: "load ar (?p + ?m) = Inr key"
    using load_elem [of ar ?p ?m] key assms(1, 4) by (simp add: inside_def)
  have low: "elem ar ?p (-1) \<le> key"
  proof -
    have "elem ar ?p ?m \<in> set (part ar p n)"
      unfolding part_elem [OF assms(1)] using assms(4) by (intro exI [of _ ?m]) simp
    then show ?thesis
      using assms(2, 3) key by (simp add: elem_def nat_diff_distrib')
  qed
  have "\<exists>l ar'. quick_partition ar ?p 0 (int n - 2) key = Inr (l, ar') \<and> 0 \<le> l \<and> l \<le> ?m
      \<and> mset ar' = mset ar \<and> take (nat ?p) ar' = take (nat ?p) ar \<and> drop (nat (?p + ?m)) ar' = drop (nat (?p + ?m)) ar
      \<and> (\<forall>k. 0 \<le> k \<and> k < l \<longrightarrow> elem ar' ?p k \<le> key) \<and> (\<forall>k. l \<le> k \<and> k \<le> ?m \<longrightarrow> key \<le> elem ar' ?p k)"
  proof (intro quick_partition_splits [of _ _ "-1"])
    show "\<forall>k. int n - 2 < k \<and> k \<le> ?m \<longrightarrow> key \<le> elem ar ?p k"
    proof (intro allI impI)
      fix k
      assume "int n - 2 < k \<and> k \<le> ?m"
      then have "k = ?m"
        by simp
      then show "key \<le> elem ar ?p k"
        using key by simp
    qed
  qed (use assms key low in \<open>auto simp: inside_def\<close>)
  then obtain l ar1 where l: "quick_partition ar ?p 0 (int n - 2) key = Inr (l, ar1)" "0 \<le> l" "l \<le> ?m"
    "mset ar1 = mset ar" "take p ar1 = take p ar" "drop (nat (?p + ?m)) ar1 = drop (nat (?p + ?m)) ar"
    "\<forall>k. 0 \<le> k \<and> k < l \<longrightarrow> elem ar1 ?p k \<le> key" "\<forall>k. l \<le> k \<and> k \<le> ?m \<longrightarrow> key \<le> elem ar1 ?p k"
    by auto
  have len1: "length ar1 = length ar"
    using l(4) by (metis size_mset)
  have "elem ar1 ?p ?m = key"
    using nth_drop_eq [OF l(6)] len1 key assms(1, 4) unfolding elem_def pm by simp
  have "inside ar1 ?p l" "inside ar1 ?p ?m"
    using l(2, 3) assms(1, 4) len1 by (auto simp: inside_def)
  then obtain ar2 where ar2: "swap_at ar1 (?p + l) (?p + ?m) = Inr ar2" "mset ar2 = mset ar1" "length ar2 = length ar1"
    "\<forall>k. inside ar1 ?p k \<longrightarrow> elem ar2 ?p k = (if k = l then elem ar1 ?p ?m else if k = ?m then elem ar1 ?p l else elem ar1 ?p k)"
    "\<forall>n. int n \<le> ?p + l \<and> int n \<le> ?p + ?m \<longrightarrow> take n ar2 = take n ar1"
    "\<forall>n. ?p + l < int n \<and> ?p + ?m < int n \<longrightarrow> drop n ar2 = drop n ar1"
    using swap_elem [of ar1 ?p l ?m] by blast
  define i where "i = nat l"
  have i: "l = int i" "i < n"
    using l(2, 3) assms(4) by (auto simp: i_def)
  have e: "elem ar2 ?p k = (if k = l then key else if k = ?m then elem ar1 ?p l else elem ar1 ?p k)" if "0 \<le> k" "k \<le> ?m" for k
    using ar2(4) that assms(1) len1 \<open>elem ar1 ?p ?m = key\<close> by (simp add: inside_def)
  have pivot: "ar2 ! (p + i) = key"
    using e [of l] l(2, 3) by (simp add: elem_def i(1) nat_int_add)
  have left: "\<forall>x \<in> set (part ar2 p i). x \<le> key"
    using part_elem [of p i ar2] e l(3, 7) i assms(1) ar2(3) len1 by fastforce
  have right: "\<forall>x \<in> set (part ar2 (p + i + 1) (n - i - 1)). key \<le> x"
  proof
    fix x
    assume "x \<in> set (part ar2 (p + i + 1) (n - i - 1))"
    then obtain k where k: "0 \<le> k" "k < int (n - i - 1)" "elem ar2 (int (p + i + 1)) k = x"
      using part_elem [of "p + i + 1" "n - i - 1" ar2] i assms(1) ar2(3) len1 by auto
    then have "elem ar2 ?p (int i + 1 + k) = x"
      by (simp add: elem_def ac_simps)
    then show "key \<le> x"
      using e [of "int i + 1 + k"] k(1, 2) i(1) l(3) l(8) [rule_format, of "int i + 1 + k"] l(8) [rule_format, of l]
      by (auto split: if_splits)
  qed
  have "take p ar2 = take p ar"
    using ar2(5) l(2, 3, 5) assms(4) by simp
  moreover have "drop (p + n) ar2 = drop (p + n) ar"
  proof -
    have "drop (p + n) ar2 = drop (p + n) ar1"
      using ar2(6) l(3) assms(4) by simp
    also have "\<dots> = drop (p + n) ar"
      using arg_cong [OF l(6), of "drop 1"] assms(4) unfolding pm by simp
    finally show ?thesis .
  qed
  ultimately show ?thesis
    using load l(1, 4) ar2(1, 2) i left right pivot unfolding key_def by auto
qed

lemma quickSort_part:
  assumes "p + n \<le> length ar" and "1 \<le> p" and "\<forall>x \<in> set (part ar p n). ar ! (p - 1) \<le> x"
  shows "\<exists>ar'. quickSort ar (int p) (int n) = Inr ar' \<and> mset ar' = mset ar \<and> take p ar' = take p ar
    \<and> drop (p + n) ar' = drop (p + n) ar \<and> sorted (part ar' p n)"
  using assms
proof (induction n arbitrary: p ar rule: less_induct)
  case (less n)
  show ?case
  proof (cases "n \<le> 1")
    case True
    have "sorted (part ar p n)"
      using True by (intro sorted01) (simp add: part_def)
    then show ?thesis
      using True by (subst quickSort.simps) auto
  next
    case False
    then obtain i ar1 ar2 where s: "load ar (int p + (int n - 1)) = Inr (ar ! (p + n - 1))"
      "quick_partition ar (int p) 0 (int n - 2) (ar ! (p + n - 1)) = Inr (int i, ar1)"
      "swap_at ar1 (int p + int i) (int p + (int n - 1)) = Inr ar2" "i < n"
      "mset ar2 = mset ar" "take p ar2 = take p ar" "drop (p + n) ar2 = drop (p + n) ar"
      "\<forall>x \<in> set (part ar2 p i). x \<le> ar2 ! (p + i)" "\<forall>x \<in> set (part ar2 (p + i + 1) (n - i - 1)). ar2 ! (p + i) \<le> x"
      using partition_step [OF less.prems] by auto
    have len2: "length ar2 = length ar"
      using s(5) by (metis size_mset)
    have parts: "part ar2 p n = part ar2 p i @ ar2 ! (p + i) # part ar2 (p + i + 1) (n - i - 1)"
      using part_split [of i n ar2 p] part_Cons [of "p + i" ar2 "n - i - 1"] s(4) less.prems(1) len2
      by (simp add: Suc_diff_Suc)
    have "ar2 ! (p - 1) = ar ! (p - 1)"
      using nth_take_eq [OF s(6)] less.prems(2) by simp
    moreover have "set (part ar2 p n) = set (part ar p n)"
      using mset_part [OF s(5-7) less.prems(1)] by (metis set_mset_mset)
    ultimately have low: "\<forall>x \<in> set (part ar2 p i). ar2 ! (p - 1) \<le> x"
      using less.prems(3) parts by auto
    obtain ar3 where ar3: "quickSort ar2 (int p) (int i) = Inr ar3" "mset ar3 = mset ar2" "take p ar3 = take p ar2"
      "drop (p + i) ar3 = drop (p + i) ar2" "sorted (part ar3 p i)"
      using less.IH [OF s(4) _ less.prems(2) low] less.prems(1) s(4) len2 by auto
    have len3: "length ar3 = length ar"
      using ar3(2) len2 by (metis size_mset)
    have pivot: "ar3 ! (p + i) = ar2 ! (p + i)"
      using nth_drop_eq [OF ar3(4)] less.prems(1) s(4) len2 len3 by simp
    have right: "part ar3 (p + i + 1) (n - i - 1) = part ar2 (p + i + 1) (n - i - 1)"
      by (rule part_unchanged [OF ar3(4)]) simp
    have low3: "\<forall>x \<in> set (part ar3 (p + i + 1) (n - i - 1)). ar3 ! (p + i + 1 - 1) \<le> x"
      unfolding right using s(9) pivot by simp
    have "\<exists>ar'. quickSort ar3 (int (p + i + 1)) (int (n - i - 1)) = Inr ar' \<and> mset ar' = mset ar3
        \<and> take (p + i + 1) ar' = take (p + i + 1) ar3 \<and> drop (p + i + 1 + (n - i - 1)) ar' = drop (p + i + 1 + (n - i - 1)) ar3
        \<and> sorted (part ar' (p + i + 1) (n - i - 1))"
      using s(4) less.prems(1) len3 by (intro less.IH low3) simp_all
    moreover have "p + i + 1 + (n - i - 1) = p + n"
      using s(4) by simp
    ultimately obtain ar4 where ar4: "quickSort ar3 (int (p + i + 1)) (int (n - i - 1)) = Inr ar4" "mset ar4 = mset ar3"
      "take (p + i + 1) ar4 = take (p + i + 1) ar3" "drop (p + n) ar4 = drop (p + n) ar3"
      "sorted (part ar4 (p + i + 1) (n - i - 1))"
      by auto
    have len4: "length ar4 = length ar"
      using ar4(2) len3 by (metis size_mset)
    have run: "quickSort ar (int p) (int n) = Inr ar4"
      using False s(1-4) ar3(1) ar4(1)
      by (subst quickSort.simps) (simp add: of_nat_diff algebra_simps)
    have left4: "part ar4 p i = part ar3 p i"
      by (rule part_take [OF ar4(3)]) simp
    have left_set: "set (part ar3 p i) = set (part ar2 p i)"
      using mset_part [OF ar3(2-4)] less.prems(1) s(4) len2 by (metis add_le_cancel_left dual_order.trans less_imp_le set_mset_mset)
    have right_set: "set (part ar4 (p + i + 1) (n - i - 1)) = set (part ar2 (p + i + 1) (n - i - 1))"
      using mset_part [of ar4 ar3 "p + i + 1" "n - i - 1"] ar4(2-4) len3 less.prems(1) s(4) right
      by (metis \<open>p + i + 1 + (n - i - 1) = p + n\<close> set_mset_mset)
    have pivot4: "ar4 ! (p + i) = ar2 ! (p + i)"
      using nth_take_eq [OF ar4(3), of "p + i"] pivot by simp
    have "part ar4 p n = part ar4 p i @ ar4 ! (p + i) # part ar4 (p + i + 1) (n - i - 1)"
      using part_split [of i n ar4 p] part_Cons [of "p + i" ar4 "n - i - 1"] s(4) less.prems(1) len4
      by (simp add: Suc_diff_Suc)
    moreover have "\<forall>x \<in> set (part ar4 p i). x \<le> ar2 ! (p + i)"
      using s(8) left4 left_set by simp
    moreover have "\<forall>x \<in> set (part ar4 (p + i + 1) (n - i - 1)). ar2 ! (p + i) \<le> x"
      using s(9) right_set by simp
    ultimately have "sorted (part ar4 p n)"
      using ar3(5) ar4(5) left4 pivot4 by (auto simp: sorted_append intro: order_trans)
    moreover have "take p ar4 = take p ar"
      using arg_cong [OF ar4(3), of "take p"] ar3(3) s(6) by simp
    moreover have "drop (p + n) ar4 = drop (p + n) ar"
      using ar4(4) arg_cong [OF ar3(4), of "drop (n - i)"] s(4, 7) by (simp add: add.commute)
    ultimately show ?thesis
      using run ar4(2) ar3(2) s(5) by simp
  qed
qed

section \<open>Properties\<close>

text \<open>C28: \<open>quickSort\<close> ends, and sorts its elements and no others, when the element in front of the
  array is not greater than any of them: it stops the scan from the right.\<close>

theorem quickSort_sorts:
  assumes "\<forall>x \<in> set ar. guard \<le> x"
  shows "quickSort (front @ guard # ar @ rest) (int (length front + 1)) (int (length ar)) = Inr (front @ guard # sort ar @ rest)"
proof -
  let ?ar = "front @ guard # ar @ rest" and ?p = "length front + 1" and ?n = "length ar"
  have part: "part ?ar ?p ?n = ar"
    by (simp add: part_def)
  obtain ar' where r: "quickSort ?ar (int ?p) (int ?n) = Inr ar'" "mset ar' = mset ?ar" "take ?p ar' = take ?p ?ar"
    "drop (?p + ?n) ar' = drop (?p + ?n) ?ar" "sorted (part ar' ?p ?n)"
  proof -
    have "\<forall>x \<in> set (part ?ar ?p ?n). ?ar ! (?p - 1) \<le> x"
      unfolding part using assms by simp
    then have "\<exists>ar'. quickSort ?ar (int ?p) (int ?n) = Inr ar' \<and> mset ar' = mset ?ar \<and> take ?p ar' = take ?p ?ar
        \<and> drop (?p + ?n) ar' = drop (?p + ?n) ?ar \<and> sorted (part ar' ?p ?n)"
      by (intro quickSort_part) simp_all
    then show thesis
      using that by blast
  qed
  have "length ar' = length ?ar"
    using r(2) by (metis size_mset)
  then have "ar' = take ?p ar' @ part ar' ?p ?n @ drop (?p + ?n) ar'"
    by (intro array_parts) simp
  moreover have "part ar' ?p ?n = sort ar"
    using mset_part [OF r(2-4)] r(5) part by (intro properties_for_sort [symmetric]) simp_all
  ultimately show ?thesis
    using r(1, 3, 4) by simp
qed

theorem quickSort_sorts_witness: "quickSort [0, -128, 3, 1, 2, 7] 2 3 = Inr ([0, -128] @ sort [3, 1, 2] @ [7])"
  using quickSort_sorts [of "[3, 1, 2]" "-128" "[0]" "[7]"] by simp

text \<open>Without such an element the scan from the right runs over every greater element and out of the array.\<close>

lemma scan_right_underruns:
  assumes "n \<le> length ar" and "\<forall>x \<in> set (take n ar). key < x"
  shows "scan_right ar 0 (int n - 1) key = Inl Out_of_bounds"
  using assms
proof (induction n)
  case 0
  then show ?case
    by (simp add: scan_right.simps load_def)
next
  case (Suc n)
  have "key < ar ! n"
    using Suc.prems by (simp add: take_Suc_conv_app_nth)
  then show ?case
    using Suc.IH Suc.prems by (subst scan_right.simps) (simp add: load_def take_Suc_conv_app_nth)
qed

text \<open>At the start of an array whose last element is the only smallest one, the scan from the right
  reads below the array.\<close>

theorem quickSort_underrun:
  assumes "ar \<noteq> []" and "\<forall>x \<in> set ar. key < x"
  shows "quickSort (ar @ key # rest) 0 (int (length ar) + 1) = Inl Out_of_bounds"
proof -
  let ?ar = "ar @ key # rest"
  have "scan_left ?ar 0 0 key = Inr 0"
    using assms by (cases ar) (auto simp: scan_left.simps load_def)
  moreover have "scan_right ?ar 0 (int (length ar) - 1) key = Inl Out_of_bounds"
    using assms(2) by (intro scan_right_underruns) simp_all
  ultimately have "quick_partition ?ar 0 0 (int (length ar) - 1) key = Inl Out_of_bounds"
    by (subst quick_partition.simps) simp
  then show ?thesis
    using assms(1) by (subst quickSort.simps) (simp add: load_def)
qed

theorem quickSort_underrun_witness: "quickSort (map of_char ''ba'') 0 2 = Inl Out_of_bounds"
  using quickSort_underrun [of "[98]" 97 "[]"] by simp

end
