(* ===== verification/Search.thy ===== *)
theory Search
  imports Arrays "HOL-Library.Signed_Division"
begin

text \<open>
  \<open>linearSearch\<close> of \<open>test_search/sequential_search\<close> and \<open>binarySearch\<close> of \<open>test_search/binary_search\<close>,
  over arrays that are read with a fault outside of them. The sum of the two bounds overflows an \<open>int\<close> for
  arrays of more than 2^30 elements; the division of C truncates, which matters for \<open>num = 0\<close>, where
  the first sum is \<open>-1\<close>.
\<close>

section \<open>The programs\<close>

function linear_loop :: "int list \<Rightarrow> int \<Rightarrow> int \<Rightarrow> int \<Rightarrow> c_fault + int" where
  "linear_loop ar num i key =
    (if i < num then bind_fault (load ar i) (\<lambda>x. if x = key then Inr i else linear_loop ar num (i + 1) key)
     else Inr (-1))"
  by pat_completeness auto
termination
  by (relation "measure (\<lambda>(ar, num, i, key). nat (num - i))") auto

definition linearSearch :: "int list \<Rightarrow> int \<Rightarrow> int \<Rightarrow> c_fault + int" where
  "linearSearch ar num key = linear_loop ar num 0 key"

definition add_ints :: "int \<Rightarrow> int \<Rightarrow> c_fault + int" where
  "add_ints a b = (if - (2 ^ 31) \<le> a + b \<and> a + b < 2 ^ 31 then Inr (a + b) else Inl Int_overflow)"

lemma mid_bounds:
  fixes l u :: int
  shows "l \<le> u \<Longrightarrow> l \<le> (u + l) sdiv 2 \<and> (u + l) sdiv 2 \<le> u" and "u < l \<Longrightarrow> u \<le> (u + l) sdiv 2 \<and> (u + l) sdiv 2 \<le> l"
  by (auto simp: signed_divide_int_def sgn_if split: if_splits)

function binary_loop :: "int list \<Rightarrow> int \<Rightarrow> int \<Rightarrow> int \<Rightarrow> c_fault + int" where
  "binary_loop ar upper lower key =
    (case add_ints upper lower of
       Inl e \<Rightarrow> Inl e
     | Inr both \<Rightarrow>
       let mid = both sdiv 2 in
       (case load ar mid of
          Inl e \<Rightarrow> Inl e
        | Inr x \<Rightarrow>
          if x = key then Inr mid
          else
            let upper' = (if x > key then mid - 1 else upper);
                lower' = (if x > key then lower else mid + 1) in
            if upper' \<le> lower' then Inr (-1) else binary_loop ar upper' lower' key))"
  by pat_completeness auto
termination
proof (relation "measure (\<lambda>(ar, upper, lower, key). nat (upper - lower))", goal_cases)
  case (2 ar upper lower key both mid x upper' lower')
  then have "mid = (upper + lower) sdiv 2"
    by (simp add: add_ints_def split: if_splits)
  then show ?case
    using 2 mid_bounds [of lower upper] mid_bounds [of upper lower] by (cases "lower \<le> upper") (auto split: if_splits)
qed simp

definition binarySearch :: "int list \<Rightarrow> int \<Rightarrow> int \<Rightarrow> c_fault + int" where
  "binarySearch ar num key = binary_loop ar (num - 1) 0 key"

declare linear_loop.simps [simp del] binary_loop.simps [simp del]

section \<open>Lemmas\<close>

lemma linear_loop_finds:
  assumes "n \<le> length ar" and "i \<le> n"
  shows "linear_loop ar (int n) (int i) key =
    Inr (case find (\<lambda>k. ar ! k = key) [i..<n] of None \<Rightarrow> -1 | Some k \<Rightarrow> int k)"
  using assms(2)
proof (induction i rule: inc_induct)
  case base
  show ?case
    by (simp add: linear_loop.simps)
next
  case (step i)
  have "load ar (int i) = Inr (ar ! i)"
    using step assms(1) by (simp add: load_nat)
  then show ?case
    using step by (subst linear_loop.simps) (simp add: upt_rec bind_fault_Inr add.commute)
qed

text \<open>One step of the loop, while the bounds are in the array.\<close>

lemma binary_step:
  assumes "0 \<le> lower" and "lower \<le> upper" and "upper < int (length ar)" and "upper < 2 ^ 30"
  shows "\<exists>mid. lower \<le> mid \<and> mid \<le> upper \<and> (lower < upper \<longrightarrow> mid < upper)
    \<and> binary_loop ar upper lower key =
      (if ar ! nat mid = key then Inr mid
       else if key < ar ! nat mid then if mid - 1 \<le> lower then Inr (-1) else binary_loop ar (mid - 1) lower key
       else if upper \<le> mid + 1 then Inr (-1) else binary_loop ar upper (mid + 1) key)"
proof (intro exI conjI)
  let ?mid = "(upper + lower) sdiv 2"
  show m: "lower \<le> ?mid" "?mid \<le> upper"
    using mid_bounds(1) [OF assms(2)] by simp_all
  show "lower < upper \<longrightarrow> ?mid < upper"
    using assms(1) by (auto simp: signed_divide_int_def)
  have "load ar ?mid = Inr (ar ! nat ?mid)"
    using m assms by (simp add: load_def)
  moreover have "add_ints upper lower = Inr (upper + lower)"
    using assms by (simp add: add_ints_def)
  ultimately show "binary_loop ar upper lower key =
      (if ar ! nat ?mid = key then Inr ?mid
       else if key < ar ! nat ?mid then if ?mid - 1 \<le> lower then Inr (-1) else binary_loop ar (?mid - 1) lower key
       else if upper \<le> ?mid + 1 then Inr (-1) else binary_loop ar upper (?mid + 1) key)"
    by (subst binary_loop.simps) (simp add: Let_def)
qed

lemma binary_loop_sound:
  assumes "0 \<le> lower" and "lower \<le> upper" and "upper < int (length ar)" and "upper < 2 ^ 30"
  shows "\<exists>r. binary_loop ar upper lower key = Inr r \<and> (r = -1 \<or> lower \<le> r \<and> r \<le> upper \<and> ar ! nat r = key)"
  using assms
proof (induction "nat (upper - lower)" arbitrary: upper lower rule: less_induct)
  case less
  obtain mid where mid: "lower \<le> mid" "mid \<le> upper" "binary_loop ar upper lower key =
      (if ar ! nat mid = key then Inr mid
       else if key < ar ! nat mid then if mid - 1 \<le> lower then Inr (-1) else binary_loop ar (mid - 1) lower key
       else if upper \<le> mid + 1 then Inr (-1) else binary_loop ar upper (mid + 1) key)"
    using binary_step [OF less.prems] by blast
  consider "ar ! nat mid = key" | "key < ar ! nat mid" "mid - 1 \<le> lower" | "key < ar ! nat mid" "lower < mid - 1"
    | "ar ! nat mid < key" "upper \<le> mid + 1" | "ar ! nat mid < key" "mid + 1 < upper"
    by linarith
  then show ?case
  proof cases
    case 3
    have "\<exists>r. binary_loop ar (mid - 1) lower key = Inr r \<and> (r = -1 \<or> lower \<le> r \<and> r \<le> mid - 1 \<and> ar ! nat r = key)"
      using 3 mid(1, 2) less.prems by (intro less.hyps) simp_all
    then show ?thesis
      using 3 mid by auto
  next
    case 5
    have "\<exists>r. binary_loop ar upper (mid + 1) key = Inr r \<and> (r = -1 \<or> mid + 1 \<le> r \<and> r \<le> upper \<and> ar ! nat r = key)"
      using 5 mid(1, 2) less.prems by (intro less.hyps) simp_all
    then show ?thesis
      using 5 mid by auto
  qed (use mid in auto)
qed

lemma binary_loop_misses:
  assumes "0 \<le> lower" and "lower < upper" and "upper < int (length ar)" and "upper < 2 ^ 30"
    and "\<forall>i < nat upper. ar ! i < key"
  shows "binary_loop ar upper lower key = Inr (-1)"
  using assms
proof (induction "nat (upper - lower)" arbitrary: lower rule: less_induct)
  case less
  obtain mid where mid: "lower \<le> mid" "mid < upper" "binary_loop ar upper lower key =
      (if ar ! nat mid = key then Inr mid
       else if key < ar ! nat mid then if mid - 1 \<le> lower then Inr (-1) else binary_loop ar (mid - 1) lower key
       else if upper \<le> mid + 1 then Inr (-1) else binary_loop ar upper (mid + 1) key)"
    using binary_step [of lower upper ar key] less.prems by auto
  have "ar ! nat mid < key"
    using mid(1, 2) less.prems(1, 5) by simp
  moreover have "binary_loop ar upper (mid + 1) key = Inr (-1)" if "mid + 1 < upper"
    using mid(1) that less.prems by (intro less.hyps) simp_all
  ultimately show ?case
    using mid(3) by auto
qed

section \<open>Properties\<close>

text \<open>\<open>linearSearch\<close> returns the first index at which the key stands, or \<open>-1\<close>.\<close>

theorem linearSearch_finds:
  assumes "nat num \<le> length ar"
  shows "linearSearch ar num key = Inr (case find (\<lambda>k. ar ! k = key) [0..<nat num] of None \<Rightarrow> -1 | Some k \<Rightarrow> int k)"
proof (cases "0 \<le> num")
  case True
  then show ?thesis
    using linear_loop_finds [OF assms, of 0 key] by (simp add: linearSearch_def)
next
  case False
  then show ?thesis
    by (simp add: linearSearch_def linear_loop.simps)
qed

theorem linearSearch_finds_witness: "linearSearch [23, 47, 19, 47] 4 47 = Inr 1"
  using linearSearch_finds [of 4 "[23, 47, 19, 47]" 47] by (simp add: upt_rec)

text \<open>\<open>binarySearch\<close> ends without leaving the array, for an array of 1 to 2^30 elements, sorted or not,
  and an index that it returns is one of the key.\<close>

theorem binarySearch_sound:
  assumes "1 \<le> num" and "num \<le> int (length ar)" and "num \<le> 2 ^ 30"
  shows "\<exists>r. binarySearch ar num key = Inr r \<and> (r = -1 \<or> 0 \<le> r \<and> r < num \<and> ar ! nat r = key)"
proof -
  obtain r where "binary_loop ar (num - 1) 0 key = Inr r" "r = -1 \<or> 0 \<le> r \<and> r \<le> num - 1 \<and> ar ! nat r = key"
    using binary_loop_sound [of 0 "num - 1" ar key] assms by auto
  then show ?thesis
    unfolding binarySearch_def by auto
qed

theorem binarySearch_sound_witness:
  "\<exists>r. binarySearch [2, 6, 13, 19, 21] 5 13 = Inr r \<and> (r = -1 \<or> 0 \<le> r \<and> r < 5 \<and> [2, 6, 13, 19, 21] ! nat r = (13 :: int))"
  using binarySearch_sound [of 5 "[2, 6, 13, 19, 21]" 13] by simp

text \<open>The loop of \<open>binarySearch\<close> ends as soon as one element is left, without a look at it: the last of
  two or more elements is not found when it is greater than the others. With no element at all
  it reads one, and finds a key that stands behind the end.\<close>

theorem binarySearch_misses:
  assumes "2 \<le> num" and "num \<le> int (length ar)" and "num \<le> 2 ^ 30"
    and "\<forall>i < nat num - 1. ar ! i < ar ! (nat num - 1)"
  shows "binarySearch ar num (ar ! (nat num - 1)) = Inr (-1) \<and> binarySearch ar 0 (ar ! 0) = Inr 0
    \<and> binarySearch [] 0 key = Inl Out_of_bounds"
proof (intro conjI)
  have "\<forall>i < nat (num - 1). ar ! i < ar ! (nat num - 1)"
    using assms(4) by (simp add: nat_diff_distrib)
  then show "binarySearch ar num (ar ! (nat num - 1)) = Inr (-1)"
    unfolding binarySearch_def using assms by (intro binary_loop_misses) simp_all
  show "binarySearch ar 0 (ar ! 0) = Inr 0"
    using assms(1, 2) by (auto simp: binarySearch_def binary_loop.simps add_ints_def load_def signed_divide_int_def)
  show "binarySearch [] 0 key = Inl Out_of_bounds"
    by (simp add: binarySearch_def binary_loop.simps add_ints_def load_def signed_divide_int_def)
qed

theorem binarySearch_misses_witness: "binarySearch [1, 2, 3] 3 3 = Inr (-1) \<and> binarySearch [1, 2, 3] 0 1 = Inr 0 \<and> binarySearch [] 0 5 = Inl Out_of_bounds"
  using binarySearch_misses [of 3 "[1, 2, 3]" 5] by (simp add: less_Suc_eq numeral_2_eq_2 numeral_3_eq_3 All_less_Suc)

end
