(* ===== verification/Interleave.thy ===== *)
theory Interleave
  imports Prelude
begin

text \<open>
  Processes that share the state of the operating system: each handler of a server is a small machine
  whose next step is a function of the shared state and its own state, and the scheduler may run any
  handler that is neither finished nor blocked. The locales hold what the servers have in
  common: quantities that no step increases, and runs that end.
\<close>

section \<open>Interleaved steps\<close>

text \<open>\<open>step k h\<close> is \<open>None\<close> when the handler is blocked or has ended.\<close>

inductive sys_step :: "('k \<Rightarrow> 'h \<Rightarrow> ('k \<times> 'h) option) \<Rightarrow> 'k \<times> 'h list \<Rightarrow> 'k \<times> 'h list \<Rightarrow> bool" for step where
  one: "i < length hs \<Longrightarrow> step k (hs ! i) = Some (k', h') \<Longrightarrow> sys_step step (k, hs) (k', hs[i := h'])"

inductive_cases sys_stepE: "sys_step step (k, hs) c"

abbreviation sys_run :: "('k \<Rightarrow> 'h \<Rightarrow> ('k \<times> 'h) option) \<Rightarrow> 'k \<times> 'h list \<Rightarrow> 'k \<times> 'h list \<Rightarrow> bool" where
  "sys_run step \<equiv> (sys_step step)\<^sup>*\<^sup>*"

text \<open>The scheduler as a list of handler numbers: an executable run.\<close>

fun schedule :: "('k \<Rightarrow> 'h \<Rightarrow> ('k \<times> 'h) option) \<Rightarrow> nat list \<Rightarrow> 'k \<times> 'h list \<Rightarrow> ('k \<times> 'h list) option" where
  "schedule step [] c = Some c"
| "schedule step (i # is) (k, hs) =
    (if i < length hs then
       (case step k (hs ! i) of None \<Rightarrow> None | Some (k', h') \<Rightarrow> schedule step is (k', hs[i := h']))
     else None)"

lemma schedule_run: "schedule step is c = Some c' \<Longrightarrow> sys_run step c c'"
proof (induction step "is" c rule: schedule.induct)
  case (2 step i "is" k hs)
  then obtain k' h' where s: "i < length hs" "step k (hs ! i) = Some (k', h')" "schedule step is (k', hs[i := h']) = Some c'"
    by (auto split: if_splits option.splits)
  then have "sys_run step (k', hs[i := h']) c'"
    using "2.IH" by auto
  then show ?case
    using sys_step.one [of i hs step k k' h'] s(1, 2) by (meson converse_rtranclp_into_rtranclp)
qed simp

lemma schedule_append:
  "schedule step (is @ js) c = (case schedule step is c of None \<Rightarrow> None | Some c' \<Rightarrow> schedule step js c')"
  by (induction step "is" c rule: schedule.induct) (auto split: option.splits)

lemma sum_list_update_int: "i < length xs \<Longrightarrow> sum_list (map g (xs[i := x])) = sum_list (map g xs) - g (xs ! i) + (g x :: int)"
  by (induction xs arbitrary: i) (auto split: nat.splits)

lemma sys_run_length: "sys_run step c c' \<Longrightarrow> length (snd c') = length (snd c)"
  by (induction rule: rtranclp_induct) (auto elim!: sys_step.cases)

text \<open>What holds of every handler, and is kept by its steps.\<close>

lemma sys_run_all:
  assumes "\<And>k h k' h'. step k h = Some (k', h') \<Longrightarrow> P h \<Longrightarrow> P h'" and "sys_run step c c'" and "\<forall>h \<in> set (snd c). P h"
  shows "\<forall>h \<in> set (snd c'). P h"
  using assms(2, 3)
proof (induction rule: rtranclp_induct)
  case (step c1 c2)
  then show ?case
    using assms(1) by (auto elim!: sys_step.cases dest!: set_update_subset_insert [THEN subsetD])
qed simp

section \<open>Quantities that no step increases\<close>

locale counted =
  fixes step :: "'k \<Rightarrow> 'h \<Rightarrow> ('k \<times> 'h) option" and shared :: "'k \<Rightarrow> int" and own :: "'h \<Rightarrow> int"
  assumes step_le: "step k h = Some (k', h') \<Longrightarrow> shared k' + own h' \<le> shared k + own h"
begin

lemma run_le: "sys_run step (k, hs) (k', hs') \<Longrightarrow> shared k' + sum_list (map own hs') \<le> shared k + sum_list (map own hs)"
proof (induction "(k', hs')" arbitrary: k' hs' rule: rtranclp_induct)
  case (step c)
  obtain k1 hs1 where c: "c = (k1, hs1)"
    by (cases c)
  from step.hyps(2) [unfolded c] obtain i h' where
    i: "i < length hs1" "step k1 (hs1 ! i) = Some (k', h')" "hs' = hs1[i := h']"
    by (auto elim: sys_stepE)
  have "shared k' + sum_list (map own hs') \<le> shared k1 + sum_list (map own hs1)"
    using step_le [OF i(2)] sum_list_update_int [OF i(1), of own h'] i(3) by simp
  then show ?case
    using step.hyps(3) [OF c] by simp
qed simp

end

text \<open>A quantity that every step keeps is one that no step increases, and neither is its negation.\<close>

locale conserved =
  fixes step :: "'k \<Rightarrow> 'h \<Rightarrow> ('k \<times> 'h) option" and shared :: "'k \<Rightarrow> int" and own :: "'h \<Rightarrow> int"
  assumes step_eq: "step k h = Some (k', h') \<Longrightarrow> shared k' + own h' = shared k + own h"

sublocale conserved \<subseteq> up: counted step shared own
  by unfold_locales (simp add: step_eq)

sublocale conserved \<subseteq> down: counted step "\<lambda>k. - shared k" "\<lambda>h. - own h"
  by unfold_locales (use step_eq in fastforce)

context conserved
begin

lemma run_eq: "sys_run step (k, hs) (k', hs') \<Longrightarrow> shared k' + sum_list (map own hs') = shared k + sum_list (map own hs)"
  using up.run_le [of k hs k' hs'] down.run_le [of k hs k' hs'] by (simp add: uminus_sum_list_map [unfolded o_def, symmetric])

end

section \<open>Runs that end\<close>

locale bounded =
  fixes step :: "'k \<Rightarrow> 'h \<Rightarrow> ('k \<times> 'h) option" and left :: "'h \<Rightarrow> nat"
  assumes step_less: "step k h = Some (k', h') \<Longrightarrow> left h' < left h"
begin

lemma sum_less:
  assumes "sys_step step (k, hs) (k', hs')"
  shows "sum_list (map left hs') < sum_list (map left hs)"
proof -
  obtain i h' where i: "i < length hs" "step k (hs ! i) = Some (k', h')" "hs' = hs[i := h']"
    using assms by (auto elim: sys_stepE)
  have "sum_list (map left hs) = left (hs ! i) + sum_list (map left (take i hs @ drop (Suc i) hs))"
    using i(1) by (subst id_take_nth_drop [OF i(1)]) simp
  moreover have "sum_list (map left hs') = left h' + sum_list (map left (take i hs @ drop (Suc i) hs))"
    using i(1, 3) by (simp add: upd_conv_take_nth_drop)
  ultimately show ?thesis
    using step_less [OF i(2)] by simp
qed

lemma run_bounded: "(sys_step step ^^ n) (k, hs) (k', hs') \<Longrightarrow> n + sum_list (map left hs') \<le> sum_list (map left hs)"
proof (induction n arbitrary: k' hs')
  case (Suc n)
  then obtain k1 hs1 where "(sys_step step ^^ n) (k, hs) (k1, hs1)" "sys_step step (k1, hs1) (k', hs')"
    by auto
  then show ?case
    using Suc.IH [of k1 hs1] sum_less [of k1 hs1 k' hs'] by simp
qed simp

lemma run_ends: "\<exists>c'. sys_run step (k, hs) c' \<and> \<not> (\<exists>c''. sys_step step c' c'')"
proof (induction "sum_list (map left hs)" arbitrary: k hs rule: less_induct)
  case less
  show ?case
  proof (cases "\<exists>c. sys_step step (k, hs) c")
    case True
    then obtain k1 hs1 where s: "sys_step step (k, hs) (k1, hs1)"
      by auto
    obtain c' where "sys_run step (k1, hs1) c'" "\<not> (\<exists>c''. sys_step step c' c'')"
      using less.hyps [OF sum_less [OF s], of k1] by blast
    then show ?thesis
      using s by (meson converse_rtranclp_into_rtranclp)
  qed auto
qed

end

section \<open>The contract of a lock service\<close>

text \<open>Clients by number: \<open>holder\<close> is the one whose last request for the lock was granted.\<close>

fun serve :: "('s \<Rightarrow> bool \<times> 's) \<Rightarrow> ('s \<Rightarrow> bool \<times> 's) \<Rightarrow> 's \<Rightarrow> 'c option \<Rightarrow> ('c \<times> bool) list \<Rightarrow> bool list \<times> 's \<times> 'c option" where
  "serve acquire release s holder [] = ([], s, holder)"
| "serve acquire release s holder ((c, get) # rs) =
    (if get then
       (let (ok, s') = acquire s; (oks, s'', holder') = serve acquire release s' (if ok then Some c else holder) rs in (ok # oks, s'', holder'))
     else if holder = Some c then
       (let (ok, s') = release s; (oks, s'', holder') = serve acquire release s' None rs in (ok # oks, s'', holder'))
     else (let (oks, s'', holder') = serve acquire release s holder rs in (False # oks, s'', holder')))"

fun lock_answers :: "'c option \<Rightarrow> ('c \<times> bool) list \<Rightarrow> bool list" where
  "lock_answers holder [] = []"
| "lock_answers holder ((c, get) # rs) =
    (if get then if holder = None then True # lock_answers (Some c) rs else False # lock_answers holder rs
     else if holder = Some c then True # lock_answers None rs else False # lock_answers holder rs)"

text \<open>
  A lock that is asked for by one request at a time: \<open>free\<close> counts how often it can be granted. The answer
  is \<open>True\<close> when the request is granted; a client that got the lock gives it back once.
\<close>

locale lock_service =
  fixes valid :: "'s \<Rightarrow> bool" and free :: "'s \<Rightarrow> nat" and acquire release :: "'s \<Rightarrow> bool \<times> 's"
  assumes grants: "valid s \<Longrightarrow> free s = 1 \<Longrightarrow> fst (acquire s) \<and> valid (snd (acquire s)) \<and> free (snd (acquire s)) = 0"
    and refuses: "valid s \<Longrightarrow> free s = 0 \<Longrightarrow> \<not> fst (acquire s) \<and> valid (snd (acquire s)) \<and> free (snd (acquire s)) = 0"
    and gives_back: "valid s \<Longrightarrow> free s = 0 \<Longrightarrow> fst (release s) \<and> valid (snd (release s)) \<and> free (snd (release s)) = 1"
begin

lemma serve_answers:
  "valid s \<Longrightarrow> free s = (if holder = None then 1 else 0) \<Longrightarrow> fst (serve acquire release s holder rs) = lock_answers holder rs"
proof (induction rs arbitrary: s holder)
  case (Cons r rs)
  obtain c get where r: "r = (c, get)"
    by (cases r)
  show ?case
    using Cons.prems Cons.IH [of "snd (acquire s)" "Some c"] Cons.IH [of "snd (acquire s)" holder]
      Cons.IH [of "snd (release s)" None] Cons.IH [of s holder] grants [of s] refuses [of s] gives_back [of s]
    by (auto simp: r split: prod.splits if_splits)
qed simp

end

end
