(* ===== verification/LockFiles.thy ===== *)
theory LockFiles
  imports Arrays
begin

text \<open>
  The file \<open>initialize.ini\<close> in which the lock servers keep the state of the locks (\<open>LibSrc/file_lib.c\<close> of
  the shared memory server and of the system semaphore server), as the text it holds. A line is read
  with \<open>fgets(temp, 1024, fp)\<close> into 100 bytes.
\<close>

section \<open>Text files\<close>

abbreviation zero_char :: char where "zero_char \<equiv> CHR 0x00"

definition newline :: char where "newline = CHR 0x0A"

definition first_line :: "string \<Rightarrow> string" where
  "first_line rest = takeWhile (\<lambda>c. c \<noteq> newline) rest @ (if newline \<in> set rest then [newline] else [])"

text \<open>\<open>fopen\<close> of a file that is missing gives a null pointer, which is not tested before \<open>fgets\<close>.\<close>

definition open_file :: "string option \<Rightarrow> c_fault + string" where
  "open_file ini = (case ini of None \<Rightarrow> Inl Null_pointer | Some file \<Rightarrow> Inr file)"

lemma open_file_Some: "open_file (Some file) = Inr file"
  by (simp add: open_file_def)

definition c_string :: "string \<Rightarrow> string" where
  "c_string s = takeWhile (\<lambda>c. c \<noteq> zero_char) s"

text \<open>\<open>memset(temp, 0x00, 100)\<close> and \<open>fgets\<close>: the buffer, and whether the end of the file was met.\<close>

definition line_buffer :: "string \<Rightarrow> c_fault + string" where
  "line_buffer rest =
    (let line = first_line rest in
     if length line < 100 then Inr (line @ replicate (100 - length line) zero_char) else Inl Out_of_bounds)"

definition met_end :: "string \<Rightarrow> bool" where
  "met_end rest \<longleftrightarrow> newline \<notin> set rest"

text \<open>The position behind the first line that \<open>found\<close> accepts: \<open>ftell\<close>.\<close>

function scan_file :: "(string \<Rightarrow> c_fault + bool) \<Rightarrow> nat \<Rightarrow> string \<Rightarrow> c_fault + nat option" where
  "scan_file found pos rest =
    (case line_buffer rest of
       Inl e \<Rightarrow> Inl e
     | Inr temp \<Rightarrow>
       (case found temp of
          Inl e \<Rightarrow> Inl e
        | Inr True \<Rightarrow> Inr (Some (pos + length (first_line rest)))
        | Inr False \<Rightarrow>
          if met_end rest then Inr None
          else scan_file found (pos + length (first_line rest)) (drop (length (first_line rest)) rest)))"
  by pat_completeness auto
termination
  by (relation "measure (\<lambda>(found, pos, rest). length rest)")
    (auto simp: met_end_def first_line_def intro!: diff_less)

declare scan_file.simps [simp del]

text \<open>\<open>fseek(fp, pos, SEEK_SET)\<close> and \<open>fputs\<close>: a gap behind the end is filled with zeros.\<close>

definition overwrite :: "nat \<Rightarrow> string \<Rightarrow> string \<Rightarrow> string" where
  "overwrite pos new file =
    (let file = file @ replicate (pos - length file) zero_char in take pos file @ new @ drop (pos + length new) file)"

section \<open>Numbers in text\<close>

definition is_space :: "char \<Rightarrow> bool" where
  "is_space c \<longleftrightarrow> c \<in> set [CHR '' '', CHR 0x09, CHR 0x0A, CHR 0x0B, CHR 0x0C, CHR 0x0D]"

definition is_digit :: "char \<Rightarrow> bool" where
  "is_digit c \<longleftrightarrow> 48 \<le> (of_char c :: nat) \<and> (of_char c :: nat) \<le> 57"

definition sign_of :: "string \<Rightarrow> int \<times> string" where
  "sign_of s =
    (case s of c # t \<Rightarrow> if c = CHR ''-'' then (-1, t) else if c = CHR ''+'' then (1, t) else (1, s) | [] \<Rightarrow> (1, s))"

definition digits_value :: "string \<Rightarrow> int" where
  "digits_value ds = foldl (\<lambda>n c. 10 * n + (of_char c - 48)) 0 ds"

text \<open>
  \<open>atoi\<close> of the characters of a buffer: it stops at the first character that does not belong to the
  number, and leaves the buffer when there is none. The numbers are taken to fit an \<open>int\<close>.
\<close>

definition buffer_atoi :: "string \<Rightarrow> c_fault + int" where
  "buffer_atoi s =
    (let (sign, t) = sign_of (dropWhile is_space s) in
     if dropWhile is_digit t = [] then Inl Out_of_bounds else Inr (sign * digits_value (takeWhile is_digit t)))"

text \<open>\<open>sprintf(buff, "%d", n)\<close> into two bytes.\<close>

definition sprintf_digit :: "int \<Rightarrow> c_fault + string" where
  "sprintf_digit n = (if 0 \<le> n \<and> n < 10 then Inr [''0123456789'' ! nat n] else Inl Out_of_bounds)"

text \<open>\<open>"%d"\<close>\<close>

fun digits :: "nat \<Rightarrow> string" where
  "digits n = (if n < 10 then [''0123456789'' ! n] else digits (n div 10) @ [''0123456789'' ! (n mod 10)])"

declare digits.simps [simp del]

text \<open>\<open>"%#010x"\<close> of a number of 32 bits.\<close>

definition hex_letter :: "nat \<Rightarrow> char" where
  "hex_letter d = ''0123456789abcdef'' ! d"

definition sprintf_key :: "int \<Rightarrow> string" where
  "sprintf_key n =
    (if n = 0 then replicate 10 (CHR ''0'')
     else ''0x'' @ map (\<lambda>i. hex_letter (nat n div 16 ^ (7 - i) mod 16)) [0..<8])"

section \<open>The shared memory server\<close>

definition is_shm_key :: "int \<Rightarrow> string \<Rightarrow> c_fault + bool" where
  "is_shm_key index temp =
    (if take 7 temp = ''SHM_KEY''
     then bind_fault (buffer_atoi (take 2 (drop 8 temp))) (\<lambda>n. Inr (n = index))
     else Inr False)"

definition writeInitFile :: "int \<Rightarrow> int \<Rightarrow> string option \<Rightarrow> c_fault + string" where
  "writeInitFile index isShared ini =
    bind_fault (open_file ini) (\<lambda>file.
    bind_fault (scan_file (is_shm_key index) 0 file) (\<lambda>size.
    bind_fault (sprintf_digit isShared) (\<lambda>buff.
      Inr (overwrite ((case size of None \<Rightarrow> 0 | Some n \<Rightarrow> n) + 16) buff file))))"

definition key_entry :: "nat \<Rightarrow> string \<Rightarrow> string" where
  "key_entry index shm_key = ''SHM_KEY['' @ digits index @ ''] = '' @ shm_key @ [newline]"

definition status_entry :: string where
  "status_entry = ''SHARED_STATUS = 0'' @ [newline]"

text \<open>
  When there is no line that starts with \<open>SHARED_INFO\<close>, \<open>fseek\<close> gets the position \<open>-2\<close>, fails, and the
  entry is written where the file was read to, at its end. \<open>shm_buff\<close> has 30 bytes.
\<close>

definition initializeInitFile :: "nat \<Rightarrow> string \<Rightarrow> string option \<Rightarrow> c_fault + string" where
  "initializeInitFile index shm_key ini =
    bind_fault (open_file ini) (\<lambda>file.
    bind_fault (scan_file (\<lambda>temp. Inr (take 11 temp = ''SHARED_INFO'')) 0 file) (\<lambda>size.
      if length (key_entry index shm_key) < 30
      then Inr (case size of
          None \<Rightarrow> file @ key_entry index shm_key @ status_entry
        | Some n \<Rightarrow> overwrite (n - 2) (key_entry index shm_key @ status_entry) file)
      else Inl Out_of_bounds))"

section \<open>The system semaphore server\<close>

definition is_sem_key :: "nat \<Rightarrow> int \<Rightarrow> string \<Rightarrow> c_fault + bool" where
  "is_sem_key room semid temp =
    (if take 7 temp = ''SEM_KEY''
     then bind_fault (buffer_atoi (take room (drop 10 temp))) (\<lambda>n. Inr (n = semid))
     else Inr False)"

text \<open>\<open>writeInitFile\<close> of this server adds an entry for a semaphore that has none.\<close>

definition sem_entry :: "nat \<Rightarrow> int \<Rightarrow> string" where
  "sem_entry semid isSemaphored =
    ''SEM_KEY = '' @ digits semid @ [newline] @ ''SEMAPHORED_STATUS = '' @ digits (nat isSemaphored) @ [newline]"

definition add_semaphore_entry :: "nat \<Rightarrow> int \<Rightarrow> string option \<Rightarrow> c_fault + string" where
  "add_semaphore_entry semid isSemaphored ini =
    bind_fault (open_file ini) (\<lambda>file.
    bind_fault (scan_file (is_sem_key 30 (int semid)) 0 file) (\<lambda>size.
      Inr (case size of None \<Rightarrow> file @ sem_entry semid isSemaphored | Some n \<Rightarrow> file)))"

definition markInitFile :: "nat \<Rightarrow> int \<Rightarrow> string option \<Rightarrow> c_fault + string" where
  "markInitFile semid isSemaphored ini =
    bind_fault (open_file ini) (\<lambda>file.
    bind_fault (scan_file (is_sem_key 10 (int semid)) 0 file) (\<lambda>size.
    bind_fault (sprintf_digit isSemaphored) (\<lambda>buff.
      Inr (overwrite ((case size of None \<Rightarrow> 0 | Some n \<Rightarrow> n) + 20) buff file))))"

section \<open>Files of whole lines\<close>

definition text_line :: "string \<Rightarrow> string" where
  "text_line l = l @ [newline]"

definition short_line :: "string \<Rightarrow> bool" where
  "short_line l \<longleftrightarrow> newline \<notin> set l \<and> length l < 99"

definition padded :: "string \<Rightarrow> string" where
  "padded l = text_line l @ replicate (99 - length l) zero_char"

lemma first_line_append: "newline \<notin> set l \<Longrightarrow> first_line (l @ newline # rest) = l @ [newline]"
  by (induction l) (auto simp: first_line_def)

lemma length_text_line: "length (text_line l) = length l + 1"
  by (simp add: text_line_def)

lemma line_buffer_append: "short_line l \<Longrightarrow> line_buffer (l @ newline # rest) = Inr (padded l)"
  by (simp add: line_buffer_def first_line_append short_line_def padded_def text_line_def Suc_diff_Suc Let_def)

text \<open>One round of the loop over the lines.\<close>

lemma scan_line:
  assumes "short_line l" and "found (padded l) = Inr b"
  shows "scan_file found pos (text_line l @ rest) =
    (if b then Inr (Some (pos + length l + 1)) else scan_file found (pos + length l + 1) rest)"
  using assms by (subst scan_file.simps)
    (auto simp: text_line_def line_buffer_append first_line_append short_line_def met_end_def)

lemma scan_lines:
  assumes "\<forall>l \<in> set ls. short_line l \<and> found (padded l) = Inr False"
  shows "scan_file found pos (concat (map text_line ls) @ rest) = scan_file found (pos + length (concat (map text_line ls))) rest"
  using assms
proof (induction ls arbitrary: pos)
  case (Cons l ls)
  then show ?case
    using scan_line [of l found False pos "concat (map text_line ls) @ rest"] by (simp add: length_text_line ac_simps)
qed simp

lemma scan_file_end:
  assumes "found (replicate 100 zero_char) = Inr False"
  shows "scan_file found pos [] = Inr None"
  using assms by (subst scan_file.simps) (simp add: line_buffer_def first_line_def met_end_def)

lemma overwrite_inside:
  "length new = length old \<Longrightarrow> overwrite (length pre) new (pre @ old @ post) = pre @ new @ post"
  by (simp add: overwrite_def)

text \<open>The beginning of a line is that of the buffer.\<close>

lemma take_padded: "n \<le> length l \<Longrightarrow> take n (padded l) = take n l"
  by (simp add: padded_def text_line_def)

lemma take_padded_other:
  assumes "newline \<notin> set w" and "n = length w" and "take n l \<noteq> w"
  shows "take n (padded l) \<noteq> w"
proof (cases "n \<le> length l")
  case True
  then show ?thesis
    using assms(3) by (simp add: take_padded)
next
  case False
  then have "newline \<in> set (take n (padded l))"
    by (simp add: padded_def text_line_def take_Cons')
  then show ?thesis
    using assms(1) by metis
qed

section \<open>The file of the shared memory server\<close>

definition digit_char :: "nat \<Rightarrow> char" where
  "digit_char d = ''0123456789'' ! d"

definition key_line :: "nat \<Rightarrow> string \<Rightarrow> string" where
  "key_line i key = ''SHM_KEY['' @ [digit_char i] @ ''] = '' @ key"

definition status_line :: "char \<Rightarrow> string" where
  "status_line c = ''SHARED_STATUS = '' @ [c]"

text \<open>
  A file of lines that are no keys, and of entries: those the server adds at its start, and those of earlier starts.
\<close>

datatype ini_item = Plain string | Entry nat string char

fun item_text :: "ini_item \<Rightarrow> string" where
  "item_text (Plain l) = text_line l"
| "item_text (Entry i key c) = text_line (key_line i key) @ text_line (status_line c)"

definition items_text :: "ini_item list \<Rightarrow> string" where
  "items_text its = concat (map item_text its)"

definition plain_line :: "string \<Rightarrow> bool" where
  "plain_line l \<longleftrightarrow> short_line l \<and> take 7 l \<noteq> ''SHM_KEY''"

fun good_item :: "ini_item \<Rightarrow> bool" where
  "good_item (Plain l) \<longleftrightarrow> plain_line l"
| "good_item (Entry i key c) \<longleftrightarrow> i < 10 \<and> newline \<notin> set key \<and> length key < 80 \<and> c \<noteq> newline"

fun is_entry :: "nat \<Rightarrow> ini_item \<Rightarrow> bool" where
  "is_entry i (Plain l) = False"
| "is_entry i (Entry j key c) \<longleftrightarrow> i = j"

lemma less_10: "d < 10 \<Longrightarrow> d \<in> {0, 1, 2, 3, 4, 5, 6, 7, 8, 9 :: nat}"
  by auto

lemma digit_char_facts:
  assumes "d < 10"
  shows "is_digit (digit_char d)" "\<not> is_space (digit_char d)" "digit_char d \<noteq> newline" "digit_char d \<noteq> CHR ''-''"
    "digit_char d \<noteq> CHR ''+''" "digits d = [digit_char d]" "(of_char (digit_char d) :: int) = int d + 48"
  using less_10 [OF assms]
  by (elim insertE; simp add: digit_char_def is_digit_def is_space_def newline_def digits.simps)+

lemma atoi_bracket:
  assumes "d < 10"
  shows "buffer_atoi (digit_char d # CHR '']'' # s) = Inr (int d)"
  using digit_char_facts [OF assms]
  by (simp add: buffer_atoi_def sign_of_def digits_value_def is_digit_def)

lemma is_shm_key_entry:
  assumes "i < 10"
  shows "is_shm_key index (padded (key_line i key)) = Inr (int i = index)"
proof -
  have "take 2 (drop 8 (padded (key_line i key))) = digit_char i # [CHR '']'']"
    by (simp add: key_line_def padded_def text_line_def numeral_2_eq_2)
  moreover have "take 7 (padded (key_line i key)) = ''SHM_KEY''"
    by (simp add: key_line_def padded_def text_line_def)
  ultimately show ?thesis
    using atoi_bracket [OF assms] by (simp add: is_shm_key_def bind_fault_Inr)
qed

lemma is_shm_key_plain: "plain_line l \<Longrightarrow> is_shm_key index (padded l) = Inr False"
  using take_padded_other [of "''SHM_KEY''" 7 l] by (auto simp: is_shm_key_def plain_line_def newline_def)

lemma plain_status_line: "c \<noteq> newline \<Longrightarrow> plain_line (status_line c)"
  by (simp add: plain_line_def status_line_def short_line_def newline_def)

lemma short_key_line: "good_item (Entry i key c) \<Longrightarrow> short_line (key_line i key)"
  using digit_char_facts(3) [of i] by (auto simp: key_line_def short_line_def newline_def)

lemma scan_item:
  assumes "good_item it" and "\<not> is_entry index it"
  shows "scan_file (is_shm_key (int index)) pos (item_text it @ rest) = scan_file (is_shm_key (int index)) (pos + length (item_text it)) rest"
proof (cases it)
  case (Plain l)
  then have "short_line l" "is_shm_key (int index) (padded l) = Inr False"
    using assms(1) is_shm_key_plain by (auto simp: plain_line_def)
  then show ?thesis
    using scan_line [of l "is_shm_key (int index)" False pos rest] Plain by (simp add: length_text_line)
next
  case (Entry i key c)
  then have i: "i < 10" "c \<noteq> newline" "index \<noteq> i"
    using assms by auto
  note status = plain_status_line [OF i(2)]
  show ?thesis
    using scan_line [of "key_line i key" "is_shm_key (int index)" False pos "text_line (status_line c) @ rest"]
      scan_line [of "status_line c" "is_shm_key (int index)" False "pos + length (key_line i key) + 1" rest]
      short_key_line [of i key c] is_shm_key_entry [OF i(1), of "int index" key] is_shm_key_plain [OF status] status Entry assms(1) i(3)
    by (simp add: length_text_line plain_line_def add.assoc)
qed

lemma scan_items:
  assumes "\<forall>it \<in> set pre. good_item it \<and> \<not> is_entry index it" and "good_item (Entry index key c)"
  shows "scan_file (is_shm_key (int index)) pos (items_text pre @ item_text (Entry index key c) @ rest) =
    Inr (Some (pos + length (items_text pre) + length (text_line (key_line index key))))"
  using assms(1)
proof (induction pre arbitrary: pos)
  case Nil
  have "index < 10" "short_line (key_line index key)"
    using assms(2) short_key_line by auto
  then show ?case
    using scan_line [of "key_line index key" "is_shm_key (int index)" True pos "text_line (status_line c) @ rest"]
      is_shm_key_entry [of index "int index" key] by (simp add: items_text_def length_text_line)
next
  case (Cons it pre)
  then show ?case
    using scan_item [of it index pos "items_text pre @ item_text (Entry index key c) @ rest"]
    by (simp add: items_text_def ac_simps)
qed

text \<open>\<open>writeInitFile\<close> changes the status in the first entry of an index and nothing else.\<close>

lemma writeInitFile_entry:
  assumes "\<forall>it \<in> set pre. good_item it \<and> \<not> is_entry i it" and "good_item (Entry i key c)" and "v = 0 \<or> v = 1"
  shows "writeInitFile (int i) v (Some (items_text (pre @ Entry i key c # post))) =
    Inr (items_text (pre @ Entry i key (digit_char (nat v)) # post))"
proof -
  let ?pre = "items_text pre @ text_line (key_line i key) @ ''SHARED_STATUS = ''"
  have split: "items_text (pre @ Entry i key d # post) = ?pre @ [d] @ newline # items_text post" for d
    by (simp add: items_text_def status_line_def text_line_def)
  define n where "n = length (items_text pre) + length (text_line (key_line i key))"
  have n: "n + 16 = length ?pre"
    by (simp add: n_def)
  have scan: "scan_file (is_shm_key (int i)) 0 (items_text (pre @ Entry i key c # post)) = Inr (Some n)"
    using scan_items [OF assms(1, 2), of 0 "items_text post"] by (simp add: items_text_def n_def)
  have digit: "sprintf_digit v = Inr [digit_char (nat v)]"
    using assms(3) by (auto simp: sprintf_digit_def digit_char_def)
  have "overwrite (length ?pre) [digit_char (nat v)] (items_text (pre @ Entry i key c # post)) =
      items_text (pre @ Entry i key (digit_char (nat v)) # post)"
    unfolding split by (rule overwrite_inside) simp
  then show ?thesis
    unfolding writeInitFile_def open_file_Some bind_fault_Inr scan digit option.case n by simp
qed

end
