(* ===== verification/LockServer.thy ===== *)
theory LockServer
  imports Interleave LockFiles
begin

text \<open>
  The lock server of \<open>test_sharedMemory/Shared_Server\<close>: \<open>init_ipc\<close> makes ten semaphores and ten segments of
  shared memory, and a child process per connection runs \<open>server_main\<close>, which reads the state byte
  of a segment and sets it. Each of the two accesses is guarded by a semaphore, the pair is not.

  The system calls \<open>ftok\<close>, \<open>semget\<close>, \<open>shmget\<close>, \<open>semctl\<close> and \<open>shmat\<close> are parameters, a record of functions
  that depend on the key or the identifier only. Which calls of \<open>semop\<close> fail is a parameter too. What cJSON prints for the items
  of a request is a parameter of \<open>parseRecvData\<close>. Sockets, \<open>fork\<close> and the debugging output are left out.
\<close>

section \<open>The request\<close>

text \<open>
  \<open>PROTOCOL\<close> as the 70 bytes it takes: \<open>pgm\<close> 31, \<open>site_cd\<close> 11, \<open>ip\<close> 16, \<open>flag\<close>, \<open>semKey\<close> and \<open>shmKey\<close> 4 each. The reads of
  \<open>changeCharToNumber\<close> and the copies of \<open>parseRecvData\<close> may run from one member into the next.
\<close>

definition pgm_at :: nat where "pgm_at = 0"
definition site_cd_at :: nat where "site_cd_at = pgm_at + 31"
definition ip_at :: nat where "ip_at = site_cd_at + 11"
definition flag_at :: nat where "flag_at = ip_at + 16"
definition semKey_at :: nat where "semKey_at = flag_at + 4"
definition shmKey_at :: nat where "shmKey_at = semKey_at + 4"
definition protocol_size :: nat where "protocol_size = shmKey_at + 4"

lemmas offsets = pgm_at_def site_cd_at_def ip_at_def flag_at_def semKey_at_def shmKey_at_def protocol_size_def

text \<open>\<open>memcpy(data->x, cJSON_Print(item) + 1, strlen(cJSON_Print(item)) - 2)\<close>\<close>

definition copy_item :: "nat \<Rightarrow> string option \<Rightarrow> string \<Rightarrow> c_fault + string" where
  "copy_item at printed data =
    (case printed of
       None \<Rightarrow> Inl Null_pointer
     | Some s \<Rightarrow>
       if 2 \<le> length s \<and> at + (length s - 2) \<le> length data
       then Inr (take at data @ take (length s - 2) (drop 1 s) @ drop (at + (length s - 2)) data)
       else Inl Out_of_bounds)"

definition parseRecvData :: "(string \<Rightarrow> string \<Rightarrow> string option) \<Rightarrow> string \<Rightarrow> string \<Rightarrow> c_fault + string" where
  "parseRecvData printed buff data =
    bind_fault (copy_item pgm_at (printed buff ''pgm'') data) (\<lambda>data.
    bind_fault (copy_item site_cd_at (printed buff ''site_cd'') data) (\<lambda>data.
    bind_fault (copy_item ip_at (printed buff ''ip'') data) (\<lambda>data.
    bind_fault (copy_item flag_at (printed buff ''flag'') data) (\<lambda>data.
    bind_fault (copy_item semKey_at (printed buff ''semKey'') data)
      (copy_item shmKey_at (printed buff ''shmKey''))))))"

text \<open>\<open>strcmp(data.flag, s) == 0\<close>, for strings shorter than the member.\<close>

definition flag_is :: "string \<Rightarrow> string \<Rightarrow> bool" where
  "flag_is data s \<longleftrightarrow> take (length s + 1) (drop flag_at data) = s @ [zero_char]"

text \<open>The loop bound of \<open>changeCharToNumber\<close> is \<open>sizeof\<close> a pointer, 8.\<close>

fun letter_loop :: "nat \<Rightarrow> string \<Rightarrow> c_fault + int" where
  "letter_loop 0 temp = Inr 0"
| "letter_loop (Suc n) [] = Inl Out_of_bounds"
| "letter_loop (Suc n) (c # temp) =
    (if c \<in> set ''ABCDEFGHIJKLMNOPQRSTUVWXYZ'' then Inr (of_char c) else letter_loop n temp)"

definition changeCharToNumber :: "string \<Rightarrow> c_fault + int" where
  "changeCharToNumber temp = letter_loop 8 temp"

section \<open>Semaphores and segments\<close>

record ipc_calls =
  ftok :: "int \<Rightarrow> int"
  semget :: "int \<Rightarrow> int"
  shmget :: "int \<Rightarrow> int"
  semctl :: "int \<Rightarrow> int"
  shmat :: "int \<Rightarrow> bool"

record kernel =
  sem_val :: "int \<Rightarrow> nat"
  shm_seg :: "int \<Rightarrow> string"
  ini_file :: "string option"

record ipc_ids =
  semids :: "int list"
  shmids :: "int list"

definition sem_key :: "int list" where "sem_key = map of_char ''ABCDEFGHIJ''"
definition shm_key :: "int list" where "shm_key = map of_char ''KLMNOPQRST''"

text \<open>One round of the loop of \<open>init_ipc\<close>; \<open>Inl\<close> is its early return.\<close>

definition init_round :: "ipc_calls \<Rightarrow> nat \<Rightarrow> ipc_ids \<times> kernel \<Rightarrow> c_fault + (int + (ipc_ids \<times> kernel))" where
  "init_round os i = (\<lambda>(ids, k).
    let ipc_key = ftok os (sem_key ! i); sem = semget os ipc_key in
    if ipc_key < 0 \<or> sem = -1 \<or> semctl os sem = -1 then Inr (Inl (-1))
    else
      let ids = ids\<lparr>semids := (semids ids)[i := sem]\<rparr>; k = k\<lparr>sem_val := (sem_val k)(sem := 1)\<rparr>;
          ipc_key = ftok os (shm_key ! i); shm = shmget os ipc_key in
      if ipc_key < 0 \<or> shm = -1 \<or> \<not> shmat os shm then Inr (Inl (-1))
      else
        let ids = ids\<lparr>shmids := (shmids ids)[i := shm]\<rparr>; k = k\<lparr>shm_seg := (shm_seg k)(shm := replicate 10 zero_char)\<rparr> in
        bind_fault (initializeInitFile i (sprintf_key ipc_key) (ini_file k)) (\<lambda>file.
          Inr (Inr (ids, k\<lparr>ini_file := Some file\<rparr>))))"

fun init_loop :: "ipc_calls \<Rightarrow> nat list \<Rightarrow> ipc_ids \<times> kernel \<Rightarrow> c_fault + (int + (ipc_ids \<times> kernel))" where
  "init_loop os [] st = Inr (Inr st)"
| "init_loop os (i # is) st =
    bind_fault (init_round os i st) (\<lambda>r. case r of Inl ret \<Rightarrow> Inr (Inl ret) | Inr st \<Rightarrow> init_loop os is st)"

definition init_ipc :: "ipc_calls \<Rightarrow> kernel \<Rightarrow> c_fault + (int + (ipc_ids \<times> kernel))" where
  "init_ipc os k = init_loop os [0..<10] (\<lparr>semids = replicate 10 0, shmids = replicate 10 0\<rparr>, k)"

text \<open>
  \<open>semop\<close> with \<open>-1\<close> and \<open>+1\<close>: a process that is alone waits for ever at the value \<open>0\<close>. A call that fails (\<open>EINTR\<close>,
  \<open>ENOMEM\<close>) changes nothing and gives \<open>0\<close>; the environment names the calls of a handler that do.
\<close>

datatype sem_call = Get_wait | Get_post | Set_wait | Set_post

definition no_errors :: "sem_call \<Rightarrow> bool" where
  "no_errors = (\<lambda>_. False)"

definition sem_lock :: "bool \<Rightarrow> int \<Rightarrow> kernel \<Rightarrow> c_fault + (int \<times> kernel)" where
  "sem_lock err sem k =
    (if err then Inr (0, k)
     else if sem_val k sem = 0 then Inl No_return
     else Inr (1, k\<lparr>sem_val := (sem_val k)(sem := sem_val k sem - 1)\<rparr>))"

definition sem_unlock :: "bool \<Rightarrow> int \<Rightarrow> kernel \<Rightarrow> int \<times> kernel" where
  "sem_unlock err sem k = (if err then (0, k) else (1, k\<lparr>sem_val := (sem_val k)(sem := sem_val k sem + 1)\<rparr>))"

text \<open>\<open>shmat\<close> whose error is only logged: the pointer is then read.\<close>

definition getShmSeg :: "ipc_calls \<Rightarrow> int \<Rightarrow> kernel \<Rightarrow> c_fault + string" where
  "getShmSeg os shm k = (if shmat os shm then Inr (shm_seg k shm) else Inl Null_pointer)"

definition status_of :: "char \<Rightarrow> int" where
  "status_of c = (if c = CHR ''0'' then 0 else if c = CHR ''1'' then 1 else sint (of_char c :: u8))"

text \<open>The two accesses only log the \<open>0\<close> of a \<open>sem_lock\<close> or a \<open>sem_unlock\<close>, and go on.\<close>

definition getShmSegData :: "ipc_calls \<Rightarrow> (sem_call \<Rightarrow> bool) \<Rightarrow> int \<Rightarrow> int \<Rightarrow> int \<Rightarrow> kernel \<Rightarrow> c_fault + (int \<times> kernel)" where
  "getShmSegData os err sem shm index k =
    bind_fault (sem_lock (err Get_wait) sem k) (\<lambda>(_, k).
    bind_fault (getShmSeg os shm k) (\<lambda>tIndex.
    bind_fault (load tIndex index) (\<lambda>c.
      Inr (status_of c, snd (sem_unlock (err Get_post) sem k)))))"

definition setShmSegData :: "ipc_calls \<Rightarrow> (sem_call \<Rightarrow> bool) \<Rightarrow> int \<Rightarrow> int \<Rightarrow> int \<Rightarrow> char \<Rightarrow> kernel \<Rightarrow> c_fault + kernel" where
  "setShmSegData os err sem shm index c k =
    bind_fault (sem_lock (err Set_wait) sem k) (\<lambda>(_, k).
    bind_fault (getShmSeg os shm k) (\<lambda>tIndex.
    bind_fault (store tIndex index c) (\<lambda>tIndex.
      Inr (snd (sem_unlock (err Set_post) sem (k\<lparr>shm_seg := (shm_seg k)(shm := tIndex)\<rparr>))))))"

section \<open>The keys of a request\<close>

text \<open>The loops over the tables of keys; \<open>Inl\<close> is a return from the function.\<close>

fun shm_loop :: "ipc_calls \<Rightarrow> int \<Rightarrow> int list \<Rightarrow> int \<times> int \<Rightarrow> int + (int \<times> int)" where
  "shm_loop os num [] (shm, rtn) = Inr (shm, rtn)"
| "shm_loop os num (key # keys) (shm, rtn) =
    (if key = num then
       (if ftok os num < 0 then Inl (-1)
        else if shmget os (ftok os num) = -1 then Inl (-1)
        else Inr (shmget os (ftok os num), 1))
     else shm_loop os num keys (shm, rtn))"

fun sem_loop :: "ipc_calls \<Rightarrow> int \<Rightarrow> int \<Rightarrow> int list \<Rightarrow> int \<times> int \<times> int \<Rightarrow> int + (int \<times> int \<times> int)" where
  "sem_loop os num num' [] (sem, shm, rtn) = Inr (sem, shm, rtn)"
| "sem_loop os num num' (key # keys) (sem, shm, rtn) =
    (if key = num then
       (if ftok os num < 0 then Inl (-1)
        else if semget os (ftok os num) = -1 then Inl (-1)
        else
          (case shm_loop os num' shm_key (shm, rtn) of
             Inl r \<Rightarrow> Inl r
           | Inr (shm, rtn) \<Rightarrow> sem_loop os num num' keys (semget os (ftok os num), shm, rtn)))
     else sem_loop os num num' keys (sem, shm, rtn))"

fun index_loop :: "int \<Rightarrow> int \<Rightarrow> int list \<Rightarrow> int \<Rightarrow> int" where
  "index_loop shm i [] index = index"
| "index_loop shm i (s # ss) index = index_loop shm (i + 1) ss (if shm = s then i else index)"

text \<open>\<open>temp_semid\<close>, \<open>temp_shmid\<close> and \<open>index\<close> of \<open>server_main\<close> are not initialised.\<close>

definition checkSemShmKey :: "ipc_calls \<Rightarrow> ipc_ids \<Rightarrow> string \<Rightarrow> int \<times> int \<times> int \<Rightarrow> c_fault + (int + (int \<times> int \<times> int \<times> int))" where
  "checkSemShmKey os ids data = (\<lambda>(sem, shm, index).
    bind_fault (changeCharToNumber (drop semKey_at data)) (\<lambda>numSemKey.
    bind_fault (changeCharToNumber (drop shmKey_at data)) (\<lambda>numShmKey.
      if numSemKey = 0 \<or> numShmKey = 0 then Inr (Inl (-1))
      else
        Inr (case sem_loop os numSemKey numShmKey sem_key (sem, shm, 0) of
            Inl r \<Rightarrow> Inl r
          | Inr (sem, shm, rtn) \<Rightarrow>
            Inr (rtn, sem, shm, if rtn = 1 then index_loop shm 0 (shmids ids) index else index)))))"

section \<open>The handler of a connection\<close>

text \<open>\<open>server_main\<close> on the received bytes, when no other process runs: its answer and the state it leaves.\<close>

definition not_found :: string where "not_found = ''[ERROR] not found key''"
definition lock_ok :: string where "lock_ok = ''[OK] succeed Locking''"
definition lock_fail :: string where "lock_fail = ''[ERROR] fail Locking''"
definition unlock_ok :: string where "unlock_ok = ''[OK] succeed UnLocking''"
definition not_correct :: string where "not_correct = ''[ERROR] not correct message''"

lemmas answers = not_found_def lock_ok_def lock_fail_def unlock_ok_def not_correct_def

text \<open>
  \<open>memcpy(sBuff, "...", sizeof(sBuff))\<close> reads 1024 bytes from a literal and from what lies behind it in memory, which
  \<open>follows\<close> gives for each literal.
\<close>

definition reply :: "(string \<Rightarrow> string) \<Rightarrow> string \<Rightarrow> c_fault + string" where
  "reply follows msg =
    (let mem = msg @ zero_char # follows msg in if 1024 \<le> length mem then Inr (take 1024 mem) else Inl Out_of_bounds)"

definition set_status :: "ipc_calls \<Rightarrow> (sem_call \<Rightarrow> bool) \<Rightarrow> int \<Rightarrow> int \<Rightarrow> int \<Rightarrow> int \<Rightarrow> string \<Rightarrow> kernel \<Rightarrow> c_fault + (string \<times> kernel)" where
  "set_status os err sem shm index status answer k =
    bind_fault (setShmSegData os err sem shm index (if status = 1 then CHR ''1'' else CHR ''0'') k) (\<lambda>k.
    bind_fault (writeInitFile index status (ini_file k)) (\<lambda>file.
      Inr (answer, k\<lparr>ini_file := Some file\<rparr>)))"

definition answer_request :: "ipc_calls \<Rightarrow> (sem_call \<Rightarrow> bool) \<Rightarrow> string \<Rightarrow> int \<Rightarrow> int \<Rightarrow> int \<Rightarrow> kernel \<Rightarrow> c_fault + (string \<times> kernel)" where
  "answer_request os err data sem shm index k =
    (if flag_is data ''1'' then
       bind_fault (getShmSegData os err sem shm index k) (\<lambda>(isShared, k).
         if isShared = 0 then set_status os err sem shm index 1 lock_ok k else Inr (lock_fail, k))
     else if flag_is data ''0'' then set_status os err sem shm index 0 unlock_ok k
     else Inr (not_correct, k))"

text \<open>
  The 1024 bytes that are sent, and the state. The copy of the answer comes last here; the code makes it before
  \<open>writeInitFile\<close>.
\<close>

definition server_main :: "(string \<Rightarrow> string \<Rightarrow> string option) \<Rightarrow> (string \<Rightarrow> string) \<Rightarrow> ipc_calls \<Rightarrow> (sem_call \<Rightarrow> bool) \<Rightarrow> ipc_ids \<Rightarrow>
    string \<Rightarrow> string \<Rightarrow> int \<times> int \<times> int \<Rightarrow> kernel \<Rightarrow> c_fault + (string \<times> kernel)" where
  "server_main printed follows os err ids rBuff data temps k =
    bind_fault (parseRecvData printed rBuff data) (\<lambda>data.
    bind_fault (checkSemShmKey os ids data temps) (\<lambda>r.
    bind_fault
      (case r of
         Inl _ \<Rightarrow> Inr (not_found, k)
       | Inr (rtn, sem, shm, index) \<Rightarrow>
         if rtn \<le> 0 then Inr (not_found, k) else answer_request os err data sem shm index k) (\<lambda>(msg, k).
    bind_fault (reply follows msg) (\<lambda>sBuff. Inr (sBuff, k)))))"

text \<open>
  The same handler step by step, for processes that run together. A step is a system call or an access to the
  shared memory. The write to the file counts as one step. A child process ends with its answer; with \<open>SEM_UNDO\<close> a process
  that ends, also by a fault, takes back what its own calls of \<open>semop\<close> have done to the semaphore, down to \<open>0\<close> at most. The copy
  of the answer is that of \<open>server_main\<close> and is no step of its own.
\<close>

datatype place =
    Get_lock | Get_read | Get_unlock int | Test int
  | Set_lock int string | Set_write int string | Set_unlock int string | Write_file int string
  | Answered string | Faulted c_fault

record handler =
  h_sem :: int
  h_shm :: int
  h_index :: int
  h_errors :: "sem_call \<Rightarrow> bool"
  h_place :: place

text \<open>The \<open>semadj\<close> of a process: one for each \<open>semop\<close> by \<open>-1\<close> that was done, less one for each by \<open>+1\<close>.\<close>

definition done_by :: "(sem_call \<Rightarrow> bool) \<Rightarrow> sem_call \<Rightarrow> int" where
  "done_by err c = (if err c then 0 else 1)"

definition after_get :: "(sem_call \<Rightarrow> bool) \<Rightarrow> int \<Rightarrow> int" where
  "after_get err v = (if v = 1 then done_by err Get_wait - done_by err Get_post else 0)"

fun semadj :: "(sem_call \<Rightarrow> bool) \<Rightarrow> place \<Rightarrow> int" where
  "semadj err Get_read = done_by err Get_wait"
| "semadj err (Get_unlock _) = done_by err Get_wait"
| "semadj err (Test _) = done_by err Get_wait - done_by err Get_post"
| "semadj err (Set_lock v _) = after_get err v"
| "semadj err (Set_write v _) = after_get err v + done_by err Set_wait"
| "semadj err (Set_unlock v _) = after_get err v + done_by err Set_wait"
| "semadj err (Write_file v _) = after_get err v + done_by err Set_wait - done_by err Set_post"
| "semadj err _ = 0"

definition goes_to :: "kernel \<Rightarrow> handler \<Rightarrow> place \<Rightarrow> (kernel \<times> handler) option" where
  "goes_to k h p = Some (k, h\<lparr>h_place := p\<rparr>)"

definition ends :: "kernel \<Rightarrow> handler \<Rightarrow> place \<Rightarrow> (kernel \<times> handler) option" where
  "ends k h p =
    goes_to (k\<lparr>sem_val := (sem_val k)(h_sem h := nat (int (sem_val k (h_sem h)) + semadj (h_errors h) (h_place h)))\<rparr>) h p"

definition waits :: "kernel \<Rightarrow> handler \<Rightarrow> sem_call \<Rightarrow> place \<Rightarrow> (kernel \<times> handler) option" where
  "waits k h c p = (case sem_lock (h_errors h c) (h_sem h) k of Inl _ \<Rightarrow> None | Inr (_, k) \<Rightarrow> goes_to k h p)"

definition posts :: "kernel \<Rightarrow> handler \<Rightarrow> sem_call \<Rightarrow> place \<Rightarrow> (kernel \<times> handler) option" where
  "posts k h c p = (let (_, k) = sem_unlock (h_errors h c) (h_sem h) k in goes_to k h p)"

definition accesses :: "kernel \<Rightarrow> handler \<Rightarrow> c_fault + 'a \<Rightarrow> ('a \<Rightarrow> (kernel \<times> handler) option) \<Rightarrow> (kernel \<times> handler) option" where
  "accesses k h r f = (case r of Inl e \<Rightarrow> ends k h (Faulted e) | Inr x \<Rightarrow> f x)"

fun shm_step_at :: "ipc_calls \<Rightarrow> kernel \<Rightarrow> handler \<Rightarrow> place \<Rightarrow> (kernel \<times> handler) option" where
  "shm_step_at os k h Get_lock = waits k h Get_wait Get_read"
| "shm_step_at os k h Get_read =
    accesses k h (bind_fault (getShmSeg os (h_shm h) k) (\<lambda>tIndex. load tIndex (h_index h)))
      (\<lambda>c. goes_to k h (Get_unlock (status_of c)))"
| "shm_step_at os k h (Get_unlock isShared) = posts k h Get_post (Test isShared)"
| "shm_step_at os k h (Test isShared) = (if isShared = 0 then goes_to k h (Set_lock 1 lock_ok) else ends k h (Answered lock_fail))"
| "shm_step_at os k h (Set_lock v a) = waits k h Set_wait (Set_write v a)"
| "shm_step_at os k h (Set_write v a) =
    accesses k h (bind_fault (getShmSeg os (h_shm h) k)
        (\<lambda>tIndex. store tIndex (h_index h) (if v = 1 then CHR ''1'' else CHR ''0'')))
      (\<lambda>tIndex. goes_to (k\<lparr>shm_seg := (shm_seg k)(h_shm h := tIndex)\<rparr>) h (Set_unlock v a))"
| "shm_step_at os k h (Set_unlock v a) = posts k h Set_post (Write_file v a)"
| "shm_step_at os k h (Write_file v a) =
    accesses k h (writeInitFile (h_index h) v (ini_file k)) (\<lambda>file. ends (k\<lparr>ini_file := Some file\<rparr>) h (Answered a))"
| "shm_step_at os k h (Answered a) = None"
| "shm_step_at os k h (Faulted e) = None"

definition shm_step :: "ipc_calls \<Rightarrow> kernel \<Rightarrow> handler \<Rightarrow> (kernel \<times> handler) option" where
  "shm_step os k h = shm_step_at os k h (h_place h)"

definition start_place :: "string \<Rightarrow> place" where
  "start_place data =
    (if flag_is data ''1'' then Get_lock else if flag_is data ''0'' then Set_lock 0 unlock_ok else Answered not_correct)"

end
