(* ===== verification/LockRuns.thy ===== *)
theory LockRuns
  imports LockServer
begin

text \<open>
  What the handlers of the shared memory server do together: the accesses under one semaphore exclude each other, but for those
  that enter by a \<open>sem_lock\<close> that fails; every connection is answered, unless a handler fails to give the semaphore back between
  its two accesses; and the lock is not a lock. The contract of a lock service holds for requests that come one after the other.
\<close>

section \<open>Places of a handler\<close>

fun critical :: "place \<Rightarrow> bool" where
  "critical Get_read = True"
| "critical (Get_unlock _) = True"
| "critical (Set_write _ _) = True"
| "critical (Set_unlock _ _) = True"
| "critical _ = False"

fun places_left :: "place \<Rightarrow> nat" where
  "places_left Get_lock = 8"
| "places_left Get_read = 7"
| "places_left (Get_unlock _) = 6"
| "places_left (Test _) = 5"
| "places_left (Set_lock _ _) = 4"
| "places_left (Set_write _ _) = 3"
| "places_left (Set_unlock _ _) = 2"
| "places_left (Write_file _ _) = 1"
| "places_left _ = 0"

fun valid_place :: "place \<Rightarrow> bool" where
  "valid_place (Set_lock v _) \<longleftrightarrow> v = 0 \<or> v = 1"
| "valid_place (Set_write v _) \<longleftrightarrow> v = 0 \<or> v = 1"
| "valid_place (Set_unlock v _) \<longleftrightarrow> v = 0 \<or> v = 1"
| "valid_place (Write_file v _) \<longleftrightarrow> v = 0 \<or> v = 1"
| "valid_place (Faulted _) \<longleftrightarrow> False"
| "valid_place _ \<longleftrightarrow> True"

definition valid_handler :: "ipc_calls \<Rightarrow> handler \<Rightarrow> bool" where
  "valid_handler os h \<longleftrightarrow> shmat os (h_shm h) \<and> 0 \<le> h_index h \<and> h_index h < 10 \<and> valid_place (h_place h)"

text \<open>
  The segments hold ten bytes, and the file has an entry for each of them, behind, between and before any other short lines and
  entries.
\<close>

definition valid_file :: "string \<Rightarrow> bool" where
  "valid_file text \<longleftrightarrow>
    (\<exists>its. text = items_text its \<and> (\<forall>it \<in> set its. good_item it) \<and> (\<forall>i < 10. \<exists>it \<in> set its. is_entry i it))"

definition valid_kernel :: "int set \<Rightarrow> kernel \<Rightarrow> bool" where
  "valid_kernel S k \<longleftrightarrow> (\<forall>s \<in> S. length (shm_seg k s) = 10) \<and> (\<exists>text. ini_file k = Some text \<and> valid_file text)"

lemma is_entry_iff: "is_entry i it \<longleftrightarrow> (\<exists>key c. it = Entry i key c)"
  by (cases it) auto

lemma valid_file_write:
  assumes "valid_file text" and "0 \<le> i" and "i < 10" and "v = 0 \<or> v = 1"
  shows "\<exists>text'. writeInitFile i v (Some text) = Inr text' \<and> valid_file text'"
proof -
  obtain its where its: "text = items_text its" "\<forall>it \<in> set its. good_item it" "\<forall>i < 10. \<exists>it \<in> set its. is_entry i it"
    using assms(1) by (auto simp: valid_file_def)
  have "nat i < 10"
    using assms(2, 3) by simp
  then have "\<exists>it \<in> set its. is_entry (nat i) it"
    using its(3) by blast
  then obtain pre it post where split: "its = pre @ it # post" "is_entry (nat i) it" "\<forall>y \<in> set pre. \<not> is_entry (nat i) y"
    using split_list_first_prop [of its "is_entry (nat i)"] by blast
  then obtain key c where it: "it = Entry (nat i) key c"
    by (auto simp: is_entry_iff)
  let ?its = "pre @ Entry (nat i) key (digit_char (nat v)) # post"
  have "nat v < 10"
    using assms(4) by auto
  then have "\<forall>it \<in> set ?its. good_item it"
    using its(2) digit_char_facts(3) [of "nat v"] by (auto simp: split(1) it)
  moreover have "\<forall>i < 10. \<exists>it \<in> set ?its. is_entry i it"
    using its(3) by (auto simp: split(1) it)
  moreover have "writeInitFile i v (Some text) = Inr (items_text ?its)"
    using writeInitFile_entry [of pre "nat i" key c v post] its(1, 2) split assms(2, 4) by (simp add: it)
  ultimately show ?thesis
    unfolding valid_file_def by blast
qed

lemma goes_to_Some: "goes_to k h p = Some (k', h') \<longleftrightarrow> k' = k \<and> h' = h\<lparr>h_place := p\<rparr>"
  by (auto simp: goes_to_def)

lemma ends_Some: "ends k h p = Some (k', h') \<longleftrightarrow>
    k' = k\<lparr>sem_val := (sem_val k)(h_sem h := nat (int (sem_val k (h_sem h)) + semadj (h_errors h) (h_place h)))\<rparr> \<and> h' = h\<lparr>h_place := p\<rparr>"
  by (auto simp: ends_def goes_to_Some)

lemma waits_Some: "waits k h c p = Some (k', h') \<longleftrightarrow>
    (if h_errors h c then k' = k
     else 0 < sem_val k (h_sem h) \<and> k' = k\<lparr>sem_val := (sem_val k)(h_sem h := sem_val k (h_sem h) - 1)\<rparr>) \<and> h' = h\<lparr>h_place := p\<rparr>"
  by (auto simp: waits_def sem_lock_def goes_to_Some)

lemma posts_Some: "posts k h c p = Some (k', h') \<longleftrightarrow>
    k' = (if h_errors h c then k else k\<lparr>sem_val := (sem_val k)(h_sem h := sem_val k (h_sem h) + 1)\<rparr>) \<and> h' = h\<lparr>h_place := p\<rparr>"
  by (auto simp: posts_def sem_unlock_def goes_to_Some)

lemma accesses_Some: "accesses k h r f = Some c \<longleftrightarrow> (\<exists>e. r = Inl e \<and> ends k h (Faulted e) = Some c) \<or> (\<exists>x. r = Inr x \<and> f x = Some c)"
  by (auto simp: accesses_def split: sum.splits)

lemma never_None: "goes_to k h p \<noteq> None" "ends k h p \<noteq> None" "posts k h c p \<noteq> None"
  and waits_None: "waits k h c p = None \<longleftrightarrow> \<not> h_errors h c \<and> sem_val k (h_sem h) = 0"
  by (simp_all add: goes_to_def ends_def posts_def waits_def sem_lock_def split: prod.split)

lemmas step_simps = shm_step_def goes_to_Some ends_Some waits_Some posts_Some accesses_Some

text \<open>No step changes what a handler works on, and none leads out of the valid states.\<close>

lemma shm_step_same:
  "shm_step os k h = Some (k', h') \<Longrightarrow> h_sem h' = h_sem h \<and> h_shm h' = h_shm h \<and> h_index h' = h_index h \<and> h_errors h' = h_errors h"
  by (cases "h_place h") (auto simp: step_simps split: if_splits)

text \<open>The two accesses to a segment, in a valid state.\<close>

lemma valid_access:
  assumes "valid_handler os h" and "h_shm h \<in> S" and "valid_kernel S k"
  shows "bind_fault (getShmSeg os (h_shm h) k) (\<lambda>t. load t (h_index h)) = Inr (shm_seg k (h_shm h) ! nat (h_index h))"
    and "bind_fault (getShmSeg os (h_shm h) k) (\<lambda>t. store t (h_index h) c) = Inr ((shm_seg k (h_shm h))[nat (h_index h) := c])"
    and "v = 0 \<or> v = 1 \<Longrightarrow> \<exists>text. writeInitFile (h_index h) v (ini_file k) = Inr text \<and> valid_file text"
  using assms valid_file_write [of "the (ini_file k)" "h_index h" v]
  by (auto simp: valid_handler_def valid_kernel_def getShmSeg_def bind_fault_Inr load_def store_def)

lemma valid_kernel_simps:
  "valid_kernel S (k\<lparr>sem_val := f\<rparr>) = valid_kernel S k"
  "valid_kernel S k \<Longrightarrow> length t = 10 \<Longrightarrow> valid_kernel S (k\<lparr>shm_seg := (shm_seg k)(s := t)\<rparr>)"
  "valid_kernel S k \<Longrightarrow> valid_file text \<Longrightarrow> valid_kernel S (k\<lparr>ini_file := Some text\<rparr>)"
  by (simp_all add: valid_kernel_def)

lemma valid_handler_simps: "valid_handler os (h\<lparr>h_place := p\<rparr>) \<longleftrightarrow>
    shmat os (h_shm h) \<and> 0 \<le> h_index h \<and> h_index h < 10 \<and> valid_place p"
  by (simp add: valid_handler_def)

lemma shm_step_valid:
  assumes "shm_step os k h = Some (k', h')" and "valid_handler os h" and "h_shm h \<in> S" and "valid_kernel S k"
  shows "valid_handler os h' \<and> valid_kernel S k'"
proof -
  have len: "length (shm_seg k (h_shm h)) = 10"
    using assms(3, 4) by (simp add: valid_kernel_def)
  have place: "shmat os (h_shm h)" "0 \<le> h_index h" "h_index h < 10" "valid_place (h_place h)"
    using assms(2) by (simp_all add: valid_handler_def)
  show ?thesis
  proof (cases "h_place h")
    case (Write_file v a)
    then show ?thesis
      using assms(1) place valid_access(3) [OF assms(2-4), of v] valid_kernel_simps(3) [OF assms(4)]
      by (auto simp: step_simps valid_handler_simps valid_kernel_simps(1))
  qed (use assms(1, 4) place len valid_access(1, 2) [OF assms(2-4)] in
    \<open>auto simp: step_simps valid_handler_simps valid_kernel_simps split: if_splits\<close>)
qed

section \<open>Mutual exclusion of the accesses, and answers\<close>

text \<open>
  How much a handler can still raise the semaphore or be in an access: each access takes the semaphore from a value that it gives
  back, a \<open>sem_lock\<close> that fails lets the handler in and its \<open>sem_unlock\<close> raises the value all the same.
\<close>

definition failed :: "(sem_call \<Rightarrow> bool) \<Rightarrow> sem_call \<Rightarrow> int" where
  "failed err c = (if err c then 1 else 0)"

fun raises :: "(sem_call \<Rightarrow> bool) \<Rightarrow> place \<Rightarrow> int" where
  "raises err Get_lock = failed err Get_wait + failed err Set_wait"
| "raises err Get_read = 1 + failed err Set_wait"
| "raises err (Get_unlock _) = 1 + failed err Set_wait"
| "raises err (Test _) = failed err Get_post + failed err Set_wait"
| "raises err (Set_lock v _) = (if v = 1 then failed err Get_post else 0) + failed err Set_wait"
| "raises err (Set_write v _) = (if v = 1 then failed err Get_post else 0) + 1"
| "raises err (Set_unlock v _) = (if v = 1 then failed err Get_post else 0) + 1"
| "raises err (Write_file v _) = (if v = 1 then failed err Get_post else 0) + failed err Set_post"
| "raises err _ = 0"

lemmas counts = failed_def done_by_def after_get_def

lemma shm_step_sems:
  assumes "shm_step os k h = Some (k', h')"
  shows "int (sem_val k' (h_sem h)) + raises (h_errors h) (h_place h') \<le> int (sem_val k (h_sem h)) + raises (h_errors h) (h_place h)
    \<and> int (sem_val k (h_sem h)) + semadj (h_errors h) (h_place h) \<le> int (sem_val k' (h_sem h)) + semadj (h_errors h) (h_place h')
    \<and> (s \<noteq> h_sem h \<longrightarrow> sem_val k' s = sem_val k s)"
  using assms by (cases "h_place h") (auto simp: step_simps counts split: if_splits)

interpretation raising: counted "shm_step os" "\<lambda>k. int (sem_val k s)" "\<lambda>h. if h_sem h = s then raises (h_errors h) (h_place h) else 0" for os s
proof
  fix k h k' h'
  assume st: "shm_step os k h = Some (k', h')"
  show "int (sem_val k' s) + (if h_sem h' = s then raises (h_errors h') (h_place h') else 0) \<le>
      int (sem_val k s) + (if h_sem h = s then raises (h_errors h) (h_place h) else 0)"
    using shm_step_sems [OF st, of s] shm_step_same [OF st] by auto
qed

interpretation floor: counted "shm_step os" "\<lambda>k. - int (sem_val k s)" "\<lambda>h. if h_sem h = s then - semadj (h_errors h) (h_place h) else 0" for os s
proof
  fix k h k' h'
  assume st: "shm_step os k h = Some (k', h')"
  show "- int (sem_val k' s) + (if h_sem h' = s then - semadj (h_errors h') (h_place h') else 0) \<le>
      - int (sem_val k s) + (if h_sem h = s then - semadj (h_errors h) (h_place h) else 0)"
    using shm_step_sems [OF st, of s] shm_step_same [OF st] by auto
qed

interpretation answering: bounded "shm_step os" "\<lambda>h. places_left (h_place h)" for os
proof
  fix k h k' h'
  assume "shm_step os k h = Some (k', h')"
  then show "places_left (h_place h') < places_left (h_place h)"
    by (cases "h_place h") (auto simp: step_simps split: if_splits)
qed

text \<open>The states of a system whose handlers have just been forked, or have done nothing that they would have to take back.\<close>

definition fresh :: "ipc_calls \<Rightarrow> kernel \<Rightarrow> handler list \<Rightarrow> bool" where
  "fresh os k hs \<longleftrightarrow> valid_kernel (h_shm ` set hs) k
    \<and> (\<forall>h \<in> set hs. valid_handler os h \<and> \<not> critical (h_place h) \<and> semadj (h_errors h) (h_place h) = 0 \<and> sem_val k (h_sem h) = 1)"

text \<open>The calls of \<open>sem_lock\<close> on one semaphore that fail.\<close>

definition failed_locks :: "int \<Rightarrow> handler list \<Rightarrow> nat" where
  "failed_locks s hs =
    sum_list (map (\<lambda>h. if h_sem h = s then of_bool (h_errors h Get_wait) + of_bool (h_errors h Set_wait) else 0) hs)"

lemma raises_start: "valid_place p \<Longrightarrow> \<not> critical p \<Longrightarrow> semadj err p = 0 \<Longrightarrow> raises err p \<le> failed err Get_wait + failed err Set_wait"
  by (cases p) (auto simp: counts split: if_splits)

lemma raises_critical: "(if critical p then 1 else 0) \<le> raises err p"
  by (cases p) (auto simp: counts)

lemma sum_raises_start:
  assumes "\<forall>h \<in> set hs. valid_place (h_place h) \<and> \<not> critical (h_place h) \<and> semadj (h_errors h) (h_place h) = 0"
  shows "sum_list (map (\<lambda>h. if h_sem h = s then raises (h_errors h) (h_place h) else 0) hs) \<le> int (failed_locks s hs)"
  using assms
proof (induction hs)
  case (Cons h hs)
  then show ?case
    using raises_start [of "h_place h" "h_errors h"] by (auto simp: failed_locks_def failed_def of_bool_def)
qed (simp add: failed_locks_def)

lemma sum_raises_critical:
  "int (length (filter (\<lambda>h. h_sem h = s \<and> critical (h_place h)) hs)) \<le>
    sum_list (map (\<lambda>h. if h_sem h = s then raises (h_errors h) (h_place h) else 0) hs)"
proof (induction hs)
  case (Cons h hs)
  then show ?case
    using raises_critical [of "h_place h" "h_errors h"] by (auto split: if_splits)
qed simp

lemma sum_list_eq_0: "\<forall>h \<in> set hs. f h = 0 \<Longrightarrow> sum_list (map (\<lambda>h. if P h then - f h else (0 :: int)) hs) = 0"
  by (induction hs) auto

lemma fresh_semadj:
  assumes "fresh os k hs" and "sys_run (shm_step os) (k, hs) (k', hs')" and "s \<in> h_sem ` set hs"
  shows "1 \<le> int (sem_val k' s) + sum_list (map (\<lambda>h. if h_sem h = s then semadj (h_errors h) (h_place h) else 0) hs')"
proof -
  have "sem_val k s = 1" "\<forall>h \<in> set hs. semadj (h_errors h) (h_place h) = 0"
    using assms(1, 3) by (auto simp: fresh_def)
  then have "sum_list (map (\<lambda>h. if h_sem h = s then - semadj (h_errors h) (h_place h) else 0) hs) = 0" "int (sem_val k s) = 1"
    by (simp_all add: sum_list_eq_0)
  moreover have "sum_list (map (\<lambda>h. if h_sem h = s then - semadj (h_errors h) (h_place h) else 0) hs') =
      - sum_list (map (\<lambda>h. if h_sem h = s then semadj (h_errors h) (h_place h) else 0) hs')"
    by (induction hs') auto
  ultimately show ?thesis
    using floor.run_le [OF assms(2), of s] by simp
qed

lemma fresh_valid:
  assumes "fresh os k hs" and "sys_run (shm_step os) (k, hs) (k', hs')"
  shows "valid_kernel (h_shm ` set hs) k' \<and> (\<forall>h \<in> set hs'. valid_handler os h \<and> h_shm h \<in> h_shm ` set hs \<and> h_sem h \<in> h_sem ` set hs)"
  using assms(2)
proof (induction "(k', hs')" arbitrary: k' hs' rule: rtranclp_induct)
  case base
  then show ?case
    using assms(1) by (auto simp: fresh_def)
next
  case (step c)
  obtain k1 hs1 where c: "c = (k1, hs1)"
    by (cases c)
  from step.hyps(2) [unfolded c] obtain i h' where
    i: "i < length hs1" "shm_step os k1 (hs1 ! i) = Some (k', h')" "hs' = hs1[i := h']"
    by (auto elim: sys_stepE)
  have v: "valid_kernel (h_shm ` set hs) k1"
    "\<forall>h \<in> set hs1. valid_handler os h \<and> h_shm h \<in> h_shm ` set hs \<and> h_sem h \<in> h_sem ` set hs"
    using step.hyps(3) [OF c] by auto
  have "hs1 ! i \<in> set hs1"
    using i(1) by simp
  then have "valid_handler os h' \<and> valid_kernel (h_shm ` set hs) k'" "h_shm h' \<in> h_shm ` set hs" "h_sem h' \<in> h_sem ` set hs"
    using shm_step_valid [OF i(2)] shm_step_same [OF i(2)] v by auto
  then show ?case
    using v(2) set_update_subset_insert [of hs1 i h'] unfolding i(3) by blast
qed

text \<open>A handler that cannot go on is at the end, or it waits for the semaphore.\<close>

fun waiting :: "place \<Rightarrow> bool" where
  "waiting Get_lock = True"
| "waiting (Set_lock _ _) = True"
| "waiting _ = False"

lemma shm_step_None:
  "shm_step os k h = None \<Longrightarrow> valid_place (h_place h) \<Longrightarrow>
    (\<exists>a. h_place h = Answered a) \<or> waiting (h_place h) \<and> sem_val k (h_sem h) = 0"
  by (cases "h_place h") (auto simp: shm_step_def never_None waits_None accesses_def split: sum.splits if_splits)

text \<open>A handler that waits holds nothing, when the \<open>sem_unlock\<close> of the first access has not failed.\<close>

lemma waiting_semadj: "\<not> err Get_post \<Longrightarrow> waiting p \<or> (\<exists>a. p = Answered a) \<Longrightarrow> semadj err p \<le> 0"
  by (cases p) (auto simp: counts)

lemma no_deadlock:
  assumes "fresh os k hs" and "\<forall>h \<in> set hs. \<not> h_errors h Get_post" and "sys_run (shm_step os) (k, hs) (k', hs')"
    and "\<not> (\<exists>c. sys_step (shm_step os) (k', hs') c)" and "h \<in> set hs'"
  shows "\<exists>a. h_place h = Answered a"
proof (rule ccontr)
  assume not_answered: "\<not> (\<exists>a. h_place h = Answered a)"
  have stuck: "shm_step os k' g = None" if g: "g \<in> set hs'" for g
  proof -
    obtain i where i: "i < length hs'" "g = hs' ! i"
      using g by (auto simp: in_set_conv_nth)
    show ?thesis
      using assms(4) sys_step.one [of i hs' "shm_step os" k'] i by (cases "shm_step os k' g") auto
  qed
  have valid: "\<forall>g \<in> set hs'. valid_handler os g \<and> h_sem g \<in> h_sem ` set hs"
    using fresh_valid [OF assms(1, 3)] by simp
  have "\<forall>g \<in> set (snd (k', hs')). \<not> h_errors g Get_post"
    by (rule sys_run_all [OF _ assms(3)]) (use assms(2) shm_step_same in \<open>fastforce+\<close>)
  then have "semadj (h_errors g) (h_place g) \<le> 0" if g: "g \<in> set hs'" for g
    using shm_step_None [OF stuck [OF g]] waiting_semadj [of "h_errors g" "h_place g"] valid g by (auto simp: valid_handler_def)
  then have "sum_list (map (\<lambda>g. if h_sem g = h_sem h then semadj (h_errors g) (h_place g) else 0) hs') \<le> 0"
    by (intro sum_list_nonpos) auto
  then have "1 \<le> sem_val k' (h_sem h)"
    using fresh_semadj [OF assms(1, 3), of "h_sem h"] valid assms(5) by simp
  moreover have "sem_val k' (h_sem h) = 0"
    using shm_step_None [OF stuck [OF assms(5)]] not_answered valid assms(5) by (auto simp: valid_handler_def)
  ultimately show False
    by simp
qed

section \<open>A handler that runs alone\<close>

lemma sem_back: "sem_val k s = 1 \<Longrightarrow> k\<lparr>sem_val := (sem_val k)(s := 1)\<rparr> = k"
  by (metis fun_upd_idem_iff kernel.surjective kernel.update_convs(1))

lemma semadj_no_errors: "semadj no_errors p = (if critical p then 1 else 0)"
  by (cases p) (simp_all add: counts no_errors_def)

lemma no_errors: "\<not> no_errors c"
  by (simp add: no_errors_def)

lemma ends_no_errors: "h_errors h = no_errors \<Longrightarrow> \<not> critical (h_place h) \<Longrightarrow> ends k h p = goes_to k h p"
  by (simp add: ends_def semadj_no_errors)

lemma getShmSeg_sem: "getShmSeg os s (k\<lparr>sem_val := f\<rparr>) = getShmSeg os s k"
  by (simp add: getShmSeg_def)

lemma runs_get:
  assumes i: "i < length hs" and h: "hs ! i = h" "h_place h = Get_lock" "h_errors h = no_errors" and sem: "sem_val k (h_sem h) = 1"
    and c: "bind_fault (getShmSeg os (h_shm h) k) (\<lambda>t. load t (h_index h)) = Inr c"
  shows "schedule (shm_step os) [i, i, i, i] (k, hs) =
    Some (k, hs[i := h\<lparr>h_place := if status_of c = 0 then Set_lock 1 lock_ok else Answered lock_fail\<rparr>])"
proof -
  let ?k = "k\<lparr>sem_val := (sem_val k)(h_sem h := 0)\<rparr>"
  have c': "bind_fault (getShmSeg os (h_shm h) ?k) (\<lambda>t. load t (h_index h)) = Inr c"
    using c by (simp only: getShmSeg_sem)
  have "shm_step os k h = Some (?k, h\<lparr>h_place := Get_read\<rparr>)"
    "shm_step os ?k (h\<lparr>h_place := Get_read\<rparr>) = Some (?k, h\<lparr>h_place := Get_unlock (status_of c)\<rparr>)"
    "shm_step os ?k (h\<lparr>h_place := Get_unlock (status_of c)\<rparr>) = Some (k, h\<lparr>h_place := Test (status_of c)\<rparr>)"
    using h(2, 3) sem c' sem_back [OF sem]
    by (simp_all add: shm_step_def goes_to_def waits_def posts_def sem_lock_def accesses_def sem_unlock_def no_errors)
  then show ?thesis
    using i h(1, 3) by (simp add: shm_step_def goes_to_def ends_no_errors)
qed

lemma runs_set:
  assumes i: "i < length hs" and h: "hs ! i = h" "h_place h = Set_lock v a" "h_errors h = no_errors" and sem: "sem_val k (h_sem h) = 1"
    and t: "bind_fault (getShmSeg os (h_shm h) k) (\<lambda>t. store t (h_index h) (if v = 1 then CHR ''1'' else CHR ''0'')) = Inr t"
    and new: "writeInitFile (h_index h) v (ini_file k) = Inr new"
  shows "schedule (shm_step os) [i, i, i, i] (k, hs) =
    Some (k\<lparr>shm_seg := (shm_seg k)(h_shm h := t), ini_file := Some new\<rparr>, hs[i := h\<lparr>h_place := Answered a\<rparr>])"
proof -
  let ?k = "k\<lparr>sem_val := (sem_val k)(h_sem h := 0)\<rparr>" and ?k' = "k\<lparr>shm_seg := (shm_seg k)(h_shm h := t)\<rparr>"
  have t': "bind_fault (getShmSeg os (h_shm h) ?k) (\<lambda>t. store t (h_index h) (if v = 1 then CHR ''1'' else CHR ''0'')) = Inr t"
    using t by (simp only: getShmSeg_sem)
  have "?k\<lparr>shm_seg := (shm_seg ?k)(h_shm h := t)\<rparr> = ?k'\<lparr>sem_val := (sem_val ?k')(h_sem h := 0)\<rparr>"
    by simp
  moreover have "?k'\<lparr>sem_val := (sem_val ?k')(h_sem h := 1)\<rparr> = ?k'"
    using sem by (intro sem_back) simp
  ultimately have "shm_step os k h = Some (?k, h\<lparr>h_place := Set_write v a\<rparr>)"
    "shm_step os ?k (h\<lparr>h_place := Set_write v a\<rparr>) = Some (?k'\<lparr>sem_val := (sem_val ?k')(h_sem h := 0)\<rparr>, h\<lparr>h_place := Set_unlock v a\<rparr>)"
    "shm_step os (?k'\<lparr>sem_val := (sem_val ?k')(h_sem h := 0)\<rparr>) (h\<lparr>h_place := Set_unlock v a\<rparr>) = Some (?k', h\<lparr>h_place := Write_file v a\<rparr>)"
    "shm_step os ?k' (h\<lparr>h_place := Write_file v a\<rparr>) = Some (?k'\<lparr>ini_file := Some new\<rparr>, h\<lparr>h_place := Answered a\<rparr>)"
    using h(2, 3) sem t' new
    by (simp_all add: shm_step_def goes_to_def ends_no_errors waits_def posts_def sem_lock_def accesses_def sem_unlock_def no_errors)
  then show ?thesis
    using i h(1) by simp
qed

text \<open>The same as a call of \<open>answer_request\<close>, for a handler in a valid state whose semaphore is free.\<close>

definition new_handler :: "string \<Rightarrow> int \<Rightarrow> int \<Rightarrow> int \<Rightarrow> handler" where
  "new_handler data sem shm index = \<lparr>h_sem = sem, h_shm = shm, h_index = index, h_errors = no_errors, h_place = start_place data\<rparr>"

lemma sem_lock_unlock: "sem_val k s = 1 \<Longrightarrow> sem_lock False s k = Inr (1, k\<lparr>sem_val := (sem_val k)(s := 0)\<rparr>)"
  "sem_val k s = 1 \<Longrightarrow> sem_unlock False s (k\<lparr>sem_val := (sem_val k)(s := 0)\<rparr>) = (1, k)"
  by (simp_all add: sem_lock_def sem_unlock_def sem_back [unfolded One_nat_def])

lemma get_valid:
  assumes "valid_kernel {shm} k" and "shmat os shm" and "0 \<le> index" and "index < 10" and "sem_val k sem = 1"
  shows "getShmSegData os no_errors sem shm index k = Inr (status_of (shm_seg k shm ! nat index), k)"
  using assms by (simp add: getShmSegData_def no_errors_def getShmSeg_def sem_lock_unlock bind_fault_Inr valid_kernel_def load_def)

text \<open>The state after a status was set.\<close>

definition with_status :: "int \<Rightarrow> int \<Rightarrow> int \<Rightarrow> string \<Rightarrow> kernel \<Rightarrow> kernel" where
  "with_status shm index v text k =
    k\<lparr>shm_seg := (shm_seg k)(shm := (shm_seg k shm)[nat index := if v = 1 then CHR ''1'' else CHR ''0'']), ini_file := Some text\<rparr>"

lemma set_valid:
  assumes "valid_kernel {shm} k" and "shmat os shm" and "0 \<le> index" and "index < 10" and "sem_val k sem = 1" and "v = 0 \<or> v = 1"
  obtains new where "writeInitFile index v (ini_file k) = Inr new" "set_status os no_errors sem shm index v a k = Inr (a, with_status shm index v new k)"
    "valid_kernel {shm} (with_status shm index v new k)" "sem_val (with_status shm index v new k) sem = 1"
proof -
  let ?c = "if v = 1 then CHR ''1'' else CHR ''0''"
  let ?k = "k\<lparr>shm_seg := (shm_seg k)(shm := (shm_seg k shm)[nat index := ?c])\<rparr>"
  have "sem_unlock False sem (k\<lparr>sem_val := (sem_val k)(sem := 0), shm_seg := (shm_seg k)(shm := (shm_seg k shm)[nat index := ?c])\<rparr>) = (1, ?k)"
    using sem_lock_unlock(2) [of ?k sem] assms(5) by (simp add: sem_unlock_def)
  then have "setShmSegData os no_errors sem shm index ?c k = Inr ?k"
    using assms by (simp add: setShmSegData_def no_errors_def getShmSeg_def sem_lock_unlock bind_fault_Inr valid_kernel_def store_def)
  moreover obtain new where "writeInitFile index v (ini_file k) = Inr new" "valid_file new"
    using valid_file_write [of "the (ini_file k)" index v] assms by (auto simp: valid_kernel_def)
  ultimately show ?thesis
    using assms(1, 5) by (intro that [of new]) (simp_all add: set_status_def bind_fault_Inr with_status_def valid_kernel_def)
qed

lemma schedule_answer:
  assumes v: "valid_kernel {shm} k" "shmat os shm" "0 \<le> index" "index < 10" "sem_val k sem = 1"
  shows "\<exists>is a k'. answer_request os no_errors data sem shm index k = Inr (a, k')
    \<and> schedule (shm_step os) is (k, [new_handler data sem shm index]) = Some (k', [(new_handler data sem shm index)\<lparr>h_place := Answered a\<rparr>])"
proof -
  let ?h = "new_handler data sem shm index" and ?c = "shm_seg k shm ! nat index"
  have h: "h_sem ?h = sem" "h_shm ?h = shm" "h_index ?h = index" "h_place ?h = start_place data" "h_errors ?h = no_errors"
    by (simp_all add: new_handler_def)
  have get: "bind_fault (getShmSeg os shm k) (\<lambda>t. load t index) = Inr ?c"
    and put: "\<And>c. bind_fault (getShmSeg os shm k) (\<lambda>t. store t index c) = Inr ((shm_seg k shm)[nat index := c])"
    using v by (simp_all add: getShmSeg_def bind_fault_Inr load_def store_def valid_kernel_def)
  have setting: "\<exists>k'. set_status os no_errors sem shm index w a k = Inr (a, k')
      \<and> schedule (shm_step os) [0, 0, 0, 0] (k, [?h\<lparr>h_place := Set_lock w a\<rparr>]) = Some (k', [?h\<lparr>h_place := Answered a\<rparr>])"
    if w: "w = 0 \<or> w = 1" for w a
  proof -
    obtain new where "writeInitFile index w (ini_file k) = Inr new" "set_status os no_errors sem shm index w a k = Inr (a, with_status shm index w new k)"
      using set_valid [OF v w] by blast
    then show ?thesis
      using runs_set [of 0 "[?h\<lparr>h_place := Set_lock w a\<rparr>]" "?h\<lparr>h_place := Set_lock w a\<rparr>" w a k os _ new] put v(5)
      by (simp add: h with_status_def)
  qed
  consider "flag_is data ''1''" "status_of ?c = 0" | "flag_is data ''1''" "status_of ?c \<noteq> 0"
    | "\<not> flag_is data ''1''" "flag_is data ''0''" | "\<not> flag_is data ''1''" "\<not> flag_is data ''0''"
    by blast
  then show ?thesis
  proof cases
    case 1
    obtain k' where "set_status os no_errors sem shm index 1 lock_ok k = Inr (lock_ok, k')"
      "schedule (shm_step os) [0, 0, 0, 0] (k, [?h\<lparr>h_place := Set_lock 1 lock_ok\<rparr>]) = Some (k', [?h\<lparr>h_place := Answered lock_ok\<rparr>])"
      using setting [of 1 lock_ok] by auto
    moreover have "schedule (shm_step os) [0, 0, 0, 0] (k, [?h]) = Some (k, [?h\<lparr>h_place := Set_lock 1 lock_ok\<rparr>])"
      using runs_get [of 0 "[?h]" ?h k os ?c] get 1 v(5) by (simp add: h start_place_def)
    ultimately show ?thesis
      using 1 get_valid [OF v] schedule_append [of "shm_step os" "[0, 0, 0, 0]" "[0, 0, 0, 0]" "(k, [?h])"]
      by (intro exI [of _ "[0, 0, 0, 0] @ [0, 0, 0, 0]"]) (simp add: answer_request_def bind_fault_Inr)
  next
    case 2
    then show ?thesis
      using get_valid [OF v] runs_get [of 0 "[?h]" ?h k os ?c] get v(5)
      by (intro exI [of _ "[0, 0, 0, 0]"]) (simp add: answer_request_def bind_fault_Inr h start_place_def)
  next
    case 3
    obtain k' where "set_status os no_errors sem shm index 0 unlock_ok k = Inr (unlock_ok, k')"
      "schedule (shm_step os) [0, 0, 0, 0] (k, [?h\<lparr>h_place := Set_lock 0 unlock_ok\<rparr>]) = Some (k', [?h\<lparr>h_place := Answered unlock_ok\<rparr>])"
      using setting [of 0 unlock_ok] by auto
    moreover have "?h\<lparr>h_place := Set_lock 0 unlock_ok\<rparr> = ?h"
      using 3 by (simp add: new_handler_def start_place_def)
    ultimately show ?thesis
      using 3 by (intro exI [of _ "[0, 0, 0, 0]"]) (simp add: answer_request_def)
  next
    case 4
    then have "?h\<lparr>h_place := Answered not_correct\<rparr> = ?h"
      by (simp add: new_handler_def start_place_def)
    then show ?thesis
      using 4 by - (rule exI [of _ "[]"], simp add: answer_request_def)
  qed
qed

section \<open>Requests that come one after the other\<close>

definition lock_data :: string where
  "lock_data = replicate flag_at zero_char @ ''1'' @ replicate 11 zero_char"

definition unlock_data :: string where
  "unlock_data = replicate flag_at zero_char @ ''0'' @ replicate 11 zero_char"

lemma flags: "flag_is lock_data ''1''" "flag_is unlock_data ''0''" "\<not> flag_is unlock_data ''1''"
  by (simp_all add: flag_is_def lock_data_def unlock_data_def numeral_2_eq_2)

definition granted :: "string \<Rightarrow> kernel \<Rightarrow> c_fault + (string \<times> kernel) \<Rightarrow> bool \<times> kernel" where
  "granted good k r = (case r of Inl _ \<Rightarrow> (False, k) | Inr (a, k') \<Rightarrow> (a = good, k'))"

definition shm_acquire :: "ipc_calls \<Rightarrow> int \<Rightarrow> int \<Rightarrow> int \<Rightarrow> kernel \<Rightarrow> bool \<times> kernel" where
  "shm_acquire os sem shm index k = granted lock_ok k (answer_request os no_errors lock_data sem shm index k)"

definition shm_release :: "ipc_calls \<Rightarrow> int \<Rightarrow> int \<Rightarrow> int \<Rightarrow> kernel \<Rightarrow> bool \<times> kernel" where
  "shm_release os sem shm index k = granted unlock_ok k (answer_request os no_errors unlock_data sem shm index k)"

definition shm_valid :: "ipc_calls \<Rightarrow> int \<Rightarrow> int \<Rightarrow> int \<Rightarrow> kernel \<Rightarrow> bool" where
  "shm_valid os sem shm index k \<longleftrightarrow>
    valid_kernel {shm} k \<and> shmat os shm \<and> 0 \<le> index \<and> index < 10 \<and> sem_val k sem = 1"

definition shm_free :: "int \<Rightarrow> int \<Rightarrow> kernel \<Rightarrow> nat" where
  "shm_free shm index k = (if status_of (shm_seg k shm ! nat index) = 0 then 1 else 0)"

lemma status_of_digits: "status_of (CHR ''0'') = 0" "status_of (CHR ''1'') = 1"
  by (simp_all add: status_of_def)

lemma shm_requests:
  assumes "shm_valid os sem shm index k"
  shows "shm_acquire os sem shm index k = (if shm_free shm index k = 1
      then (True, with_status shm index 1 (projr (writeInitFile index 1 (ini_file k))) k) else (False, k))"
    and "shm_release os sem shm index k = (True, with_status shm index 0 (projr (writeInitFile index 0 (ini_file k))) k)"
    and "v = 0 \<or> v = 1 \<Longrightarrow> shm_valid os sem shm index (with_status shm index v (projr (writeInitFile index v (ini_file k))) k)"
    and "v = 0 \<or> v = 1 \<Longrightarrow> shm_free shm index (with_status shm index v new k) = (if v = 1 then 0 else 1)"
proof -
  have v: "valid_kernel {shm} k" "shmat os shm" "0 \<le> index" "index < 10" "sem_val k sem = 1"
    using assms by (simp_all add: shm_valid_def)
  obtain f where f: "writeInitFile index 1 (ini_file k) = Inr f" "set_status os no_errors sem shm index 1 lock_ok k = Inr (lock_ok, with_status shm index 1 f k)"
    by (rule set_valid [OF v, of 1 lock_ok]) simp_all
  have "lock_ok \<noteq> lock_fail"
    by (simp add: answers)
  then show "shm_acquire os sem shm index k = (if shm_free shm index k = 1
      then (True, with_status shm index 1 (projr (writeInitFile index 1 (ini_file k))) k) else (False, k))"
    using f get_valid [OF v] by (simp add: shm_acquire_def answer_request_def flags bind_fault_Inr granted_def shm_free_def)
  obtain g where g: "writeInitFile index 0 (ini_file k) = Inr g" "set_status os no_errors sem shm index 0 unlock_ok k = Inr (unlock_ok, with_status shm index 0 g k)"
    by (rule set_valid [OF v, of 0 unlock_ok]) simp_all
  show "shm_release os sem shm index k = (True, with_status shm index 0 (projr (writeInitFile index 0 (ini_file k))) k)"
    using g by (simp add: shm_release_def answer_request_def flags granted_def)
  show "shm_valid os sem shm index (with_status shm index v (projr (writeInitFile index v (ini_file k))) k)" if "v = 0 \<or> v = 1"
    by (rule set_valid [OF v that, of "[]"]) (use v in \<open>simp add: shm_valid_def\<close>)
  show "shm_free shm index (with_status shm index v new k) = (if v = 1 then 0 else 1)" if "v = 0 \<or> v = 1"
    using that v by (elim disjE) (simp_all add: shm_free_def with_status_def valid_kernel_def status_of_digits)
qed

interpretation shm: lock_service "shm_valid os sem shm index" "shm_free shm index"
    "shm_acquire os sem shm index" "shm_release os sem shm index" for os sem shm index
  by unfold_locales (auto simp: shm_requests split: if_splits)

section \<open>Properties\<close>

text \<open>A state for the witnesses: keys and identifiers are the letters, and no lock is taken.\<close>

definition plain_calls :: ipc_calls where
  "plain_calls = \<lparr>ftok = (\<lambda>key. key), semget = (\<lambda>key. key), shmget = (\<lambda>key. key), semctl = (\<lambda>_. 0), shmat = (\<lambda>_. True)\<rparr>"

definition plain_kernel :: kernel where
  "plain_kernel = \<lparr>sem_val = (\<lambda>_. 1), shm_seg = (\<lambda>_. replicate 10 zero_char),
    ini_file = Some (items_text (map (\<lambda>i. Entry i ''0x4b0088a4'' (CHR ''0'')) [0..<10]))\<rparr>"

lemma plain_file: "valid_file (items_text (map (\<lambda>i. Entry i ''0x4b0088a4'' (CHR ''0'')) [0..<10]))"
  unfolding valid_file_def by (rule exI [of _ "map (\<lambda>i. Entry i ''0x4b0088a4'' (CHR ''0'')) [0..<10]"]) (auto simp: newline_def)

lemma plain_valid: "0 \<le> i \<Longrightarrow> i < 10 \<Longrightarrow> shm_valid plain_calls sem shm i plain_kernel" "shm_free shm 0 plain_kernel = 1"
  using plain_file by (auto simp: shm_valid_def valid_kernel_def plain_calls_def plain_kernel_def shm_free_def status_of_def)

text \<open>A handler some of whose calls of \<open>semop\<close> fail.\<close>

definition failing :: "(sem_call \<Rightarrow> bool) \<Rightarrow> handler \<Rightarrow> handler" where
  "failing err h = h\<lparr>h_errors := err\<rparr>"

definition two_handlers :: "(sem_call \<Rightarrow> bool) \<Rightarrow> handler list" where
  "two_handlers err = [new_handler unlock_data 65 75 0, failing err (new_handler lock_data 65 75 0)]"

lemma plain_fresh: "fresh plain_calls plain_kernel (two_handlers err)"
  using plain_valid(1) [of 0 65 75]
  by (auto simp: fresh_def shm_valid_def valid_handler_def new_handler_def start_place_def flags two_handlers_def failing_def
      after_get_def)

text \<open>The second of them enters the access in which the first one is, as its \<open>sem_lock\<close> fails.\<close>

definition both_inside :: "handler list" where
  "both_inside =
    [(new_handler unlock_data 65 75 0)\<lparr>h_place := Set_write 0 unlock_ok\<rparr>,
     (failing (\<lambda>c. c = Get_wait) (new_handler lock_data 65 75 0))\<lparr>h_place := Get_read\<rparr>]"

lemma enters:
  "sys_run (shm_step plain_calls) (plain_kernel, two_handlers (\<lambda>c. c = Get_wait))
    (plain_kernel\<lparr>sem_val := (sem_val plain_kernel)(65 := 0)\<rparr>, both_inside)"
  by (rule schedule_run [of _ "[0, 1]"])
    (simp add: two_handlers_def both_inside_def failing_def new_handler_def start_place_def flags shm_step_def waits_def
      sem_lock_def goes_to_def no_errors plain_kernel_def)

text \<open>C31: At most one handler at a time is between \<open>sem_lock\<close> and \<open>sem_unlock\<close> of a semaphore, and one more for each
  \<open>sem_lock\<close> on it that fails and is only logged, in every state that the handlers of any connections reach. So they exclude
  each other when no \<open>sem_lock\<close> fails, also when a \<open>sem_unlock\<close> does.\<close>

theorem accesses_exclude:
  assumes "fresh os k hs" and "sys_run (shm_step os) (k, hs) (k', hs')" and "s \<in> h_sem ` set hs"
  shows "length (filter (\<lambda>h. h_sem h = s \<and> critical (h_place h)) hs') \<le> 1 + failed_locks s hs"
proof -
  have "sem_val k s = 1"
    "\<forall>h \<in> set hs. valid_place (h_place h) \<and> \<not> critical (h_place h) \<and> semadj (h_errors h) (h_place h) = 0"
    using assms(1, 3) by (auto simp: fresh_def valid_handler_def)
  then show ?thesis
    using raising.run_le [OF assms(2), of s] sum_raises_start [of hs s] sum_raises_critical [of s hs'] by simp
qed

theorem accesses_exclude_witness:
  "length (filter (\<lambda>h. h_sem h = 65 \<and> critical (h_place h)) both_inside) \<le> 1 + failed_locks 65 (two_handlers (\<lambda>c. c = Get_wait))
    \<and> length (filter (\<lambda>h. h_sem h = 65 \<and> critical (h_place h)) both_inside) = 2
    \<and> failed_locks 65 (two_handlers no_errors) = 0"
  using accesses_exclude [OF plain_fresh enters, of 65]
  by (simp add: both_inside_def two_handlers_def failing_def new_handler_def failed_locks_def no_errors)

text \<open>C32: When the \<open>sem_unlock\<close> of no \<open>getShmSegData\<close> fails, every run of the handlers ends after at most eight steps for each,
  and it ends with an answer to every connection: no set of requests blocks the server, and no failing \<open>sem_lock\<close> does. The
  handlers are past the parsing of the request and the search for its keys.\<close>

theorem connections_answered:
  assumes "fresh os k hs" and "\<forall>h \<in> set hs. \<not> h_errors h Get_post"
  shows "((sys_step (shm_step os) ^^ n) (k, hs) (k', hs') \<longrightarrow> n \<le> 8 * length hs)
    \<and> (sys_run (shm_step os) (k, hs) (k', hs') \<longrightarrow> \<not> (\<exists>c. sys_step (shm_step os) (k', hs') c) \<longrightarrow>
      (\<forall>h \<in> set hs'. \<exists>a. h_place h = Answered a))"
proof (intro conjI impI ballI)
  assume "(sys_step (shm_step os) ^^ n) (k, hs) (k', hs')"
  then have "n \<le> sum_list (map (\<lambda>h. places_left (h_place h)) hs)"
    using answering.run_bounded by (meson le_trans le_add1)
  moreover have "places_left p \<le> 8" for p
    by (cases p) simp_all
  then have "sum_list (map (\<lambda>h. places_left (h_place h)) hs) \<le> 8 * length hs"
    by (induction hs) (simp_all add: add_mono)
  ultimately show "n \<le> 8 * length hs"
    by simp
next
  fix h
  assume "sys_run (shm_step os) (k, hs) (k', hs')" "\<not> (\<exists>c. sys_step (shm_step os) (k', hs') c)" "h \<in> set hs'"
  then show "\<exists>a. h_place h = Answered a"
    using no_deadlock [OF assms] by blast
qed

theorem connections_answered_witness:
  "\<not> (\<exists>c. (sys_step (shm_step plain_calls) ^^ 17) (plain_kernel, two_handlers (\<lambda>c. c = Get_wait)) c)"
proof -
  have "\<forall>h \<in> set (two_handlers (\<lambda>c. c = Get_wait)). \<not> h_errors h Get_post"
    by (simp add: two_handlers_def failing_def new_handler_def no_errors)
  moreover have "length (two_handlers (\<lambda>c. c = Get_wait)) = 2"
    by (simp add: two_handlers_def)
  ultimately show ?thesis
    using connections_answered [OF plain_fresh, of _ 17] by fastforce
qed

text \<open>C33: The test and the change of the status are two accesses: two requests for the same free lock, the second
  of which tests before the first has set the status, are both told that they got it, when no call of \<open>semop\<close> fails.\<close>

theorem both_locks_granted:
  assumes "shm_valid os sem shm index k" and "shm_free shm index k = 1" and "flag_is data ''1''"
  shows "\<exists>k'. sys_run (shm_step os) (k, replicate 2 (new_handler data sem shm index))
      (k', replicate 2 ((new_handler data sem shm index)\<lparr>h_place := Answered lock_ok\<rparr>))"
proof -
  let ?h = "new_handler data sem shm index" and ?c = "shm_seg k shm ! nat index"
  let ?set = "?h\<lparr>h_place := Set_lock 1 lock_ok\<rparr>" and ?done = "?h\<lparr>h_place := Answered lock_ok\<rparr>"
  have v: "valid_kernel {shm} k" "shmat os shm" "0 \<le> index" "index < 10" "sem_val k sem = 1"
    using assms(1) by (simp_all add: shm_valid_def)
  have h: "h_sem ?h = sem" "h_shm ?h = shm" "h_index ?h = index" "h_place ?h = Get_lock" "h_errors ?h = no_errors"
    using assms(3) by (simp_all add: new_handler_def start_place_def)
  have get: "bind_fault (getShmSeg os shm k) (\<lambda>t. load t index) = Inr ?c"
    using v by (simp add: getShmSeg_def bind_fault_Inr load_def valid_kernel_def)
  have c: "status_of ?c = 0"
    using assms(2) by (simp add: shm_free_def split: if_splits)
  have put: "\<exists>k'. schedule (shm_step os) [i, i, i, i] (k0, hs) = Some (k', hs[i := ?done]) \<and> shm_valid os sem shm index k'"
    if "shm_valid os sem shm index k0" "i < length hs" "hs ! i = ?set" for i k0 hs
  proof -
    have v0: "valid_kernel {shm} k0" "shmat os shm" "0 \<le> index" "index < 10" "sem_val k0 sem = 1"
      using that(1) by (simp_all add: shm_valid_def)
    obtain new where n: "writeInitFile index 1 (ini_file k0) = Inr new"
      "valid_kernel {shm} (with_status shm index 1 new k0)" "sem_val (with_status shm index 1 new k0) sem = 1"
      by (rule set_valid [OF v0, of 1 "[]"]) simp_all
    have "bind_fault (getShmSeg os shm k0) (\<lambda>t. store t index (CHR ''1'')) = Inr ((shm_seg k0 shm)[nat index := CHR ''1''])"
      using v0 by (simp add: getShmSeg_def bind_fault_Inr store_def valid_kernel_def)
    then show ?thesis
      using runs_set [of i hs ?set 1 lock_ok k0 os _ new] that(2, 3) v0 n by (simp add: h shm_valid_def with_status_def)
  qed
  have "schedule (shm_step os) [0, 0, 0, 0] (k, [?h, ?h]) = Some (k, [?set, ?h])"
    using runs_get [of 0 "[?h, ?h]" ?h k os ?c] get c v(5) by (simp add: h)
  moreover have "schedule (shm_step os) [1, 1, 1, 1] (k, [?set, ?h]) = Some (k, [?set, ?set])"
    using runs_get [of 1 "[?set, ?h]" ?h k os ?c] get c v(5) by (simp add: h)
  moreover obtain k1 where k1: "schedule (shm_step os) [0, 0, 0, 0] (k, [?set, ?set]) = Some (k1, [?done, ?set])"
    "shm_valid os sem shm index k1"
    using put [OF assms(1), of 0 "[?set, ?set]"] by auto
  moreover obtain k2 where "schedule (shm_step os) [1, 1, 1, 1] (k1, [?done, ?set]) = Some (k2, [?done, ?done])"
    using put [OF k1(2), of 1 "[?done, ?set]"] by auto
  ultimately have "sys_run (shm_step os) (k, [?h, ?h]) (k2, [?done, ?done])"
    by (meson schedule_run rtranclp_trans)
  then show ?thesis
    by (auto simp: numeral_2_eq_2)
qed

theorem both_locks_granted_witness:
  "\<exists>k'. sys_run (shm_step plain_calls) (plain_kernel, replicate 2 (new_handler lock_data 65 75 0))
      (k', replicate 2 ((new_handler lock_data 65 75 0)\<lparr>h_place := Answered ''[OK] succeed Locking''\<rparr>))"
  using both_locks_granted [OF plain_valid(1) plain_valid(2) flags(1), of 65 75] by (simp add: lock_ok_def)

text \<open>A handler that runs alone, none of whose calls of \<open>semop\<close> fails, does in small steps what \<open>answer_request\<close> returns.\<close>

theorem handler_is_answer_request:
  assumes "valid_kernel {shm} k" and "shmat os shm" and "0 \<le> index" and "index < 10" and "sem_val k sem = 1"
  shows "\<exists>a k'. answer_request os no_errors data sem shm index k = Inr (a, k')
    \<and> sys_run (shm_step os) (k, [new_handler data sem shm index]) (k', [(new_handler data sem shm index)\<lparr>h_place := Answered a\<rparr>])"
  using schedule_answer [OF assms, of data] schedule_run by blast

theorem handler_is_answer_request_witness:
  "\<exists>a k'. answer_request plain_calls no_errors lock_data 65 75 3 plain_kernel = Inr (a, k')"
  using handler_is_answer_request [of 75 plain_kernel plain_calls 3 65 lock_data] plain_valid(1) [of 3 65 75]
  by (auto simp: shm_valid_def)

text \<open>C34: Requests that come one after the other get the answers of a lock, when only the holder gives it back and no call of
  \<open>semop\<close> fails.\<close>

theorem serial_requests_lock:
  assumes "shm_valid os sem shm index k" and "shm_free shm index k = 1"
  shows "fst (serve (shm_acquire os sem shm index) (shm_release os sem shm index) k None requests) = lock_answers None requests"
  using shm.serve_answers [OF assms(1), of None requests] assms(2) by simp

theorem serial_requests_lock_witness:
  "fst (serve (shm_acquire plain_calls 65 75 0) (shm_release plain_calls 65 75 0) plain_kernel None
      [(''a'', True), (''b'', True), (''a'', False), (''b'', True)]) = [True, False, True, True]"
  using serial_requests_lock [OF plain_valid(1) plain_valid(2), of 65 75 "[(''a'', True), (''b'', True), (''a'', False), (''b'', True)]"]
  by simp

end
