(* ===== verification/LockInit.thy ===== *)
theory LockInit
  imports LockRuns
begin

text \<open>
  The start of the shared memory server and the way of a request through it: \<open>init_ipc\<close> leaves the state that the
  handlers need, \<open>parseRecvData\<close> fills the members of \<open>PROTOCOL\<close>, and \<open>checkSemShmKey\<close> finds the
  semaphore, the segment and its index.
\<close>

section \<open>The file at the start\<close>

text \<open>
  What the file may hold before the start: short lines, and entries of earlier starts. A line that begins with \<open>SHARED_INFO\<close> would
  make the new entries overwrite each other; the shipped file has the header \<open>[SHARED_INFO]\<close>, which does not.
\<close>

fun head_item :: "ini_item \<Rightarrow> bool" where
  "head_item (Plain l) \<longleftrightarrow> plain_line l \<and> take 11 l \<noteq> ''SHARED_INFO''"
| "head_item (Entry i key c) \<longleftrightarrow> good_item (Entry i key c)"

fun item_lines :: "ini_item \<Rightarrow> string list" where
  "item_lines (Plain l) = [l]"
| "item_lines (Entry i key c) = [key_line i key, status_line c]"

lemma items_text_lines: "items_text its = concat (map text_line (concat (map item_lines its)))"
proof (induction its)
  case (Cons it its)
  then show ?case
    by (cases it) (simp_all add: items_text_def)
qed (simp add: items_text_def)

lemma head_item_good: "head_item it \<Longrightarrow> good_item it"
  by (cases it) simp_all

lemma other_header:
  assumes "short_line l" and "take 11 l \<noteq> ''SHARED_INFO''"
  shows "take 11 (padded l) \<noteq> ''SHARED_INFO''"
  using take_padded_other [of "''SHARED_INFO''" 11 l] assms(2) by (simp add: newline_def)

lemma head_item_lines:
  assumes "head_item it" and "l \<in> set (item_lines it)"
  shows "short_line l \<and> take 11 l \<noteq> ''SHARED_INFO''"
proof (cases it)
  case (Plain l')
  then show ?thesis
    using assms by (simp add: plain_line_def)
next
  case (Entry i key c)
  then have "l = key_line i key \<or> l = status_line c"
    using assms(2) by simp
  then show ?thesis
    using assms(1) short_key_line [of i key c] plain_status_line [of c] Entry
    by (auto simp: key_line_def status_line_def plain_line_def)
qed

lemma no_header:
  assumes "\<forall>it \<in> set its. head_item it"
  shows "scan_file (\<lambda>temp. Inr (take 11 temp = ''SHARED_INFO'')) 0 (items_text its) = Inr None"
proof -
  let ?ls = "concat (map item_lines its)"
  have "\<forall>l \<in> set ?ls. short_line l \<and> (Inr (take 11 (padded l) = ''SHARED_INFO'') :: c_fault + bool) = Inr False"
    using assms head_item_lines other_header by fastforce
  note all = scan_lines [OF this, of 0 "[]"]
  moreover have "take 11 (replicate 100 zero_char) \<noteq> ''SHARED_INFO''"
    by (simp add: numeral_eq_Suc)
  ultimately show ?thesis
    using scan_file_end [of "\<lambda>temp. Inr (take 11 temp = ''SHARED_INFO'')"] by (simp add: items_text_lines)
qed

lemma initializeInitFile_appends:
  assumes "\<forall>it \<in> set its. head_item it" and "i < 10" and "length key < 15"
  shows "initializeInitFile i key (Some (items_text its)) = Inr (items_text (its @ [Entry i key (CHR ''0'')]))"
proof -
  have "item_text (Entry i key (CHR ''0'')) = key_entry i key @ status_entry"
    using digit_char_facts(6) [OF assms(2)]
    by (simp add: key_line_def status_line_def text_line_def key_entry_def status_entry_def)
  moreover have "length (key_entry i key) < 30"
    using assms(3) digit_char_facts(6) [OF assms(2)] by (simp add: key_entry_def)
  ultimately show ?thesis
    using no_header [OF assms(1)] by (simp add: initializeInitFile_def open_file_Some bind_fault_Inr items_text_def)
qed

section \<open>The loop of \<open>init_ipc\<close>\<close>

definition sem_of :: "ipc_calls \<Rightarrow> int \<Rightarrow> int" where
  "sem_of os key = semget os (ftok os key)"

definition shm_of :: "ipc_calls \<Rightarrow> int \<Rightarrow> int" where
  "shm_of os key = shmget os (ftok os key)"

text \<open>No system call fails.\<close>

definition calls_succeed :: "ipc_calls \<Rightarrow> bool" where
  "calls_succeed os \<longleftrightarrow>
    (\<forall>key \<in> set sem_key. 0 \<le> ftok os key \<and> sem_of os key \<noteq> -1 \<and> semctl os (sem_of os key) \<noteq> -1)
    \<and> (\<forall>key \<in> set shm_key. 0 \<le> ftok os key \<and> shm_of os key \<noteq> -1 \<and> shmat os (shm_of os key))"

definition new_entry :: "ipc_calls \<Rightarrow> nat \<Rightarrow> ini_item" where
  "new_entry os i = Entry i (sprintf_key (ftok os (shm_key ! i))) (CHR ''0'')"

text \<open>The state after \<open>n\<close> rounds.\<close>

definition after_rounds :: "ipc_calls \<Rightarrow> ini_item list \<Rightarrow> kernel \<Rightarrow> nat \<Rightarrow> ipc_ids \<times> kernel" where
  "after_rounds os its k n =
    (\<lparr>semids = map (sem_of os) (take n sem_key) @ replicate (10 - n) 0, shmids = map (shm_of os) (take n shm_key) @ replicate (10 - n) 0\<rparr>,
     \<lparr>sem_val = (\<lambda>s. if s \<in> sem_of os ` set (take n sem_key) then 1 else sem_val k s),
      shm_seg = (\<lambda>s. if s \<in> shm_of os ` set (take n shm_key) then replicate 10 zero_char else shm_seg k s),
      ini_file = Some (items_text (its @ map (new_entry os) [0..<n]))\<rparr>)"

lemma length_keys: "length sem_key = 10" "length shm_key = 10"
  by (simp_all add: sem_key_def shm_key_def)

lemma put_next: "n < 10 \<Longrightarrow> length xs = 10 \<Longrightarrow>
    (map f (take n xs) @ replicate (10 - n) z)[n := f (xs ! n)] = map f (take (Suc n) xs) @ replicate (10 - Suc n) z"
  by (simp add: take_Suc_conv_app_nth list_update_append Suc_diff_Suc [symmetric])

lemma hex_letter_facts: "newline \<noteq> hex_letter (d mod 16)"
proof -
  have "\<forall>d \<in> set [0..<16]. newline \<noteq> hex_letter d"
    by (simp add: upt_rec hex_letter_def newline_def)
  then show ?thesis
    by simp
qed

lemma length_sprintf_key: "length (sprintf_key n) = 10" and newline_sprintf_key: "newline \<notin> set (sprintf_key n)"
  by (auto simp: sprintf_key_def hex_letter_facts) (simp_all add: newline_def)

lemma head_new_entry: "i < 10 \<Longrightarrow> head_item (new_entry os i)"
  by (simp add: new_entry_def length_sprintf_key newline_sprintf_key) (simp add: newline_def)

lemma init_round_step:
  assumes "calls_succeed os" and "\<forall>it \<in> set its. head_item it" and "n < 10"
  shows "init_round os n (after_rounds os its k n) = Inr (Inr (after_rounds os its k (Suc n)))"
proof -
  have keys: "sem_key ! n \<in> set sem_key" "shm_key ! n \<in> set shm_key"
    using assms(3) length_keys by simp_all
  then have calls: "0 \<le> ftok os (sem_key ! n)" "sem_of os (sem_key ! n) \<noteq> -1" "semctl os (sem_of os (sem_key ! n)) \<noteq> -1"
      "0 \<le> ftok os (shm_key ! n)" "shm_of os (shm_key ! n) \<noteq> -1" "shmat os (shm_of os (shm_key ! n))"
    using assms(1) by (auto simp: calls_succeed_def)
  have "\<forall>it \<in> set (its @ map (new_entry os) [0..<n]). head_item it"
    using assms(2, 3) head_new_entry by auto
  then have entry: "initializeInitFile n (sprintf_key (ftok os (shm_key ! n))) (Some (items_text (its @ map (new_entry os) [0..<n])))
      = Inr (items_text (its @ map (new_entry os) [0..<Suc n]))"
    using initializeInitFile_appends [of "its @ map (new_entry os) [0..<n]" n "sprintf_key (ftok os (shm_key ! n))"] assms(3)
    by (simp add: length_sprintf_key new_entry_def)
  have sets: "set (take (Suc n) sem_key) = insert (sem_key ! n) (set (take n sem_key))"
    "set (take (Suc n) shm_key) = insert (shm_key ! n) (set (take n shm_key))"
    using assms(3) length_keys by (simp_all add: take_Suc_conv_app_nth)
  show ?thesis
    using calls entry put_next [OF assms(3) length_keys(1), of "sem_of os" 0] put_next [OF assms(3) length_keys(2), of "shm_of os" 0]
    by (auto simp: init_round_def after_rounds_def sem_of_def shm_of_def Let_def bind_fault_Inr sets simp del: upt_Suc map_append)
qed

lemma init_loop_ends:
  assumes "calls_succeed os" and "\<forall>it \<in> set its. head_item it" and "n \<le> 10"
  shows "init_loop os [n..<10] (after_rounds os its k n) = Inr (Inr (after_rounds os its k 10))"
  using assms(3)
proof (induction rule: inc_induct)
  case (step n)
  then show ?case
    using init_round_step [OF assms(1, 2), of n k] by (simp add: upt_conv_Cons bind_fault_Inr)
qed simp

lemma init_ipc_state:
  assumes "calls_succeed os" and "\<forall>it \<in> set its. head_item it" and "ini_file k = Some (items_text its)"
  shows "init_ipc os k = Inr (Inr (after_rounds os its k 10))"
proof -
  have "after_rounds os its k 0 = (\<lparr>semids = replicate 10 0, shmids = replicate 10 0\<rparr>, k)"
    using assms(3) by (cases k) (simp add: after_rounds_def)
  then show ?thesis
    using init_loop_ends [OF assms(1, 2), of 0 k] by (simp add: init_ipc_def)
qed

lemma after_init_file:
  assumes "\<forall>it \<in> set its. head_item it"
  shows "valid_file (items_text (its @ map (new_entry os) [0..<10]))"
proof -
  have "\<forall>it \<in> set (its @ map (new_entry os) [0..<10]). good_item it"
    using assms head_new_entry head_item_good by auto
  moreover have "\<forall>i < 10. new_entry os i \<in> set (its @ map (new_entry os) [0..<10]) \<and> is_entry i (new_entry os i)"
    by (simp add: new_entry_def)
  ultimately show ?thesis
    unfolding valid_file_def by blast
qed

lemma after_init_valid:
  assumes "calls_succeed os" and "\<forall>it \<in> set its. head_item it" and "i < 10" and "j < 10"
  shows "shm_valid os (sem_of os (sem_key ! j)) (shm_of os (shm_key ! i)) (int i) (snd (after_rounds os its k 10))"
    and "shm_free (shm_of os (shm_key ! i)) (int i) (snd (after_rounds os its k 10)) = 1"
proof -
  have keys: "sem_key ! j \<in> set sem_key" "shm_key ! i \<in> set shm_key"
    using assms(3, 4) length_keys by simp_all
  then show "shm_valid os (sem_of os (sem_key ! j)) (shm_of os (shm_key ! i)) (int i) (snd (after_rounds os its k 10))"
    using assms after_init_file [OF assms(2), of os]
    by (simp add: shm_valid_def valid_kernel_def after_rounds_def length_keys calls_succeed_def)
  show "shm_free (shm_of os (shm_key ! i)) (int i) (snd (after_rounds os its k 10)) = 1"
    using keys(2) assms(3) by (simp add: shm_free_def after_rounds_def length_keys status_of_def)
qed

section \<open>The members of the request\<close>

definition quoted :: "string \<Rightarrow> string" where
  "quoted x = CHR 0x22 # x @ [CHR 0x22]"

text \<open>A member of \<open>PROTOCOL\<close> that held \<open>old\<close>: there is no terminating zero behind the item.\<close>

definition filled :: "string \<Rightarrow> string \<Rightarrow> string" where
  "filled x old = x @ drop (length x) old"

lemma copy_item_quoted:
  assumes "n = length pre" and "length x \<le> length old"
  shows "copy_item n (Some (quoted x)) (pre @ old @ post) = Inr (pre @ filled x old @ post)"
  using assms by (simp add: copy_item_def quoted_def filled_def)

lemma length_filled: "length x \<le> length old \<Longrightarrow> length (filled x old) = length old"
  by (simp add: filled_def)

lemma parseRecvData_fills:
  assumes "printed buff ''pgm'' = Some (quoted pgm)" and "printed buff ''site_cd'' = Some (quoted site_cd)"
    and "printed buff ''ip'' = Some (quoted ip)" and "printed buff ''flag'' = Some (quoted flag)"
    and "printed buff ''semKey'' = Some (quoted semKey)" and "printed buff ''shmKey'' = Some (quoted shmKey)"
    and "length d1 = 31" and "length d2 = 11" and "length d3 = 16" and "length d4 = 4" and "length d5 = 4" and "length d6 = 4"
    and "length pgm \<le> 31" and "length site_cd \<le> 11" and "length ip \<le> 16" and "length flag \<le> 4" and "length semKey \<le> 4" and "length shmKey \<le> 4"
  shows "parseRecvData printed buff (d1 @ d2 @ d3 @ d4 @ d5 @ d6) =
    Inr (filled pgm d1 @ filled site_cd d2 @ filled ip d3 @ filled flag d4 @ filled semKey d5 @ filled shmKey d6)"
  using assms copy_item_quoted [of pgm_at "[]" pgm d1] copy_item_quoted [of site_cd_at "filled pgm d1" site_cd d2]
    copy_item_quoted [of ip_at "filled pgm d1 @ filled site_cd d2" ip d3]
    copy_item_quoted [of flag_at "filled pgm d1 @ filled site_cd d2 @ filled ip d3" flag d4]
    copy_item_quoted [of semKey_at "filled pgm d1 @ filled site_cd d2 @ filled ip d3 @ filled flag d4" semKey d5]
    copy_item_quoted [of shmKey_at "filled pgm d1 @ filled site_cd d2 @ filled ip d3 @ filled flag d4 @ filled semKey d5" shmKey d6 "[]"]
  by (simp add: parseRecvData_def bind_fault_Inr length_filled offsets)

section \<open>The keys\<close>

lemma capitals:
  assumes "of_char c \<in> set sem_key \<union> set shm_key"
  shows "changeCharToNumber (c # temp) = Inr (of_char c)"
proof -
  have "of_char c \<in> (of_char :: char \<Rightarrow> int) ` set ''ABCDEFGHIJKLMNOPQRST''"
    using assms by (auto simp: sem_key_def shm_key_def)
  then have "c \<in> set ''ABCDEFGHIJKLMNOPQRST''"
    by (simp only: inj_image_mem_iff [OF inj_of_char])
  then have "c \<in> set ''ABCDEFGHIJKLMNOPQRSTUVWXYZ''"
    by auto
  moreover have "changeCharToNumber (c # temp) = letter_loop (Suc 7) (c # temp)"
    by (simp add: changeCharToNumber_def eval_nat_numeral)
  ultimately show ?thesis
    by (simp only: letter_loop.simps if_True)
qed

lemma shm_loop_finds:
  assumes "num \<in> set keys" and "0 \<le> ftok os num" and "shm_of os num \<noteq> -1"
  shows "shm_loop os num keys (shm, rtn) = Inr (shm_of os num, 1)"
  using assms by (induction keys) (auto simp: shm_of_def)

lemma sem_loop_other: "num \<notin> set keys \<Longrightarrow> sem_loop os num num' keys s = Inr s"
  by (cases s) (induction keys, auto)

lemma sem_loop_finds:
  assumes "num \<in> set keys" and "distinct keys" and "0 \<le> ftok os num" and "sem_of os num \<noteq> -1"
    and "num' \<in> set shm_key" and "0 \<le> ftok os num'" and "shm_of os num' \<noteq> -1"
  shows "sem_loop os num num' keys (sem, shm, rtn) = Inr (sem_of os num, shm_of os num', 1)"
  using assms(1, 2)
proof (induction keys)
  case (Cons key keys)
  then show ?case
    using assms(3, 4) shm_loop_finds [OF assms(5-7)] sem_loop_other [of num keys os num'] by (auto simp: sem_of_def)
qed simp

lemma index_loop_other: "shm \<notin> set ss \<Longrightarrow> index_loop shm i ss index = index"
  by (induction ss arbitrary: i) auto

lemma index_loop_finds: "n < length ss \<Longrightarrow> distinct ss \<Longrightarrow> index_loop (ss ! n) i ss index = i + int n"
proof (induction ss arbitrary: n i index)
  case (Cons s ss)
  then show ?case
    by (cases n) (auto simp: index_loop_other)
qed simp

lemma distinct_keys: "distinct sem_key" "0 \<notin> set sem_key" "0 \<notin> set shm_key"
  by (simp_all add: sem_key_def shm_key_def)

lemma checkSemShmKey_finds:
  assumes "calls_succeed os" and "inj_on (shm_of os) (set shm_key)" and "i < 10" and "j < 10"
    and "of_char (data ! semKey_at) = sem_key ! j" and "of_char (data ! shmKey_at) = shm_key ! i" and "length data = protocol_size"
  shows "checkSemShmKey os (fst (after_rounds os its k 10)) data temps =
    Inr (Inr (1, sem_of os (sem_key ! j), shm_of os (shm_key ! i), int i))"
proof -
  have keys: "sem_key ! j \<in> set sem_key" "shm_key ! i \<in> set shm_key"
    using assms(3, 4) length_keys by simp_all
  have "changeCharToNumber (drop semKey_at data) = Inr (sem_key ! j)" "changeCharToNumber (drop shmKey_at data) = Inr (shm_key ! i)"
    using capitals [of "data ! semKey_at" "drop (Suc semKey_at) data"] capitals [of "data ! shmKey_at" "drop (Suc shmKey_at) data"]
      assms(5-7) keys Cons_nth_drop_Suc [of semKey_at data] Cons_nth_drop_Suc [of shmKey_at data]
    by (simp_all add: offsets)
  moreover have "sem_key ! j \<noteq> 0" "shm_key ! i \<noteq> 0"
    using keys distinct_keys(2, 3) by metis+
  moreover have "distinct (map (shm_of os) shm_key)"
    using assms(2) by (simp add: distinct_map shm_key_def)
  then have "index_loop (shm_of os (shm_key ! i)) 0 (map (shm_of os) shm_key) index = int i" for index
    using index_loop_finds [of i "map (shm_of os) shm_key" 0 index] assms(3) by (simp add: length_keys)
  moreover have "sem_loop os (sem_key ! j) (shm_key ! i) sem_key (sem, shm, 0) = Inr (sem_of os (sem_key ! j), shm_of os (shm_key ! i), 1)" for sem shm
    using sem_loop_finds [OF keys(1) distinct_keys(1) _ _ keys(2)] assms(1) keys by (simp add: calls_succeed_def)
  ultimately show ?thesis
    by (cases temps) (simp add: checkSemShmKey_def bind_fault_Inr after_rounds_def length_keys)
qed

lemma server_main_is_answer:
  assumes "calls_succeed os" and "inj_on (shm_of os) (set shm_key)" and "i < 10" and "j < 10"
    and "parseRecvData printed buff d = Inr data" and "length data = protocol_size"
    and "of_char (data ! semKey_at) = sem_key ! j" and "of_char (data ! shmKey_at) = shm_key ! i"
  shows "server_main printed follows os err (fst (after_rounds os its k0 10)) buff d temps k =
    bind_fault (answer_request os err data (sem_of os (sem_key ! j)) (shm_of os (shm_key ! i)) (int i) k) (\<lambda>(msg, k).
    bind_fault (reply follows msg) (\<lambda>sBuff. Inr (sBuff, k)))"
  using checkSemShmKey_finds [OF assms(1-4) assms(7, 8, 6), of its k0 temps] assms(5)
  by (simp add: server_main_def bind_fault_Inr)

lemma lock_twice:
  assumes "shm_valid os sem shm index k" and "shm_free shm index k = 1" and "flag_is data ''1''"
  shows "\<exists>k'. answer_request os no_errors data sem shm index k = Inr (lock_ok, k')
    \<and> answer_request os no_errors data sem shm index k' = Inr (lock_fail, k')"
proof -
  have v: "valid_kernel {shm} k" "shmat os shm" "0 \<le> index" "index < 10" "sem_val k sem = 1"
    using assms(1) by (simp_all add: shm_valid_def)
  obtain new where n: "set_status os no_errors sem shm index 1 lock_ok k = Inr (lock_ok, with_status shm index 1 new k)"
      "valid_kernel {shm} (with_status shm index 1 new k)" "sem_val (with_status shm index 1 new k) sem = 1"
    by (rule set_valid [OF v, of 1 lock_ok]) simp_all
  have "status_of (shm_seg k shm ! nat index) = 0"
    using assms(2) by (simp add: shm_free_def split: if_splits)
  moreover have "status_of (shm_seg (with_status shm index 1 new k) shm ! nat index) = 1"
    using v by (simp add: with_status_def valid_kernel_def status_of_digits)
  ultimately show ?thesis
    using n get_valid [OF v] get_valid [OF n(2) v(2-4) n(3)] assms(3)
    by (intro exI [of _ "with_status shm index 1 new k"]) (simp add: answer_request_def bind_fault_Inr)
qed

text \<open>The answer is sent whole when there is enough memory behind its literal, and the client reads it as a string.\<close>

lemma reply_is:
  assumes "1023 \<le> length msg + length (follows msg)"
  shows "reply follows msg = Inr (take 1024 (msg @ zero_char # follows msg))"
  using assms by (simp add: reply_def Let_def)

lemma c_string_reply:
  assumes "zero_char \<notin> set msg" and "length msg < 1024"
  shows "c_string (take 1024 (msg @ zero_char # t)) = msg"
proof -
  have "take 1024 (msg @ zero_char # t) = msg @ zero_char # take (1023 - length msg) t"
    using assms(2) by (simp add: take_Cons')
  then show ?thesis
    using assms(1) by (auto simp: c_string_def takeWhile_append)
qed

section \<open>Properties\<close>

text \<open>For the witnesses: a request that locks, and the state before the start with the file that the repository ships.\<close>

definition sample_items :: "string \<Rightarrow> string \<Rightarrow> string option" where
  "sample_items buff = [''pgm'' \<mapsto> quoted ''shop'', ''site_cd'' \<mapsto> quoted ''01'', ''ip'' \<mapsto> quoted ''10.0.0.1'',
    ''flag'' \<mapsto> quoted ''1'', ''semKey'' \<mapsto> quoted ''C'', ''shmKey'' \<mapsto> quoted ''M'']"

definition zero_request :: string where
  "zero_request = replicate 31 zero_char @ replicate 11 zero_char @ replicate 16 zero_char @ replicate 4 zero_char
    @ replicate 4 zero_char @ replicate 4 zero_char"

definition sample_request :: string where
  "sample_request = filled ''shop'' (replicate 31 zero_char) @ filled ''01'' (replicate 11 zero_char)
    @ filled ''10.0.0.1'' (replicate 16 zero_char) @ filled ''1'' (replicate 4 zero_char)
    @ filled ''C'' (replicate 4 zero_char) @ filled ''M'' (replicate 4 zero_char)"

definition shipped_items :: "ini_item list" where
  "shipped_items =
    map Plain [''[DBG_INFO]'', ''DBG_LEVEL = 1'', ''DBG_FILE_FLAG = 1'', ''DBG_DIR_NAME = D'', [], ''[SHARED_INFO]'']
    @ map (\<lambda>(i, key). Entry i key (CHR ''0'')) (zip [0..<10]
       [''0x4b0088a4'', ''0x4c0088a4'', ''0x4d0088a4'', ''0x4e0088a4'', ''0x4f0088a4'',
        ''0x500088a4'', ''0x510088a4'', ''0x520088a4'', ''0x530088a4'', ''0x540088a4''])"

definition boot_kernel :: kernel where
  "boot_kernel = \<lparr>sem_val = (\<lambda>_. 0), shm_seg = (\<lambda>_. []), ini_file = Some (items_text shipped_items)\<rparr>"

text \<open>Zeros behind every literal.\<close>

definition zeros_follow :: "string \<Rightarrow> string" where
  "zeros_follow msg = replicate 1023 zero_char"

lemma sample_parse: "parseRecvData sample_items [] zero_request = Inr sample_request"
  unfolding zero_request_def sample_request_def
  by (rule parseRecvData_fills) (simp_all add: sample_items_def)

lemma sample_members:
  "length sample_request = protocol_size" "flag_is sample_request ''1''"
  "of_char (sample_request ! semKey_at) = sem_key ! 2" "of_char (sample_request ! shmKey_at) = shm_key ! 2"
  by (simp_all add: sample_request_def filled_def offsets flag_is_def nth_append sem_key_def shm_key_def numeral_eq_Suc)

lemma plain_succeed: "calls_succeed plain_calls" "inj_on (shm_of plain_calls) (set shm_key)"
  by (simp_all add: calls_succeed_def plain_calls_def sem_of_def shm_of_def sem_key_def shm_key_def inj_on_def)

lemma shipped_head: "\<forall>it \<in> set shipped_items. head_item it" "ini_file boot_kernel = Some (items_text shipped_items)"
  by (simp_all add: shipped_items_def upt_rec plain_line_def short_line_def newline_def boot_kernel_def)

lemma plain_ids: "map (sem_of plain_calls) sem_key = sem_key" "map (shm_of plain_calls) shm_key = shm_key"
  by (simp_all add: plain_calls_def sem_of_def shm_of_def map_idI)

text \<open>C30: When the system calls succeed and the file is there, of short lines of which none begins with \<open>SHARED_INFO\<close>, with or
  without the entries of earlier starts, \<open>init_ipc\<close> leaves every semaphore at one, every segment zero and ten entries more at the
  end of the file, which is a state in which the handlers keep their invariant.\<close>

theorem init_ipc_ready:
  assumes "calls_succeed os" and "\<forall>it \<in> set its. head_item it" and "ini_file k = Some (items_text its)"
  shows "\<exists>ids k'. init_ipc os k = Inr (Inr (ids, k')) \<and> semids ids = map (sem_of os) sem_key \<and> shmids ids = map (shm_of os) shm_key
    \<and> ini_file k' = Some (items_text (its @ map (new_entry os) [0..<10]))
    \<and> list_all (\<lambda>(i, j). shm_valid os (sem_of os (sem_key ! j)) (shm_of os (shm_key ! i)) (int i) k'
        \<and> shm_free (shm_of os (shm_key ! i)) (int i) k' = 1) (List.product [0..<10] [0..<10])"
proof -
  have "init_ipc os k = Inr (Inr (fst (after_rounds os its k 10), snd (after_rounds os its k 10)))"
    using init_ipc_state [OF assms] by simp
  moreover have "list_all (\<lambda>(i, j). shm_valid os (sem_of os (sem_key ! j)) (shm_of os (shm_key ! i)) (int i) (snd (after_rounds os its k 10))
        \<and> shm_free (shm_of os (shm_key ! i)) (int i) (snd (after_rounds os its k 10)) = 1) (List.product [0..<10] [0..<10])"
    using after_init_valid [OF assms(1, 2)] by (auto simp: list_all_iff)
  ultimately show ?thesis
    by (intro exI conjI) (assumption | simp add: after_rounds_def length_keys)+
qed

theorem init_ipc_ready_witness:
  "\<exists>ids k'. init_ipc plain_calls boot_kernel = Inr (Inr (ids, k')) \<and> semids ids = sem_key \<and> shmids ids = shm_key
    \<and> ini_file k' = Some (items_text (shipped_items @ map (new_entry plain_calls) [0..<10]))"
  using init_ipc_ready [OF plain_succeed(1) shipped_head] plain_ids by auto

text \<open>C29: A request for a lock that comes first after the start is granted, and the same request once more is refused and
  changes nothing, from the members that the request was parsed to, through the search for its keys, the shared memory and the
  file to the string that the client reads. The system calls, \<open>semop\<close> too, succeed and give different segments for the ten keys,
  the file is one that \<open>init_ipc\<close> can extend, and there are 1024 bytes from the beginning of each answer.\<close>

theorem lock_after_start:
  assumes "calls_succeed os" and "inj_on (shm_of os) (set shm_key)" and "\<forall>it \<in> set its. head_item it"
    and "ini_file k = Some (items_text its)" and "i < 10" and "j < 10"
    and "parseRecvData printed buff d = Inr data" and "length data = protocol_size" and "flag_is data ''1''"
    and "of_char (data ! semKey_at) = sem_key ! j" and "of_char (data ! shmKey_at) = shm_key ! i"
    and "1023 \<le> length lock_ok + length (follows lock_ok)" and "1023 \<le> length lock_fail + length (follows lock_fail)"
  shows "\<exists>ids k1 k2 sent1 sent2. init_ipc os k = Inr (Inr (ids, k1))
    \<and> server_main printed follows os no_errors ids buff d temps k1 = Inr (sent1, k2) \<and> c_string sent1 = lock_ok
    \<and> server_main printed follows os no_errors ids buff d temps k2 = Inr (sent2, k2) \<and> c_string sent2 = lock_fail"
proof -
  let ?answer = "answer_request os no_errors data (sem_of os (sem_key ! j)) (shm_of os (shm_key ! i)) (int i)"
  obtain k2 where k2: "?answer (snd (after_rounds os its k 10)) = Inr (lock_ok, k2)" "?answer k2 = Inr (lock_fail, k2)"
    using lock_twice [OF after_init_valid [OF assms(1, 3, 5, 6)] assms(9)] by blast
  have "c_string (take 1024 (lock_ok @ zero_char # t)) = lock_ok" "c_string (take 1024 (lock_fail @ zero_char # t)) = lock_fail" for t
    by (rule c_string_reply; simp add: answers)+
  then show ?thesis
    using init_ipc_state [OF assms(1, 3, 4)] k2 reply_is [of lock_ok follows] reply_is [of lock_fail follows] assms(12, 13)
      server_main_is_answer [OF assms(1, 2, 5-8, 10, 11), of follows no_errors its k temps]
    by (intro exI [of _ "fst (after_rounds os its k 10)"] exI [of _ "snd (after_rounds os its k 10)"] exI [of _ k2]
        exI [of _ "take 1024 (lock_ok @ zero_char # follows lock_ok)"] exI [of _ "take 1024 (lock_fail @ zero_char # follows lock_fail)"])
      (simp add: bind_fault_Inr)
qed

theorem lock_after_start_witness:
  "\<exists>ids k1 k2 sent1 sent2. init_ipc plain_calls boot_kernel = Inr (Inr (ids, k1))
    \<and> server_main sample_items zeros_follow plain_calls no_errors ids [] zero_request (0, 0, 0) k1 = Inr (sent1, k2)
    \<and> c_string sent1 = ''[OK] succeed Locking''
    \<and> server_main sample_items zeros_follow plain_calls no_errors ids [] zero_request (0, 0, 0) k2 = Inr (sent2, k2)
    \<and> c_string sent2 = ''[ERROR] fail Locking''"
  using lock_after_start [OF plain_succeed shipped_head _ _ sample_parse sample_members, of zeros_follow "(0, 0, 0)"]
  by (simp add: lock_ok_def lock_fail_def zeros_follow_def)

end
