(* ===== verification/SemServer.thy ===== *)
theory SemServer
  imports LockServer
begin

text \<open>
  Two lock servers that use the semaphore itself as the lock: \<open>test_semaphore/system_semaphore\<close> with \<open>semop\<close> that does
  not wait, and \<open>test_semaphore/posix_semaphore/namedSemaphoreServer\<close> with \<open>sem_getvalue\<close> and \<open>sem_wait\<close>. As for the shared
  memory server a connection is handled by a process of its own.
\<close>

section \<open>The system semaphore server\<close>

text \<open>The existing semaphores with their values, and the file. A new semaphore has the value \<open>0\<close>; the largest is 32767.\<close>

record sem_kernel =
  sems :: "int \<Rightarrow> nat option"
  sem_file :: "string option"

definition SEMVMX :: nat where "SEMVMX = 32767"

text \<open>\<open>semget\<close> with \<open>IPC_EXCL\<close>: it fails when the semaphore exists.\<close>

definition semget_excl :: "ipc_calls \<Rightarrow> int \<Rightarrow> sem_kernel \<Rightarrow> int \<times> sem_kernel" where
  "semget_excl os key k =
    (let sem = semget os key in
     if sem = -1 \<or> sems k sem \<noteq> None then (-1, k) else (sem, k\<lparr>sems := (sems k)(sem := Some 0)\<rparr>))"

definition setval_one :: "ipc_calls \<Rightarrow> int \<Rightarrow> sem_kernel \<Rightarrow> int \<times> sem_kernel" where
  "setval_one os sem k = (if semctl os sem = -1 then (-1, k) else (0, k\<lparr>sems := (sems k)(sem := Some 1)\<rparr>))"

definition sem_init_ipc :: "ipc_calls \<Rightarrow> int \<Rightarrow> sem_kernel \<Rightarrow> int \<times> sem_kernel" where
  "sem_init_ipc os key k =
    (let ipc_key = ftok os key in
     if ipc_key < 0 then (-1, k)
     else
       let (sem, k) = semget_excl os ipc_key k in
       if sem = -1 then (semget os ipc_key, k)
       else let (r, k) = setval_one os sem k in if r = -1 then (-1, k) else (sem, k))"

text \<open>\<open>semop\<close> by \<open>-1\<close> and by \<open>+1\<close>, with \<open>IPC_NOWAIT\<close>.\<close>

definition setLockSemaphore :: "int \<Rightarrow> sem_kernel \<Rightarrow> int \<times> sem_kernel" where
  "setLockSemaphore sem k =
    (case sems k sem of
       Some (Suc v) \<Rightarrow> (0, k\<lparr>sems := (sems k)(sem := Some v)\<rparr>)
     | _ \<Rightarrow> (-1, k))"

definition setUnLockSemaphore :: "int \<Rightarrow> sem_kernel \<Rightarrow> int \<times> sem_kernel" where
  "setUnLockSemaphore sem k =
    (case sems k sem of
       Some v \<Rightarrow> if v < SEMVMX then (0, k\<lparr>sems := (sems k)(sem := Some (v + 1))\<rparr>) else (-1, k)
     | None \<Rightarrow> (-1, k))"

definition unlock_fail :: string where "unlock_fail = ''[ERROR] fail UnLocking''"
definition no_key :: string where "no_key = ''[ERROR] don't create key''"

text \<open>The semaphore operation of a request: what the file is marked with, and the answer.\<close>

definition operate :: "string \<Rightarrow> int \<Rightarrow> sem_kernel \<Rightarrow> (int \<times> string) option \<times> sem_kernel" where
  "operate data sem k =
    (if flag_is data ''1'' then
       (let (ret, k) = setLockSemaphore sem k in (Some (1, if ret < 0 then lock_fail else lock_ok), k))
     else if flag_is data ''0'' then
       (let (ret, k) = setUnLockSemaphore sem k in (Some (0, if ret < 0 then unlock_fail else unlock_ok), k))
     else (None, k))"

text \<open>\<open>checkSemKey\<close>, without other processes. \<open>sBuff\<close> stays empty when the key has no letter.\<close>

definition checkSemKey :: "ipc_calls \<Rightarrow> string \<Rightarrow> sem_kernel \<Rightarrow> c_fault + (string \<times> sem_kernel)" where
  "checkSemKey os data k =
    bind_fault (changeCharToNumber (drop semKey_at data)) (\<lambda>numSemKey.
      if numSemKey = 0 then Inr ([], k)
      else
        let (sem, k) = sem_init_ipc os numSemKey k in
        if sem < 0 then Inr (no_key, k)
        else
          bind_fault (add_semaphore_entry (nat sem) 0 (sem_file k)) (\<lambda>file.
          let (m, k) = operate data sem (k\<lparr>sem_file := Some file\<rparr>) in
          case m of
            None \<Rightarrow> Inr (not_correct, k)
          | Some (mark, answer) \<Rightarrow>
            bind_fault (markInitFile (nat sem) mark (sem_file k)) (\<lambda>file. Inr (answer, k\<lparr>sem_file := Some file\<rparr>))))"

text \<open>The same handler step by step, for one identifier. A process that dies keeps the answer it did not send.\<close>

datatype sem_place =
    Create | Set_value | Add_entry | Operate | Mark int string | Replied string | Crashed c_fault string

record sem_handler =
  s_sem :: int
  s_data :: string
  s_place :: sem_place

fun sem_step_at :: "ipc_calls \<Rightarrow> sem_kernel \<Rightarrow> sem_handler \<Rightarrow> sem_place \<Rightarrow> (sem_kernel \<times> sem_place) option" where
  "sem_step_at os k h Create =
    (if sems k (s_sem h) = None then Some (k\<lparr>sems := (sems k)(s_sem h := Some 0)\<rparr>, Set_value) else Some (k, Add_entry))"
| "sem_step_at os k h Set_value =
    (let (r, k) = setval_one os (s_sem h) k in Some (k, if r = -1 then Replied no_key else Add_entry))"
| "sem_step_at os k h Add_entry =
    (case add_semaphore_entry (nat (s_sem h)) 0 (sem_file k) of
       Inl e \<Rightarrow> Some (k, Crashed e [])
     | Inr file \<Rightarrow> Some (k\<lparr>sem_file := Some file\<rparr>, Operate))"
| "sem_step_at os k h Operate =
    (let (m, k) = operate (s_data h) (s_sem h) k in
     Some (k, case m of None \<Rightarrow> Replied not_correct | Some (mark, answer) \<Rightarrow> Mark mark answer))"
| "sem_step_at os k h (Mark mark answer) =
    (case markInitFile (nat (s_sem h)) mark (sem_file k) of
       Inl e \<Rightarrow> Some (k, Crashed e answer)
     | Inr file \<Rightarrow> Some (k\<lparr>sem_file := Some file\<rparr>, Replied answer))"
| "sem_step_at os k h (Replied answer) = None"
| "sem_step_at os k h (Crashed e answer) = None"

definition sem_step :: "ipc_calls \<Rightarrow> sem_kernel \<Rightarrow> sem_handler \<Rightarrow> (sem_kernel \<times> sem_handler) option" where
  "sem_step os k h = map_option (\<lambda>(k, p). (k, h\<lparr>s_place := p\<rparr>)) (sem_step_at os k h (s_place h))"

section \<open>The named semaphore server\<close>

text \<open>
  \<open>reqLockSem\<close>: \<open>sem_open\<close> makes the semaphore with the value \<open>1\<close> when there is none of that name. The key file of the
  answer is a parameter, \<open>None\<close> when it cannot be created. \<open>sem_open\<close> is taken to succeed.
\<close>

definition makeJsonData4Res :: "string \<Rightarrow> string \<Rightarrow> string \<Rightarrow> string" where
  "makeJsonData4Res msg msgCd key =
    ''{'' @ [CHR 0x22] @ ''msg'' @ [CHR 0x22] @ '':'' @ [CHR 0x22] @ msg @ [CHR 0x22] @ '',''
      @ [CHR 0x22] @ ''msgCd'' @ [CHR 0x22] @ '':'' @ [CHR 0x22] @ msgCd @ [CHR 0x22] @ '',''
      @ [CHR 0x22] @ ''key'' @ [CHR 0x22] @ '':'' @ [CHR 0x22] @ key @ [CHR 0x22] @ ''}''"

definition no_semaphore :: string where
  "no_semaphore = makeJsonData4Res ''There isn't any Semaphore to lock'' ''ERROR'' []"

definition key_answer :: "string option \<Rightarrow> string" where
  "key_answer key =
    (case key of
       None \<Rightarrow> makeJsonData4Res ''It's failed to create a key file.'' ''ERROR'' []
     | Some key \<Rightarrow> makeJsonData4Res ''Succeed Locking'' ''OK'' key)"

datatype named_place = Sem_open | Sem_getvalue | Sem_wait | Key_file | Sent bool string

record named_handler =
  n_name :: string
  n_key :: "string option"
  n_place :: named_place

fun named_step_at :: "(string \<Rightarrow> nat option) \<Rightarrow> named_handler \<Rightarrow> named_place \<Rightarrow> ((string \<Rightarrow> nat option) \<times> named_place) option" where
  "named_step_at k h Sem_open = Some (if k (n_name h) = None then k(n_name h := Some 1) else k, Sem_getvalue)"
| "named_step_at k h Sem_getvalue =
    (case k (n_name h) of
       None \<Rightarrow> None
     | Some semVal \<Rightarrow> Some (k, if semVal = 0 then Sent False no_semaphore else Sem_wait))"
| "named_step_at k h Sem_wait =
    (case k (n_name h) of
       Some (Suc v) \<Rightarrow> Some (k(n_name h := Some v), Key_file)
     | _ \<Rightarrow> None)"
| "named_step_at k h Key_file = Some (k, Sent True (key_answer (n_key h)))"
| "named_step_at k h (Sent got answer) = None"

definition named_step :: "(string \<Rightarrow> nat option) \<Rightarrow> named_handler \<Rightarrow> ((string \<Rightarrow> nat option) \<times> named_handler) option" where
  "named_step k h = map_option (\<lambda>(k, p). (k, h\<lparr>n_place := p\<rparr>)) (named_step_at k h (n_place h))"

section \<open>Grants of the system semaphore server\<close>

lemma answers_differ: "lock_ok \<noteq> unlock_ok" "lock_fail \<noteq> lock_ok" "lock_fail \<noteq> unlock_ok" "unlock_fail \<noteq> lock_ok" "unlock_fail \<noteq> unlock_ok"
    "not_correct \<noteq> lock_ok" "not_correct \<noteq> unlock_ok" "no_key \<noteq> lock_ok" "no_key \<noteq> unlock_ok" "lock_ok \<noteq> []" "unlock_ok \<noteq> []"
  by (simp_all add: answers unlock_fail_def no_key_def)

text \<open>The answer that a handler will give or has given.\<close>

fun answer_of :: "sem_place \<Rightarrow> string option" where
  "answer_of (Mark _ a) = Some a"
| "answer_of (Replied a) = Some a"
| "answer_of (Crashed _ a) = Some a"
| "answer_of _ = None"

definition weight :: "sem_place \<Rightarrow> int" where
  "weight p = (if p = Set_value then 1 else if answer_of p = Some lock_ok then 1 else if answer_of p = Some unlock_ok then -1 else 0)"

definition permits :: "int \<Rightarrow> sem_kernel \<Rightarrow> int" where
  "permits s k = (case sems k s of None \<Rightarrow> 1 | Some v \<Rightarrow> int v)"

lemma sem_step_same: "sem_step os k h = Some (k', h') \<Longrightarrow> s_sem h' = s_sem h \<and> s_data h' = s_data h"
  by (auto simp: sem_step_def)

lemma lock_permits:
  assumes "setLockSemaphore sem k = (ret, k')"
  shows "(ret = 0 \<and> permits sem k' + 1 = permits sem k \<or> ret = -1 \<and> k' = k) \<and> (s \<noteq> sem \<longrightarrow> permits s k' = permits s k)"
  using assms by (auto simp: setLockSemaphore_def permits_def split: option.splits nat.splits)

lemma unlock_permits:
  assumes "setUnLockSemaphore sem k = (ret, k')"
  shows "(ret = 0 \<and> permits sem k' = permits sem k + 1 \<or> ret = -1 \<and> k' = k) \<and> (s \<noteq> sem \<longrightarrow> permits s k' = permits s k)"
  using assms by (auto simp: setUnLockSemaphore_def permits_def split: option.splits if_splits)

lemma weight_simps:
  "weight Create = 0" "weight Set_value = 1" "weight Add_entry = 0" "weight Operate = 0"
  "weight (Mark m a) = (if a = lock_ok then 1 else if a = unlock_ok then -1 else 0)"
  "weight (Replied a) = (if a = lock_ok then 1 else if a = unlock_ok then -1 else 0)"
  "weight (Crashed e a) = (if a = lock_ok then 1 else if a = unlock_ok then -1 else 0)"
  by (simp_all add: weight_def)

lemma operate_weight:
  assumes "operate data sem k = (m, k')"
  shows "permits sem k' + weight (case m of None \<Rightarrow> Replied not_correct | Some (mark, answer) \<Rightarrow> Mark mark answer) \<le> permits sem k
    \<and> (s \<noteq> sem \<longrightarrow> permits s k' = permits s k)"
proof -
  obtain r1 k1 r2 k2 where "setLockSemaphore sem k = (r1, k1)" "setUnLockSemaphore sem k = (r2, k2)"
    by fastforce
  then show ?thesis
    using assms lock_permits [of sem k r1 k1 s] unlock_permits [of sem k r2 k2 s] answers_differ
    by (auto simp: operate_def weight_simps split: if_splits)
qed

lemma permits_None: "sems k s = None \<Longrightarrow> permits s k = 1" and permits_nonneg: "0 \<le> permits s k"
  and permits_upd: "permits s (k\<lparr>sems := (sems k)(t := Some v)\<rparr>) = (if s = t then int v else permits s k)"
  and permits_file: "permits s (k\<lparr>sem_file := f\<rparr>) = permits s k"
  by (simp_all add: permits_def split: option.splits)

lemma sem_step_weight:
  assumes "sem_step os k h = Some (k', h')"
  shows "permits (s_sem h) k' + weight (s_place h') \<le> permits (s_sem h) k + weight (s_place h)
    \<and> (s \<noteq> s_sem h \<longrightarrow> permits s k' = permits s k)"
proof (cases "s_place h")
  case Operate
  obtain m k1 where m: "operate (s_data h) (s_sem h) k = (m, k1)"
    by fastforce
  then show ?thesis
    using assms Operate operate_weight [OF m, of s] by (auto simp: sem_step_def weight_simps(4))
qed (use assms permits_nonneg [of "s_sem h" k] answers_differ in
  \<open>auto simp: sem_step_def setval_one_def permits_None permits_upd permits_file weight_simps split: if_splits sum.splits\<close>)

interpretation grants: counted "sem_step os" "permits s" "\<lambda>h. if s_sem h = s then weight (s_place h) else 0" for os s
proof
  fix k h k' h'
  assume st: "sem_step os k h = Some (k', h')"
  show "permits s k' + (if s_sem h' = s then weight (s_place h') else 0) \<le> permits s k + (if s_sem h = s then weight (s_place h) else 0)"
    using sem_step_weight [OF st, of s] sem_step_same [OF st] by (cases "s_sem h = s") auto
qed

interpretation sysv: lock_service "\<lambda>k. \<exists>v \<le> 1. sems k sem = Some v" "\<lambda>k. the (sems k sem)"
    "\<lambda>k. map_prod (\<lambda>r. r = 0) id (setLockSemaphore sem k)" "\<lambda>k. map_prod (\<lambda>r. r = 0) id (setUnLockSemaphore sem k)" for sem
  by unfold_locales (auto simp: setLockSemaphore_def setUnLockSemaphore_def SEMVMX_def)

section \<open>Grants of the named semaphore server\<close>

definition has_permit :: "named_place \<Rightarrow> bool" where
  "has_permit p \<longleftrightarrow> p = Key_file \<or> (\<exists>a. p = Sent True a)"

interpretation named: conserved named_step "\<lambda>k. case k name of None \<Rightarrow> 1 | Some v \<Rightarrow> int v"
    "\<lambda>h. if n_name h = name \<and> has_permit (n_place h) then 1 else 0" for name
proof
  fix k h k' h'
  assume "named_step k h = Some (k', h')"
  then show "(case k' name of None \<Rightarrow> 1 | Some v \<Rightarrow> int v) + (if n_name h' = name \<and> has_permit (n_place h') then 1 else 0) =
      (case k name of None \<Rightarrow> 1 | Some v \<Rightarrow> int v) + (if n_name h = name \<and> has_permit (n_place h) then 1 else 0)"
    by (cases "n_place h") (auto simp: named_step_def has_permit_def split: option.splits nat.splits if_splits)
qed

section \<open>Properties\<close>

lemma sum_weight:
  "sum_list (map (\<lambda>h. if s_sem h = s then weight (s_place h) else 0) hs) \<ge>
    int (length (filter (\<lambda>h. s_sem h = s \<and> answer_of (s_place h) = Some lock_ok) hs))
      - int (length (filter (\<lambda>h. s_sem h = s \<and> answer_of (s_place h) = Some unlock_ok) hs))"
  by (induction hs) (auto simp: weight_def answers_differ)

lemma sum_start: "\<forall>h \<in> set hs. s_place h = Create \<Longrightarrow> sum_list (map (\<lambda>h. if s_sem h = s then weight (s_place h) else 0) hs) = 0"
  by (induction hs) (auto simp: weight_simps)

text \<open>C35: However the handlers of the system semaphore server interleave, also while the semaphore is being made, a
  lock that starts free or does not exist yet is granted at most once more often than it was given back.\<close>

theorem grants_bounded:
  assumes "\<forall>h \<in> set hs. s_place h = Create" and "\<forall>v. sems k s = Some v \<longrightarrow> v \<le> 1" and "sys_run (sem_step os) (k, hs) (k', hs')"
  shows "length (filter (\<lambda>h. s_sem h = s \<and> answer_of (s_place h) = Some lock_ok) hs')
    \<le> 1 + length (filter (\<lambda>h. s_sem h = s \<and> answer_of (s_place h) = Some unlock_ok) hs')"
proof -
  have "permits s k \<le> 1"
    using assms(2) by (cases "sems k s") (auto simp: permits_def)
  then have "sum_list (map (\<lambda>h. if s_sem h = s then weight (s_place h) else 0) hs') \<le> 1"
    using grants.run_le [OF assms(3), of s] sum_start [OF assms(1), of s] permits_nonneg [of s k'] by simp
  then show ?thesis
    using sum_weight [of s hs'] by simp
qed

text \<open>A run of two handlers of a new semaphore: the first has got the lock, and the second has found the semaphore there.\<close>

definition sem_handlers :: "sem_place \<Rightarrow> sem_place \<Rightarrow> sem_handler list" where
  "sem_handlers p q =
    map (\<lambda>p. \<lparr>s_sem = 7, s_data = replicate flag_at zero_char @ ''1'' @ replicate 11 zero_char, s_place = p\<rparr>) [p, q]"

lemma new_semaphore_run:
  "sys_run (sem_step os) (\<lparr>sems = (\<lambda>_. None), sem_file = Some []\<rparr>, sem_handlers Create Create)
    (\<lparr>sems = [7 \<mapsto> 0], sem_file = Some (sem_entry 7 0)\<rparr>, sem_handlers (Mark 1 lock_ok) Add_entry)"
  if "semctl os 7 \<noteq> -1"
proof -
  have "scan_file (is_sem_key 30 7) 0 [] = Inr None"
    by (rule scan_file_end) (simp add: is_sem_key_def numeral_eq_Suc)
  moreover have "flag_is (replicate flag_at zero_char @ ''1'' @ replicate 11 zero_char) ''1''"
    by (simp add: flag_is_def numeral_2_eq_2)
  ultimately show ?thesis
    using that by (intro schedule_run [of _ "[0, 0, 0, 1, 0]"])
      (simp add: sem_step_def sem_handlers_def setval_one_def add_semaphore_entry_def open_file_Some bind_fault_Inr
        operate_def setLockSemaphore_def)
qed

theorem grants_bounded_witness:
  "length (filter (\<lambda>h. s_sem h = 7 \<and> answer_of (s_place h) = Some lock_ok) (sem_handlers (Mark 1 lock_ok) Add_entry)) \<le>
      1 + length (filter (\<lambda>h. s_sem h = 7 \<and> answer_of (s_place h) = Some unlock_ok) (sem_handlers (Mark 1 lock_ok) Add_entry))
    \<and> length (filter (\<lambda>h. s_sem h = 7 \<and> answer_of (s_place h) = Some lock_ok) (sem_handlers (Mark 1 lock_ok) Add_entry)) = 1"
proof
  let ?os = "\<lparr>ftok = \<lambda>key. key, semget = \<lambda>key. key, shmget = \<lambda>key. key, semctl = \<lambda>_. 0, shmat = \<lambda>_. True\<rparr>"
  have "\<forall>h \<in> set (sem_handlers Create Create). s_place h = Create"
    by (simp add: sem_handlers_def)
  then show "length (filter (\<lambda>h. s_sem h = 7 \<and> answer_of (s_place h) = Some lock_ok) (sem_handlers (Mark 1 lock_ok) Add_entry)) \<le>
      1 + length (filter (\<lambda>h. s_sem h = 7 \<and> answer_of (s_place h) = Some unlock_ok) (sem_handlers (Mark 1 lock_ok) Add_entry))"
    by (rule grants_bounded [OF _ _ new_semaphore_run [of ?os]]) simp_all
qed (simp add: sem_handlers_def)

text \<open>The requests for one semaphore that come one after the other get the answers of a lock, when only the holder
  gives it back; an unlock of a free lock is also granted, and then the lock is granted twice.\<close>

theorem semaphore_is_lock:
  assumes "sems k sem = Some 1"
  shows "fst (serve (\<lambda>k. map_prod (\<lambda>r. r = 0) id (setLockSemaphore sem k)) (\<lambda>k. map_prod (\<lambda>r. r = 0) id (setUnLockSemaphore sem k))
      k None requests) = lock_answers None requests
    \<and> (let (r1, k1) = setUnLockSemaphore sem k; (r2, k2) = setLockSemaphore sem k1; (r3, k3) = setLockSemaphore sem k2 in
       r1 = 0 \<and> r2 = 0 \<and> r3 = 0)"
proof
  show "fst (serve (\<lambda>k. map_prod (\<lambda>r. r = 0) id (setLockSemaphore sem k)) (\<lambda>k. map_prod (\<lambda>r. r = 0) id (setUnLockSemaphore sem k))
      k None requests) = lock_answers None requests"
    using sysv.serve_answers [where s = k and sem = sem and holder = None and rs = requests] assms by simp
  show "let (r1, k1) = setUnLockSemaphore sem k; (r2, k2) = setLockSemaphore sem k1; (r3, k3) = setLockSemaphore sem k2 in
      r1 = 0 \<and> r2 = 0 \<and> r3 = 0"
    using assms by (simp add: setUnLockSemaphore_def setLockSemaphore_def SEMVMX_def numeral_2_eq_2)
qed

theorem semaphore_is_lock_witness:
  "fst (serve (\<lambda>k. map_prod (\<lambda>r. r = 0) id (setLockSemaphore 7 k)) (\<lambda>k. map_prod (\<lambda>r. r = 0) id (setUnLockSemaphore 7 k))
      \<lparr>sems = (\<lambda>_. Some 1), sem_file = Some []\<rparr> None [(''a'', True), (''b'', True), (''a'', False)]) = [True, False, True]"
  using semaphore_is_lock [of "\<lparr>sems = (\<lambda>_. Some 1), sem_file = Some []\<rparr>" 7 "[(''a'', True), (''b'', True), (''a'', False)]"] by simp

lemma sum_permits:
  "sum_list (map (\<lambda>h. if n_name h = name \<and> has_permit (n_place h) then 1 else 0) hs) =
    int (length (filter (\<lambda>h. n_name h = name \<and> has_permit (n_place h)) hs))"
  by (induction hs) auto

text \<open>The named semaphore server grants a lock at most once. But \<open>reqLockSem\<close> waits when another handler takes the
  semaphore between \<open>sem_getvalue\<close> and \<open>sem_wait\<close>: as nothing is ever given back, that connection is never answered.\<close>

theorem named_lock_granted_once:
  assumes "\<forall>h \<in> set hs. n_place h = Sem_open" and "\<forall>v. k name = Some v \<longrightarrow> v \<le> 1" and "sys_run named_step (k, hs) (k', hs')"
  shows "length (filter (\<lambda>h. n_name h = name \<and> (\<exists>a. n_place h = Sent True a)) hs') \<le> 1"
proof -
  have "sum_list (map (\<lambda>h. if n_name h = name \<and> has_permit (n_place h) then 1 else 0 :: int) hs) = 0"
    using assms(1) by (induction hs) (auto simp: has_permit_def)
  moreover have "(case k name of None \<Rightarrow> 1 | Some v \<Rightarrow> int v) \<le> 1" "0 \<le> (case k' name of None \<Rightarrow> 1 | Some v \<Rightarrow> int v)"
    using assms(2) by (auto split: option.splits)
  ultimately have "int (length (filter (\<lambda>h. n_name h = name \<and> has_permit (n_place h)) hs')) \<le> 1"
    using named.run_eq [OF assms(3), of name] sum_permits [of name hs'] by simp
  moreover have "length (filter (\<lambda>h. n_name h = name \<and> (\<exists>a. n_place h = Sent True a)) hs')
      \<le> length (filter (\<lambda>h. n_name h = name \<and> has_permit (n_place h)) hs')"
    by (induction hs') (auto simp: has_permit_def)
  ultimately show ?thesis
    by simp
qed

text \<open>Two handlers for one new name; the second tests before the first takes the semaphore.\<close>

definition named_start :: "string \<Rightarrow> string option \<Rightarrow> named_handler" where
  "named_start name key = \<lparr>n_name = name, n_key = key, n_place = Sem_open\<rparr>"

lemma named_schedule:
  "sys_run named_step (\<lambda>_. None, [named_start name key, named_start name key'])
    ((\<lambda>_. None)(name := Some 0),
     [(named_start name key)\<lparr>n_place := Sent True (key_answer key)\<rparr>, (named_start name key')\<lparr>n_place := Sem_wait\<rparr>])"
  by (rule schedule_run [of _ "[0, 1, 0, 1, 0, 0]"]) (simp add: named_step_def named_start_def)

theorem named_lock_granted_once_witness:
  "length (filter (\<lambda>h. n_name h = ''a.b'' \<and> (\<exists>a. n_place h = Sent True a))
    [(named_start ''a.b'' None)\<lparr>n_place := Sent True (key_answer None)\<rparr>, (named_start ''a.b'' None)\<lparr>n_place := Sem_wait\<rparr>]) \<le> 1"
  by (rule named_lock_granted_once [OF _ _ named_schedule]) (auto simp: named_start_def)

text \<open>C36: Two connections that ask the named semaphore server for the same new lock can leave the second one waiting in a
  state in which no handler can go on.\<close>

theorem named_handler_waits:
  "\<exists>k' hs'. sys_run named_step (\<lambda>_. None, [named_start name (Some key), named_start name key']) (k', hs')
    \<and> \<not> (\<exists>c. sys_step named_step (k', hs') c) \<and> n_place (hs' ! 1) = Sem_wait"
proof (intro exI conjI)
  show "sys_run named_step (\<lambda>_. None, [named_start name (Some key), named_start name key'])
    ((\<lambda>_. None)(name := Some 0),
     [(named_start name (Some key))\<lparr>n_place := Sent True (key_answer (Some key))\<rparr>, (named_start name key')\<lparr>n_place := Sem_wait\<rparr>])"
    by (rule named_schedule)
qed (auto elim!: sys_stepE simp: named_step_def named_start_def less_Suc_eq nth_Cons')

end
