(* ===== verification/IniFile.thy ===== *)
theory IniFile
  imports LockFiles
begin

text \<open>
  The reader of INI files that the servers share (\<open>LibSrc/inifile_lib.c\<close>, the same file in the three servers):
  blocks \<open>[name]\<close> of lines \<open>title = value\<close>. A C string is the list of its characters, without the terminating
  zero; the sizes of the arrays are kept where a text is copied into one.
\<close>

section \<open>Streams\<close>

record stream =
  rest :: string
  eof :: bool

text \<open>\<open>fgets\<close> into an array of \<open>room\<close> bytes, which was set to zero before: its content, \<open>None\<close> at the end.\<close>

definition fgets :: "nat \<Rightarrow> stream \<Rightarrow> string option \<times> stream" where
  "fgets room fp =
    (let line = take (room - 1) (first_line (rest fp)) in
     if rest fp = [] \<or> eof fp then (None, fp\<lparr>eof := True\<rparr>)
     else (Some (line @ replicate (room - length line) zero_char),
       \<lparr>rest = drop (length line) (rest fp), eof = (length line < room - 1 \<and> newline \<notin> set line)\<rparr>))"

lemma first_line_not_empty: "xs \<noteq> [] \<Longrightarrow> first_line xs \<noteq> []"
  by (cases xs) (auto simp: first_line_def)

lemma fgets_less: "2 \<le> room \<Longrightarrow> fgets room fp = (Some buf, fp') \<Longrightarrow> length (rest fp') < length (rest fp)"
  using first_line_not_empty [of "rest fp"] by (auto simp: fgets_def Let_def split: if_splits intro!: diff_less)

section \<open>Strings\<close>

fun Chk_DigitStr :: "string \<Rightarrow> int" where
  "Chk_DigitStr [] = 0"
| "Chk_DigitStr (c # s) = (if is_digit c then Chk_DigitStr s else -1)"

definition is_blank :: "char \<Rightarrow> bool" where
  "is_blank c \<longleftrightarrow> c = CHR '' '' \<or> c = CHR 0x09"

text \<open>When all characters are blanks nothing is written to the allocated memory that is then copied.\<close>

definition l_trim_string :: "string \<Rightarrow> c_fault + string" where
  "l_trim_string str_val =
    (case dropWhile is_blank str_val of [] \<Rightarrow> Inl Uninitialised | s \<Rightarrow> Inr s)"

definition r_trim_string :: "string \<Rightarrow> string" where
  "r_trim_string str_val = rev (dropWhile (\<lambda>c. is_blank c \<or> c = newline) (rev str_val))"

definition trim_string :: "string \<Rightarrow> c_fault + string" where
  "trim_string str_val = bind_fault (l_trim_string str_val) (\<lambda>s. Inr (r_trim_string s))"

text \<open>
  The token in front of \<open>fs_ch\<close>, stored into an array of \<open>room\<close> bytes, and the text behind. \<open>strchr\<close> finds the zero at the
  end of the string too; what lies behind it does not belong to the string.
\<close>

definition Get_Token_Ch :: "nat \<Rightarrow> string \<Rightarrow> char \<Rightarrow> c_fault + (string \<times> string) option" where
  "Get_Token_Ch room s_ptr fs_ch =
    (if fs_ch = zero_char then Inl Out_of_bounds
     else if fs_ch \<notin> set s_ptr then Inr None
     else
       let tok = takeWhile (\<lambda>c. c \<noteq> fs_ch) s_ptr in
       if length tok < room
       then bind_fault (trim_string tok) (\<lambda>t. Inr (Some (t, drop (length tok + 1) s_ptr)))
       else Inl Out_of_bounds)"

section \<open>Blocks and titles\<close>

text \<open>\<open>buf[0] == '['\<close>, \<open>buf[strlen(block) + 1] == ']'\<close> and the name between them.\<close>

definition block_line :: "string \<Rightarrow> string \<Rightarrow> c_fault + bool" where
  "block_line block buf =
    (if buf ! 0 \<noteq> CHR ''['' then Inr False
     else
       bind_fault (load buf (int (length block) + 1)) (\<lambda>c.
         Inr (c = CHR '']'' \<and> take (length block) (drop 1 buf) = block)))"

function found_ini_block :: "stream \<Rightarrow> string \<Rightarrow> c_fault + (int \<times> stream)" where
  "found_ini_block fp block =
    (if eof fp then Inr (-1, fp)
     else
       (case fgets 1024 fp of
          (None, fp) \<Rightarrow> Inr (-1, fp)
        | (Some buf, fp) \<Rightarrow>
          (case block_line block buf of
             Inl e \<Rightarrow> Inl e
           | Inr True \<Rightarrow> Inr (0, fp)
           | Inr False \<Rightarrow> found_ini_block fp block)))"
  by pat_completeness auto
termination
  by (relation "measure (\<lambda>(fp, block). length (rest fp))") (auto dest: fgets_less [rotated, OF sym])

declare found_ini_block.simps [simp del]

text \<open>The text behind \<open>title =\<close>, stored into an array of \<open>room\<close> bytes; \<open>None\<close> for another title.\<close>

definition get_title_str :: "nat \<Rightarrow> string \<Rightarrow> string \<Rightarrow> c_fault + string option" where
  "get_title_str room ini_data title =
    bind_fault (Get_Token_Ch 500 ini_data (CHR ''='')) (\<lambda>t.
      case t of
        None \<Rightarrow> Inr None
      | Some (tok, t_ptr) \<Rightarrow>
        if title \<noteq> tok then Inr None
        else if length t_ptr < room then Inr (Some t_ptr) else Inl Out_of_bounds)"

text \<open>
  The loop of \<open>ini_readstring\<close> over the lines of a block: the returned number and \<open>inival\<close>. Where the next block
  begins the default value is not stored.
\<close>

function title_loop :: "nat \<Rightarrow> stream \<Rightarrow> string \<Rightarrow> string \<Rightarrow> string \<Rightarrow> c_fault + (int \<times> string)" where
  "title_loop room fp title defval inival =
    (if eof fp then Inr (-1, defval)
     else
       (case fgets 50000 fp of
          (None, fp) \<Rightarrow> Inr (-1, defval)
        | (Some buf, fp) \<Rightarrow>
          let inival = takeWhile (\<lambda>c. c \<noteq> newline) inival in
          if length (c_string buf) < 3 then title_loop room fp title defval inival
          else if buf ! 0 = CHR ''['' then Inr (-1, inival)
          else
            (case get_title_str room (c_string buf) title of
               Inl e \<Rightarrow> Inl e
             | Inr None \<Rightarrow> title_loop room fp title defval inival
             | Inr (Some v) \<Rightarrow> bind_fault (trim_string v) (\<lambda>v. Inr (0, v)))))"
  by pat_completeness auto
termination
  by (relation "measure (\<lambda>(room, fp, title, defval, inival). length (rest fp))") (auto dest: fgets_less [rotated, OF sym])

declare title_loop.simps [simp del]

text \<open>\<open>ini_file\<close> is the text of the file, \<open>None\<close> when it cannot be opened; \<open>defval\<close> is taken to fit \<open>inival\<close>.\<close>

definition ini_readstring :: "nat \<Rightarrow> string option \<Rightarrow> string \<Rightarrow> string \<Rightarrow> string \<Rightarrow> string \<Rightarrow> c_fault + (int \<times> string)" where
  "ini_readstring room ini_file block title inival defval =
    (case ini_file of
       None \<Rightarrow> Inr (-2, defval)
     | Some file \<Rightarrow>
       bind_fault (found_ini_block \<lparr>rest = file, eof = False\<rparr> block) (\<lambda>(r, fp).
         if r < 0 then Inr (-1, defval) else title_loop room fp title defval inival))"

text \<open>\<open>atoi\<close> of a string of digits, for a number that fits an \<open>int\<close>.\<close>

definition atoi_digits :: "string \<Rightarrow> c_fault + int" where
  "atoi_digits s = (if digits_value s < 2 ^ 31 then Inr (digits_value s) else Inl Int_overflow)"

definition ini_readinteger :: "string option \<Rightarrow> string \<Rightarrow> string \<Rightarrow> int \<Rightarrow> c_fault + int" where
  "ini_readinteger ini_file block title defval =
    bind_fault (ini_readstring 1024 ini_file block title [] '' '') (\<lambda>(r, inival).
      if r < 0 then Inr defval
      else
        bind_fault (trim_string inival) (\<lambda>inival.
          if Chk_DigitStr inival < 0 then Inr defval else atoi_digits inival))"

section \<open>Lists of fields\<close>

definition put :: "nat \<Rightarrow> string \<Rightarrow> string \<Rightarrow> c_fault + string" where
  "put at s arr = (if at + length s \<le> length arr then Inr (take at arr @ s @ drop (at + length s) arr) else Inl Out_of_bounds)"

text \<open>\<open>Get_Token_Ch\<close> into the array itself: the token, the token without its leading blanks, and zeros for the trailing ones.\<close>

definition put_token :: "nat \<Rightarrow> string \<Rightarrow> string \<Rightarrow> c_fault + string" where
  "put_token at tok arr =
    bind_fault (put at (tok @ [zero_char]) arr) (\<lambda>arr.
    bind_fault (l_trim_string tok) (\<lambda>s.
    bind_fault (put at (s @ [zero_char]) arr) (\<lambda>arr.
      put at (r_trim_string s @ replicate (length s + 1 - length (r_trim_string s)) zero_char) arr)))"

text \<open>
  The sizes are \<open>int\<close>: a negative \<open>record_sz\<close> leads to addresses in front of the array. With a zero as the separator the
  loop goes on behind the end of the string.
\<close>

function fields_loop_to_arr :: "string \<Rightarrow> char \<Rightarrow> int \<Rightarrow> int \<Rightarrow> nat \<Rightarrow> string \<Rightarrow> c_fault + (nat \<times> string)" where
  "fields_loop_to_arr tptr fs record_sz max_cnt cnt arr =
    (if tptr = [] \<or> fs \<notin> set (tptr @ [zero_char]) then Inr (cnt, arr)
     else if int cnt * record_sz < 0 then Inl Out_of_bounds
     else
       let tok = takeWhile (\<lambda>c. c \<noteq> fs) tptr in
       (case put_token (nat (int cnt * record_sz)) tok arr of
          Inl e \<Rightarrow> Inl e
        | Inr arr \<Rightarrow>
          if int cnt + 1 \<ge> max_cnt then Inr (cnt + 1, arr)
          else if fs = zero_char then Inl Out_of_bounds
          else fields_loop_to_arr (drop (length tok + 1) tptr) fs record_sz max_cnt (cnt + 1) arr))"
  by pat_completeness auto
termination
  by (relation "measure (\<lambda>(tptr, fs, record_sz, max_cnt, cnt, arr). length tptr)") (auto intro!: diff_less)

declare fields_loop_to_arr.simps [simp del]

definition FSstr_to_arr :: "string \<Rightarrow> char \<Rightarrow> string \<Rightarrow> int \<Rightarrow> int \<Rightarrow> c_fault + (nat \<times> string)" where
  "FSstr_to_arr in_str fs arr_buff record_sz max_cnt = fields_loop_to_arr in_str fs record_sz max_cnt 0 arr_buff"

text \<open>The returned number and the array; \<open>tmp\<close> is what \<open>tmp_buff\<close> held.\<close>

definition ini_readstr_buff :: "string option \<Rightarrow> string \<Rightarrow> string \<Rightarrow> string \<Rightarrow> string \<Rightarrow> int \<Rightarrow> int \<Rightarrow> c_fault + (int \<times> string)" where
  "ini_readstr_buff ini_file block title tmp arr_buff record_sz max_cnt =
    bind_fault (ini_readstring 40000 ini_file block title tmp '' '') (\<lambda>(r, tmp).
      if r < 0 then Inr (-1, arr_buff)
      else bind_fault (FSstr_to_arr tmp (CHR '';'') arr_buff record_sz max_cnt) (\<lambda>(cnt, arr). Inr (int cnt, arr)))"

section \<open>Trimming\<close>

definition solid :: "string \<Rightarrow> bool" where
  "solid s \<longleftrightarrow> s \<noteq> [] \<and> \<not> is_blank (hd s) \<and> \<not> is_blank (last s) \<and> newline \<notin> set s"

definition blanks :: "string \<Rightarrow> bool" where
  "blanks s \<longleftrightarrow> (\<forall>c \<in> set s. is_blank c)"

definition blanks_nl :: "string \<Rightarrow> bool" where
  "blanks_nl s \<longleftrightarrow> (\<forall>c \<in> set s. is_blank c \<or> c = newline)"

lemma l_trim_solid:
  assumes "blanks a" and "solid s"
  shows "l_trim_string (a @ s @ b) = Inr (s @ b)"
proof -
  obtain c cs where "s = c # cs" "\<not> is_blank c"
    using assms(2) by (cases s) (auto simp: solid_def)
  moreover have "dropWhile is_blank (a @ s @ b) = dropWhile is_blank (s @ b)"
    using assms(1) by (auto simp: blanks_def dropWhile_append2)
  ultimately show ?thesis
    by (simp add: l_trim_string_def)
qed

lemma r_trim_solid:
  assumes "solid s" and "blanks_nl b"
  shows "r_trim_string (s @ b) = s"
proof -
  obtain c cs where s: "s = cs @ [c]" "\<not> is_blank c" "c \<noteq> newline"
    using assms(1) by (cases s rule: rev_cases) (auto simp: solid_def)
  have "dropWhile (\<lambda>c. is_blank c \<or> c = newline) (rev b @ rev s) = dropWhile (\<lambda>c. is_blank c \<or> c = newline) (rev s)"
    using assms(2) by (intro dropWhile_append2) (auto simp: blanks_nl_def)
  then show ?thesis
    using s by (simp add: r_trim_string_def)
qed

lemma trim_solid: "blanks a \<Longrightarrow> solid s \<Longrightarrow> blanks_nl b \<Longrightarrow> trim_string (a @ s @ b) = Inr s"
  by (simp add: trim_string_def l_trim_solid bind_fault_Inr r_trim_solid)

lemma trim_blank: "blanks s \<Longrightarrow> trim_string s = Inl Uninitialised"
proof -
  assume "blanks s"
  then have "dropWhile is_blank s = []"
    by (simp add: blanks_def)
  then show ?thesis
    unfolding trim_string_def l_trim_string_def by (simp only: list.case bind_fault_def sum.case)
qed

section \<open>Files of blocks\<close>

type_synonym ini = "(string \<times> (string \<times> string) list) list"

definition header :: "string \<Rightarrow> string" where
  "header b = ''['' @ b @ '']''"

definition setting :: "string \<times> string \<Rightarrow> string" where
  "setting e = fst e @ '' = '' @ snd e"

definition block_text :: "string \<times> (string \<times> string) list \<Rightarrow> string" where
  "block_text b = text_line (header (fst b)) @ concat (map (\<lambda>e. text_line (setting e)) (snd b))"

definition ini_text :: "ini \<Rightarrow> string" where
  "ini_text bs = concat (map block_text bs)"

text \<open>What the reader is to find: the first block of a name and the first value of a title.\<close>

definition ini_lookup :: "ini \<Rightarrow> string \<Rightarrow> string \<Rightarrow> string \<Rightarrow> string \<Rightarrow> int \<times> string" where
  "ini_lookup bs block title defval inival =
    (case dropWhile (\<lambda>b. fst b \<noteq> block) bs of
       [] \<Rightarrow> (-1, defval)
     | b # behind \<Rightarrow>
       (case map_of (snd b) title of
          Some v \<Rightarrow> (0, v)
        | None \<Rightarrow> (-1, if behind = [] then defval else takeWhile (\<lambda>c. c \<noteq> newline) inival)))"

definition plain_text :: "string \<Rightarrow> bool" where
  "plain_text s \<longleftrightarrow> newline \<notin> set s \<and> zero_char \<notin> set s \<and> length s < 400"

definition good_name :: "string \<Rightarrow> bool" where
  "good_name b \<longleftrightarrow> b \<noteq> [] \<and> plain_text b \<and> CHR '']'' \<notin> set b"

definition good_setting :: "string \<times> string \<Rightarrow> bool" where
  "good_setting e \<longleftrightarrow> plain_text (fst e) \<and> plain_text (snd e) \<and> solid (fst e) \<and> solid (snd e)
    \<and> CHR ''='' \<notin> set (fst e) \<and> hd (fst e) \<noteq> CHR ''[''"

definition good_ini :: "ini \<Rightarrow> bool" where
  "good_ini bs \<longleftrightarrow> (\<forall>b \<in> set bs. good_name (fst b) \<and> (\<forall>e \<in> set (snd b). good_setting e))"

abbreviation at_line :: "string \<Rightarrow> stream" where
  "at_line s \<equiv> \<lparr>rest = s, eof = False\<rparr>"

definition buffer_of :: "nat \<Rightarrow> string \<Rightarrow> string" where
  "buffer_of room l = text_line l @ replicate (room - (length l + 1)) zero_char"

lemma fgets_line: "newline \<notin> set l \<Longrightarrow> length l + 1 < room \<Longrightarrow>
    fgets room (at_line (text_line l @ behind)) = (Some (buffer_of room l), at_line behind)"
  by (simp add: fgets_def text_line_def first_line_append buffer_of_def Let_def)

lemma fgets_end: "fgets room (at_line []) = (None, \<lparr>rest = [], eof = True\<rparr>)"
  by (simp add: fgets_def)

lemma takeWhile_stop: "c \<notin> set s \<Longrightarrow> takeWhile (\<lambda>x. x \<noteq> c) (s @ c # behind) = s"
  by (induction s) auto

lemma c_string_zero: "zero_char \<notin> set s \<Longrightarrow> c_string (s @ zero_char # behind) = s"
  by (simp add: c_string_def takeWhile_stop)

lemma c_string_all: "zero_char \<notin> set s \<Longrightarrow> c_string s = s"
  by (auto simp: c_string_def)

lemma c_string_padded: "zero_char \<notin> set s \<Longrightarrow> c_string (s @ replicate n zero_char) = s"
  using c_string_zero [of s] c_string_all [of s] by (cases n) simp_all

lemma buffer_facts:
  "length l + 1 \<le> room \<Longrightarrow> length (buffer_of room l) = room"
  "l \<noteq> [] \<Longrightarrow> buffer_of room l ! 0 = hd l"
  by (auto simp: buffer_of_def text_line_def nth_append hd_conv_nth)

lemma c_string_buffer: "zero_char \<notin> set l \<Longrightarrow> c_string (buffer_of room l) = text_line l"
  unfolding buffer_of_def by (rule c_string_padded) (simp add: text_line_def newline_def)

lemma header_facts: "good_name b \<Longrightarrow> newline \<notin> set (header b) \<and> zero_char \<notin> set (header b) \<and> length (header b) < 402"
  "header b \<noteq> []" "hd (header b) = CHR ''[''"
  by (auto simp: header_def good_name_def plain_text_def newline_def)

lemma setting_facts: "good_setting e \<Longrightarrow> newline \<notin> set (setting e) \<and> zero_char \<notin> set (setting e) \<and> length (setting e) < 803
    \<and> 3 \<le> length (setting e) \<and> hd (setting e) \<noteq> CHR ''['' \<and> setting e \<noteq> []"
  by (auto simp: setting_def good_setting_def plain_text_def solid_def newline_def)

lemma block_line_setting: "good_setting e \<Longrightarrow> block_line block (buffer_of 1024 (setting e)) = Inr False"
  using setting_facts [of e] by (simp add: block_line_def buffer_facts(2))

lemma block_line_header:
  assumes "good_name b" and "good_name block"
  shows "block_line block (buffer_of 1024 (header b)) = Inr (b = block)"
proof -
  let ?buf = "buffer_of 1024 (header b)"
  have len: "length b < 400" "length block < 400" "CHR '']'' \<notin> set b" "CHR '']'' \<notin> set block"
    using assms by (simp_all add: good_name_def plain_text_def)
  have buf: "?buf = CHR ''['' # b @ CHR '']'' # newline # replicate (1024 - (length (header b) + 1)) zero_char"
    by (simp add: buffer_of_def text_line_def header_def)
  have "length ?buf = 1024"
    using header_facts(1) [OF assms(1)] by (simp add: buffer_facts(1))
  then have load: "load ?buf (int (length block) + 1) = Inr (?buf ! (length block + 1))"
    using len by (simp add: load_def nat_add_distrib)
  have "(?buf ! (length block + 1) = CHR '']'' \<and> take (length block) (drop 1 ?buf) = block) \<longleftrightarrow> b = block"
  proof
    assume m: "?buf ! (length block + 1) = CHR '']'' \<and> take (length block) (drop 1 ?buf) = block"
    have "\<not> length block < length b"
    proof
      assume "length block < length b"
      then have "b ! length block = CHR '']''"
        using m by (simp add: buf nth_append)
      then show False
        using len(3) \<open>length block < length b\<close> by (metis nth_mem)
    qed
    moreover have "\<not> length b < length block"
    proof
      assume l: "length b < length block"
      then have "block ! length b = CHR '']''"
        using m by (metis (no_types, lifting) buf drop_Suc_Cons drop0 nth_append_length nth_take One_nat_def)
      then show False
        using len(4) l by (metis nth_mem)
    qed
    ultimately show "b = block"
      using m by (simp add: buf)
  next
    assume "b = block"
    then show "?buf ! (length block + 1) = CHR '']'' \<and> take (length block) (drop 1 ?buf) = block"
      unfolding buf by (simp add: nth_append)
  qed
  moreover have "?buf ! 0 = CHR ''[''"
    by (simp add: buf)
  ultimately show ?thesis
    by (simp add: block_line_def load bind_fault_Inr)
qed

text \<open>The search for the block, line by line.\<close>

lemma found_line:
  assumes "newline \<notin> set l" and "length l < 1000" and "block_line block (buffer_of 1024 l) = Inr b"
  shows "found_ini_block (at_line (text_line l @ behind)) block =
    (if b then Inr (0, at_line behind) else found_ini_block (at_line behind) block)"
  using assms fgets_line [of l 1024 behind] by (subst found_ini_block.simps) (cases b, simp_all)

lemma found_end: "found_ini_block (at_line []) block = Inr (-1, \<lparr>rest = [], eof = True\<rparr>)"
  by (subst found_ini_block.simps) (simp add: fgets_end)

lemma found_settings:
  assumes "\<forall>e \<in> set es. good_setting e"
  shows "found_ini_block (at_line (concat (map (\<lambda>e. text_line (setting e)) es) @ behind)) block = found_ini_block (at_line behind) block"
  using assms
proof (induction es)
  case (Cons e es)
  then show ?case
    using found_line [of "setting e" block False "concat (map (\<lambda>e. text_line (setting e)) es) @ behind"] setting_facts [of e]
      block_line_setting [of e block] by simp
qed simp

lemma found_header:
  assumes "good_name b" and "good_name block"
  shows "found_ini_block (at_line (text_line (header b) @ behind)) block =
    (if b = block then Inr (0, at_line behind) else found_ini_block (at_line behind) block)"
  using found_line [of "header b" block "b = block" behind] header_facts(1) [OF assms(1)] block_line_header [OF assms] by simp

lemma found_ini:
  assumes "good_ini bs" and "good_name block"
  shows "found_ini_block (at_line (ini_text bs)) block =
    (case dropWhile (\<lambda>b. fst b \<noteq> block) bs of
       [] \<Rightarrow> Inr (-1, \<lparr>rest = [], eof = True\<rparr>)
     | b # behind \<Rightarrow> Inr (0, at_line (concat (map (\<lambda>e. text_line (setting e)) (snd b)) @ ini_text behind)))"
  using assms(1)
proof (induction bs)
  case Nil
  then show ?case
    by (simp add: ini_text_def found_end)
next
  case (Cons b bs)
  have "good_name (fst b)" "\<forall>e \<in> set (snd b). good_setting e" "good_ini bs"
    using Cons.prems by (auto simp: good_ini_def)
  then show ?case
    using Cons.IH found_header [OF _ assms(2), of "fst b" "concat (map (\<lambda>e. text_line (setting e)) (snd b)) @ ini_text bs"]
      found_settings [of "snd b" "ini_text bs" block] by (simp add: ini_text_def block_text_def)
qed

text \<open>The search for the title.\<close>

lemma title_of_setting:
  assumes "good_setting e" and "length (snd e) + 2 < room"
  shows "get_title_str room (text_line (setting e)) title = Inr (if fst e = title then Some ('' '' @ snd e @ [newline]) else None)"
proof -
  let ?line = "text_line (setting e)"
  have e: "CHR ''='' \<notin> set (fst e)" "solid (fst e)" "length (fst e) < 400"
    using assms(1) by (simp_all add: good_setting_def plain_text_def)
  have line: "?line = (fst e @ '' '') @ CHR ''='' # '' '' @ snd e @ [newline]"
    by (simp add: setting_def text_line_def)
  have tok: "takeWhile (\<lambda>c. c \<noteq> CHR ''='') ?line = fst e @ '' ''"
    using e(1) unfolding line by (intro takeWhile_stop) simp
  have "trim_string (fst e @ '' '') = Inr (fst e)"
    using trim_solid [of "[]" "fst e" "'' ''"] e(2) by (simp add: blanks_def blanks_nl_def is_blank_def)
  moreover have "drop (length (fst e @ '' '') + 1) ?line = '' '' @ snd e @ [newline]"
    unfolding line by simp
  moreover have "CHR ''='' \<in> set ?line"
    unfolding line by simp
  ultimately have "Get_Token_Ch 500 ?line (CHR ''='') = Inr (Some (fst e, '' '' @ snd e @ [newline]))"
    using e(3) tok unfolding Get_Token_Ch_def Let_def tok by (simp add: bind_fault_Inr)
  then show ?thesis
    using assms(2) by (auto simp: get_title_str_def bind_fault_Inr)
qed

lemma title_skip_setting:
  assumes "good_setting e" and "length (snd e) + 2 < room" and "fst e \<noteq> title"
  shows "title_loop room (at_line (text_line (setting e) @ behind)) title defval inival =
    title_loop room (at_line behind) title defval (takeWhile (\<lambda>c. c \<noteq> newline) inival)"
  using setting_facts [OF assms(1)] fgets_line [of "setting e" 50000 behind] title_of_setting [OF assms(1, 2), of title] assms(3)
  by (subst title_loop.simps) (simp add: c_string_buffer buffer_facts(2) length_text_line)

lemma title_hit:
  assumes "good_setting e" and "length (snd e) + 2 < room"
  shows "title_loop room (at_line (text_line (setting e) @ behind)) (fst e) defval inival = Inr (0, snd e)"
proof -
  have "trim_string ('' '' @ snd e @ [newline]) = Inr (snd e)"
    using trim_solid [of "'' ''" "snd e" "[newline]"] assms(1) by (simp add: good_setting_def blanks_def blanks_nl_def is_blank_def)
  then show ?thesis
    using setting_facts [OF assms(1)] fgets_line [of "setting e" 50000 behind] title_of_setting [OF assms, of "fst e"]
    by (subst title_loop.simps) (simp add: c_string_buffer buffer_facts(2) length_text_line bind_fault_Inr)
qed

lemma title_end: "title_loop room (at_line []) title defval inival = Inr (-1, defval)"
  by (subst title_loop.simps) (simp add: fgets_end)

lemma title_next:
  assumes "good_name b"
  shows "title_loop room (at_line (text_line (header b) @ behind)) title defval inival = Inr (-1, takeWhile (\<lambda>c. c \<noteq> newline) inival)"
proof -
  have "2 \<le> length (header b)"
    by (simp add: header_def)
  then show ?thesis
    using header_facts(1) [OF assms] header_facts(2, 3) [of b] fgets_line [of "header b" 50000 behind]
    by (subst title_loop.simps) (simp add: c_string_buffer buffer_facts(2) length_text_line)
qed

lemma title_settings:
  assumes "\<forall>e \<in> set es. good_setting e \<and> length (snd e) + 2 < room"
  shows "title_loop room (at_line (concat (map (\<lambda>e. text_line (setting e)) es) @ behind)) title defval inival =
    (case map_of es title of
       Some v \<Rightarrow> Inr (0, v)
     | None \<Rightarrow> title_loop room (at_line behind) title defval (if es = [] then inival else takeWhile (\<lambda>c. c \<noteq> newline) inival))"
  using assms
proof (induction es arbitrary: inival)
  case (Cons e es)
  then show ?case
    using title_hit [of e room "concat (map (\<lambda>e. text_line (setting e)) es) @ behind" defval inival]
      title_skip_setting [of e room title "concat (map (\<lambda>e. text_line (setting e)) es) @ behind" defval inival]
    by (cases e) (auto simp: takeWhile_idem split: option.splits)
qed simp

text \<open>What the values need to fit the array \<open>inival\<close>.\<close>

definition values_fit :: "nat \<Rightarrow> ini \<Rightarrow> bool" where
  "values_fit room bs \<longleftrightarrow> (\<forall>b \<in> set bs. \<forall>e \<in> set (snd b). length (snd e) + 2 < room)"

lemma ini_readstring_text:
  assumes "good_ini bs" and "good_name block" and "values_fit room bs"
  shows "ini_readstring room (Some (ini_text bs)) block title inival defval = Inr (ini_lookup bs block title defval inival)"
proof (cases "dropWhile (\<lambda>b. fst b \<noteq> block) bs")
  case Nil
  show ?thesis
    unfolding ini_readstring_def ini_lookup_def option.case found_ini [OF assms(1, 2)] Nil list.case bind_fault_Inr by simp
next
  case (Cons b behind)
  have sub: "set (b # behind) \<subseteq> set bs"
    using Cons set_dropWhileD [of _ "\<lambda>b. fst b \<noteq> block" bs] by auto
  then have es: "\<forall>e \<in> set (snd b). good_setting e \<and> length (snd e) + 2 < room"
    using assms(1, 3) by (auto simp: good_ini_def values_fit_def)
  have behind: "title_loop room (at_line (ini_text behind)) title defval s =
      Inr (-1, if behind = [] then defval else takeWhile (\<lambda>c. c \<noteq> newline) s)" for s
  proof (cases behind)
    case (Cons c cs)
    then have "good_name (fst c)"
      using sub assms(1) by (auto simp: good_ini_def)
    then show ?thesis
      using title_next [of "fst c" room] Cons by (simp add: ini_text_def block_text_def)
  qed (simp add: ini_text_def title_end)
  show ?thesis
    using found_ini [OF assms(1, 2)] title_settings [OF es, of "ini_text behind" title defval inival] behind Cons
    by (auto simp: ini_readstring_def ini_lookup_def bind_fault_Inr takeWhile_idem split: option.splits)
qed

section \<open>Numbers\<close>

lemma digits_value_snoc: "digits_value (ds @ [c]) = 10 * digits_value ds + (of_char c - 48)"
  by (simp add: digits_value_def)

lemma digits_facts: "digits n \<noteq> [] \<and> (\<forall>c \<in> set (digits n). is_digit c) \<and> digits_value (digits n) = int n"
proof (induction n rule: digits.induct)
  case (1 n)
  note d = digit_char_facts [unfolded digit_char_def]
  have whole: "10 * int (n div 10) + int (n mod 10) = int n"
    by presburger
  show ?case
  proof (cases "n < 10")
    case True
    then show ?thesis
      using d [OF True] by (subst (1 2 3) digits.simps) (simp add: digits_value_def)
  next
    case False
    then show ?thesis
      using "1.IH" d(1, 7) [of "n mod 10"] whole by (subst (1 2 3) digits.simps) (auto simp: digits_value_snoc)
  qed
qed

lemma digit_not_blank: "is_digit c \<Longrightarrow> \<not> is_blank c \<and> c \<noteq> newline \<and> c \<noteq> zero_char"
  by (auto simp: is_digit_def is_blank_def newline_def)

lemma solid_digits: "solid (digits n)"
  using digits_facts [of n] digit_not_blank by (auto simp: solid_def dest: hd_in_set last_in_set)

lemma Chk_DigitStr_iff: "Chk_DigitStr s = (if \<forall>c \<in> set s. is_digit c then 0 else -1)"
  by (induction s) auto

lemma good_number: "plain_text t \<Longrightarrow> solid t \<Longrightarrow> CHR ''='' \<notin> set t \<Longrightarrow> hd t \<noteq> CHR ''['' \<Longrightarrow> length (digits n) < 400 \<Longrightarrow>
    good_setting (t, digits n)"
  using solid_digits [of n] digits_facts [of n] digit_not_blank by (auto simp: good_setting_def plain_text_def)

section \<open>Fields\<close>

lemma put_at: "length pre = at \<Longrightarrow> length s = length old \<Longrightarrow> put at s (pre @ old @ post) = Inr (pre @ s @ post)"
  by (simp add: put_def)

text \<open>A token stored into an array leaves its text there, and what is in front of it.\<close>

lemma put_token_solid:
  assumes "blanks a" and "solid t" and "blanks b" and "at + length (a @ t @ b) < length arr" and "zero_char \<notin> set t"
  obtains arr' where "put_token at (a @ t @ b) arr = Inr arr'" and "length arr' = length arr" and "take at arr' = take at arr"
    and "c_string (drop at arr') = t"
proof -
  let ?tok = "a @ t @ b" and ?room = "length arr - at"
  have solid: "l_trim_string ?tok = Inr (t @ b)" "r_trim_string (t @ b) = t"
    using l_trim_solid [OF assms(1, 2), of b] r_trim_solid [OF assms(2), of b] assms(3) by (auto simp: blanks_def blanks_nl_def)
  define arr1 where "arr1 = take at arr @ (?tok @ [zero_char]) @ drop (at + (length ?tok + 1)) arr"
  define arr2 where "arr2 = take at arr1 @ ((t @ b) @ [zero_char]) @ drop (at + (length (t @ b) + 1)) arr1"
  define arr3 where "arr3 = take at arr2 @ (t @ replicate (length b + 1) zero_char) @ drop (at + (length t + (length b + 1))) arr2"
  have len: "length arr1 = length arr" "length arr2 = length arr" "length arr3 = length arr"
    using assms(4) by (simp_all add: arr1_def arr2_def arr3_def)
  have front: "take at arr3 = take at arr"
    using assms(4) len by (simp add: arr1_def arr2_def arr3_def)
  have "put at (?tok @ [zero_char]) arr = Inr arr1" "put at ((t @ b) @ [zero_char]) arr1 = Inr arr2"
    "put at (t @ replicate (length b + 1) zero_char) arr2 = Inr arr3"
    unfolding put_def using assms(4) len by (auto simp: arr1_def [symmetric] arr2_def [symmetric] arr3_def [symmetric]) (simp_all add: arr1_def arr2_def arr3_def)
  moreover have "length (t @ b) + 1 - length t = length b + 1"
    by simp
  ultimately have "put_token at ?tok arr = Inr arr3"
    unfolding put_token_def solid by (simp only: bind_fault_Inr solid)
  moreover have "c_string (drop at arr3) = t"
  proof -
    have "drop at arr3 = t @ zero_char # replicate (length b) zero_char @ drop (at + (length t + (length b + 1))) arr2"
      using assms(4) len by (simp add: arr3_def)
    then show ?thesis
      using assms(5) by (simp add: c_string_zero)
  qed
  ultimately show ?thesis
    using that [of arr3] len front by blast
qed

text \<open>A field: blanks, its text and blanks.\<close>

type_synonym field = "string \<times> string \<times> string"

definition field_text :: "field \<Rightarrow> string" where
  "field_text f = fst f @ fst (snd f) @ snd (snd f)"

definition good_field :: "char \<Rightarrow> nat \<Rightarrow> field \<Rightarrow> bool" where
  "good_field fs record_sz f \<longleftrightarrow> blanks (fst f) \<and> solid (fst (snd f)) \<and> blanks (snd (snd f)) \<and> fs \<notin> set (field_text f)
    \<and> zero_char \<notin> set (field_text f) \<and> length (field_text f) < record_sz"

definition fields_text :: "char \<Rightarrow> field list \<Rightarrow> string" where
  "fields_text fs fds = concat (map (\<lambda>f. field_text f @ [fs]) fds)"

definition record_at :: "nat \<Rightarrow> nat \<Rightarrow> string \<Rightarrow> string" where
  "record_at record_sz i arr = c_string (take record_sz (drop (i * record_sz) arr))"

lemma c_string_take: "length (c_string s) < n \<Longrightarrow> c_string (take n s) = c_string s"
proof (induction s arbitrary: n)
  case (Cons c s)
  then show ?case
    by (cases n) (auto simp: c_string_def split: if_splits)
qed simp

lemma record_at_kept:
  assumes "take ((i + 1) * record_sz) arr' = take ((i + 1) * record_sz) arr"
  shows "record_at record_sz i arr' = record_at record_sz i arr"
proof -
  have "take record_sz (drop (i * record_sz) a) = drop (i * record_sz) (take ((i + 1) * record_sz) a)" for a :: string
    by (simp add: take_drop add.commute)
  then show ?thesis
    using assms by (simp add: record_at_def)
qed

lemma fields_loop_stores:
  assumes "\<forall>f \<in> set fds. good_field fs record_sz f" and "cnt < max_cnt" and "max_cnt * record_sz \<le> length arr" and "fs \<notin> set tl_text"
    and "fs \<noteq> zero_char"
  shows "\<exists>arr'. fields_loop_to_arr (fields_text fs fds @ tl_text) fs (int record_sz) (int max_cnt) cnt arr =
      Inr (min (cnt + length fds) max_cnt, arr') \<and> length arr' = length arr \<and> take (cnt * record_sz) arr' = take (cnt * record_sz) arr
    \<and> (\<forall>i < length fds. cnt + i < max_cnt \<longrightarrow> record_at record_sz (cnt + i) arr' = fst (snd (fds ! i)))"
  using assms
proof (induction fds arbitrary: cnt arr)
  case Nil
  then show ?case
    by (subst fields_loop_to_arr.simps) (simp add: fields_text_def min_def)
next
  case (Cons f fds)
  let ?behind = "fields_text fs fds @ tl_text" and ?at = "cnt * record_sz"
  have f: "blanks (fst f)" "solid (fst (snd f))" "blanks (snd (snd f))" "fs \<notin> set (field_text f)" "zero_char \<notin> set (field_text f)"
    "length (field_text f) < record_sz"
    using Cons.prems(1) by (simp_all add: good_field_def)
  have t: "zero_char \<notin> set (fst (snd f))" "length (fst (snd f)) < record_sz"
    using f(5, 6) by (simp_all add: field_text_def)
  have "(cnt + 1) * record_sz \<le> max_cnt * record_sz"
    using Cons.prems(2) by (intro mult_le_mono1) simp
  then have at: "?at + length (field_text f) < length arr" "?at + record_sz \<le> length arr"
    using Cons.prems(3) f(6) by simp_all
  obtain arr1 where arr1: "put_token ?at (field_text f) arr = Inr arr1" "length arr1 = length arr" "take ?at arr1 = take ?at arr"
      "c_string (drop ?at arr1) = fst (snd f)"
    using put_token_solid [OF f(1-3), of ?at arr] at(1) t(1) unfolding field_text_def by blast
  then have rec: "record_at record_sz cnt arr1 = fst (snd f)"
    using t(2) by (simp add: record_at_def c_string_take)
  have tok: "fields_text fs (f # fds) @ tl_text = field_text f @ fs # ?behind"
    "takeWhile (\<lambda>c. c \<noteq> fs) (field_text f @ fs # ?behind) = field_text f"
    using f(4) by (simp_all add: fields_text_def takeWhile_stop)
  have step: "fields_loop_to_arr (fields_text fs (f # fds) @ tl_text) fs (int record_sz) (int max_cnt) cnt arr =
      (if cnt + 1 \<ge> max_cnt then Inr (cnt + 1, arr1) else fields_loop_to_arr ?behind fs (int record_sz) (int max_cnt) (cnt + 1) arr1)"
    unfolding tok(1) by (subst fields_loop_to_arr.simps) (simp add: tok(2) arr1(1) Cons.prems(5) of_nat_mult [symmetric] del: of_nat_mult)
  show ?case
  proof (cases "cnt + 1 \<ge> max_cnt")
    case True
    then have "i = 0" if "cnt + i < max_cnt" for i
      using that by simp
    then have "record_at record_sz (cnt + i) arr1 = fst (snd ((f # fds) ! i))" if "cnt + i < max_cnt" for i
      using that rec by fastforce
    then show ?thesis
      using step arr1 True Cons.prems(2) by (intro exI [of _ arr1]) auto
  next
    case False
    obtain arr' where arr': "fields_loop_to_arr ?behind fs (int record_sz) (int max_cnt) (cnt + 1) arr1 = Inr (min (cnt + 1 + length fds) max_cnt, arr')"
        "length arr' = length arr1" "take ((cnt + 1) * record_sz) arr' = take ((cnt + 1) * record_sz) arr1"
        "\<forall>i < length fds. cnt + 1 + i < max_cnt \<longrightarrow> record_at record_sz (cnt + 1 + i) arr' = fst (snd (fds ! i))"
      using Cons.IH [of "cnt + 1" arr1] Cons.prems False arr1(2) by (auto simp del: mult_Suc)
    have "take ?at arr' = take ?at arr1"
      using arr'(3) by (metis le_add2 min.absorb1 mult_Suc take_take Suc_eq_plus1)
    moreover have "record_at record_sz (cnt + i) arr' = fst (snd ((f # fds) ! i))" if "i < length (f # fds)" "cnt + i < max_cnt" for i
      using that arr'(4) record_at_kept [OF arr'(3)] rec by (cases i) auto
    ultimately show ?thesis
      using step False arr'(1, 2) arr1(2, 3) by (intro exI [of _ arr']) auto
  qed
qed

section \<open>Properties\<close>

definition sample_ini :: ini where
  "sample_ini = [(''DBG_INFO'', [(''DBG_LEVEL'', ''9''), (''DBG_DIR_NAME'', ''./D'')]), (''SHARED_INFO'', [(''PORT'', ''5000'')])]"

lemma sample_good: "good_ini sample_ini" "good_name ''DBG_INFO''" "good_name ''SHARED_INFO''" "1024 \<le> room \<Longrightarrow> values_fit room sample_ini"
  by (simp_all add: good_ini_def sample_ini_def good_name_def good_setting_def plain_text_def solid_def is_blank_def newline_def values_fit_def)

lemma ini_lookup_found:
  assumes "ini_lookup bs block title defval inival = (r, v)" and "0 \<le> r"
  shows "\<exists>b \<in> set bs. fst b = block \<and> map_of (snd b) title = Some v"
proof (cases "dropWhile (\<lambda>b. fst b \<noteq> block) bs")
  case (Cons b behind)
  then have "b \<in> set bs" "fst b = block"
    using set_dropWhileD [of b "\<lambda>b. fst b \<noteq> block" bs] hd_dropWhile [of "\<lambda>b. fst b \<noteq> block" bs] by auto
  then show ?thesis
    using assms Cons by (auto simp: ini_lookup_def split: option.splits)
next
  case Nil
  then show ?thesis
    using assms unfolding ini_lookup_def Nil by simp
qed

text \<open>C37: \<open>ini_readstring\<close> finds in a file of blocks the first value of the title in the first block of the name; for a
  title that is missing it returns \<open>-1\<close>, and stores the default value only when no other block follows.\<close>

theorem ini_readstring_finds:
  assumes "good_ini bs" and "good_name block" and "values_fit room bs"
  shows "ini_readstring room (Some (ini_text bs)) block title inival defval = Inr (ini_lookup bs block title defval inival)"
  by (rule ini_readstring_text [OF assms])

theorem ini_readstring_finds_witness:
  "ini_readstring 1024 (Some (ini_text sample_ini)) ''DBG_INFO'' ''DBG_DIR_NAME'' [] '' '' = Inr (0, ''./D'')
    \<and> ini_readstring 1024 (Some (ini_text sample_ini)) ''DBG_INFO'' ''PORT'' ''x'' '' '' = Inr (-1, ''x'')"
  using ini_readstring_finds [OF sample_good(1, 2) sample_good(4) [of 1024], of "''DBG_DIR_NAME''"]
    ini_readstring_finds [OF sample_good(1, 2) sample_good(4) [of 1024], of "''PORT''"]
  by (simp add: ini_lookup_def sample_ini_def newline_def)

text \<open>\<open>ini_readinteger\<close> returns the number that was written, and the default value when the title is
  missing or its value is not a number.\<close>

theorem ini_readinteger_reads:
  assumes "good_ini bs" and "good_name block" and "ini_lookup bs block title '' '' [] = (r, v)"
  shows "(r < 0 \<longrightarrow> ini_readinteger (Some (ini_text bs)) block title defval = Inr defval)
    \<and> (0 \<le> r \<longrightarrow> v = digits n \<longrightarrow> n < 2 ^ 31 \<longrightarrow> ini_readinteger (Some (ini_text bs)) block title defval = Inr (int n))
    \<and> (0 \<le> r \<longrightarrow> \<not> (\<forall>c \<in> set v. is_digit c) \<longrightarrow> ini_readinteger (Some (ini_text bs)) block title defval = Inr defval)"
proof -
  have "good_setting e" if "b \<in> set bs" "e \<in> set (snd b)" for b e
    using assms(1) that by (auto simp: good_ini_def)
  then have "values_fit 1024 bs"
    by (fastforce simp: values_fit_def good_setting_def plain_text_def)
  then have read: "ini_readstring 1024 (Some (ini_text bs)) block title [] '' '' = Inr (r, v)"
    using ini_readstring_text [OF assms(1, 2)] assms(3) by simp
  have "trim_string v = Inr v" if r: "0 \<le> r"
  proof -
    obtain b where "b \<in> set bs" "map_of (snd b) title = Some v"
      using ini_lookup_found [OF assms(3) r] by blast
    then have "good_setting (title, v)"
      using assms(1) map_of_SomeD by (fastforce simp: good_ini_def)
    then show ?thesis
      using trim_solid [of "[]" v "[]"] by (simp add: good_setting_def blanks_def blanks_nl_def)
  qed
  moreover have "Chk_DigitStr (digits n) = 0" "digits_value (digits n) = int n" "n < 2 ^ 31 \<Longrightarrow> int n < 2 ^ 31"
    using digits_facts [of n] by (auto simp: Chk_DigitStr_iff)
  ultimately show ?thesis
    using read by (auto simp: ini_readinteger_def bind_fault_Inr Chk_DigitStr_iff atoi_digits_def)
qed

theorem ini_readinteger_reads_witness:
  "ini_readinteger (Some (ini_text sample_ini)) ''SHARED_INFO'' ''PORT'' 80 = Inr 5000
    \<and> ini_readinteger (Some (ini_text sample_ini)) ''DBG_INFO'' ''DBG_DIR_NAME'' 7 = Inr 7"
proof -
  have "digits 5000 = ''5000''"
    by (simp add: digits.simps)
  moreover have "ini_lookup sample_ini ''SHARED_INFO'' ''PORT'' '' '' [] = (0, ''5000'')"
    "ini_lookup sample_ini ''DBG_INFO'' ''DBG_DIR_NAME'' '' '' [] = (0, ''./D'')"
    by (simp_all add: ini_lookup_def sample_ini_def)
  ultimately show ?thesis
    using ini_readinteger_reads [OF sample_good(1, 3), of "''PORT''" 0 "''5000''" 80 5000]
      ini_readinteger_reads [OF sample_good(1, 2), of "''DBG_DIR_NAME''" 0 "''./D''" 7 0] by (simp add: is_digit_def)
qed

lemma get_title_blank:
  assumes "plain_text title" and "solid title" and "CHR ''='' \<notin> set title" and "length s < 400"
  shows "get_title_str 1024 (text_line (title @ CHR ''='' # s)) title = Inr (Some (s @ [newline]))"
proof -
  let ?line = "title @ CHR ''='' # s @ [newline]"
  have "trim_string title = Inr title"
    using trim_solid [of "[]" title "[]"] assms(2) by (simp add: blanks_def blanks_nl_def)
  moreover have "takeWhile (\<lambda>c. c \<noteq> CHR ''='') ?line = title" "CHR ''='' \<in> set ?line" "drop (length title + 1) ?line = s @ [newline]"
    using takeWhile_stop [OF assms(3)] by simp_all
  ultimately have "Get_Token_Ch 500 ?line (CHR ''='') = Inr (Some (title, s @ [newline]))"
    using assms(1) by (simp add: Get_Token_Ch_def plain_text_def bind_fault_Inr Let_def)
  then show ?thesis
    using assms(4) by (simp add: get_title_str_def bind_fault_Inr text_line_def)
qed

lemma not_blank: "\<not> is_blank newline" "\<not> is_blank zero_char"
  by (simp_all add: is_blank_def newline_def)

lemma trim_newline: "blanks s \<Longrightarrow> trim_string (s @ [newline]) = Inr []"
proof -
  assume "blanks s"
  then have "dropWhile is_blank (s @ [newline]) = [newline]"
    by (subst dropWhile_append2) (auto simp: blanks_def is_blank_def newline_def)
  then show ?thesis
    unfolding trim_string_def l_trim_string_def by (simp add: bind_fault_Inr r_trim_string_def)
qed

text \<open>C38: For a title without a value \<open>ini_readinteger\<close> copies uninitialised memory: the value is trimmed to the empty
  string, and trimming that once more copies the allocated memory to which nothing was written.\<close>

theorem ini_readinteger_empty:
  assumes "good_name block" and "good_setting (title, v)" and "blanks s" and "length s < 400"
  shows "ini_readinteger (Some (text_line (header block) @ text_line (title @ CHR ''='' # s))) block title defval = Inl Uninitialised"
proof -
  define l where "l = title @ CHR ''='' # s"
  have t: "plain_text title" "solid title" "CHR ''='' \<notin> set title" "hd title \<noteq> CHR ''[''" "0 < length title"
    using assms(2) unfolding good_setting_def solid_def by simp_all
  have b: "newline \<notin> set s" "zero_char \<notin> set s"
    using assms(3) not_blank unfolding blanks_def by blast+
  have line: "newline \<notin> set l" "zero_char \<notin> set l" "length l < 801" "hd l = hd title" "2 \<le> length l" "l \<noteq> []"
    using t b assms(4) unfolding l_def plain_text_def newline_def by (auto simp: Suc_le_eq)
  have "get_title_str 1024 (text_line l) title = Inr (Some (s @ [newline]))"
    using get_title_blank [OF t(1-3) assms(4)] by (simp add: l_def)
  moreover have "trim_string (s @ [newline]) = Inr []"
    using assms(3) by (rule trim_newline)
  ultimately have "title_loop 1024 (at_line (text_line l @ [])) title '' '' [] = Inr (0, [])"
    using fgets_line [OF line(1), of 50000 "[]"] line(2-6) t(4)
    by (subst title_loop.simps) (simp add: c_string_buffer buffer_facts(2) length_text_line bind_fault_Inr)
  then have "ini_readstring 1024 (Some (text_line (header block) @ text_line l)) block title [] '' '' = Inr (0, [])"
    using found_header [OF assms(1, 1), of "text_line l"] by (simp add: ini_readstring_def bind_fault_Inr)
  moreover have "trim_string [] = Inl Uninitialised"
    by (rule trim_blank) (simp add: blanks_def)
  ultimately show ?thesis
    unfolding ini_readinteger_def l_def by (simp add: bind_fault_def)
qed

theorem ini_readinteger_empty_witness:
  "ini_readinteger (Some (text_line (header ''DBG_INFO'') @ text_line ''PORT= '')) ''DBG_INFO'' ''PORT'' 80 = Inl Uninitialised"
  using ini_readinteger_empty [of "''DBG_INFO''" "''PORT''" "''5000''" "'' ''" 80] sample_good(1, 2)
  by (simp add: good_ini_def sample_ini_def blanks_def is_blank_def)

text \<open>C39: \<open>FSstr_to_arr\<close> stores the trimmed fields of a text one behind the other in records, \<open>max_cnt\<close> of them at most, and
  returns their number; what stands behind the last separator is not stored. The fields are not blank and shorter than a record,
  and the separator is not the zero at the end of a string.\<close>

theorem FSstr_to_arr_stores:
  assumes "\<forall>f \<in> set fds. good_field fs record_sz f" and "0 < max_cnt" and "max_cnt * record_sz \<le> length arr" and "fs \<notin> set tl_text"
    and "fs \<noteq> zero_char"
  shows "\<exists>arr'. FSstr_to_arr (fields_text fs fds @ tl_text) fs arr (int record_sz) (int max_cnt) = Inr (min (length fds) max_cnt, arr')
    \<and> length arr' = length arr \<and> (\<forall>i < min (length fds) max_cnt. record_at record_sz i arr' = fst (snd (fds ! i)))"
  using fields_loop_stores [OF assms(1-5)] by (auto simp: FSstr_to_arr_def)

theorem FSstr_to_arr_stores_witness:
  "\<exists>arr'. FSstr_to_arr ''one; two ;three'' (CHR '';'') (replicate 20 (CHR ''x'')) 10 2 = Inr (2, arr')
    \<and> record_at 10 0 arr' = ''one'' \<and> record_at 10 1 arr' = ''two''"
proof -
  have "\<forall>f \<in> set [([], ''one'', []), ('' '', ''two'', '' '')]. good_field (CHR '';'') 10 f"
    by (simp add: good_field_def blanks_def is_blank_def solid_def newline_def field_text_def)
  then show ?thesis
    using FSstr_to_arr_stores [of "[([], ''one'', []), ('' '', ''two'', '' '')]" "CHR '';''" 10 2 "replicate 20 (CHR ''x'')" "''three''"]
    by (fastforce simp: fields_text_def field_text_def less_2_cases_iff)
qed

end
