(* ===== verification/FeeSearch.thy ===== *)
theory FeeSearch
  imports Search
begin

text \<open>
  The search for fees that add up to an amount (\<open>test_calculateFee/main.c\<close>). One fee is left out in each step;
  of the others a prefix is taken, from its last fee down, as long as the amount is not exceeded. What is printed
  when the amount is met is the answer; \<open>sleep\<close> and the other output are left out.
\<close>

section \<open>The program\<close>

definition sub_ints :: "int \<Rightarrow> int \<Rightarrow> c_fault + int" where
  "sub_ints a b = add_ints a (- b)"

fun sum_loop :: "int list \<Rightarrow> nat list \<Rightarrow> int \<Rightarrow> c_fault + int" where
  "sum_loop list [] t = Inr t"
| "sum_loop list (i # is) t = bind_fault (load list (int i)) (\<lambda>x. bind_fault (add_ints t x) (sum_loop list is))"

definition sum_fees :: "int list \<Rightarrow> nat \<Rightarrow> c_fault + int" where
  "sum_fees list n = sum_loop list [0..<n] 0"

text \<open>\<open>finalList\<close>, \<open>finalListIndex\<close> and \<open>total\<close>.\<close>

record picked =
  finalList :: "int list"
  finalListIndex :: nat
  total :: int

text \<open>The loop over \<open>j\<close>, which counts down from \<open>j - 1\<close>; \<open>Inl\<close> are the printed fees of a return.\<close>

fun pick_loop :: "int list \<Rightarrow> int \<Rightarrow> nat \<Rightarrow> nat \<Rightarrow> nat \<Rightarrow> picked \<Rightarrow> c_fault + (int list + picked)" where
  "pick_loop tempList result len listSize 0 p = Inr (Inr p)"
| "pick_loop tempList result len listSize (Suc j) p =
    bind_fault (load tempList (int j)) (\<lambda>x.
      if result = x then Inr (Inl [x])
      else if result < x then pick_loop tempList result len listSize j p
      else
        bind_fault (sub_ints result (total p)) (\<lambda>rest.
          if rest < x then pick_loop tempList result len listSize j p
          else
            bind_fault (store (finalList p) (int (finalListIndex p)) x) (\<lambda>final.
            bind_fault (sum_fees final len) (\<lambda>tot.
              if result = tot then Inr (Inl (take listSize final))
              else pick_loop tempList result len listSize j \<lparr>finalList = final, finalListIndex = finalListIndex p + 1, total = tot\<rparr>))))"

text \<open>The loop over \<open>listSize\<close>, down to \<open>0\<close>.\<close>

fun prefix_loop :: "int list \<Rightarrow> int \<Rightarrow> nat \<Rightarrow> nat \<Rightarrow> int list \<Rightarrow> c_fault + int list option" where
  "prefix_loop tempList result len listSize final =
    bind_fault (pick_loop tempList result len listSize listSize \<lparr>finalList = final, finalListIndex = 0, total = 0\<rparr>) (\<lambda>r.
      case r of
        Inl xs \<Rightarrow> Inr (Some xs)
      | Inr p \<Rightarrow>
        (case listSize of
           0 \<Rightarrow> Inr None
         | Suc n \<Rightarrow> prefix_loop tempList result len n (replicate listSize 0 @ drop listSize (finalList p))))"

declare prefix_loop.simps [simp del]

definition compareResultAndList :: "int list \<Rightarrow> nat \<Rightarrow> int \<Rightarrow> c_fault + int list option" where
  "compareResultAndList tempList listSize result = prefix_loop tempList result listSize listSize (replicate listSize 0)"

text \<open>The copy without the fee of index \<open>step\<close>.\<close>

fun copy_loop :: "int list \<Rightarrow> nat \<Rightarrow> nat list \<Rightarrow> nat \<Rightarrow> int list \<Rightarrow> c_fault + int list" where
  "copy_loop inputList step [] tempListIndex tempList = Inr tempList"
| "copy_loop inputList step (i # is) tempListIndex tempList =
    (if i = step then copy_loop inputList step is tempListIndex tempList
     else
       bind_fault (load inputList (int i)) (\<lambda>x.
       bind_fault (store tempList (int tempListIndex) x) (copy_loop inputList step is (tempListIndex + 1))))"

datatype fee_answer = All_fees | Some_fees "int list" | No_found

function step_loop :: "int list \<Rightarrow> nat \<Rightarrow> int \<Rightarrow> nat \<Rightarrow> c_fault + fee_answer" where
  "step_loop inputList listSize result step =
    bind_fault (load inputList 0) (\<lambda>x.
      if result < x \<or> step > listSize then Inr No_found
      else
        bind_fault (copy_loop inputList step [0..<Suc listSize] 0 (replicate listSize 0)) (\<lambda>tempList.
        bind_fault (compareResultAndList tempList listSize result) (\<lambda>r.
          case r of Some xs \<Rightarrow> Inr (Some_fees xs) | None \<Rightarrow> step_loop inputList listSize result (step + 1))))"
  by pat_completeness auto
termination
  by (relation "measure (\<lambda>(inputList, listSize, result, step). Suc listSize - step)") auto

declare step_loop.simps [simp del]

definition calculateFee :: "int list \<Rightarrow> nat \<Rightarrow> int \<Rightarrow> c_fault + fee_answer" where
  "calculateFee inputList listSize result =
    bind_fault (sum_fees inputList (listSize + 1)) (\<lambda>s.
      if s = result then Inr All_fees else step_loop inputList listSize result 0)"

section \<open>Sums\<close>

definition fits :: "int list \<Rightarrow> bool" where
  "fits xs \<longleftrightarrow> (\<forall>x \<in> set xs. 0 \<le> x) \<and> sum_list xs < 2 ^ 31"

lemma sum_loop_Inr:
  "sum_loop list is t = Inr s \<Longrightarrow> s = t + sum_list (map ((!) list) is) \<and> (\<forall>i \<in> set is. i < length list)"
proof (induction "is" arbitrary: t)
  case (Cons i "is")
  then have "sum_loop list is (t + list ! i) = Inr s" "i < length list"
    by (auto simp: bind_fault_def load_def add_ints_def split: sum.splits if_splits)
  then show ?case
    using Cons.IH [of "t + list ! i"] by simp
qed simp

lemma take_map_nth: "n \<le> length xs \<Longrightarrow> map ((!) xs) [0..<n] = take n xs"
  by (simp add: list_eq_iff_nth_eq)

lemma sum_fees_Inr: "sum_fees list n = Inr s \<Longrightarrow> s = sum_list (take n list) \<and> n \<le> length list"
proof -
  assume "sum_fees list n = Inr s"
  then have s: "s = sum_list (map ((!) list) [0..<n])" "\<forall>i < n. i < length list"
    using sum_loop_Inr [of list "[0..<n]" 0 s] by (auto simp: sum_fees_def)
  then have "n \<le> length list"
    by (metis linorder_not_le less_irrefl)
  then show ?thesis
    using s(1) by (simp add: take_map_nth)
qed

lemma sum_loop_fits:
  assumes "\<forall>i \<in> set is. i < length list" and "\<forall>x \<in> set list. 0 \<le> x" and "0 \<le> t" and "t + sum_list (map ((!) list) is) < 2 ^ 31"
  shows "sum_loop list is t = Inr (t + sum_list (map ((!) list) is))"
  using assms
proof (induction "is" arbitrary: t)
  case (Cons i "is")
  have nonneg: "0 \<le> list ! i" "0 \<le> sum_list (map ((!) list) is)"
    using Cons.prems(1, 2) by (auto intro!: sum_list_nonneg)
  then have "add_ints t (list ! i) = Inr (t + list ! i)"
    using Cons.prems(3, 4) by (simp add: add_ints_def)
  then show ?case
    using Cons.prems Cons.IH [of "t + list ! i"] nonneg by (simp add: load_nat bind_fault_Inr add.assoc)
qed simp

lemma sum_fees_fits: "n \<le> length list \<Longrightarrow> \<forall>x \<in> set list. 0 \<le> x \<Longrightarrow> sum_list (take n list) < 2 ^ 31 \<Longrightarrow>
    sum_fees list n = Inr (sum_list (take n list))"
  using sum_loop_fits [of "[0..<n]" list 0] by (simp add: sum_fees_def take_map_nth)

section \<open>The fees picked\<close>

text \<open>The picked fees \<open>xs\<close> are at the front of \<open>finalList\<close>, and are some of the first fees from index \<open>j\<close> on.\<close>

definition picks :: "int list \<Rightarrow> nat \<Rightarrow> nat \<Rightarrow> nat \<Rightarrow> picked \<Rightarrow> int list \<Rightarrow> bool" where
  "picks tempList len listSize j p xs \<longleftrightarrow>
    finalList p = xs @ replicate (len - length xs) 0 \<and> finalListIndex p = length xs \<and> total p = sum_list xs
    \<and> mset xs \<subseteq># mset (drop j (take listSize tempList)) \<and> length xs \<le> len"

lemma picks_start: "picks tempList len listSize listSize \<lparr>finalList = replicate len 0, finalListIndex = 0, total = 0\<rparr> []"
  by (simp add: picks_def)

lemma drop_take_Suc: "j < n \<Longrightarrow> n \<le> length xs \<Longrightarrow> drop j (take n xs) = xs ! j # drop (Suc j) (take n xs)"
  using Cons_nth_drop_Suc [of j "take n xs"] by simp

lemma picks_skip: "picks tempList len listSize (Suc j) p xs \<Longrightarrow> Suc j \<le> listSize \<Longrightarrow> listSize \<le> length tempList \<Longrightarrow>
    picks tempList len listSize j p xs"
  by (auto simp: picks_def drop_take_Suc intro: subset_mset.order_trans)

lemma picks_length: "picks tempList len listSize j p xs \<Longrightarrow> listSize \<le> length tempList \<Longrightarrow> length xs \<le> listSize - j"
  by (auto simp: picks_def dest: size_mset_mono)

lemma picks_take:
  assumes "picks tempList len listSize (Suc j) p xs" and "Suc j \<le> listSize" and "listSize \<le> length tempList" and "listSize \<le> len"
  shows "store (finalList p) (int (finalListIndex p)) (tempList ! j) = Inr ((xs @ [tempList ! j]) @ replicate (len - length (xs @ [tempList ! j])) 0)"
    and "picks tempList len listSize j \<lparr>finalList = (xs @ [tempList ! j]) @ replicate (len - length (xs @ [tempList ! j])) 0,
      finalListIndex = finalListIndex p + 1, total = sum_list (xs @ [tempList ! j])\<rparr> (xs @ [tempList ! j])"
proof -
  have n: "length xs < len"
    using picks_length [OF assms(1, 3)] assms(2, 4) by simp
  then have "replicate (len - length xs) 0 = 0 # replicate (len - Suc (length xs)) (0 :: int)"
    by (simp add: Suc_diff_Suc [symmetric])
  then show "store (finalList p) (int (finalListIndex p)) (tempList ! j) = Inr ((xs @ [tempList ! j]) @ replicate (len - length (xs @ [tempList ! j])) 0)"
    using assms(1) n by (simp add: picks_def store_nat list_update_append)
  show "picks tempList len listSize j \<lparr>finalList = (xs @ [tempList ! j]) @ replicate (len - length (xs @ [tempList ! j])) 0,
      finalListIndex = finalListIndex p + 1, total = sum_list (xs @ [tempList ! j])\<rparr> (xs @ [tempList ! j])"
    using assms n by (simp add: picks_def drop_take_Suc)
qed

text \<open>What is printed: a single fee, or the picked ones with zeros behind them.\<close>

definition made_of :: "int list \<Rightarrow> int \<Rightarrow> int list \<Rightarrow> bool" where
  "made_of fees result printed \<longleftrightarrow> (\<exists>xs k. printed = xs @ replicate k 0 \<and> mset xs \<subseteq># mset fees \<and> sum_list xs = result)"

lemma made_of_mono: "made_of fees result printed \<Longrightarrow> mset fees \<subseteq># mset all_fees \<Longrightarrow> made_of all_fees result printed"
  by (auto simp: made_of_def intro: subset_mset.order_trans)

lemma mset_middle: "mset (drop j (take n xs)) \<subseteq># mset xs"
  by (metis append_take_drop_id mset_append mset_subset_eq_add_left mset_subset_eq_add_right subset_mset.order_trans)

lemma pick_step:
  assumes "pick_loop tempList result len listSize (Suc j) p = Inr r" and "j < length tempList"
  shows "result = tempList ! j \<and> r = Inl [tempList ! j] \<or> pick_loop tempList result len listSize j p = Inr r
    \<or> (\<exists>final tot. store (finalList p) (int (finalListIndex p)) (tempList ! j) = Inr final \<and> sum_fees final len = Inr tot
      \<and> (if result = tot then r = Inl (take listSize final)
         else pick_loop tempList result len listSize j \<lparr>finalList = final, finalListIndex = finalListIndex p + 1, total = tot\<rparr> = Inr r))"
  using assms by (auto simp: load_nat bind_fault_def split: if_splits sum.splits)

lemma pick_loop_picks:
  assumes "picks tempList len listSize j p xs" and "j \<le> listSize" and "listSize \<le> length tempList" and "listSize \<le> len"
    and "pick_loop tempList result len listSize j p = Inr r"
  shows "case r of Inl printed \<Rightarrow> made_of tempList result printed | Inr p' \<Rightarrow> \<exists>ys. picks tempList len listSize 0 p' ys"
  using assms(1, 2, 5)
proof (induction j arbitrary: p xs)
  case 0
  then show ?case
    by (auto simp: bind_fault_def)
next
  case (Suc j)
  let ?x = "tempList ! j"
  let ?ys = "xs @ [?x]"
  let ?final = "?ys @ replicate (len - length ?ys) 0"
  note skip = picks_skip [OF Suc.prems(1, 2) assms(3)] and take = picks_take [OF Suc.prems(1, 2) assms(3, 4)]
  have j: "j < length tempList" "j \<le> listSize"
    using Suc.prems(2) assms(3) by simp_all
  have len: "length ?ys \<le> listSize"
    using picks_length [OF take(2) assms(3)] by simp
  then have "take len ?final = ?final"
    using assms(4) by (intro take_all) simp
  then have all: "sum_fees ?final len = Inr s \<Longrightarrow> s = sum_list ?ys" for s
    using sum_fees_Inr [of ?final len s] by (simp add: sum_list_replicate)
  consider "result = ?x" "r = Inl [?x]" | "pick_loop tempList result len listSize j p = Inr r"
    | "result = sum_list ?ys" "r = Inl (take listSize ?final)"
    | "pick_loop tempList result len listSize j \<lparr>finalList = ?final, finalListIndex = finalListIndex p + 1, total = sum_list ?ys\<rparr> = Inr r"
    using pick_step [OF Suc.prems(3) j(1)] all unfolding take(1) by (metis (no_types, lifting) sum.inject(2))
  then show ?case
  proof cases
    case 1
    then show ?thesis
      using j(1) by (auto simp: made_of_def intro!: exI [of _ "[?x]"])
  next
    case 3
    have "take listSize ?final = ?ys @ replicate (min (listSize - length ?ys) (len - length ?ys)) 0"
      using len by (simp add: take_Cons')
    moreover have "mset ?ys \<subseteq># mset tempList"
      using take(2) mset_middle [of j listSize tempList] by (auto simp: picks_def intro: subset_mset.order_trans)
    ultimately have "made_of tempList result (take listSize ?final)"
      using 3(1) unfolding made_of_def by (intro exI [of _ ?ys] exI conjI) simp_all
    then show ?thesis
      using 3(2) by simp
  qed (use Suc.IH [OF skip j(2)] Suc.IH [OF take(2) j(2)] in blast)+
qed

lemma prefix_loop_made:
  assumes "listSize \<le> length tempList" and "listSize \<le> len" and "prefix_loop tempList result len listSize (replicate len 0) = Inr (Some printed)"
  shows "made_of tempList result printed"
  using assms
proof (induction listSize)
  case 0
  then show ?case
    by (subst (asm) prefix_loop.simps) (simp add: bind_fault_def)
next
  case (Suc n)
  let ?p = "\<lparr>finalList = replicate len 0, finalListIndex = 0, total = 0\<rparr>"
  obtain r where r: "pick_loop tempList result len (Suc n) (Suc n) ?p = Inr r"
    using Suc.prems(3) by (subst (asm) prefix_loop.simps) (auto simp: bind_fault_def split: sum.splits)
  note made = pick_loop_picks [OF picks_start order_refl Suc.prems(1, 2) r]
  show ?case
  proof (cases r)
    case (Inl xs)
    then show ?thesis
      using Suc.prems(3) r made by (subst (asm) prefix_loop.simps) (simp add: bind_fault_def)
  next
    case (Inr p)
    then obtain ys where ys: "picks tempList len (Suc n) 0 p ys"
      using made by auto
    have "length ys \<le> Suc n"
      using picks_length [OF ys Suc.prems(1)] by simp
    then have "replicate (Suc n) 0 @ drop (Suc n) (finalList p) = replicate len 0"
      using ys Suc.prems(2) by (simp add: picks_def drop_replicate flip: replicate_add del: replicate_Suc)
    then have "prefix_loop tempList result len n (replicate len 0) = Inr (Some printed)"
      using Suc.prems(3) r Inr by (subst (asm) prefix_loop.simps) (simp add: bind_fault_def del: replicate_Suc)
    then show ?thesis
      using Suc.IH Suc.prems(1, 2) by simp
  qed
qed

lemma copy_loop_copies:
  assumes "\<forall>i \<in> set is. i < length inputList" and "n + length (filter (\<lambda>i. i \<noteq> step) is) \<le> length tempList"
  shows "copy_loop inputList step is n tempList =
    Inr (take n tempList @ map ((!) inputList) (filter (\<lambda>i. i \<noteq> step) is) @ drop (n + length (filter (\<lambda>i. i \<noteq> step) is)) tempList)"
  using assms
proof (induction "is" arbitrary: n tempList)
  case (Cons i "is")
  show ?case
  proof (cases "i = step")
    case False
    then show ?thesis
      using Cons.prems Cons.IH [of "n + 1" "tempList[n := inputList ! i]"]
      by (simp add: load_nat store_nat bind_fault_Inr take_Suc_conv_app_nth drop_update_cancel)
  qed (use Cons in simp)
qed simp

lemma copy_without:
  assumes "step < length inputList" and "length inputList = listSize + 1"
  shows "copy_loop inputList step [0..<Suc listSize] 0 (replicate listSize 0) = Inr (take step inputList @ drop (Suc step) inputList)"
proof -
  have split: "[0..<Suc listSize] = [0..<step] @ step # [Suc step..<Suc listSize]"
    using assms upt_add_eq_append [of 0 step "Suc listSize - step"] upt_conv_Cons [of step "Suc listSize"] by simp
  have "filter (\<lambda>i. i \<noteq> step) [0..<Suc listSize] = [0..<step] @ [Suc step..<Suc listSize]"
    unfolding split by (simp add: filter_id_conv del: upt_Suc)
  moreover have "map ((!) inputList) [Suc step..<Suc listSize] = drop (Suc step) inputList"
    using assms by (simp add: list_eq_iff_nth_eq del: upt_Suc)
  ultimately show ?thesis
    using copy_loop_copies [of "[0..<Suc listSize]" inputList 0 step "replicate listSize 0"] assms by (simp add: take_map_nth del: upt_Suc)
qed

section \<open>Ends\<close>

lemma fits_sub:
  assumes "fits fees" and "mset xs \<subseteq># mset fees"
  shows "fits xs"
proof -
  obtain ys where ys: "mset ys = mset fees - mset xs"
    using ex_mset by blast
  then have fees: "mset fees = mset (xs @ ys)"
    using assms(2) by simp
  then have "set fees = set (xs @ ys)" "sum_list fees = sum_list (xs @ ys)"
    by (metis set_mset_mset, metis sum_mset_sum_list)
  moreover have "0 \<le> sum_list ys"
    using assms(1) calculation(1) by (intro sum_list_nonneg) (auto simp: fits_def)
  ultimately show ?thesis
    using assms(1) by (auto simp: fits_def)
qed

lemma pick_loop_ends:
  assumes "picks tempList len listSize j p xs" and "j \<le> listSize" and "listSize \<le> length tempList" and "listSize \<le> len"
    and "fits tempList" and "0 \<le> result" and "result < 2 ^ 31"
  shows "\<exists>r. pick_loop tempList result len listSize j p = Inr r"
  using assms(1, 2)
proof (induction j arbitrary: p xs)
  case (Suc j)
  let ?x = "tempList ! j"
  let ?ys = "xs @ [?x]"
  note skip = picks_skip [OF Suc.prems(1, 2) assms(3)] and take = picks_take [OF Suc.prems(1, 2) assms(3, 4)]
  have j: "j < length tempList" "j \<le> listSize"
    using Suc.prems(2) assms(3) by simp_all
  have sub: "mset ys \<subseteq># mset tempList" if "picks tempList len listSize k q ys" for k q ys
    using that mset_middle [of k listSize tempList] by (auto simp: picks_def intro: subset_mset.order_trans)
  have "fits xs" "fits ?ys"
    using fits_sub [OF assms(5)] sub [OF skip] sub [OF take(2)] by blast+
  then have "sub_ints result (total p) = Inr (result - sum_list xs)"
    using assms(6, 7) Suc.prems(1) sum_list_nonneg [of xs] by (auto simp: fits_def sub_ints_def add_ints_def picks_def)
  moreover have "length ?ys \<le> len" "\<forall>x \<in> set (?ys @ replicate (len - length ?ys) 0). 0 \<le> x"
    using take(2) \<open>fits ?ys\<close> by (auto simp: picks_def fits_def)
  then have "sum_fees (?ys @ replicate (len - length ?ys) 0) len = Inr (sum_list ?ys)"
    using sum_fees_fits [of len "?ys @ replicate (len - length ?ys) 0"] \<open>fits ?ys\<close> by (auto simp: fits_def sum_list_replicate)
  ultimately show ?case
    using Suc.IH [OF skip j(2)] Suc.IH [OF take(2) j(2)] by (simp add: load_nat [OF j(1)] bind_fault_Inr take(1) del: append_assoc)
qed simp

lemma pick_loop_single:
  assumes "pick_loop tempList result len listSize j p = Inr r" and "result \<in> set (take j tempList)" and "j \<le> length tempList"
  shows "\<exists>printed. r = Inl printed"
  using assms
proof (induction j arbitrary: p)
  case (Suc j)
  then have "result = tempList ! j \<or> result \<in> set (take j tempList)"
    by (auto simp: take_Suc_conv_app_nth)
  then show ?case
    using pick_step [OF Suc.prems(1)] Suc.prems(1, 3) Suc.IH by (auto simp: load_nat bind_fault_Inr split: if_splits)
qed simp

lemma prefix_loop_ends:
  assumes "listSize \<le> length tempList" and "listSize \<le> len" and "fits tempList" and "0 \<le> result" and "result < 2 ^ 31"
  shows "\<exists>r. prefix_loop tempList result len listSize (replicate len 0) = Inr r \<and> (result \<in> set (take listSize tempList) \<longrightarrow> r \<noteq> None)"
  using assms(1, 2)
proof (induction listSize)
  case 0
  then show ?case
    by (subst prefix_loop.simps) (simp add: bind_fault_Inr)
next
  case (Suc n)
  let ?p = "\<lparr>finalList = replicate len 0, finalListIndex = 0, total = 0\<rparr>"
  obtain r where r: "pick_loop tempList result len (Suc n) (Suc n) ?p = Inr r"
    using pick_loop_ends [OF picks_start order_refl Suc.prems assms(3-5)] by blast
  note made = pick_loop_picks [OF picks_start order_refl Suc.prems r]
  show ?case
  proof (cases r)
    case (Inl xs)
    then show ?thesis
      using r by (subst prefix_loop.simps) (simp add: bind_fault_Inr)
  next
    case (Inr p)
    then obtain ys where ys: "picks tempList len (Suc n) 0 p ys"
      using made by auto
    have "length ys \<le> Suc n"
      using picks_length [OF ys Suc.prems(1)] by simp
    then have "replicate (Suc n) 0 @ drop (Suc n) (finalList p) = replicate len 0"
      using ys Suc.prems(2) by (simp add: picks_def drop_replicate flip: replicate_add del: replicate_Suc)
    then have "prefix_loop tempList result len (Suc n) (replicate len 0) = prefix_loop tempList result len n (replicate len 0)"
      using r Inr by (subst prefix_loop.simps) (simp add: bind_fault_Inr del: replicate_Suc)
    moreover have "result \<notin> set (take (Suc n) tempList)"
      using pick_loop_single [OF r _ Suc.prems(1)] Inr by auto
    ultimately show ?thesis
      using Suc.IH Suc.prems by auto
  qed
qed

definition without :: "nat \<Rightarrow> int list \<Rightarrow> int list" where
  "without step fees = take step fees @ drop (Suc step) fees"

lemma without_sub: "step < length fees \<Longrightarrow> mset (without step fees) \<subseteq># mset fees \<and> length (without step fees) = length fees - 1"
proof -
  assume "step < length fees"
  then have "mset fees = mset (take step fees) + (mset (drop (Suc step) fees) + {#fees ! step#})"
    by (subst id_take_nth_drop [of step fees]) simp_all
  then show ?thesis
    using \<open>step < length fees\<close> by (simp add: without_def)
qed

text \<open>A round of the search.\<close>

lemma compare_without:
  assumes "step \<le> listSize" and "length inputList = listSize + 1" and "fits inputList" and "0 \<le> result" and "result < 2 ^ 31"
  obtains r where "compareResultAndList (without step inputList) listSize result = Inr r"
    and "\<And>printed. r = Some printed \<Longrightarrow> made_of inputList result printed" and "result \<in> set (without step inputList) \<Longrightarrow> r \<noteq> None"
proof -
  have w: "mset (without step inputList) \<subseteq># mset inputList" "length (without step inputList) = listSize"
    using without_sub [of step inputList] assms(1, 2) by simp_all
  obtain r where r: "prefix_loop (without step inputList) result listSize listSize (replicate listSize 0) = Inr r"
    "result \<in> set (without step inputList) \<longrightarrow> r \<noteq> None"
    using prefix_loop_ends [of listSize "without step inputList" listSize result] w fits_sub [OF assms(3)] assms(4, 5) by auto
  have "made_of inputList result printed" if "r = Some printed" for printed
    using prefix_loop_made [of listSize "without step inputList" listSize result printed] r(1) that w made_of_mono by blast
  then show ?thesis
    using that [of r] r by (simp add: compareResultAndList_def)
qed

lemma step_loop_ends:
  assumes "step \<le> Suc listSize" and "length inputList = listSize + 1" and "fits inputList" and "0 \<le> result" and "result < 2 ^ 31"
  shows "\<exists>a. step_loop inputList listSize result step = Inr a \<and> a \<noteq> All_fees
    \<and> (\<forall>printed. a = Some_fees printed \<longrightarrow> made_of inputList result printed)
    \<and> (inputList ! 0 \<le> result \<and> (\<exists>k. step \<le> k \<and> k \<le> listSize \<and> result \<in> set (without k inputList)) \<longrightarrow> a \<noteq> No_found)"
  using assms(1)
proof (induction rule: inc_induct)
  case base
  then show ?case
    using assms(2) by (subst step_loop.simps) (simp add: load_def bind_fault_Inr)
next
  case (step n)
  have n: "n \<le> listSize" "n < length inputList"
    using step.hyps(2) assms(2) by simp_all
  obtain r where r: "compareResultAndList (without n inputList) listSize result = Inr r"
    "\<And>printed. r = Some printed \<Longrightarrow> made_of inputList result printed" "result \<in> set (without n inputList) \<Longrightarrow> r \<noteq> None"
    using compare_without [OF n(1) assms(2-5)] by blast
  have "step_loop inputList listSize result n =
      (if result < inputList ! 0 then Inr No_found
       else case r of Some xs \<Rightarrow> Inr (Some_fees xs) | None \<Rightarrow> step_loop inputList listSize result (Suc n))"
    using assms(2) n r(1) copy_without [OF n(2) assms(2)]
    by (subst step_loop.simps) (simp add: load_def bind_fault_Inr without_def del: upt_Suc)
  note loop = this
  show ?case
  proof (cases "r = None \<and> \<not> result < inputList ! 0")
    case True
    obtain a where a: "step_loop inputList listSize result (Suc n) = Inr a" "a \<noteq> All_fees"
      "\<forall>printed. a = Some_fees printed \<longrightarrow> made_of inputList result printed"
      "inputList ! 0 \<le> result \<and> (\<exists>k. Suc n \<le> k \<and> k \<le> listSize \<and> result \<in> set (without k inputList)) \<longrightarrow> a \<noteq> No_found"
      using step.IH by blast
    have "Suc n \<le> k" if "n \<le> k" "result \<in> set (without k inputList)" for k
      using that r(3) True by (cases "k = n") auto
    then show ?thesis
      using loop True a by (intro exI [of _ a]) auto
  next
    case False
    then show ?thesis
      using loop r(2) by (cases r) auto
  qed
qed

section \<open>Properties\<close>

text \<open>C40: For fees that are not negative and whose sum fits an \<open>int\<close> the search always ends, and without leaving its
  arrays; the fees it prints are some of the fees given and add up to the amount; and an amount that is a single fee, not
  below the first, is found.\<close>

theorem calculateFee_correct:
  assumes "length inputList = listSize + 1" and "fits inputList" and "0 \<le> result" and "result < 2 ^ 31"
  shows "\<exists>a. calculateFee inputList listSize result = Inr a
    \<and> (case a of All_fees \<Rightarrow> sum_list inputList = result | Some_fees printed \<Rightarrow> made_of inputList result printed
        | No_found \<Rightarrow> result \<noteq> sum_list inputList
          \<and> \<not> (1 \<le> listSize \<and> inputList ! 0 \<le> result \<and> result \<in> set inputList))"
proof -
  have total: "sum_fees inputList (listSize + 1) = Inr (sum_list inputList)"
    using assms(1, 2) sum_fees_fits [of "listSize + 1" inputList] by (simp add: fits_def)
  obtain a where a: "step_loop inputList listSize result 0 = Inr a" "a \<noteq> All_fees"
    "\<forall>printed. a = Some_fees printed \<longrightarrow> made_of inputList result printed"
    "inputList ! 0 \<le> result \<Longrightarrow> \<exists>k \<le> listSize. result \<in> set (without k inputList) \<Longrightarrow> a \<noteq> No_found"
    using step_loop_ends [of 0 listSize inputList result] assms by auto
  have "\<exists>k \<le> listSize. result \<in> set (without k inputList)" if "1 \<le> listSize" "result \<in> set inputList"
  proof -
    obtain x xs where "inputList = x # xs" "length xs = listSize"
      using assms(1) by (cases inputList) auto
    then show ?thesis
      using that by (cases "result = x") (auto simp: without_def intro: exI [of _ 1] exI [of _ 0])
  qed
  then show ?thesis
    using a total by (cases "sum_list inputList = result"; cases a) (auto simp: calculateFee_def bind_fault_Inr)
qed

theorem calculateFee_correct_witness:
  "calculateFee [20, 28, 32, 33, 59] 4 59 \<noteq> Inr No_found \<and> (\<exists>a. calculateFee [20, 28, 32, 33, 59] 4 59 = Inr a)"
  using calculateFee_correct [of "[20, 28, 32, 33, 59]" 4 59] by (auto simp: fits_def)

text \<open>The search takes the largest fees first and leaves out one fee at most in front of a prefix, so that it does not
  find every sum: 9 is 2 + 2 + 5.\<close>

theorem calculateFee_misses:
  "calculateFee [2, 2, 3, 3, 5] 4 9 = Inr No_found \<and> made_of [2, 2, 3, 3, 5] 9 [2, 2, 5]"
proof
  show "calculateFee [2, 2, 3, 3, 5] 4 9 = Inr No_found"
    by code_simp
  show "made_of [2, 2, 3, 3, 5] 9 [2, 2, 5]"
    by (auto simp: made_of_def intro!: exI [of _ "[2, 2, 5]"] exI [of _ 0])
qed

end
