(* ===== verification/Spec2Isabelle.thy ===== *)
theory Spec2Isabelle
  imports SeedGcm SeedCcm SeedCbc SeedCtr Aes DesStd PosDecode WildMemo WildMatch Ipv6Util Base64 Sorts QuickSort Search LockRuns LockInit SemServer IniFile FeeSearch
begin

text \<open>
  Verification of the C programs of this repository: its ciphers and codecs, its address and
  pattern functions, its sorting programs, and the lock servers with the INI library they use. The
  repository is a collection of programs that do not call each other; what they share is the
  form of C they are written in, and so the theories share a prelude, arrays and the contracts of ciphers,
  sorting routines, matchers, coders and lock services, stated as locales and interpreted on the models.

  \<^bold>\<open>How C is modelled.\<close> Fixed-width unsigned numbers are words of their width, with wrap-around; signed
  numbers are integers, with a fault where an operation can overflow. A buffer is the list of its elements, a C string
  the list of its characters. A call that can read or write outside a buffer, loop for ever, overflow, divide by
  zero, read through a null pointer or read memory that was not written has a result in \<open>c_fault + 'a\<close> (\<open>Prelude\<close>). Loops are
  recursions over the counter of the loop with a proved measure; a loop that can fail to end is a
  \<open>partial_function\<close> into options (\<open>loop16\<close> of \<open>SeedGcm\<close>, \<open>is_match\<close> of \<open>WildMatch\<close>), and theorems about it state that it returns.

  \<^bold>\<open>SEED\<close> (\<open>src/test_seed/.../KISA_SEED*.c\<close>). \<open>SeedTables\<close> and \<open>Seed\<close> hold the block cipher (\<open>SEED_KeySched\<close>, \<open>SEED_Encrypt\<close>,
  \<open>SEED_Decrypt\<close>): the unrolled rounds are a Feistel network and the key schedule is the standard's. \<open>SeedBlocks\<close>
  and \<open>Ghash\<close> hold the 128-bit arithmetic of the GCM file: the table-driven \<open>GHASH_8BIT\<close> is the
  multiplication in the field of \<open>2^128\<close> elements. \<open>SeedGcm\<close> and \<open>SeedCcm\<close> hold the two authenticated modes (what they compute
  against the standard, which messages they accept, their round trips; the block loops end exactly for
  lengths up to \<open>loop_bound\<close>, \<open>2^32 - 16\<close>). \<open>SeedLe\<close>, \<open>SeedCbc\<close> and \<open>SeedCtr\<close> hold the streaming interfaces with their state records, for a
  little-endian machine: padding, chaining and the counter with its carry.

  \<^bold>\<open>AES and DES\<close> (\<open>src/test_aes_cbc\<close>, \<open>src/test_tripleDesCbc/main.c\<close>). \<open>AesTables\<close> and \<open>Aes\<close>: the tables, both builds of the rounds,
  the CBC functions and \<open>nasAesCrypt\<close>, compared with the network of \<open>Spn_Spec\<close>. \<open>DesTables\<close>, \<open>Des\<close> and
  \<open>DesStd\<close>: the macros, key schedules and ECB, CBC and triple modes, compared bit by bit with the tables of the standard in
  \<open>Des_Spec\<close>. \<open>PosDecode\<close>: the decoding of card data in the same file, from the time stamp to the card number. The modes of all
  ciphers rest on the locales of \<open>Cipher_Spec\<close>.

  \<^bold>\<open>Text.\<close> \<open>WildMemo\<close> (\<open>src/test_wildcard/memoization\<close>, with its table of 101 by 101 entries) and \<open>WildMatch\<close> (\<open>match\<close> and \<open>match2\<close>) are
  compared with the language of a pattern in \<open>Wild_Spec\<close>; \<open>matchers_same\<close> below tells where they accept the same lines. \<open>Ipv6\<close>, \<open>Ipv6Conv\<close> and \<open>Ipv6Util\<close>
  (\<open>src/test_ipv6/ipv6_util\<close>): the conversions between short and full addresses, and the object around them with its arrays and
  function pointers. \<open>Base64\<close> (\<open>src/test_base64\<close>): both coders and what they lose.

  \<^bold>\<open>Arrays.\<close> \<open>Sorts\<close>, \<open>QuickSort\<close> and \<open>Search\<close> (\<open>src/test_sort\<close>, \<open>src/test_search\<close>) hold the sorting and searching functions over the
  accesses of \<open>Arrays\<close>. \<open>FeeSearch\<close> (\<open>src/test_calculateFee/main.c\<close>) holds the search for fees that add up to an amount.

  \<^bold>\<open>Lock servers.\<close> \<open>LockFiles\<close> (\<open>LibSrc/file_lib.c\<close>): the file \<open>initialize.ini\<close> as a text, read line by line and overwritten in place.
  \<open>LockServer\<close> (\<open>src/test_sharedMemory/Shared_Server\<close>): the kernel's semaphores and segments as a record,
  \<open>init_ipc\<close>, the parsing of a request, the search for its keys, and the handler of a connection, both as the function \<open>server_main\<close> and as
  a machine whose steps are the system calls and memory accesses between which another process can run. \<open>SemServer\<close>
  (\<open>src/test_semaphore\<close>): the system semaphore server, and \<open>reqLockSem\<close> of the named one, in the same way. \<open>Interleave\<close> has the step relation of
  processes that share a state and its locales: quantities that steps keep or do not increase, runs that end, and the
  contract of a lock service. \<open>LockInit\<close>: the start of the server establishes the state its handlers keep, when the system calls
  succeed and the file has no line that begins with \<open>SHARED_INFO\<close> (the shipped file and those of earlier starts have none), and the
  path of a request from its parsed members to the bytes that are sent. \<open>LockRuns\<close>: accesses between \<open>sem_lock\<close> and \<open>sem_unlock\<close> of
  one semaphore exclude each other but for those that enter by a failing \<open>sem_lock\<close>, which the code only logs; a segment can be
  accessed under different semaphores. Every run ends within eight steps for each handler and, unless the \<open>sem_unlock\<close> of a
  \<open>getShmSegData\<close> fails, answers every connection; when no \<open>semop\<close> fails requests one after the other are served as by a lock,
  and two that overlap can both be granted. \<open>IniFile\<close> (\<open>LibSrc/inifile_lib.c\<close>): the reader of INI files; reading a
  file that was written from blocks of settings is a lookup in them.

  \<^bold>\<open>Parameters.\<close> The system calls \<open>ftok\<close>, \<open>semget\<close>, \<open>shmget\<close>, \<open>semctl\<close> and \<open>shmat\<close> are functions of their key or identifier; which calls of
  \<open>semop\<close> fail, what cJSON prints for the items of a request, the bytes behind a string literal (\<open>follows\<close>), the key file of the named
  server, and the content of uninitialised buffers where it matters, are arguments. \<open>semop\<close> with \<open>SEM_UNDO\<close>, \<open>sem_wait\<close>, \<open>fopen\<close> of a missing
  file and the stream functions of the standard library are modelled as documented.

  \<^bold>\<open>Not modelled.\<close> net-snmp (some 390,000 of the repository's lines) and cJSON are vendored packages, and the
  SNMP receivers only call the first. The programs over libcurl, Oracle's Pro*C, OpenSSL and zlib call libraries that are not in the repository.
  Sockets, \<open>fork\<close>, signals, \<open>inotify\<close>, files and \<open>printf\<close> are input and output around the functions modelled here. PCC (\<open>src/test_signal\<close>)
  starts and kills processes over headers that are missing from the repository (\<open>myipc.h\<close>, \<open>utillib.h\<close>), so that the layout of its pool
  cannot be read. The ECB programs repeat the SEED block cipher with words that do not
  have 32 bits on a 64-bit machine. The date, directory, debug and string helpers of the servers format the clock or are not called.
\<close>

section \<open>Properties that span components\<close>

text \<open>
  C20: The memoised recursion and the pointer loop of \<open>test_wildcard\<close> both answer 0 or 1 for lines and patterns of at most 100
  characters. The recursion accepts what the loop accepts when the line has no star of its own, and the loop accepts what the
  recursion accepts when the pattern does not end in two stars; so under both conditions they accept the same lines. Neither
  condition can be left out.
\<close>

theorem matchers_same:
  assumes "length P \<le> 100" and "length L \<le> 100" and "closed_string L" and "closed_string P"
  shows "(star \<notin> set L \<longrightarrow> is_match2 L P = Some (Inr 1) \<longrightarrow> memo_match P L = Inr 1)
    \<and> (\<not> two_stars P \<longrightarrow> memo_match P L = Inr 1 \<longrightarrow> is_match2 L P = Some (Inr 1))
    \<and> memo_match P L \<in> {Inr 0, Inr 1} \<and> is_match2 L P \<in> {Some (Inr 0), Some (Inr 1)}"
  using match2.stays_below [OF _ memo.matcher_axioms, of L P] memo.stays_below [OF _ match2.matcher_axioms, of P L]
    memo_match_answers [OF assms(1, 2)] is_match2_answers [OF assms(3, 4)] assms by blast

theorem matchers_same_witness:
  "memo_match ''*a?'' ''xaay'' = Inr 1 \<and> is_match2 ''xaay'' ''*a?'' = Some (Inr 1)
    \<and> memo_match ''a**'' ''a'' = Inr 1 \<and> is_match2 ''a'' ''a**'' = Some (Inr 0)
    \<and> memo_match ''*b'' ''*ab'' = Inr 0 \<and> is_match2 ''*ab'' ''*b'' = Some (Inr 1)"
proof -
  have "wild ''*a?'' ''xaay''" and "\<not> two_stars ''*a?''"
    using not_two_stars [of "''*a?''" "''*''" "CHR ''a''" "CHR ''?''"] by simp_all
  moreover from this have "memo_match ''*a?'' ''xaay'' = Inr 1"
    using memo.accepts_wild [of "''*a?''" "''xaay''"] by simp
  moreover have "is_match2 ''a'' ''a**'' = Some (Inr 0)"
    by (simp add: is_match2_def match_start_def match2_loop.simps match2_body_def read_char_def ch_def
        take_char_def step_line_def match2_end_def)
  moreover have "\<not> two_stars ''*b''" "wild ''*b'' ''*ab''" "wild ''a**'' ''a''"
    using not_two_stars [of "''*b''" "[]" "CHR ''*''" "CHR ''b''"] by simp_all
  ultimately show ?thesis
    using matchers_same [of "''*a?''" "''xaay''"] memo.accepts_wild [of "''a**''" "''a''"] match2.accepts_wild [of "''*ab''" "''*b''"]
    by (simp add: closed_string_def memo_match_literal_first)
qed

end
